(* ===== verification/Calib_Prelude.thy ===== *)
theory Calib_Prelude
  imports Main "HOL-Library.Word" "HOL-Library.Char_ord" "HOL-Library.List_Lexorder"
begin

text \<open>
  Shared vocabulary of the development: exceptions as values, the sequencing of checks and
  fallible calls, the flat associative containers, machine-integer types, and the generic lemmas
  the component theories use.

  A C++ call that may throw is a value of \<open>exn + 'a\<close>: \<open>Inl\<close> carries the exception, \<open>Inr\<close> the
  result.  \<open>FC_ASSERT(c, m)\<close> is \<open>fc_assert c m\<close>.  A function body that is a sequence of
  statements is \<open>run_checks\<close> of the list of its statements when they only check, and a chain of
  \<open>rbind\<close> when they compute.
\<close>

section \<open>Collections of rewrite rules\<close>

named_theorems res_simps \<open>rules that evaluate sequences of fallible calls\<close>
named_theorems fc_rules \<open>consequences of the documented behaviour of the fc library\<close>
named_theorems conserve_simps \<open>how an operation changes a total\<close>

section \<open>Machine integers and names\<close>

type_synonym u8 = "8 word"
type_synonym u16 = "16 word"
type_synonym u32 = "32 word"
type_synonym u64 = "64 word"

text \<open>An account name is the text a \<open>fixed_string_16\<close> holds; its order is the byte order.\<close>

type_synonym account_name_type = string

text \<open>The 33 bytes of a public key read as a big-endian number, so that the order of numbers is
  the byte order \<open>operator <\<close> compares with; the null key is 0.\<close>

type_synonym public_key_type = nat

text \<open>Seconds since the epoch, \<open>fc::time_point_sec\<close>.\<close>

type_synonym time_point_sec = u32

abbreviation i64_min :: int where "i64_min \<equiv> - 9223372036854775808"
abbreviation i64_max :: int where "i64_max \<equiv> 9223372036854775807"

definition in_i64 :: "int \<Rightarrow> bool" where
  "in_i64 x \<longleftrightarrow> i64_min \<le> x \<and> x \<le> i64_max"

section \<open>Exceptions and sequencing\<close>

datatype exn =
    assert_exception string
  | library_exception string
  | logic_error string
  | out_of_range string
  | unlinkable_block_exception string
  | tx_missing_active_auth string
  | tx_missing_owner_auth string
  | tx_missing_posting_auth string
  | tx_missing_other_auth
  | tx_irrelevant_sig
  | tx_duplicate_sig

type_synonym 'a res = "exn + 'a"

definition rbind :: "'a res \<Rightarrow> ('a \<Rightarrow> 'b res) \<Rightarrow> 'b res" where
  "rbind m f = (case m of Inl e \<Rightarrow> Inl e | Inr x \<Rightarrow> f x)"

definition fc_assert :: "bool \<Rightarrow> string \<Rightarrow> unit res" where
  "fc_assert b msg = (if b then Inr () else Inl (assert_exception msg))"

definition throw_unless :: "bool \<Rightarrow> exn \<Rightarrow> unit res" where
  "throw_unless b e = (if b then Inr () else Inl e)"

definition when_res :: "bool \<Rightarrow> unit res \<Rightarrow> unit res" where
  "when_res b m = (if b then m else Inr ())"

fun run_checks :: "unit res list \<Rightarrow> unit res" where
  "run_checks [] = Inr ()"
| "run_checks (m # ms) = rbind m (\<lambda>_. run_checks ms)"

fun fold_res :: "('a \<Rightarrow> 's \<Rightarrow> 's res) \<Rightarrow> 'a list \<Rightarrow> 's \<Rightarrow> 's res" where
  "fold_res f [] s = Inr s"
| "fold_res f (x # xs) s = rbind (f x s) (fold_res f xs)"

lemma rbind_simps [simp, res_simps]:
  "rbind (Inl e) f = Inl e"
  "rbind (Inr x) f = f x"
  by (simp_all add: rbind_def)

lemma rbind_eq_Inr [simp]: "rbind m f = Inr y \<longleftrightarrow> (\<exists>x. m = Inr x \<and> f x = Inr y)"
  by (cases m) auto

lemma rbind_eq_Inl: "rbind m f = Inl e \<longleftrightarrow> m = Inl e \<or> (\<exists>x. m = Inr x \<and> f x = Inl e)"
  by (cases m) auto

lemma rbind_assoc: "rbind (rbind m f) g = rbind m (\<lambda>x. rbind (f x) g)"
  by (cases m) auto

lemma fc_assert_ok [simp, res_simps]: "fc_assert b msg = Inr u \<longleftrightarrow> b"
  by (cases u) (simp add: fc_assert_def)

lemma fc_assert_eval [res_simps]:
  "b \<Longrightarrow> fc_assert b msg = Inr ()"
  "\<not> b \<Longrightarrow> fc_assert b msg = Inl (assert_exception msg)"
  by (simp_all add: fc_assert_def)

lemma throw_unless_ok [simp, res_simps]: "throw_unless b e = Inr u \<longleftrightarrow> b"
  by (cases u) (simp add: throw_unless_def)

lemma when_res_ok [simp, res_simps]: "when_res b m = Inr u \<longleftrightarrow> (b \<longrightarrow> m = Inr ())"
  by (cases u) (simp add: when_res_def)

lemma run_checks_ok [res_simps]: "run_checks ms = Inr u \<longleftrightarrow> (\<forall>m \<in> set ms. m = Inr ())"
  by (induction ms) auto

lemma run_checks_append [res_simps]:
  "run_checks (ms @ ns) = rbind (run_checks ms) (\<lambda>_. run_checks ns)"
  by (induction ms) (auto simp: rbind_assoc)

text \<open>A statement sequence throws exactly when one of its checks throws, and what it throws is the
  exception of the first one that does.\<close>

lemma run_checks_Inl:
  "run_checks ms = Inl e \<longleftrightarrow>
     (\<exists>xs m ys. ms = xs @ m # ys \<and> m = Inl e \<and> (\<forall>x \<in> set xs. x = Inr ()))"
proof (induction ms)
  case (Cons m ms)
  show ?case
  proof (cases m)
    case (Inl d)
    then show ?thesis
      by (auto simp: Cons_eq_append_conv)
  next
    case (Inr u)
    then show ?thesis
      using Cons.IH by (fastforce simp: Cons_eq_append_conv)
  qed
qed simp

lemma fold_res_append:
  "fold_res f (xs @ ys) s = rbind (fold_res f xs s) (fold_res f ys)"
proof (induction xs arbitrary: s)
  case (Cons x xs)
  then have "fold_res f (xs @ ys) = (\<lambda>t. rbind (fold_res f xs t) (fold_res f ys))"
    by (simp add: fun_eq_iff)
  then show ?case by (simp add: rbind_assoc)
qed simp

text \<open>The loop rule: a property kept by every iteration that does not throw holds at the end.\<close>

lemma fold_res_invariant:
  assumes "fold_res f xs s = Inr t" and "P s"
    and "\<And>x s t. x \<in> set xs \<Longrightarrow> P s \<Longrightarrow> f x s = Inr t \<Longrightarrow> P t"
  shows "P t"
  using assms by (induction xs arbitrary: s) auto

text \<open>A loop whose iterations keep \<open>P\<close> and each establish \<open>Q\<close> of their element establishes all of them.\<close>

lemma fold_res_all:
  assumes "fold_res f xs s = Inr t" and "P s"
    and "\<And>x s t. x \<in> set xs \<Longrightarrow> P s \<Longrightarrow> f x s = Inr t \<Longrightarrow> P t \<and> Q x"
  shows "P t \<and> (\<forall>x \<in> set xs. Q x)"
  using assms
proof (induction xs arbitrary: s)
  case (Cons x xs)
  then obtain u where u: "f x s = Inr u" "fold_res f xs u = Inr t" by auto
  then have "P u" "Q x" using Cons.prems(2) Cons.prems(3) [of x s u] by auto
  then show ?case using Cons.IH [OF u(2)] Cons.prems(3) by auto
qed simp

section \<open>Flat maps and flat sets\<close>

text \<open>
  \<open>flat_map\<close> and \<open>flat_set\<close> are vectors kept strictly sorted by key.  \<open>fm_put\<close> is
  \<open>m[k] = v\<close>, \<open>fm_insert\<close> is \<open>insert\<close>, which keeps an existing entry, \<open>fm_erase\<close> is \<open>erase\<close>.
\<close>

type_synonym ('k, 'v) flat_map = "('k \<times> 'v) list"
type_synonym 'k flat_set = "'k list"

fun fm_find :: "('k :: linorder, 'v) flat_map \<Rightarrow> 'k \<Rightarrow> 'v option" where
  "fm_find [] k = None"
| "fm_find ((k', v) # m) k = (if k = k' then Some v else fm_find m k)"

fun fm_put :: "'k :: linorder \<Rightarrow> 'v \<Rightarrow> ('k, 'v) flat_map \<Rightarrow> ('k, 'v) flat_map" where
  "fm_put k v [] = [(k, v)]"
| "fm_put k v ((k', v') # m) =
     (if k < k' then (k, v) # (k', v') # m
      else if k = k' then (k, v) # m
      else (k', v') # fm_put k v m)"

definition fm_insert :: "'k :: linorder \<times> 'v \<Rightarrow> ('k, 'v) flat_map \<Rightarrow> ('k, 'v) flat_map" where
  "fm_insert kv m = (case fm_find m (fst kv) of None \<Rightarrow> fm_put (fst kv) (snd kv) m | Some _ \<Rightarrow> m)"

definition fm_erase :: "'k :: linorder \<Rightarrow> ('k, 'v) flat_map \<Rightarrow> ('k, 'v) flat_map" where
  "fm_erase k m = filter (\<lambda>e. fst e \<noteq> k) m"

definition fm_ok :: "('k :: linorder, 'v) flat_map \<Rightarrow> bool" where
  "fm_ok m \<longleftrightarrow> sorted_wrt (<) (map fst m)"

fun fs_insert :: "'k :: linorder \<Rightarrow> 'k flat_set \<Rightarrow> 'k flat_set" where
  "fs_insert k [] = [k]"
| "fs_insert k (x # s) = (if k < x then k # x # s else if k = x then x # s else x # fs_insert k s)"

definition fs_erase :: "'k :: linorder \<Rightarrow> 'k flat_set \<Rightarrow> 'k flat_set" where
  "fs_erase k s = filter (\<lambda>x. x \<noteq> k) s"

text \<open>The contract of a keyed container: what a lookup returns after each update, and that every
  update keeps the order invariant.\<close>

locale keyed_container =
  fixes find :: "'m \<Rightarrow> 'k \<Rightarrow> 'v option"
    and put :: "'k \<Rightarrow> 'v \<Rightarrow> 'm \<Rightarrow> 'm"
    and erase :: "'k \<Rightarrow> 'm \<Rightarrow> 'm"
    and ok :: "'m \<Rightarrow> bool"
  assumes find_put: "find (put k v m) k' = (if k' = k then Some v else find m k')"
    and find_erase: "find (erase k m) k' = (if k' = k then None else find m k')"
    and ok_put: "ok m \<Longrightarrow> ok (put k v m)"
    and ok_erase: "ok m \<Longrightarrow> ok (erase k m)"
begin

lemma put_put_find: "find (put k v (put k w m)) = find (put k v m)"
  by (rule ext) (simp add: find_put)

lemma erase_put_find: "find (erase k (put k v m)) = find (erase k m)"
  by (rule ext) (simp add: find_put find_erase)

lemma put_find_id: "find m k = Some v \<Longrightarrow> find (put k v m) = find m"
  by (rule ext) (simp add: find_put)

lemma fold_put_find:
  "find (fold (\<lambda>k. put k v) ks m) k = (if k \<in> set ks then Some v else find m k)"
  by (induction ks arbitrary: m) (auto simp: find_put)

lemma fold_erase_find:
  "find (fold erase ks m) k = (if k \<in> set ks then None else find m k)"
  by (induction ks arbitrary: m) (auto simp: find_erase)

lemma fold_erase_ok: "ok m \<Longrightarrow> ok (fold erase ks m)"
  by (induction ks arbitrary: m) (auto simp: ok_erase)

lemma fold_put_ok: "ok m \<Longrightarrow> ok (fold (\<lambda>k. put k v) ks m)"
  by (induction ks arbitrary: m) (auto simp: ok_put)

end

lemma set_fm_put: "set (map fst (fm_put k v m)) = insert k (set (map fst m))"
  by (induction k v m rule: fm_put.induct) auto

lemma fm_ok_put: "fm_ok m \<Longrightarrow> fm_ok (fm_put k v m)"
proof (induction k v m rule: fm_put.induct)
  case (2 k v k' v' m)
  then show ?case
    using set_fm_put [of k v m] by (fastforce simp: fm_ok_def)
qed (simp add: fm_ok_def)

lemma fm_find_put [simp]: "fm_find (fm_put k v m) k' = (if k' = k then Some v else fm_find m k')"
  by (induction k v m rule: fm_put.induct) auto

lemma fm_find_erase [simp]: "fm_find (fm_erase k m) k' = (if k' = k then None else fm_find m k')"
  by (induction m) (auto simp: fm_erase_def)

lemma fm_ok_erase: "fm_ok m \<Longrightarrow> fm_ok (fm_erase k m)"
  by (induction m) (auto simp: fm_ok_def fm_erase_def)

interpretation fm: keyed_container fm_find fm_put fm_erase fm_ok
  by unfold_locales (auto simp: fm_ok_put fm_ok_erase)

lemma fm_find_iff: "fm_ok m \<Longrightarrow> fm_find m k = Some v \<longleftrightarrow> (k, v) \<in> set m"
  by (induction m) (force simp: fm_ok_def)+

lemma fm_find_None: "fm_find m k = None \<longleftrightarrow> k \<notin> fst ` set m"
  by (induction m) (auto split: if_splits)

lemma fm_find_in: "fm_find m k = Some v \<Longrightarrow> (k, v) \<in> set m"
  by (induction m) (auto split: if_splits)

lemma set_fs_insert [simp]: "set (fs_insert k s) = insert k (set s)"
  by (induction k s rule: fs_insert.induct) auto

lemma sorted_fs_insert: "sorted_wrt (<) s \<Longrightarrow> sorted_wrt (<) (fs_insert k s)"
  by (induction k s rule: fs_insert.induct) auto

lemma set_fs_erase [simp]: "set (fs_erase k s) = set s - {k}"
  by (auto simp: fs_erase_def)

lemma fold_fs_insert [simp]: "set (fold fs_insert ks s) = set ks \<union> set s"
  by (induction ks arbitrary: s) auto

lemma sorted_fold_fs_insert: "sorted_wrt (<) s \<Longrightarrow> sorted_wrt (<) (fold fs_insert ks s)"
  by (induction ks arbitrary: s) (auto simp: sorted_fs_insert)

section \<open>Searching a string\<close>

text \<open>\<open>std::string::find\<close> of one character.\<close>

fun find_char :: "char \<Rightarrow> string \<Rightarrow> nat option" where
  "find_char c [] = None"
| "find_char c (x # s) = (if x = c then Some 0 else map_option Suc (find_char c s))"

lemma find_char_append:
  "c \<notin> set xs \<Longrightarrow> find_char c (xs @ ys) = map_option (\<lambda>n. length xs + n) (find_char c ys)"
proof (induction xs)
  case (Cons x xs)
  then show ?case by (cases "find_char c ys") auto
qed (cases "find_char c ys"; simp)

lemma find_char_None: "c \<notin> set xs \<Longrightarrow> find_char c xs = None"
  by (induction xs) auto

lemma find_char_Some:
  "find_char c s = Some p \<Longrightarrow> p < length s \<and> s ! p = c \<and> c \<notin> set (take p s)"
proof (induction s arbitrary: p)
  case (Cons x s)
  then show ?case by (cases p) (auto split: if_splits)
qed simp

lemma find_char_None_iff: "find_char c s = None \<longleftrightarrow> c \<notin> set s"
  by (induction s) auto

section \<open>Comparison operators\<close>

text \<open>The contract of the comparison operators of a type: \<open>less\<close> is a strict order whose
  incomparable elements are the equal ones, and the other four operators are derived from it.\<close>

locale comparison =
  fixes ok :: "'a \<Rightarrow> bool"
    and less :: "'a \<Rightarrow> 'a \<Rightarrow> bool"
    and eq :: "'a \<Rightarrow> 'a \<Rightarrow> bool"
    and le :: "'a \<Rightarrow> 'a \<Rightarrow> bool"
    and greater :: "'a \<Rightarrow> 'a \<Rightarrow> bool"
    and ge :: "'a \<Rightarrow> 'a \<Rightarrow> bool"
  assumes less_trans: "ok a \<Longrightarrow> ok b \<Longrightarrow> ok c \<Longrightarrow> less a b \<Longrightarrow> less b c \<Longrightarrow> less a c"
    and less_not_eq: "ok a \<Longrightarrow> ok b \<Longrightarrow> less a b \<Longrightarrow> \<not> eq a b"
    and less_asym: "ok a \<Longrightarrow> ok b \<Longrightarrow> less a b \<Longrightarrow> \<not> less b a"
    and total: "ok a \<Longrightarrow> ok b \<Longrightarrow> less a b \<or> eq a b \<or> less b a"
    and eq_sym: "ok a \<Longrightarrow> ok b \<Longrightarrow> eq a b \<Longrightarrow> eq b a"
    and le_def': "le a b \<longleftrightarrow> eq a b \<or> less a b"
    and greater_def': "greater a b \<longleftrightarrow> \<not> le a b"
    and ge_def': "ge a b \<longleftrightarrow> \<not> less a b"
begin

lemma greater_flip: "ok a \<Longrightarrow> ok b \<Longrightarrow> greater a b \<longleftrightarrow> less b a"
  unfolding greater_def' le_def' using less_asym less_not_eq total eq_sym by blast

lemma ge_flip: "ok a \<Longrightarrow> ok b \<Longrightarrow> ge a b \<longleftrightarrow> le b a"
  unfolding ge_def' le_def' using less_asym less_not_eq total eq_sym by blast

lemma trichotomy:
  assumes "ok a" "ok b"
  shows "(less a b \<and> \<not> eq a b \<and> \<not> less b a) \<or> (\<not> less a b \<and> eq a b \<and> \<not> less b a) \<or>
    (\<not> less a b \<and> \<not> eq a b \<and> less b a)"
  using assms less_asym less_not_eq total eq_sym by blast

end

section \<open>Integers\<close>

lemma int_div_le: "0 \<le> n \<Longrightarrow> 0 < k \<Longrightarrow> n div k \<le> (n :: int)"
  using zdiv_mono2 [of n 1 k] by simp

section \<open>Words\<close>

lemma unat_u32_less [simp]: "unat (x :: u32) < 4294967296"
  using unsigned_less [of x] by simp

lemma unat_u64_less [simp]: "unat (x :: u64) < 18446744073709551616"
  using unsigned_less [of x] by simp

lemma unat_u16_less [simp]: "unat (x :: u16) < 65536"
  using unsigned_less [of x] by simp

lemma unat_u8_less [simp]: "unat (x :: u8) < 256"
  using unsigned_less [of x] by simp

lemma word_less_unat: "x < y \<longleftrightarrow> unat x < unat y"
  by (rule word_less_nat_alt)

lemma word_le_unat: "x \<le> y \<longleftrightarrow> unat x \<le> unat y"
  by (rule word_le_nat_alt)

end
