(* ===== verification/Fc_Interface.thy ===== *)
theory Fc_Interface
  imports Calib_Prelude
begin

text \<open>
  The operations of the fc submodule (and, for 256-bit products, of boost) that the modelled code
  calls.  Their sources are not part of the repository, so they are parameters: a record of
  functions that the definitions of the other theories take as an argument.  What the code relies
  on is stated as predicates over the record (\<open>safe_laws\<close>, \<open>uint128_laws\<close>, \<dots>), one per group of
  documented operations; \<open>fc_ref\<close> is a concrete record that satisfies all of them.
\<close>

section \<open>Values\<close>

text \<open>\<open>fc::uint128\<close> is a struct with the public fields \<open>hi\<close> and \<open>lo\<close>.\<close>

record uint128 =
  hi :: u64
  lo :: u64

definition u128_val :: "uint128 \<Rightarrow> nat" where
  "u128_val u = unat (hi u) * 2 ^ 64 + unat (lo u)"

definition u128_of_nat :: "nat \<Rightarrow> uint128" where
  "u128_of_nat n = \<lparr>hi = of_nat (n div 2 ^ 64), lo = of_nat n\<rparr>"

text \<open>Integer division and remainder of C++: truncation towards zero.\<close>

definition cdiv :: "int \<Rightarrow> int \<Rightarrow> int" where
  "cdiv a b = sgn a * sgn b * (\<bar>a\<bar> div \<bar>b\<bar>)"

definition cmod :: "int \<Rightarrow> int \<Rightarrow> int" where
  "cmod a b = a - b * cdiv a b"

fun dec_digits :: "nat \<Rightarrow> string" where
  "dec_digits n =
     (if n < 10 then [char_of (48 + n)] else dec_digits (n div 10) @ [char_of (48 + n mod 10)])"

declare dec_digits.simps [simp del]

definition is_digit :: "char \<Rightarrow> bool" where
  "is_digit c \<longleftrightarrow> 48 \<le> (of_char c :: nat) \<and> (of_char c :: nat) \<le> 57"

definition dec_value :: "string \<Rightarrow> nat" where
  "dec_value s = foldl (\<lambda>n c. 10 * n + (of_char c - 48)) 0 s"

definition is_space :: "char \<Rightarrow> bool" where
  "is_space c \<longleftrightarrow> (of_char c :: nat) = 32 \<or> (9 \<le> (of_char c :: nat) \<and> (of_char c :: nat) \<le> 13)"

section \<open>The library as a parameter\<close>

record fc_lib =
  safe_add :: "int \<Rightarrow> int \<Rightarrow> int res"
  safe_sub :: "int \<Rightarrow> int \<Rightarrow> int res"
  safe_mul :: "int \<Rightarrow> int \<Rightarrow> int res"
  safe_div :: "int \<Rightarrow> int \<Rightarrow> int res"
  safe_mod :: "int \<Rightarrow> int \<Rightarrow> int res"
  safe_neg :: "int \<Rightarrow> int res"
  u128_of_int :: "int \<Rightarrow> uint128"
  u128_add :: "uint128 \<Rightarrow> uint128 \<Rightarrow> uint128"
  u128_sub :: "uint128 \<Rightarrow> uint128 \<Rightarrow> uint128"
  u128_mul :: "uint128 \<Rightarrow> uint128 \<Rightarrow> uint128"
  u128_div :: "uint128 \<Rightarrow> uint128 \<Rightarrow> uint128 res"
  u128_shl :: "uint128 \<Rightarrow> nat \<Rightarrow> uint128"
  u128_shr :: "uint128 \<Rightarrow> nat \<Rightarrow> uint128"
  u128_and :: "uint128 \<Rightarrow> uint128 \<Rightarrow> uint128"
  u128_less :: "uint128 \<Rightarrow> uint128 \<Rightarrow> bool"
  to_uint64 :: "uint128 \<Rightarrow> u64 res"
  u256_of_u64 :: "u64 \<Rightarrow> 256 word"
  u256_of_i64 :: "int \<Rightarrow> 256 word"
  u256_add :: "256 word \<Rightarrow> 256 word \<Rightarrow> 256 word"
  u256_mul :: "256 word \<Rightarrow> 256 word \<Rightarrow> 256 word"
  u256_div :: "256 word \<Rightarrow> 256 word \<Rightarrow> 256 word res"
  u256_shl :: "256 word \<Rightarrow> nat \<Rightarrow> 256 word"
  u256_le :: "256 word \<Rightarrow> 256 word \<Rightarrow> bool"
  u256_to_u64 :: "256 word \<Rightarrow> u64"
  find_msb_u64 :: "u64 \<Rightarrow> nat"
  fc_to_string :: "int \<Rightarrow> string"
  fc_to_int64 :: "string \<Rightarrow> int res"
  fc_trim :: "string \<Rightarrow> string"
  endian_reverse_u32 :: "u32 \<Rightarrow> u32"
  time_plus :: "time_point_sec \<Rightarrow> int \<Rightarrow> time_point_sec"
  time_minus :: "time_point_sec \<Rightarrow> time_point_sec \<Rightarrow> int"
  is_utf8 :: "string \<Rightarrow> bool"
  json_is_valid :: "string \<Rightarrow> bool"

section \<open>What the code relies on\<close>

text \<open>\<open>fc::safe<int64_t>\<close> is an overflow-checked integer: an operation returns the exact result
  when it fits in 64 signed bits and throws otherwise; division by zero throws.  The remainder is the one of
  C++, which leaves it open when the quotient does not fit; the value is a 64-bit integer in any case.\<close>

definition checked :: "int res \<Rightarrow> int \<Rightarrow> bool" where
  "checked r x \<longleftrightarrow> (if in_i64 x then r = Inr x else \<exists>e. r = Inl e)"

definition safe_laws :: "fc_lib \<Rightarrow> bool" where
  "safe_laws L \<longleftrightarrow>
     (\<forall>a b. checked (safe_add L a b) (a + b)) \<and>
     (\<forall>a b. checked (safe_sub L a b) (a - b)) \<and>
     (\<forall>a b. checked (safe_mul L a b) (a * b)) \<and>
     (\<forall>a b. if b = 0 then \<exists>e. safe_div L a b = Inl e else checked (safe_div L a b) (cdiv a b)) \<and>
     (\<forall>a b. if b = 0 then \<exists>e. safe_mod L a b = Inl e else in_i64 (cdiv a b) \<longrightarrow> checked (safe_mod L a b) (cmod a b)) \<and>
     (\<forall>a b m. safe_mod L a b = Inr m \<longrightarrow> in_i64 m) \<and>
     (\<forall>a. checked (safe_neg L a) (- a))"

text \<open>\<open>fc::uint128\<close> is an unsigned 128-bit integer: sums, differences and products wrap, a signed
  argument is sign-extended, division by zero throws, \<open>to_uint64\<close> asserts that \<open>hi\<close> is 0.\<close>

definition uint128_laws :: "fc_lib \<Rightarrow> bool" where
  "uint128_laws L \<longleftrightarrow>
     (\<forall>x. u128_of_int L x = u128_of_nat (nat (x mod 2 ^ 128))) \<and>
     (\<forall>a b. u128_add L a b = u128_of_nat (u128_val a + u128_val b)) \<and>
     (\<forall>a b. u128_sub L a b = u128_of_nat (u128_val a + 2 ^ 128 - u128_val b)) \<and>
     (\<forall>a b. u128_mul L a b = u128_of_nat (u128_val a * u128_val b)) \<and>
     (\<forall>a b. if u128_val b = 0 then \<exists>e. u128_div L a b = Inl e
            else u128_div L a b = Inr (u128_of_nat (u128_val a div u128_val b))) \<and>
     (\<forall>a n. n < 128 \<longrightarrow> u128_shl L a n = u128_of_nat (u128_val a * 2 ^ n)) \<and>
     (\<forall>a n. n < 128 \<longrightarrow> u128_shr L a n = u128_of_nat (u128_val a div 2 ^ n)) \<and>
     (\<forall>a b. u128_and L a b = u128_of_nat (and (u128_val a) (u128_val b))) \<and>
     (\<forall>a b. u128_less L a b = (u128_val a < u128_val b)) \<and>
     (\<forall>a. if hi a = 0 then to_uint64 L a = Inr (lo a) else \<exists>e. to_uint64 L a = Inl e)"

text \<open>\<open>boost::multiprecision::uint256_t\<close>, unchecked; \<open>find_msb\<close> is the position of the top bit.\<close>

definition uint256_laws :: "fc_lib \<Rightarrow> bool" where
  "uint256_laws L \<longleftrightarrow>
     (\<forall>x. unat (u256_of_u64 L x) = unat x) \<and>
     (\<forall>x. 0 \<le> x \<longrightarrow> in_i64 x \<longrightarrow> uint (u256_of_i64 L x) = x) \<and>
     (\<forall>a b. u256_add L a b = a + b) \<and>
     (\<forall>a b. u256_mul L a b = a * b) \<and>
     (\<forall>a b. if b = 0 then \<exists>e. u256_div L a b = Inl e else u256_div L a b = Inr (a div b)) \<and>
     (\<forall>a n. u256_shl L a n = push_bit n a) \<and>
     (\<forall>a b. u256_le L a b = (a \<le> b)) \<and>
     (\<forall>a. unat a < 2 ^ 64 \<longrightarrow> unat (u256_to_u64 L a) = unat a)"

definition find_msb_laws :: "fc_lib \<Rightarrow> bool" where
  "find_msb_laws L \<longleftrightarrow>
     (\<forall>x. x \<noteq> 0 \<longrightarrow> 2 ^ find_msb_u64 L x \<le> unat x \<and> unat x < 2 ^ Suc (find_msb_u64 L x))"

text \<open>Decimal conversions and \<open>fc::trim\<close>.\<close>

definition text_laws :: "fc_lib \<Rightarrow> bool" where
  "text_laws L \<longleftrightarrow>
     (\<forall>x. in_i64 x \<longrightarrow> 0 \<le> x \<longrightarrow> fc_to_string L x = dec_digits (nat x)) \<and>
     (\<forall>x. in_i64 x \<longrightarrow> x < 0 \<longrightarrow> fc_to_string L x = CHR ''-'' # dec_digits (nat (- x))) \<and>
     (\<forall>s. s \<noteq> [] \<longrightarrow> list_all is_digit s \<longrightarrow> int (dec_value s) \<le> i64_max \<longrightarrow>
        fc_to_int64 L s = Inr (int (dec_value s))) \<and>
     (\<forall>s. s \<noteq> [] \<longrightarrow> \<not> is_space (hd s) \<longrightarrow> \<not> is_space (last s) \<longrightarrow> fc_trim L s = s)"

definition endian_laws :: "fc_lib \<Rightarrow> bool" where
  "endian_laws L \<longleftrightarrow> (\<forall>x. endian_reverse_u32 L (endian_reverse_u32 L x) = x)"

text \<open>Adding \<open>k\<close> seconds' worth of microseconds to a time that does not pass the end of the
  32-bit range advances it by \<open>k\<close> seconds; the difference of two times is in microseconds.\<close>

definition time_laws :: "fc_lib \<Rightarrow> bool" where
  "time_laws L \<longleftrightarrow>
     (\<forall>t k. unat t + k < 2 ^ 32 \<longrightarrow> unat (time_plus L t (1000000 * int k)) = unat t + k) \<and>
     (\<forall>t u. time_minus L t u = 1000000 * (int (unat t) - int (unat u)))"

section \<open>Consequences\<close>

lemma u128_val_less [simp]: "u128_val u < 340282366920938463463374607431768211456"
proof -
  have "unat (hi u) < 18446744073709551616" "unat (lo u) < 18446744073709551616"
    by simp_all
  then show ?thesis
    unfolding u128_val_def by (simp del: unat_u64_less)
qed

lemma u128_val_of_nat: "u128_val (u128_of_nat n) = n mod 2 ^ 128"
proof -
  have "n mod 2 ^ 128 = 2 ^ 64 * (n div 2 ^ 64 mod 2 ^ 64) + n mod 2 ^ 64"
    using mod_mult2_eq [of n "2 ^ 64" "2 ^ 64"] by simp
  then show ?thesis
    by (simp add: u128_val_def u128_of_nat_def unat_of_nat)
qed

lemma u128_val_of_nat_small [simp]:
  "n < 340282366920938463463374607431768211456 \<Longrightarrow> u128_val (u128_of_nat n) = n"
  by (simp add: u128_val_of_nat)

lemma u128_of_nat_val [simp]: "u128_of_nat (u128_val u) = u"
proof -
  have "unat (lo u) < 18446744073709551616" by simp
  then have "u128_val u div 2 ^ 64 = unat (hi u)"
    by (simp add: u128_val_def)
  moreover have "(of_nat (u128_val u) :: u64) = lo u"
    by (simp only: u128_val_def word_unat_eq_iff unat_of_nat) simp
  ultimately show ?thesis
    by (cases u) (simp add: u128_of_nat_def)
qed

lemma u128_val_inject: "u128_val a = u128_val b \<longleftrightarrow> a = b"
  by (metis u128_of_nat_val)

lemma hi_u128_of_nat_small: "n < 18446744073709551616 \<Longrightarrow> hi (u128_of_nat n) = 0"
  by (simp add: u128_of_nat_def)

lemma lo_u128_of_nat_small: "n < 18446744073709551616 \<Longrightarrow> unat (lo (u128_of_nat n)) = n"
  by (simp add: u128_of_nat_def unat_of_nat)

lemma hi_u128_of_nat_eq_0:
  assumes "n < 340282366920938463463374607431768211456"
  shows "hi (u128_of_nat n) = 0 \<longleftrightarrow> n < 18446744073709551616"
proof -
  have "n div 18446744073709551616 < 18446744073709551616"
    using assms by simp
  then have "(of_nat (n div 2 ^ 64) :: u64) = 0 \<longleftrightarrow> n div 18446744073709551616 = 0"
    by (simp add: word_of_nat_eq_0_iff dvd_eq_mod_eq_0)
  then show ?thesis
    by (simp add: u128_of_nat_def div_eq_0_iff)
qed

lemma safe_add_iff:
  assumes "safe_laws L"
  shows "safe_add L a b = Inr c \<longleftrightarrow> in_i64 (a + b) \<and> c = a + b"
proof -
  have "checked (safe_add L a b) (a + b)" using assms by (simp add: safe_laws_def)
  then show ?thesis by (auto simp: checked_def split: if_splits)
qed

lemma safe_sub_iff:
  assumes "safe_laws L"
  shows "safe_sub L a b = Inr c \<longleftrightarrow> in_i64 (a - b) \<and> c = a - b"
proof -
  have "checked (safe_sub L a b) (a - b)" using assms by (simp add: safe_laws_def)
  then show ?thesis by (auto simp: checked_def split: if_splits)
qed

lemma safe_mul_iff:
  assumes "safe_laws L"
  shows "safe_mul L a b = Inr c \<longleftrightarrow> in_i64 (a * b) \<and> c = a * b"
proof -
  have "checked (safe_mul L a b) (a * b)" using assms by (simp add: safe_laws_def)
  then show ?thesis by (auto simp: checked_def split: if_splits)
qed

lemma safe_neg_iff:
  assumes "safe_laws L"
  shows "safe_neg L a = Inr c \<longleftrightarrow> in_i64 (- a) \<and> c = - a"
proof -
  have "checked (safe_neg L a) (- a)" using assms by (simp add: safe_laws_def)
  then show ?thesis by (auto simp: checked_def split: if_splits)
qed

lemma safe_div_iff:
  assumes "safe_laws L"
  shows "safe_div L a b = Inr c \<longleftrightarrow> b \<noteq> 0 \<and> in_i64 (cdiv a b) \<and> c = cdiv a b"
proof -
  have "if b = 0 then \<exists>e. safe_div L a b = Inl e else checked (safe_div L a b) (cdiv a b)"
    using assms unfolding safe_laws_def by blast
  then show ?thesis by (auto simp: checked_def split: if_splits)
qed

lemmas safe_iffs = safe_add_iff safe_sub_iff safe_mul_iff safe_neg_iff safe_div_iff

lemma uint128_rules:
  assumes "uint128_laws L"
  shows "u128_of_int L x = u128_of_nat (nat (x mod 2 ^ 128))"
    and "u128_add L a b = u128_of_nat (u128_val a + u128_val b)"
    and "u128_sub L a b = u128_of_nat (u128_val a + 2 ^ 128 - u128_val b)"
    and "u128_mul L a b = u128_of_nat (u128_val a * u128_val b)"
    and "n < 128 \<Longrightarrow> u128_shl L a n = u128_of_nat (u128_val a * 2 ^ n)"
    and "n < 128 \<Longrightarrow> u128_shr L a n = u128_of_nat (u128_val a div 2 ^ n)"
    and "u128_and L a b = u128_of_nat (and (u128_val a) (u128_val b))"
    and "u128_less L a b = (u128_val a < u128_val b)"
  using assms by (simp_all add: uint128_laws_def)

lemma u128_div_iff:
  assumes "uint128_laws L"
  shows "u128_div L a b = Inr c \<longleftrightarrow> u128_val b \<noteq> 0 \<and> c = u128_of_nat (u128_val a div u128_val b)"
proof -
  have "if u128_val b = 0 then \<exists>e. u128_div L a b = Inl e
        else u128_div L a b = Inr (u128_of_nat (u128_val a div u128_val b))"
    using assms unfolding uint128_laws_def by blast
  then show ?thesis by (auto split: if_splits)
qed

lemma to_uint64_iff:
  assumes "uint128_laws L"
  shows "to_uint64 L a = Inr c \<longleftrightarrow> hi a = 0 \<and> c = lo a"
proof -
  have "if hi a = 0 then to_uint64 L a = Inr (lo a) else \<exists>e. to_uint64 L a = Inl e"
    using assms unfolding uint128_laws_def by blast
  then show ?thesis by (auto split: if_splits)
qed

text \<open>A product of two values of at most 64 bits is exact in 128 bits.\<close>

lemma u128_mul_exact:
  assumes "uint128_laws L" and "u128_val a < 2 ^ 64" and "u128_val b < 2 ^ 64"
  shows "u128_val (u128_mul L a b) = u128_val a * u128_val b"
proof -
  have "u128_val a * u128_val b < 2 ^ 64 * 2 ^ 64"
    using assms(2,3) by (intro mult_strict_mono) auto
  then show ?thesis
    using assms(1) by (simp add: uint128_rules)
qed

lemma u128_of_int_val:
  assumes "uint128_laws L" and "0 \<le> x" and "x < 2 ^ 128"
  shows "u128_val (u128_of_int L x) = nat x"
  using assms by (simp add: uint128_rules nat_less_iff)

section \<open>A record that satisfies the laws\<close>

definition checked_op :: "int \<Rightarrow> int res" where
  "checked_op x = (if in_i64 x then Inr x else Inl (library_exception ''overflow''))"

fun top_bit :: "nat \<Rightarrow> nat" where
  "top_bit n = (if n < 2 then 0 else Suc (top_bit (n div 2)))"

declare top_bit.simps [simp del]

definition swap_halves :: "u32 \<Rightarrow> u32" where
  "swap_halves x = or (push_bit 24 (and x 255)) (or (push_bit 8 (and x 65280))
     (or (and (drop_bit 8 x) 65280) (and (drop_bit 24 x) 255)))"

definition fc_ref :: fc_lib where
  "fc_ref = \<lparr>
     safe_add = (\<lambda>a b. checked_op (a + b)),
     safe_sub = (\<lambda>a b. checked_op (a - b)),
     safe_mul = (\<lambda>a b. checked_op (a * b)),
     safe_div = (\<lambda>a b. if b = 0 then Inl (library_exception ''division by zero'')
                       else checked_op (cdiv a b)),
     safe_mod = (\<lambda>a b. if b = 0 then Inl (library_exception ''division by zero'')
                       else checked_op (cmod a b)),
     safe_neg = (\<lambda>a. checked_op (- a)),
     u128_of_int = (\<lambda>x. u128_of_nat (nat (x mod 2 ^ 128))),
     u128_add = (\<lambda>a b. u128_of_nat (u128_val a + u128_val b)),
     u128_sub = (\<lambda>a b. u128_of_nat (u128_val a + 2 ^ 128 - u128_val b)),
     u128_mul = (\<lambda>a b. u128_of_nat (u128_val a * u128_val b)),
     u128_div = (\<lambda>a b. if u128_val b = 0 then Inl (library_exception ''division by zero'')
                       else Inr (u128_of_nat (u128_val a div u128_val b))),
     u128_shl = (\<lambda>a n. u128_of_nat (u128_val a * 2 ^ n)),
     u128_shr = (\<lambda>a n. u128_of_nat (u128_val a div 2 ^ n)),
     u128_and = (\<lambda>a b. u128_of_nat (and (u128_val a) (u128_val b))),
     u128_less = (\<lambda>a b. u128_val a < u128_val b),
     to_uint64 = (\<lambda>a. if hi a = 0 then Inr (lo a) else Inl (assert_exception ''hi == 0'')),
     u256_of_u64 = (\<lambda>x. ucast x),
     u256_of_i64 = (\<lambda>x. of_int x),
     u256_add = (\<lambda>a b. a + b),
     u256_mul = (\<lambda>a b. a * b),
     u256_div = (\<lambda>a b. if b = 0 then Inl (library_exception ''division by zero'')
                       else Inr (a div b)),
     u256_shl = (\<lambda>a n. push_bit n a),
     u256_le = (\<lambda>a b. a \<le> b),
     u256_to_u64 = (\<lambda>a. ucast a),
     find_msb_u64 = (\<lambda>x. top_bit (unat x)),
     fc_to_string = (\<lambda>x. if 0 \<le> x then dec_digits (nat x) else CHR ''-'' # dec_digits (nat (- x))),
     fc_to_int64 = (\<lambda>s. if s \<noteq> [] \<and> list_all is_digit s \<and> int (dec_value s) \<le> i64_max
                        then Inr (int (dec_value s)) else Inl (library_exception ''parse'')),
     fc_trim = (\<lambda>s. rev (dropWhile is_space (rev (dropWhile is_space s)))),
     endian_reverse_u32 = swap_halves,
     time_plus = (\<lambda>t us. t + of_int (us div 1000000)),
     time_minus = (\<lambda>t u. 1000000 * (int (unat t) - int (unat u))),
     is_utf8 = (\<lambda>s. list_all (\<lambda>c. (of_char c :: nat) < 128) s),
     json_is_valid = (\<lambda>s. s = ''{}'')\<rparr>"

lemma checked_checked_op [simp]: "checked (checked_op x) x"
  by (simp add: checked_def checked_op_def)

lemma safe_laws_ref [simp]: "safe_laws fc_ref"
  by (simp add: safe_laws_def fc_ref_def) (auto simp: checked_op_def)

lemma uint128_laws_ref [simp]: "uint128_laws fc_ref"
  by (simp add: uint128_laws_def fc_ref_def)

lemma uint256_laws_ref [simp]: "uint256_laws fc_ref"
proof -
  have "unat x < 2 ^ 256" for x :: u64
    by (rule less_trans [OF unat_u64_less]) simp
  moreover have "uint (of_int x :: 256 word) = x" if "0 \<le> x" "in_i64 x" for x
    using that by (simp add: in_i64_def uint_word_of_int)
  ultimately show ?thesis
    by (simp add: uint256_laws_def fc_ref_def unsigned_ucast_eq take_bit_nat_eq_self_iff)
qed

lemma top_bit_bounds: "0 < n \<Longrightarrow> 2 ^ top_bit n \<le> n \<and> n < 2 ^ Suc (top_bit n)"
proof (induction n rule: top_bit.induct)
  case (1 n)
  show ?case
  proof (cases "n < 2")
    case True
    with "1.prems" show ?thesis by (simp add: top_bit.simps)
  next
    case False
    with "1.IH" have "2 ^ top_bit (n div 2) \<le> n div 2" "n div 2 < 2 * 2 ^ top_bit (n div 2)"
      by auto
    with False show ?thesis
      by (simp add: top_bit.simps [of n]) arith
  qed
qed

lemma find_msb_laws_ref [simp]: "find_msb_laws fc_ref"
  using top_bit_bounds by (simp add: find_msb_laws_def fc_ref_def unat_gt_0)

lemma swap_halves_involution: "swap_halves (swap_halves x) = x"
proof (rule bit_word_eqI)
  fix n
  assume n: "n < LENGTH(32)"
  have "n \<in> set [0..<32]" using n by simp
  then show "bit (swap_halves (swap_halves x)) n \<longleftrightarrow> bit x n"
    by (simp add: swap_halves_def bit_simps upt_rec) (elim disjE; simp add: eval_nat_numeral)
qed

lemma trim_id:
  assumes "s \<noteq> []" "\<not> is_space (hd s)" "\<not> is_space (last s)"
  shows "rev (dropWhile is_space (rev (dropWhile is_space s))) = s"
proof -
  have "dropWhile is_space s = s"
    using assms(1,2) by (cases s) auto
  moreover have "dropWhile is_space (rev s) = rev s"
    using assms(1,3) by (cases s rule: rev_cases) auto
  ultimately show ?thesis by simp
qed

lemma text_laws_ref [simp]: "text_laws fc_ref"
  by (simp add: text_laws_def fc_ref_def trim_id)

lemma time_laws_ref [simp]: "time_laws fc_ref"
  by (simp add: time_laws_def fc_ref_def unat_word_ariths unat_of_nat)

lemma endian_laws_ref [simp]: "endian_laws fc_ref"
  by (simp add: endian_laws_def fc_ref_def swap_halves_involution)

end
