(* ===== verification/Config.thy ===== *)
theory Config
  imports Calib_Prelude
begin

text \<open>
  The constants of \<open>protocol/config.hpp\<close> that the modelled code uses, in the values of the live
  network (\<open>IS_TEST_NET\<close> not defined).
\<close>

text \<open>A symbol packs the number of decimals (byte 0) and up to six letters (bytes 1 to 6).\<close>

definition VESTS_SYMBOL :: u64 where
  "VESTS_SYMBOL = or 6 (or (push_bit 8 86) (or (push_bit 16 69) (or (push_bit 24 83)
     (or (push_bit 32 84) (push_bit 40 83)))))"

definition STEEM_SYMBOL :: u64 where
  "STEEM_SYMBOL = or 3 (or (push_bit 8 83) (or (push_bit 16 84) (or (push_bit 24 69)
     (or (push_bit 32 69) (push_bit 40 77)))))"

definition SBD_SYMBOL :: u64 where
  "SBD_SYMBOL = or 3 (or (push_bit 8 83) (or (push_bit 16 66) (push_bit 24 68)))"

definition STEEMIT_100_PERCENT :: nat where
  "STEEMIT_100_PERCENT = 10000"

definition STEEMIT_1_PERCENT :: nat where
  "STEEMIT_1_PERCENT = STEEMIT_100_PERCENT div 100"

definition STEEMIT_MIN_ACCOUNT_CREATION_FEE :: int where
  "STEEMIT_MIN_ACCOUNT_CREATION_FEE = 1"

definition STEEMIT_MAX_MEMO_SIZE :: nat where
  "STEEMIT_MAX_MEMO_SIZE = 2048"

definition STEEMIT_MIN_ACCOUNT_NAME_LENGTH :: nat where
  "STEEMIT_MIN_ACCOUNT_NAME_LENGTH = 3"

definition STEEMIT_MAX_ACCOUNT_NAME_LENGTH :: nat where
  "STEEMIT_MAX_ACCOUNT_NAME_LENGTH = 16"

definition STEEMIT_MAX_PERMLINK_LENGTH :: nat where
  "STEEMIT_MAX_PERMLINK_LENGTH = 256"

definition STEEMIT_MAX_SHARE_SUPPLY :: int where
  "STEEMIT_MAX_SHARE_SUPPLY = 1000000000000000"

definition STEEMIT_MAX_SIG_CHECK_DEPTH :: u32 where
  "STEEMIT_MAX_SIG_CHECK_DEPTH = 2"

definition STEEMIT_MAX_TRANSACTION_SIZE :: nat where
  "STEEMIT_MAX_TRANSACTION_SIZE = 1024 * 64"

definition STEEMIT_MIN_BLOCK_SIZE_LIMIT :: nat where
  "STEEMIT_MIN_BLOCK_SIZE_LIMIT = STEEMIT_MAX_TRANSACTION_SIZE"

definition STEEMIT_EQUIHASH_N :: nat where
  "STEEMIT_EQUIHASH_N = 140"

definition STEEMIT_EQUIHASH_K :: nat where
  "STEEMIT_EQUIHASH_K = 6"

definition STEEMIT_CONTENT_CONSTANT_HF0 :: nat where
  "STEEMIT_CONTENT_CONSTANT_HF0 = 2000000000000"

definition STEEMIT_MIN_PAYOUT_SBD_AMOUNT :: int where
  "STEEMIT_MIN_PAYOUT_SBD_AMOUNT = 20"

lemma symbol_values:
  "VESTS_SYMBOL = 91621639411206" "STEEM_SYMBOL = 84959911236355" "SBD_SYMBOL = 1145197315"
  by (simp_all add: VESTS_SYMBOL_def STEEM_SYMBOL_def SBD_SYMBOL_def)

lemma symbols_distinct [simp]:
  "VESTS_SYMBOL \<noteq> STEEM_SYMBOL" "STEEM_SYMBOL \<noteq> VESTS_SYMBOL"
  "VESTS_SYMBOL \<noteq> SBD_SYMBOL" "SBD_SYMBOL \<noteq> VESTS_SYMBOL"
  "STEEM_SYMBOL \<noteq> SBD_SYMBOL" "SBD_SYMBOL \<noteq> STEEM_SYMBOL"
  by (simp_all add: symbol_values)

end
