(* ===== verification/Asset.thy ===== *)
theory Asset
  imports Fc_Interface Config
begin

text \<open>
  Assets and prices: \<open>protocol/asset.hpp\<close>, \<open>protocol/asset.cpp\<close> and the conversions of
  \<open>chain/util/asset.hpp\<close>.  An amount is the value of a \<open>fc::safe<int64_t>\<close>, so its arithmetic
  goes through the library parameter; where the code takes \<open>.value\<close> and computes on the raw
  \<open>int64_t\<close>, the result is wrapped to 64 bits (\<open>wrap64\<close>).
\<close>

section \<open>Data\<close>

type_synonym asset_symbol_type = u64

record asset =
  amount :: int
  symbol :: asset_symbol_type

record price =
  base :: asset
  quote :: asset

abbreviation mk_asset :: "int \<Rightarrow> asset_symbol_type \<Rightarrow> asset" where
  "mk_asset a s \<equiv> \<lparr>amount = a, symbol = s\<rparr>"

abbreviation mk_price :: "asset \<Rightarrow> asset \<Rightarrow> price" where
  "mk_price b q \<equiv> \<lparr>base = b, quote = q\<rparr>"

definition default_asset :: asset where
  "default_asset = mk_asset 0 STEEM_SYMBOL"

definition default_price :: price where
  "default_price = mk_price default_asset default_asset"

definition wrap64 :: "int \<Rightarrow> int" where
  "wrap64 x = sint (word_of_int x :: u64)"

section \<open>The symbol word\<close>

definition symbol_byte :: "asset_symbol_type \<Rightarrow> nat \<Rightarrow> u8" where
  "symbol_byte s i = ucast (drop_bit (8 * i) s)"

definition decimals :: "asset \<Rightarrow> u8 res" where
  "decimals a =
     (let result = symbol_byte (symbol a) 0
      in rbind (fc_assert (result < 15) ''result < 15'') (\<lambda>_. Inr result))"

definition set_decimals :: "u8 \<Rightarrow> asset \<Rightarrow> asset res" where
  "set_decimals d a =
     rbind (fc_assert (d < 15) ''d < 15'')
       (\<lambda>_. Inr (a\<lparr>symbol := or (and (symbol a) (not 255)) (ucast d)\<rparr>))"

definition symbol_name :: "asset \<Rightarrow> string res" where
  "symbol_name a =
     rbind (fc_assert (symbol_byte (symbol a) 7 = 0) ''a[7] == 0'')
       (\<lambda>_. Inr (map (\<lambda>b. char_of (unat b))
                  (takeWhile (\<lambda>b. b \<noteq> 0) (map (symbol_byte (symbol a)) [1..<8]))))"

definition precision_table :: "int list" where
  "precision_table = [1, 10, 100, 1000, 10000, 100000, 1000000, 10000000, 100000000, 1000000000,
     10000000000, 100000000000, 1000000000000, 10000000000000, 100000000000000]"

definition precision :: "asset \<Rightarrow> int res" where
  "precision a = rbind (decimals a) (\<lambda>d. Inr (precision_table ! unat d))"

section \<open>Text\<close>

definition to_string :: "fc_lib \<Rightarrow> asset \<Rightarrow> string res" where
  "to_string L a =
     rbind (precision a) (\<lambda>prec.
       let result = fc_to_string L (cdiv (amount a) prec);
           fract = cmod (amount a) prec;
           result' = (if prec > 1 then result @ ''.'' @ drop 1 (fc_to_string L (prec + fract))
                      else result)
       in rbind (symbol_name a) (\<lambda>n. Inr (result' @ '' '' @ n)))"

text \<open>\<open>memcpy(sy + 1, symbol, n)\<close>: the letters go to bytes 1, 2, \<dots> of the symbol word.\<close>

fun put_letters :: "nat \<Rightarrow> string \<Rightarrow> asset_symbol_type \<Rightarrow> asset_symbol_type" where
  "put_letters i [] s = s"
| "put_letters i (c # cs) s =
     put_letters (Suc i) cs
       (or (and s (not (push_bit (8 * i) 255))) (push_bit (8 * i) (of_nat (of_char c))))"

definition from_string_number :: "fc_lib \<Rightarrow> string \<Rightarrow> nat \<Rightarrow> nat option \<Rightarrow> asset res" where
  "from_string_number L s space_pos dot_pos =
     (let result = mk_asset 0 0
      in case dot_pos of
        Some dot \<Rightarrow>
          rbind (fc_assert (space_pos > dot) ''space_pos > dot_pos'') (\<lambda>_.
          let intpart = take dot s;
              fractpart = CHR ''1'' # take (space_pos - dot - 1) (drop (dot + 1) s)
          in rbind (set_decimals (of_nat (length fractpart - 1)) result) (\<lambda>result.
             rbind (fc_to_int64 L intpart) (\<lambda>i.
             rbind (precision result) (\<lambda>prec.
             rbind (fc_to_int64 L fractpart) (\<lambda>f.
             Inr (result\<lparr>amount := wrap64 (wrap64 (wrap64 (i * prec) + f) - prec)\<rparr>))))))
      | None \<Rightarrow>
          rbind (fc_to_int64 L (take space_pos s)) (\<lambda>i.
          set_decimals 0 (result\<lparr>amount := i\<rparr>)))"

definition from_string :: "fc_lib \<Rightarrow> string \<Rightarrow> asset res" where
  "from_string L from =
     (let s = fc_trim L from
      in case find_char (CHR '' '') s of
           None \<Rightarrow> Inl (assert_exception ''space_pos != std::string::npos'')
         | Some space_pos \<Rightarrow>
             rbind (from_string_number L s space_pos (find_char (CHR ''.'') s)) (\<lambda>result.
             let sym = drop (space_pos + 1) s
             in if length sym > 0
                then rbind (fc_assert (length sym \<le> 6) ''symbol_size <= 6'')
                       (\<lambda>_. Inr (result\<lparr>symbol := put_letters 1 sym (symbol result)\<rparr>))
                else Inr result))"

section \<open>Arithmetic and comparison of assets\<close>

definition asset_plus_assign :: "fc_lib \<Rightarrow> asset \<Rightarrow> asset \<Rightarrow> asset res" where
  "asset_plus_assign L a b =
     rbind (fc_assert (symbol a = symbol b) ''symbol == o.symbol'') (\<lambda>_.
     rbind (safe_add L (amount a) (amount b)) (\<lambda>x. Inr (a\<lparr>amount := x\<rparr>)))"

definition asset_minus_assign :: "fc_lib \<Rightarrow> asset \<Rightarrow> asset \<Rightarrow> asset res" where
  "asset_minus_assign L a b =
     rbind (fc_assert (symbol a = symbol b) ''symbol == o.symbol'') (\<lambda>_.
     rbind (safe_sub L (amount a) (amount b)) (\<lambda>x. Inr (a\<lparr>amount := x\<rparr>)))"

definition asset_uminus :: "fc_lib \<Rightarrow> asset \<Rightarrow> asset res" where
  "asset_uminus L a = rbind (safe_neg L (amount a)) (\<lambda>x. Inr (mk_asset x (symbol a)))"

definition asset_eq :: "asset \<Rightarrow> asset \<Rightarrow> bool" where
  "asset_eq a b \<longleftrightarrow> symbol a = symbol b \<and> amount a = amount b"

definition asset_less :: "asset \<Rightarrow> asset \<Rightarrow> bool res" where
  "asset_less a b =
     rbind (fc_assert (symbol a = symbol b) ''a.symbol == b.symbol'') (\<lambda>_.
     Inr (amount a < amount b \<or> amount a = amount b \<and> symbol a < symbol b))"

definition asset_le :: "asset \<Rightarrow> asset \<Rightarrow> bool res" where
  "asset_le a b = (if asset_eq a b then Inr True else asset_less a b)"

definition asset_greater :: "asset \<Rightarrow> asset \<Rightarrow> bool res" where
  "asset_greater a b = rbind (asset_le a b) (\<lambda>c. Inr (\<not> c))"

definition asset_ge :: "asset \<Rightarrow> asset \<Rightarrow> bool res" where
  "asset_ge a b = rbind (asset_less a b) (\<lambda>c. Inr (\<not> c))"

definition asset_minus :: "fc_lib \<Rightarrow> asset \<Rightarrow> asset \<Rightarrow> asset res" where
  "asset_minus L a b =
     rbind (fc_assert (symbol a = symbol b) ''a.symbol == b.symbol'') (\<lambda>_.
     rbind (safe_sub L (amount a) (amount b)) (\<lambda>x. Inr (mk_asset x (symbol a))))"

definition asset_plus :: "fc_lib \<Rightarrow> asset \<Rightarrow> asset \<Rightarrow> asset res" where
  "asset_plus L a b =
     rbind (fc_assert (symbol a = symbol b) ''a.symbol == b.symbol'') (\<lambda>_.
     rbind (safe_add L (amount a) (amount b)) (\<lambda>x. Inr (mk_asset x (symbol a))))"

section \<open>Prices\<close>

definition price_inv :: "price \<Rightarrow> price" where
  "price_inv p = mk_price (quote p) (base p)"

definition cross :: "fc_lib \<Rightarrow> price \<Rightarrow> price \<Rightarrow> uint128" where
  "cross L a b = u128_mul L (u128_of_int L (amount (quote b))) (u128_of_int L (amount (base a)))"

definition price_eq :: "fc_lib \<Rightarrow> price \<Rightarrow> price \<Rightarrow> bool" where
  "price_eq L a b =
     (if (symbol (base a), symbol (quote a)) \<noteq> (symbol (base b), symbol (quote b)) then False
      else cross L a b = cross L b a)"

definition price_less :: "fc_lib \<Rightarrow> price \<Rightarrow> price \<Rightarrow> bool" where
  "price_less L a b =
     (if symbol (base a) < symbol (base b) then True
      else if symbol (base a) > symbol (base b) then False
      else if symbol (quote a) < symbol (quote b) then True
      else if symbol (quote a) > symbol (quote b) then False
      else u128_less L (cross L a b) (cross L b a))"

definition price_le :: "fc_lib \<Rightarrow> price \<Rightarrow> price \<Rightarrow> bool" where
  "price_le L a b \<longleftrightarrow> price_eq L a b \<or> price_less L a b"

definition price_neq :: "fc_lib \<Rightarrow> price \<Rightarrow> price \<Rightarrow> bool" where
  "price_neq L a b \<longleftrightarrow> \<not> price_eq L a b"

definition price_greater :: "fc_lib \<Rightarrow> price \<Rightarrow> price \<Rightarrow> bool" where
  "price_greater L a b \<longleftrightarrow> \<not> price_le L a b"

definition price_ge :: "fc_lib \<Rightarrow> price \<Rightarrow> price \<Rightarrow> bool" where
  "price_ge L a b \<longleftrightarrow> \<not> price_less L a b"

text \<open>One branch of \<open>operator *\<close>: \<open>a\<close> is exchanged at \<open>to\<close> units for each \<open>from\<close>.  The quotient
  comes back as \<open>uint64_t\<close> and is stored in a signed amount.\<close>

definition exchange :: "fc_lib \<Rightarrow> asset \<Rightarrow> asset \<Rightarrow> asset \<Rightarrow> asset res" where
  "exchange L a from to =
     rbind (fc_assert (amount from > 0) ''amount.value > 0'') (\<lambda>_.
     rbind (u128_div L (u128_mul L (u128_of_int L (amount a)) (u128_of_int L (amount to)))
              (u128_of_int L (amount from))) (\<lambda>result.
     rbind (fc_assert (hi result = 0) ''result.hi == 0'') (\<lambda>_.
     rbind (to_uint64 L result) (\<lambda>v. Inr (mk_asset (sint v) (symbol to))))))"

definition asset_times_price :: "fc_lib \<Rightarrow> asset \<Rightarrow> price \<Rightarrow> asset res" where
  "asset_times_price L a b =
     rbind (symbol_name a) (\<lambda>an.
     rbind (symbol_name (base b)) (\<lambda>bn.
     if an = bn then exchange L a (base b) (quote b)
     else rbind (symbol_name (quote b)) (\<lambda>qn.
       if an = qn then exchange L a (quote b) (base b)
       else Inl (assert_exception ''invalid asset * price''))))"

definition asset_divide :: "asset \<Rightarrow> asset \<Rightarrow> price res" where
  "asset_divide b q =
     rbind (symbol_name b) (\<lambda>bn.
     rbind (symbol_name q) (\<lambda>qn.
     rbind (fc_assert (bn \<noteq> qn) ''base.symbol_name() != quote.symbol_name()'') (\<lambda>_.
     Inr (mk_price b q))))"

definition price_max :: "asset_symbol_type \<Rightarrow> asset_symbol_type \<Rightarrow> price res" where
  "price_max b q = asset_divide (mk_asset STEEMIT_MAX_SHARE_SUPPLY b) (mk_asset 1 q)"

definition price_min :: "asset_symbol_type \<Rightarrow> asset_symbol_type \<Rightarrow> price res" where
  "price_min b q = asset_divide (mk_asset 1 b) (mk_asset STEEMIT_MAX_SHARE_SUPPLY q)"

definition is_null :: "fc_lib \<Rightarrow> price \<Rightarrow> bool" where
  "is_null L p \<longleftrightarrow> price_eq L p default_price"

definition price_validate :: "price \<Rightarrow> unit res" where
  "price_validate p =
     run_checks [
       fc_assert (amount (base p) > 0) ''base.amount > share_type(0)'',
       fc_assert (amount (quote p) > 0) ''quote.amount > share_type(0)'',
       rbind (symbol_name (base p)) (\<lambda>bn. rbind (symbol_name (quote p)) (\<lambda>qn.
         fc_assert (bn \<noteq> qn) ''base.symbol_name() != quote.symbol_name()''))]"

definition to_sbd :: "fc_lib \<Rightarrow> price \<Rightarrow> asset \<Rightarrow> asset res" where
  "to_sbd L p steem =
     rbind (fc_assert (symbol steem = STEEM_SYMBOL) ''steem.symbol == STEEM_SYMBOL'') (\<lambda>_.
     if is_null L p then Inr (mk_asset 0 SBD_SYMBOL) else asset_times_price L steem p)"

definition to_steem :: "fc_lib \<Rightarrow> price \<Rightarrow> asset \<Rightarrow> asset res" where
  "to_steem L p sbd =
     rbind (fc_assert (symbol sbd = SBD_SYMBOL) ''sbd.symbol == SBD_SYMBOL'') (\<lambda>_.
     if is_null L p then Inr (mk_asset 0 STEEM_SYMBOL) else asset_times_price L sbd p)"

section \<open>Assets: lemmas\<close>

text \<open>A stored amount fits in the 64 bits it is kept in.\<close>

definition asset_wf :: "asset \<Rightarrow> bool" where
  "asset_wf a \<longleftrightarrow> in_i64 (amount a)"

lemma asset_plus_iff:
  assumes "safe_laws L"
  shows "asset_plus L a b = Inr c \<longleftrightarrow>
    symbol a = symbol b \<and> in_i64 (amount a + amount b) \<and> c = mk_asset (amount a + amount b) (symbol a)"
  using assms by (auto simp: asset_plus_def safe_iffs)

lemma asset_minus_iff:
  assumes "safe_laws L"
  shows "asset_minus L a b = Inr c \<longleftrightarrow>
    symbol a = symbol b \<and> in_i64 (amount a - amount b) \<and> c = mk_asset (amount a - amount b) (symbol a)"
  using assms by (auto simp: asset_minus_def safe_iffs)

lemma asset_plus_assign_iff:
  assumes "safe_laws L"
  shows "asset_plus_assign L a b = Inr c \<longleftrightarrow>
    symbol a = symbol b \<and> in_i64 (amount a + amount b) \<and> c = mk_asset (amount a + amount b) (symbol a)"
  using assms by (cases a) (auto simp: asset_plus_assign_def safe_iffs)

lemma asset_minus_assign_iff:
  assumes "safe_laws L"
  shows "asset_minus_assign L a b = Inr c \<longleftrightarrow>
    symbol a = symbol b \<and> in_i64 (amount a - amount b) \<and> c = mk_asset (amount a - amount b) (symbol a)"
  using assms by (cases a) (auto simp: asset_minus_assign_def safe_iffs)

lemma asset_uminus_iff:
  assumes "safe_laws L"
  shows "asset_uminus L a = Inr c \<longleftrightarrow> in_i64 (- amount a) \<and> c = mk_asset (- amount a) (symbol a)"
  using assms by (auto simp: asset_uminus_def safe_iffs)

lemmas asset_arith_iffs =
  asset_plus_iff asset_minus_iff asset_plus_assign_iff asset_minus_assign_iff asset_uminus_iff

lemma asset_compare_iffs [simp]:
  "asset_less a b = Inr c \<longleftrightarrow> symbol a = symbol b \<and> c = (amount a < amount b)"
  "asset_ge a b = Inr c \<longleftrightarrow> symbol a = symbol b \<and> c = (amount b \<le> amount a)"
  "asset_le a b = Inr c \<longleftrightarrow> symbol a = symbol b \<and> c = (amount a \<le> amount b)"
  "asset_greater a b = Inr c \<longleftrightarrow> symbol a = symbol b \<and> c = (amount b < amount a)"
  by (auto simp: asset_less_def asset_ge_def asset_le_def asset_greater_def asset_eq_def
      split: if_splits)

section \<open>Prices: lemmas\<close>

definition nonneg_price :: "price \<Rightarrow> bool" where
  "nonneg_price p \<longleftrightarrow> 0 \<le> amount (base p) \<and> amount (base p) \<le> i64_max \<and>
     0 \<le> amount (quote p) \<and> amount (quote p) \<le> i64_max"

definition pos_price :: "price \<Rightarrow> bool" where
  "pos_price p \<longleftrightarrow> 0 < amount (base p) \<and> amount (base p) \<le> i64_max \<and>
     0 < amount (quote p) \<and> amount (quote p) \<le> i64_max"

lemma pos_nonneg_price: "pos_price p \<Longrightarrow> nonneg_price p"
  by (simp add: pos_price_def nonneg_price_def)

text \<open>With amounts that are not negative, the 128-bit cross products do not wrap.\<close>

lemma u128_mul_amounts:
  assumes "uint128_laws L" and "0 \<le> x" "x \<le> i64_max" "0 \<le> y" "y \<le> i64_max"
  shows "u128_val (u128_mul L (u128_of_int L x) (u128_of_int L y)) = nat (x * y)"
proof -
  have v: "u128_val (u128_of_int L x) = nat x" "u128_val (u128_of_int L y) = nat y"
    using assms by (auto intro: u128_of_int_val)
  then have "u128_val (u128_mul L (u128_of_int L x) (u128_of_int L y)) = nat x * nat y"
    using assms by (simp add: u128_mul_exact)
  then show ?thesis
    using assms by (simp add: nat_mult_distrib)
qed

lemma cross_val:
  assumes "uint128_laws L" "nonneg_price a" "nonneg_price b"
  shows "u128_val (cross L a b) = nat (amount (quote b) * amount (base a))"
  using assms by (simp add: cross_def u128_mul_amounts nonneg_price_def)

lemma price_eq_iff:
  assumes "uint128_laws L" "nonneg_price a" "nonneg_price b"
  shows "price_eq L a b \<longleftrightarrow>
    symbol (base a) = symbol (base b) \<and> symbol (quote a) = symbol (quote b) \<and>
    amount (base a) * amount (quote b) = amount (base b) * amount (quote a)"
proof -
  have "0 \<le> amount (quote b) * amount (base a)" "0 \<le> amount (quote a) * amount (base b)"
    using assms by (auto simp: nonneg_price_def)
  then have "cross L a b = cross L b a \<longleftrightarrow>
      amount (base a) * amount (quote b) = amount (base b) * amount (quote a)"
    using assms
    by (simp add: cross_val eq_nat_nat_iff mult.commute flip: u128_val_inject)
  then show ?thesis by (auto simp: price_eq_def)
qed

lemma price_less_same_iff:
  assumes "uint128_laws L" "nonneg_price a" "nonneg_price b"
    and "symbol (base a) = symbol (base b)" "symbol (quote a) = symbol (quote b)"
  shows "price_less L a b \<longleftrightarrow>
    amount (base a) * amount (quote b) < amount (base b) * amount (quote a)"
proof -
  have "0 \<le> amount (quote b) * amount (base a)" "0 \<le> amount (quote a) * amount (base b)"
    using assms by (auto simp: nonneg_price_def)
  then show ?thesis
    using assms
    by (simp add: price_less_def uint128_rules cross_val nat_less_eq_zless mult.commute) linarith
qed

lemma cross_trans:
  fixes a b c p q r :: int
  assumes "0 < q" "0 < p" "0 < r" and "a * q < b * p" and "b * r < c * q"
  shows "a * r < c * p"
proof -
  have "(a * q) * r < (b * p) * r" using assms by simp
  also have "\<dots> = (b * r) * p" by simp
  also have "\<dots> < (c * q) * p" using assms by simp
  finally have "(a * r) * q < (c * p) * q" by (simp add: ac_simps)
  then show ?thesis using assms(1) by simp
qed

lemma price_less_trans:
  assumes "uint128_laws L" "pos_price a" "pos_price b" "pos_price c"
    and "price_less L a b" "price_less L b c"
  shows "price_less L a c"
proof (cases "symbol (base a) = symbol (base b) \<and> symbol (base b) = symbol (base c) \<and>
    symbol (quote a) = symbol (quote b) \<and> symbol (quote b) = symbol (quote c)")
  case True
  then show ?thesis
    using assms cross_trans [of "amount (quote b)" "amount (quote a)" "amount (quote c)"
        "amount (base a)" "amount (base b)" "amount (base c)"]
    by (auto simp: price_less_same_iff pos_nonneg_price) (auto simp: pos_price_def)
next
  case False
  then show ?thesis
    using assms(5,6) by (auto simp: price_less_def split: if_splits)
qed

interpretation price_cmp: comparison "\<lambda>p. uint128_laws L \<and> pos_price p"
  "price_less L" "price_eq L" "price_le L" "price_greater L" "price_ge L" for L
proof unfold_locales
  fix a b c :: price
  assume ok: "uint128_laws L \<and> pos_price a" "uint128_laws L \<and> pos_price b"
  then have iffs: "price_eq L a b \<longleftrightarrow>
      symbol (base a) = symbol (base b) \<and> symbol (quote a) = symbol (quote b) \<and>
      amount (base a) * amount (quote b) = amount (base b) * amount (quote a)"
    by (simp add: price_eq_iff pos_nonneg_price)
  show "price_less L a b \<or> price_eq L a b \<or> price_less L b a"
  proof (cases "symbol (base a) = symbol (base b) \<and> symbol (quote a) = symbol (quote b)")
    case True
    then show ?thesis using ok iffs by (auto simp: price_less_same_iff pos_nonneg_price)
  next
    case False
    then show ?thesis by (auto simp: price_less_def)
  qed
  show "price_eq L b a" if "price_eq L a b"
    using that ok by (simp add: price_eq_iff pos_nonneg_price)
  show "\<not> price_eq L a b" if "price_less L a b"
    using that ok iffs by (auto simp: price_less_same_iff pos_nonneg_price)
  show "\<not> price_less L b a" if "price_less L a b"
    using that ok by (auto simp: price_less_def uint128_rules split: if_splits)
qed (auto simp: price_le_def price_greater_def price_ge_def intro: price_less_trans)

section \<open>Exchange at a price: lemmas\<close>

lemma wrap64_id: "in_i64 x \<Longrightarrow> wrap64 x = x"
  by (simp add: wrap64_def in_i64_def sint_sbintrunc' signed_take_bit_int_eq_self)

lemma sint_of_quotient:
  assumes "0 \<le> q" "q < 18446744073709551616"
  shows "sint (lo (u128_of_nat (nat q))) = (if q \<le> i64_max then q else q - 18446744073709551616)"
proof -
  have w: "lo (u128_of_nat (nat q)) = word_of_int q"
    using assms by (simp add: u128_of_nat_def)
  have "(q + 9223372036854775808) mod 18446744073709551616
      = (if q \<le> i64_max then q + 9223372036854775808 else q - 9223372036854775808)"
    using assms by (simp add: mod_pos_geq)
  then show ?thesis
    by (simp add: w int_word_sint)
qed

lemma exchange_iff:
  assumes "uint128_laws L" "0 \<le> amount a" "amount a \<le> i64_max"
    and "0 < amount from" "amount from \<le> i64_max" "0 \<le> amount to" "amount to \<le> i64_max"
  defines "q \<equiv> amount a * amount to div amount from"
  shows "exchange L a from to = Inr c \<longleftrightarrow>
    q < 2 ^ 64 \<and> c = mk_asset (sint (lo (u128_of_nat (nat q)))) (symbol to)"
proof -
  have m: "u128_val (u128_mul L (u128_of_int L (amount a)) (u128_of_int L (amount to)))
      = nat (amount a * amount to)"
    using assms by (simp add: u128_mul_amounts)
  have f: "u128_val (u128_of_int L (amount from)) = nat (amount from)"
    using assms by (auto intro: u128_of_int_val)
  have q0: "0 \<le> q" using assms by (simp add: q_def pos_imp_zdiv_nonneg_iff)
  have e: "nat (amount a * amount to) div nat (amount from) = nat q"
    using assms by (simp add: q_def nat_div_distrib)
  have d: "u128_div L (u128_mul L (u128_of_int L (amount a)) (u128_of_int L (amount to)))
      (u128_of_int L (amount from)) = Inr (u128_of_nat (nat q))"
    using assms f e by (simp add: u128_div_iff m)
  have "nat q < 340282366920938463463374607431768211456"
  proof -
    have "nat q \<le> nat (amount a * amount to)"
      unfolding e [symmetric] by (rule div_le_dividend)
    also have "\<dots> \<le> nat (i64_max * i64_max)"
      using assms by (intro nat_mono mult_mono) auto
    finally show ?thesis by simp
  qed
  then have "hi (u128_of_nat (nat q)) = 0 \<longleftrightarrow> q < 2 ^ 64"
    using q0 by (simp add: hi_u128_of_nat_eq_0 nat_less_iff)
  then show ?thesis
    using assms d by (auto simp: exchange_def to_uint64_iff)
qed

lemma symbol_name_cong: "symbol a = symbol b \<Longrightarrow> symbol_name a = symbol_name b"
  by (simp add: symbol_name_def)

lemma price_validate_ok:
  "price_validate p = Inr u \<longleftrightarrow> 0 < amount (base p) \<and> 0 < amount (quote p) \<and>
    (\<exists>bn qn. symbol_name (base p) = Inr bn \<and> symbol_name (quote p) = Inr qn \<and> bn \<noteq> qn)"
  by (auto simp: price_validate_def run_checks_ok)

lemma times_price_base:
  assumes "price_validate p = Inr ()" "symbol a = symbol (base p)"
  shows "asset_times_price L a p = exchange L a (base p) (quote p)"
  using assms symbol_name_cong [OF assms(2)]
  by (auto simp: price_validate_ok asset_times_price_def)

lemma times_price_quote:
  assumes "price_validate p = Inr ()" "symbol a = symbol (quote p)"
  shows "asset_times_price L a p = exchange L a (quote p) (base p)"
  using assms symbol_name_cong [OF assms(2)]
  by (auto simp: price_validate_ok asset_times_price_def)

lemma div_mult_back:
  fixes a b q :: int
  assumes "0 < b" "0 < q" "0 \<le> a"
  shows "a * q div b * b div q \<le> a"
proof -
  have "a * q div b * b \<le> a * q"
    using assms(1) by (simp add: minus_mod_eq_div_mult [symmetric])
  then have "a * q div b * b div q \<le> a * q div q"
    using assms(2) by (rule zdiv_mono1)
  then show ?thesis using assms(2) by simp
qed

section \<open>Properties of assets and prices\<close>

text \<open>Addition of two assets succeeds exactly when they have the same symbol and the sum fits
  in 64 signed bits, and subtracting what was added gives back the first asset.\<close>

theorem asset_plus_minus:
  assumes "safe_laws L" and "asset_wf a"
  shows "((\<exists>c. asset_plus L a b = Inr c) \<longleftrightarrow> symbol a = symbol b \<and> in_i64 (amount a + amount b)) \<and>
    (\<forall>c. asset_plus L a b = Inr c \<longrightarrow> asset_minus L c b = Inr a)"
  using assms by (cases a) (auto simp: asset_arith_iffs asset_wf_def)

theorem asset_plus_minus_witness:
  "(\<exists>c. asset_plus fc_ref (mk_asset 5 STEEM_SYMBOL) (mk_asset 7 STEEM_SYMBOL) = Inr c) \<and>
   asset_minus fc_ref (mk_asset 12 STEEM_SYMBOL) (mk_asset 7 STEEM_SYMBOL) =
     Inr (mk_asset 5 STEEM_SYMBOL)"
  using asset_plus_minus [of fc_ref "mk_asset 5 STEEM_SYMBOL" "mk_asset 7 STEEM_SYMBOL"]
  by (simp add: asset_wf_def in_i64_def asset_arith_iffs)

text \<open>C31: On prices with positive amounts the comparison operators are those of a total order on
  the exchange ratios: exactly one of less, equal, greater holds, less is transitive, and for the
  same pair of symbols less compares the ratios base/quote exactly, without 128-bit wrap-around.\<close>

theorem price_order:
  assumes "uint128_laws L" and "pos_price a" "pos_price b" "pos_price c"
  shows "((price_less L a b \<and> \<not> price_eq L a b \<and> \<not> price_greater L a b) \<or>
     (\<not> price_less L a b \<and> price_eq L a b \<and> \<not> price_greater L a b) \<or>
     (\<not> price_less L a b \<and> \<not> price_eq L a b \<and> price_greater L a b)) \<and>
    (price_less L a b \<longrightarrow> price_less L b c \<longrightarrow> price_less L a c) \<and>
    (price_ge L a b \<longleftrightarrow> price_le L b a) \<and>
    (symbol (base a) = symbol (base b) \<longrightarrow> symbol (quote a) = symbol (quote b) \<longrightarrow>
     price_less L a b =
       (amount (base a) * amount (quote b) < amount (base b) * amount (quote a)))"
  using assms price_cmp.trichotomy [of L a b] price_cmp.greater_flip [of L a b]
    price_cmp.less_trans [of L a b c] price_cmp.ge_flip [of L a b]
    price_less_same_iff [of L a b]
  by (auto simp: pos_nonneg_price)

definition steem_price :: "int \<Rightarrow> int \<Rightarrow> price" where
  "steem_price b q = mk_price (mk_asset b SBD_SYMBOL) (mk_asset q STEEM_SYMBOL)"

theorem price_order_witness:
  "price_less fc_ref (steem_price 1 3) (steem_price 1 2) \<and>
   \<not> price_greater fc_ref (steem_price 1 3) (steem_price 1 2)"
  using price_order [of fc_ref "steem_price 1 3" "steem_price 1 2" "steem_price 1 1"]
  by (auto simp: pos_price_def steem_price_def)

lemma mult_div_back:
  fixes a b q :: int
  assumes "0 < b" "0 < q" "0 \<le> a"
  shows "(a - a * q div b * b div q - 1) * q < b"
proof -
  define x where "x = a * q div b"
  have "a * q < (x + 1) * b" unfolding x_def using assms(1) by (metis add.commute mult.commute pos_mod_bound mult_div_mod_eq distrib_right mult_1 add_strict_left_mono)
  moreover have "x * b < (x * b div q + 1) * q" using assms(2) by (metis add.commute mult.commute pos_mod_bound mult_div_mod_eq distrib_right mult_1 add_strict_left_mono)
  ultimately have "a * q < (x * b div q + 1) * q + b" by (simp add: algebra_simps)
  then show ?thesis unfolding x_def by (simp add: algebra_simps)
qed

text \<open>One exchange and the way back, in terms of \<open>exchange\<close>.\<close>

lemma exchange_back:
  assumes "uint128_laws L" "0 \<le> amount a" "amount a \<le> i64_max"
    and "0 < amount f" "amount f \<le> i64_max" "0 < amount t" "amount t \<le> i64_max"
    and "exchange L a f t = Inr b" "0 \<le> amount b"
  shows "amount b = amount a * amount t div amount f" and "symbol b = symbol t"
    and "\<exists>c. exchange L b t f = Inr c \<and> symbol c = symbol f \<and> amount c \<le> amount a \<and>
      (amount a - amount c - 1) * amount t < amount f"
proof -
  let ?q = "amount a * amount t div amount f"
  have q0: "0 \<le> ?q" using assms by (simp add: pos_imp_zdiv_nonneg_iff)
  have b: "?q \<le> i64_max" "b = mk_asset ?q (symbol t)"
    using assms q0 by (auto simp: exchange_iff sint_of_quotient split: if_splits)
  then show "amount b = ?q" "symbol b = symbol t" by simp_all
  let ?r = "?q * amount f div amount t"
  have r: "0 \<le> ?r" "?r \<le> amount a"
    using assms q0 div_mult_back [of "amount f" "amount t" "amount a"] by (simp_all add: pos_imp_zdiv_nonneg_iff)
  have "exchange L b t f = Inr (mk_asset ?r (symbol f))" using assms b q0 r by (simp add: exchange_iff sint_of_quotient)
  moreover have "(amount a - ?r - 1) * amount t < amount f" using assms by (intro mult_div_back) auto
  ultimately show "\<exists>c. exchange L b t f = Inr c \<and> symbol c = symbol f \<and> amount c \<le> amount a \<and>
      (amount a - amount c - 1) * amount t < amount f" using r by auto
qed

text \<open>C30: Exchanging a non-negative amount of either asset of a valid price rounds down exactly when the result is
  not negative, and exchanging the result back at the same price then always succeeds, never yields more
  than was put in, and loses less than one unit more than what a single unit of the other asset is worth.\<close>

theorem exchange_round_trip:
  assumes "uint128_laws L" "price_validate p = Inr ()" "pos_price p" "0 \<le> amount a" "amount a \<le> i64_max"
    and "(from, to) = (base p, quote p) \<or> (from, to) = (quote p, base p)" "symbol a = symbol from"
    and "asset_times_price L a p = Inr b" "0 \<le> amount b"
  shows "amount b = amount a * amount to div amount from \<and> symbol b = symbol to \<and>
    (\<exists>c. asset_times_price L b p = Inr c \<and> symbol c = symbol a \<and> amount c \<le> amount a \<and>
       (amount a - amount c - 1) * amount to < amount from)"
proof -
  have there: "asset_times_price L x p = exchange L x from to" if "symbol x = symbol from" for x
    using assms(2,6) that times_price_base times_price_quote by auto
  have ret: "asset_times_price L x p = exchange L x to from" if "symbol x = symbol to" for x
    using assms(2,6) that times_price_base times_price_quote by auto
  have "0 < amount from" "amount from \<le> i64_max" "0 < amount to" "amount to \<le> i64_max"
    using assms(3,6) by (auto simp: pos_price_def)
  note e = exchange_back [OF assms(1,4,5) this assms(8) [unfolded there [OF assms(7)]] assms(9)]
  show ?thesis using e assms(7) ret [OF e(2)] by simp
qed

lemma symbol_name_values [simp]:
  "symbol_name (mk_asset x STEEM_SYMBOL) = Inr ''STEEM''"
  "symbol_name (mk_asset x SBD_SYMBOL) = Inr ''SBD''"
  "symbol_name (mk_asset x VESTS_SYMBOL) = Inr ''VESTS''"
  by (simp_all add: symbol_name_def symbol_values symbol_byte_def upt_rec char_of_eq_iff)

lemma exchange_example:
  "asset_times_price fc_ref (mk_asset 10 SBD_SYMBOL) (steem_price 3 7) =
     Inr (mk_asset 23 STEEM_SYMBOL)"
proof -
  have "price_validate (steem_price 3 7) = Inr ()"
    by (simp add: price_validate_ok steem_price_def)
  then show ?thesis
    using sint_of_quotient [of 23]
    by (simp add: times_price_base exchange_iff steem_price_def)
qed

lemma exchange_back_example:
  "asset_times_price fc_ref (mk_asset 10 STEEM_SYMBOL) (steem_price 3 7) = Inr (mk_asset 4 SBD_SYMBOL)"
proof -
  have "price_validate (steem_price 3 7) = Inr ()" by (simp add: price_validate_ok steem_price_def)
  then show ?thesis using sint_of_quotient [of 4] by (simp add: times_price_quote exchange_iff steem_price_def)
qed

text \<open>From SBD to STEEM and back, and from STEEM to SBD and back, at 3 SBD for 7 STEEM.\<close>

theorem exchange_round_trip_witness:
  "(\<exists>c. asset_times_price fc_ref (mk_asset 23 STEEM_SYMBOL) (steem_price 3 7) = Inr c \<and> amount c \<le> 10 \<and> 9 \<le> amount c) \<and>
   (\<exists>c. asset_times_price fc_ref (mk_asset 4 SBD_SYMBOL) (steem_price 3 7) = Inr c \<and> amount c \<le> 10 \<and> 7 \<le> amount c)"
proof -
  let ?p = "steem_price 3 7"
  have p: "price_validate ?p = Inr ()" "pos_price ?p" by (simp_all add: price_validate_ok pos_price_def steem_price_def)
  obtain c where c: "asset_times_price fc_ref (mk_asset 23 STEEM_SYMBOL) ?p = Inr c" "amount c \<le> 10" "(10 - amount c - 1) * 7 < 3"
    using exchange_round_trip [OF _ p _ _ disjI1 [OF refl] _ exchange_example] by (auto simp: steem_price_def)
  obtain d where d: "asset_times_price fc_ref (mk_asset 4 SBD_SYMBOL) ?p = Inr d" "amount d \<le> 10" "(10 - amount d - 1) * 3 < 7"
    using exchange_round_trip [OF _ p _ _ disjI2 [OF refl] _ exchange_back_example] by (auto simp: steem_price_def)
  show ?thesis using c d by auto
qed



end
