(* ===== verification/Asset_Text.thy ===== *)
theory Asset_Text
  imports Asset
begin

text \<open>
  Printing and parsing of assets: \<open>asset::to_string\<close> and \<open>asset::from_string\<close> of
  \<open>protocol/asset.cpp\<close> are inverse to each other on amounts that are not negative, and print a
  wrong fraction on negative ones.
\<close>

section \<open>Decimal digits\<close>

lemma dec_digits_small: "n < 10 \<Longrightarrow> dec_digits n = [char_of (48 + n)]"
  by (simp add: dec_digits.simps)

lemma dec_digits_step: "10 \<le> n \<Longrightarrow> dec_digits n = dec_digits (n div 10) @ [char_of (48 + n mod 10)]"
  by (simp add: dec_digits.simps [of n])

lemma dec_digits_ne [simp]: "dec_digits n \<noteq> []"
  by (simp add: dec_digits.simps [of n])

lemma char_of_49: "char_of (49 :: nat) = CHR ''1''"
  by code_simp

lemma is_digit_char [simp]: "(n :: nat) < 10 \<Longrightarrow> is_digit (char_of (48 + n))"
  by (simp add: is_digit_def take_bit_nat_eq_self)

lemma dec_digits_all [simp]: "list_all is_digit (dec_digits n)"
proof (induction n rule: dec_digits.induct)
  case (1 n)
  then show ?case
    by (cases "n < 10") (simp_all add: dec_digits_small dec_digits_step)
qed

lemma dec_value_snoc: "dec_value (s @ [c]) = 10 * dec_value s + (of_char c - 48)"
  by (simp add: dec_value_def)

lemma dec_value_digits [simp]: "dec_value (dec_digits n) = n"
proof (induction n rule: dec_digits.induct)
  case (1 n)
  show ?case
  proof (cases "n < 10")
    case True
    then show ?thesis by (simp add: dec_digits_small dec_value_def take_bit_nat_eq_self)
  next
    case False
    then show ?thesis
      using 1 by (simp add: dec_digits_step dec_value_snoc take_bit_nat_eq_self)
  qed
qed

text \<open>Between \<open>10 ^ d\<close> and \<open>2 * 10 ^ d\<close> the decimal text is a one followed by \<open>d\<close> digits.\<close>

lemma dec_digits_one:
  assumes "10 ^ d \<le> n" "n < 2 * 10 ^ d"
  shows "dec_digits n = CHR ''1'' # drop 1 (dec_digits n) \<and> length (dec_digits n) = Suc d"
  using assms
proof (induction d arbitrary: n)
  case 0
  then have "n = 1" by simp
  then show ?case by (simp add: dec_digits_small char_of_49)
next
  case (Suc d)
  have "10 * 1 \<le> (10 * 10 ^ d :: nat)" by (rule mult_le_mono2) simp
  also have "\<dots> \<le> n" using Suc.prems by simp
  finally have "10 \<le> n" by simp
  moreover have d: "10 ^ d \<le> n div 10" "n div 10 < 2 * 10 ^ d"
    using Suc.prems by auto
  ultimately obtain r where "dec_digits (n div 10) = CHR ''1'' # r" "length r = d" "10 \<le> n"
    using Suc.IH [OF d] by (cases "dec_digits (n div 10)") auto
  then show ?case by (simp add: dec_digits_step)
qed

section \<open>Searching\<close>

lemma digit_not: "list_all is_digit s \<Longrightarrow> CHR '' '' \<notin> set s \<and> CHR ''.'' \<notin> set s"
  by (auto simp: list_all_iff is_digit_def)

lemma digit_not_space: "is_digit c \<Longrightarrow> \<not> is_space c"
  by (auto simp: is_digit_def is_space_def)

section \<open>The symbol word\<close>

lemma bit_255: "bit (255 :: 'a :: ring_bit_operations) k \<longleftrightarrow> possible_bit TYPE('a) k \<and> k < 8"
proof -
  have "(255 :: 'a) = mask 8" by (simp add: mask_eq_exp_minus_1)
  then show ?thesis by (simp only: bit_mask_iff)
qed

lemma symbol_byte_put:
  assumes "i < 8" "j < 8"
  shows "symbol_byte (or (and s (not (push_bit (8 * i) 255))) (push_bit (8 * i) (of_nat (of_char c)))) j
    = (if j = i then of_nat (of_char c) else symbol_byte s j)"
proof (rule bit_word_eqI)
  fix n assume "n < LENGTH(8)"
  then have n: "n < 8" by simp
  have c: "bit (of_char c :: nat) k \<longleftrightarrow> k < 8 \<and> bit (of_char c :: nat) k" for k
  proof -
    have "of_char c = take_bit 8 (of_char c :: nat)"
      by (simp add: take_bit_nat_eq_self nat_of_char_less_256)
    then show ?thesis by (metis bit_take_bit_iff)
  qed
  show "bit (symbol_byte (or (and s (not (push_bit (8 * i) 255)))
      (push_bit (8 * i) (of_nat (of_char c)))) j) n =
    bit (if j = i then of_nat (of_char c) else symbol_byte s j) n"
    using assms n c [of n] c [of "8 * j + n - 8 * i"]
    by (cases "j = i"; cases "j < i") (auto simp: symbol_byte_def bit_simps bit_255)
qed

lemma symbol_byte_put_letters:
  assumes "i + length cs \<le> 8" "j < 8"
  shows "symbol_byte (put_letters i cs s) j =
    (if i \<le> j \<and> j < i + length cs then of_nat (of_char (cs ! (j - i))) else symbol_byte s j)"
  using assms
proof (induction i cs s rule: put_letters.induct)
  case (2 i c cs s)
  then have "i < 8" by simp
  then show ?case
    using 2 symbol_byte_put [of i j s c]
    by (auto simp: nth_Cons')
qed auto

text \<open>A symbol of a well-formed asset: \<open>d\<close> decimals and the letters of \<open>name\<close>.\<close>

definition make_symbol :: "nat \<Rightarrow> string \<Rightarrow> asset_symbol_type" where
  "make_symbol d name = put_letters 1 name (of_nat d)"

definition good_name :: "string \<Rightarrow> bool" where
  "good_name name \<longleftrightarrow> name \<noteq> [] \<and> length name \<le> 6 \<and>
     list_all (\<lambda>c. of_char c \<noteq> (0::nat) \<and> c \<noteq> CHR ''.'' \<and> \<not> is_space c) name"

lemma symbol_byte_small: "d < 15 \<Longrightarrow> j < 8 \<Longrightarrow> symbol_byte (of_nat d) j = (if j = 0 then of_nat d else 0)"
proof -
  assume d: "d < 15" and j: "j < 8"
  have "drop_bit (8 * j) (of_nat d :: u64) = (if j = 0 then of_nat d else 0)"
  proof (cases "j = 0")
    case False
    have "d < 2 ^ (8 * j)"
    proof -
      have "(2 :: nat) ^ 8 \<le> 2 ^ (8 * j)" using False by (intro power_increasing) auto
      then show ?thesis using d by simp
    qed
    then have "d div 2 ^ (8 * j) = 0" by simp
    then show ?thesis
      using False d by (simp add: word_unat_eq_iff unat_drop_bit_eq unat_of_nat) (simp add: drop_bit_eq_div)
  qed simp
  then show ?thesis
    using d by (simp add: symbol_byte_def word_unat_eq_iff unsigned_ucast_eq unat_of_nat take_bit_eq_mod)
qed

lemma decimals_make_symbol:
  assumes "d < 15" "good_name name"
  shows "decimals (mk_asset x (make_symbol d name)) = Inr (of_nat d)"
proof -
  have "symbol_byte (make_symbol d name) 0 = of_nat d"
    using assms
    by (simp add: make_symbol_def symbol_byte_put_letters symbol_byte_small good_name_def)
  moreover have "(of_nat d :: u8) < 15"
    using assms(1) by (simp add: word_less_nat_alt unat_of_nat)
  ultimately show ?thesis
    by (simp add: decimals_def fc_assert_def)
qed

lemma of_char_u8: "unat (of_nat (of_char c) :: u8) = of_char c"
  by (simp add: unat_of_nat nat_of_char_less_256)

lemma symbol_name_make_symbol:
  assumes "d < 15" "good_name name"
  shows "symbol_name (mk_asset x (make_symbol d name)) = Inr name"
proof -
  let ?s = "make_symbol d name"
  have len: "length name \<le> 6" and nz: "\<forall>c \<in> set name. of_char c \<noteq> (0::nat)"
    using assms(2) by (auto simp: good_name_def list_all_iff)
  have byte: "symbol_byte ?s j = (if j < 1 + length name then of_nat (of_char (name ! (j - 1))) else 0)"
    if "1 \<le> j" "j < 8" for j
    using that len assms(1) by (simp add: make_symbol_def symbol_byte_put_letters symbol_byte_small)
  have "map (symbol_byte ?s) [1..<8] = map (\<lambda>c. of_nat (of_char c)) name @ replicate (7 - length name) 0"
  proof (rule nth_equalityI)
    fix i assume "i < length (map (symbol_byte ?s) [1..<8])"
    then show "map (symbol_byte ?s) [1..<8] ! i =
        (map (\<lambda>c. of_nat (of_char c)) name @ replicate (7 - length name) 0) ! i"
      using len byte [of "Suc i"] by (simp add: nth_append)
  qed (use len in simp)
  moreover have "(of_nat (of_char c) :: u8) \<noteq> 0" if "c \<in> set name" for c
    using nz that of_char_u8 [of c] by (metis unsigned_0)
  ultimately have "takeWhile (\<lambda>b. b \<noteq> 0) (map (symbol_byte ?s) [1..<8])
      = map (\<lambda>c. of_nat (of_char c)) name"
    using len by (simp add: takeWhile_append takeWhile_eq_all_conv [THEN iffD2])
  moreover have "symbol_byte ?s 7 = 0"
    using byte [of 7] len by simp
  ultimately show ?thesis
    by (simp add: symbol_name_def fc_assert_def of_char_u8 comp_def)
qed

section \<open>Round trip\<close>

lemma precision_table_nth: "d < 15 \<Longrightarrow> precision_table ! d = 10 ^ d"
proof -
  assume "d < 15"
  then have "d \<in> set [0..<15]" by simp
  then show ?thesis
    by (simp add: precision_table_def upt_rec) (elim disjE; simp)
qed

lemma precision_make_symbol:
  assumes "d < 15" "good_name name"
  shows "precision (mk_asset x (make_symbol d name)) = Inr (10 ^ d)"
  using assms by (simp add: precision_def decimals_make_symbol unat_of_nat precision_table_nth)

lemma make_symbol_Nil_decimals:
  assumes "d < 15"
  shows "decimals (mk_asset x (of_nat d)) = Inr (of_nat d)" "precision (mk_asset x (of_nat d)) = Inr (10 ^ d)"
proof -
  have "(of_nat d :: u8) < 15"
    using assms by (simp add: word_less_nat_alt unat_of_nat)
  then show "decimals (mk_asset x (of_nat d)) = Inr (of_nat d)"
    using assms by (simp add: decimals_def symbol_byte_small fc_assert_def)
  then show "precision (mk_asset x (of_nat d)) = Inr (10 ^ d)"
    using assms by (simp add: precision_def unat_of_nat precision_table_nth)
qed

lemma set_decimals_zero:
  assumes "d < 15"
  shows "set_decimals (of_nat d) (mk_asset x 0) = Inr (mk_asset x (of_nat d))"
proof -
  have "(of_nat d :: u8) < 15"
    using assms by (simp add: word_less_nat_alt unat_of_nat)
  moreover have "(ucast (of_nat d :: u8) :: u64) = of_nat d"
    using assms by (simp add: word_unat_eq_iff unsigned_ucast_eq unat_of_nat take_bit_eq_mod)
  ultimately show ?thesis
    by (simp add: set_decimals_def fc_assert_def)
qed

lemma cdiv_nonneg: "0 \<le> a \<Longrightarrow> 0 < b \<Longrightarrow> cdiv a b = a div b"
  by (auto simp: cdiv_def sgn_if)

lemma cmod_nonneg: "0 \<le> a \<Longrightarrow> 0 < b \<Longrightarrow> cmod a b = a mod b"
  by (simp add: cmod_def cdiv_nonneg minus_mult_div_eq_mod)

lemma wrap64_wrap64_diff: "wrap64 (wrap64 x - y) = wrap64 (x - y)"
  by (simp add: wrap64_def)

lemma wrap64_wrap64_add: "wrap64 (wrap64 x + y) = wrap64 (x + y)"
  by (simp add: wrap64_def)

text \<open>The text of an amount that is not negative: the whole part, and for a positive number of
  decimals a point and exactly that many digits.\<close>

definition number_text :: "nat \<Rightarrow> nat \<Rightarrow> string" where
  "number_text d n =
     dec_digits (n div 10 ^ d) @
     (if d = 0 then [] else ''.'' @ drop 1 (dec_digits (10 ^ d + n mod 10 ^ d)))"

lemma pow10_bound: "d < 15 \<Longrightarrow> (10 :: int) ^ d \<le> 100000000000000"
  using power_increasing [of d 14 "10 :: int"] by simp

lemma fc_to_string_nonneg:
  "text_laws L \<Longrightarrow> 0 \<le> x \<Longrightarrow> x \<le> i64_max \<Longrightarrow> fc_to_string L x = dec_digits (nat x)"
  by (simp add: text_laws_def in_i64_def)

lemma to_string_nonneg:
  assumes "text_laws L" "d < 15" "good_name name" "0 \<le> n" "n \<le> i64_max"
  shows "to_string L (mk_asset n (make_symbol d name)) = Inr (number_text d (nat n) @ '' '' @ name)"
proof -
  have p: "(1 :: int) < 10 ^ d \<longleftrightarrow> d \<noteq> 0"
    using one_less_power [of "10 :: int" d] by (cases "d = 0") auto
  have q: "0 \<le> n div 10 ^ d" "n div 10 ^ d \<le> i64_max"
    using assms(4,5) by (simp_all add: pos_imp_zdiv_nonneg_iff order_trans [OF int_div_le])
  have "n mod 10 ^ d < 10 ^ d" "0 \<le> n mod 10 ^ d" by simp_all
  then have r: "0 \<le> 10 ^ d + n mod 10 ^ d" "10 ^ d + n mod 10 ^ d \<le> i64_max"
    using pow10_bound [OF assms(2)] by linarith+
  have "fc_to_string L (n div 10 ^ d) = dec_digits (nat n div 10 ^ d)"
    using assms(1,4) q by (simp add: text_laws_def in_i64_def nat_div_distrib nat_power_eq)
  moreover have "fc_to_string L (10 ^ d + n mod 10 ^ d) = dec_digits (10 ^ d + nat n mod 10 ^ d)"
    using assms(4) fc_to_string_nonneg [OF assms(1) r]
    by (simp add: nat_add_distrib nat_mod_distrib nat_power_eq)
  ultimately show ?thesis
    using assms p
    by (simp add: to_string_def precision_make_symbol symbol_name_make_symbol number_text_def
        cdiv_nonneg cmod_nonneg)
qed

lemma frac_digits:
  fixes n :: nat
  assumes "d \<noteq> 0"
  defines "f \<equiv> drop 1 (dec_digits (10 ^ d + n mod 10 ^ d))"
  shows "CHR ''1'' # f = dec_digits (10 ^ d + n mod 10 ^ d)" "length f = d" "list_all is_digit f"
proof -
  have "dec_digits (10 ^ d + n mod 10 ^ d) = CHR ''1'' # f \<and>
      length (dec_digits (10 ^ d + n mod 10 ^ d)) = Suc d"
    unfolding f_def by (rule dec_digits_one) simp_all
  then show "CHR ''1'' # f = dec_digits (10 ^ d + n mod 10 ^ d)" "length f = d"
    by auto
  show "list_all is_digit f"
    using dec_digits_all by (auto simp: f_def list_all_iff dest: in_set_dropD)
qed

lemma number_text_no_space: "CHR '' '' \<notin> set (number_text d n)"
proof (cases "d = 0")
  case False
  then show ?thesis
    using digit_not [OF dec_digits_all] digit_not [OF frac_digits(3) [OF False]]
    by (simp add: number_text_def)
qed (use digit_not [OF dec_digits_all] in \<open>simp add: number_text_def\<close>)

lemma number_text_hd: "number_text d n \<noteq> [] \<and> is_digit (hd (number_text d n))"
  using dec_digits_all [of "n div 10 ^ d"]
  by (cases "dec_digits (n div 10 ^ d)") (auto simp: number_text_def dec_digits_ne [THEN notE])

lemma asset_text_trim:
  assumes "text_laws L" "good_name name"
  shows "fc_trim L (number_text d n @ '' '' @ name) = number_text d n @ '' '' @ name"
proof -
  have "\<not> is_space (last name)" "name \<noteq> []"
    using assms(2) by (auto simp: good_name_def list_all_iff)
  then show ?thesis
    using assms(1) number_text_hd [of d n] digit_not_space
    by (simp add: text_laws_def)
qed

lemma fc_to_int64_digits:
  assumes "text_laws L" "int n \<le> i64_max"
  shows "fc_to_int64 L (dec_digits n) = Inr (int n)"
  using assms by (simp add: text_laws_def)

lemma from_string_number_dot:
  assumes "k < sp" "take k s = i" "take (sp - k - 1) (drop (k + 1) s) = f" "length f = d" "d < 15"
    and "fc_to_int64 L i = Inr x" "fc_to_int64 L (CHR ''1'' # f) = Inr y"
  shows "from_string_number L s sp (Some k) = Inr (mk_asset (wrap64 (x * 10 ^ d + y - 10 ^ d)) (of_nat d))"
  using assms
  by (simp add: from_string_number_def set_decimals_zero fc_assert_def make_symbol_Nil_decimals
      wrap64_wrap64_diff wrap64_wrap64_add)

lemma from_string_number_text:
  assumes "text_laws L" "d < 15" "good_name name" "int n \<le> i64_max"
  defines "s \<equiv> number_text d n @ '' '' @ name"
  shows "from_string_number L s (length (number_text d n)) (find_char (CHR ''.'') s) =
    Inr (mk_asset (int n) (of_nat d))"
proof (cases "d = 0")
  case True
  have "CHR ''.'' \<notin> set s"
    using assms(3) digit_not [OF dec_digits_all] True
    by (auto simp: s_def number_text_def good_name_def list_all_iff)
  then have "find_char (CHR ''.'') s = None" by (rule find_char_None)
  moreover have "take (length (number_text d n)) s = dec_digits n"
    by (simp add: s_def number_text_def True)
  ultimately show ?thesis
    using assms True set_decimals_zero [of 0 "int n"]
    by (simp add: from_string_number_def fc_to_int64_digits)
next
  case False
  let ?i = "dec_digits (n div 10 ^ d)" and ?f = "drop 1 (dec_digits (10 ^ d + n mod 10 ^ d))"
  note f = frac_digits [OF False, of n]
  have s: "s = ?i @ ''.'' @ ?f @ '' '' @ name" and t: "number_text d n = ?i @ ''.'' @ ?f"
    by (simp_all add: s_def number_text_def False)
  have dot: "find_char (CHR ''.'') s = Some (length ?i)"
    using digit_not [OF dec_digits_all] by (simp add: s find_char_append)
  have parts: "take (length ?i) s = ?i"
      "take (length (number_text d n) - length ?i - 1) (drop (length ?i + 1) s) = ?f"
      "length ?i < length (number_text d n)"
    by (simp_all add: s t)
  have "int (n div 10 ^ d) \<le> i64_max"
    using assms(4) div_le_dividend [of n "10 ^ d"] by linarith
  then have i: "fc_to_int64 L ?i = Inr (int (n div 10 ^ d))"
    using assms(1) by (rule fc_to_int64_digits [rotated])
  have "int (10 ^ d + n mod 10 ^ d) < 2 * 10 ^ d"
    using of_nat_less_iff [of "n mod 10 ^ d" "10 ^ d", where 'a = int] by simp
  then have "int (10 ^ d + n mod 10 ^ d) \<le> i64_max"
    using pow10_bound [OF assms(2)] by linarith
  then have y: "fc_to_int64 L (CHR ''1'' # ?f) = Inr (int (10 ^ d + n mod 10 ^ d))"
    unfolding f(1) using assms(1) by (rule fc_to_int64_digits [rotated])
  have "int (n div 10 ^ d * 10 ^ d + n mod 10 ^ d) = int n"
    by (simp only: div_mult_mod_eq)
  then have "wrap64 (int (n div 10 ^ d) * 10 ^ d + int (10 ^ d + n mod 10 ^ d) - 10 ^ d) = int n"
    using assms(4) by (simp add: wrap64_id in_i64_def)
  then show ?thesis
    unfolding dot using from_string_number_dot [OF parts(3,1,2) f(2) assms(2) i y] by (simp only:)
qed

lemma from_to_string:
  assumes "text_laws L" "d < 15" "good_name name" "0 \<le> n" "n \<le> i64_max"
  shows "rbind (to_string L (mk_asset n (make_symbol d name))) (from_string L)
    = Inr (mk_asset n (make_symbol d name))"
proof -
  let ?t = "number_text d (nat n)"
  have "find_char (CHR '' '') (?t @ '' '' @ name) = Some (length ?t)"
    using number_text_no_space [of d "nat n"] by (simp add: find_char_append)
  moreover have "from_string_number L (?t @ '' '' @ name) (length ?t)
      (find_char (CHR ''.'') (?t @ '' '' @ name)) = Inr (mk_asset n (of_nat d))"
    using from_string_number_text [of L d name "nat n"] assms by simp
  moreover have "0 < length name" "length name \<le> 6"
    using assms(3) by (auto simp: good_name_def)
  ultimately have "from_string L (?t @ '' '' @ name) = Inr (mk_asset n (make_symbol d name))"
    using assms(1,3) asset_text_trim [of L name d "nat n"]
    by (simp add: from_string_def make_symbol_def fc_assert_def)
  then show ?thesis
    using assms by (simp add: to_string_nonneg)
qed

text \<open>C32: Printing an asset with a well-formed symbol and an amount that is not negative, then
  parsing the text, gives back the asset.\<close>

theorem asset_text_round_trip:
  assumes "text_laws L" "d < 15" "good_name name" "0 \<le> n" "n \<le> i64_max"
  shows "rbind (to_string L (mk_asset n (make_symbol d name))) (from_string L)
    = Inr (mk_asset n (make_symbol d name))"
  using assms by (rule from_to_string)

lemma good_name_STEEM: "good_name ''STEEM''"
  by (simp add: good_name_def is_space_def)

theorem asset_text_round_trip_witness:
  "rbind (to_string fc_ref (mk_asset 7005 (make_symbol 3 ''STEEM''))) (from_string fc_ref)
    = Inr (mk_asset 7005 (make_symbol 3 ''STEEM''))"
  by (rule asset_text_round_trip) (simp_all add: good_name_STEEM)

text \<open>A negative amount with a fraction prints a wrong text: minus five thousandths of a STEEM
  prints as 0.95 STEEM, with neither the sign nor the right digits, and parses as 95 units of a
  symbol with two decimals.\<close>

theorem asset_text_negative:
  assumes "text_laws L"
  shows "to_string L (mk_asset (- 5) (make_symbol 3 ''STEEM'')) = Inr ''0.95 STEEM'' \<and>
    from_string L ''0.95 STEEM'' = Inr (mk_asset 95 (make_symbol 2 ''STEEM''))"
proof -
  have d: "dec_digits 0 = ''0''" "dec_digits 995 = ''995''"
    by (simp_all add: dec_digits.simps char_of_eq_iff)
  have "cdiv (- 5) 1000 = 0" "cmod (- 5) 1000 = - 5"
    by (simp_all add: cdiv_def cmod_def)
  then have "to_string L (mk_asset (- 5) (make_symbol 3 ''STEEM'')) = Inr ''0.95 STEEM''"
    using assms good_name_STEEM d fc_to_string_nonneg [of L 0] fc_to_string_nonneg [of L 995]
    by (simp add: to_string_def precision_make_symbol symbol_name_make_symbol)
  moreover have "number_text 2 95 = ''0.95''"
    by (simp add: number_text_def dec_digits.simps char_of_eq_iff)
  then have "to_string L (mk_asset 95 (make_symbol 2 ''STEEM'')) = Inr ''0.95 STEEM''"
    using assms good_name_STEEM by (simp add: to_string_nonneg)
  ultimately show ?thesis
    using from_to_string [of L 2 "''STEEM''" 95] assms good_name_STEEM by simp
qed

theorem asset_text_negative_witness:
  "to_string fc_ref (mk_asset (- 5) (make_symbol 3 ''STEEM'')) = Inr ''0.95 STEEM''"
  using asset_text_negative [of fc_ref] by simp

end
