(* ===== verification/Version.thy ===== *)
theory Version
  imports Asset_Text
begin

text \<open>
  Software versions: \<open>protocol/version.hpp\<close> and \<open>protocol/version.cpp\<close>.  A version is one 32-bit
  word; the comparison operators compare it.  The text form is read with a \<open>std::stringstream\<close>,
  of which the formatted extraction of unsigned numbers and characters is modelled.
\<close>

section \<open>Versions\<close>

type_synonym v_num = u32

definition new_version :: "u8 \<Rightarrow> u8 \<Rightarrow> u16 \<Rightarrow> v_num" where
  "new_version m h r =
     (let v = push_bit 8 (or 0 (ucast m));
          v = push_bit 16 (or v (ucast h))
      in or v (ucast r))"

definition version_eq :: "v_num \<Rightarrow> v_num \<Rightarrow> bool" where "version_eq a b \<longleftrightarrow> a = b"
definition version_less :: "v_num \<Rightarrow> v_num \<Rightarrow> bool" where "version_less a b \<longleftrightarrow> a < b"
definition version_le :: "v_num \<Rightarrow> v_num \<Rightarrow> bool" where "version_le a b \<longleftrightarrow> a \<le> b"
definition version_greater :: "v_num \<Rightarrow> v_num \<Rightarrow> bool" where "version_greater a b \<longleftrightarrow> a > b"
definition version_ge :: "v_num \<Rightarrow> v_num \<Rightarrow> bool" where "version_ge a b \<longleftrightarrow> a \<ge> b"

definition hardfork_mask :: "v_num \<Rightarrow> v_num" where
  "hardfork_mask v = and v 0xFFFF0000"

definition new_hardfork_version :: "u8 \<Rightarrow> u8 \<Rightarrow> v_num" where
  "new_hardfork_version m h = new_version m h 0"

text \<open>The comparisons of a \<open>hardfork_version\<close> with a \<open>version\<close> ignore the revision of the latter.\<close>

definition hardfork_eq :: "v_num \<Rightarrow> v_num \<Rightarrow> bool" where "hardfork_eq a b \<longleftrightarrow> a = hardfork_mask b"
definition hardfork_less :: "v_num \<Rightarrow> v_num \<Rightarrow> bool" where "hardfork_less a b \<longleftrightarrow> a < hardfork_mask b"
definition hardfork_le :: "v_num \<Rightarrow> v_num \<Rightarrow> bool" where "hardfork_le a b \<longleftrightarrow> a \<le> hardfork_mask b"
definition hardfork_greater :: "v_num \<Rightarrow> v_num \<Rightarrow> bool" where "hardfork_greater a b \<longleftrightarrow> a > hardfork_mask b"
definition hardfork_ge :: "v_num \<Rightarrow> v_num \<Rightarrow> bool" where "hardfork_ge a b \<longleftrightarrow> a \<ge> hardfork_mask b"

definition version_string :: "v_num \<Rightarrow> string" where
  "version_string v =
     dec_digits (unat (and (drop_bit 24 v) 0x000000FF)) @ ''.'' @
     dec_digits (unat (and (drop_bit 16 v) 0x000000FF)) @ ''.'' @
     dec_digits (unat (and v 0x0000FFFF))"

section \<open>Reading from a string stream\<close>

record istream =
  rest :: string
  eofbit :: bool
  failbit :: bool

definition new_istream :: "string \<Rightarrow> istream" where
  "new_istream s = \<lparr>rest = s, eofbit = False, failbit = False\<rparr>"

text \<open>The sentry of a formatted extraction: a stream that is not good fails, else leading white space
  is skipped, and reaching the end there fails too.\<close>

definition sentry :: "istream \<Rightarrow> bool \<times> istream" where
  "sentry s =
     (if eofbit s \<or> failbit s then (False, s\<lparr>failbit := True\<rparr>)
      else let r = dropWhile is_space (rest s)
           in if r = [] then (False, s\<lparr>rest := [], eofbit := True, failbit := True\<rparr>)
              else (True, s\<lparr>rest := r\<rparr>))"

definition read_char :: "char \<Rightarrow> istream \<Rightarrow> char \<times> istream" where
  "read_char old s =
     (case sentry s of (ok, s) \<Rightarrow> if ok then (hd (rest s), s\<lparr>rest := tl (rest s)\<rparr>) else (old, s))"

text \<open>An unsigned number: an optional sign and digits; no digits give 0 and a value out of range
  gives the largest value, both with \<open>failbit\<close>; a minus sign negates modulo 2^32.\<close>

definition read_u32 :: "u32 \<Rightarrow> istream \<Rightarrow> u32 \<times> istream" where
  "read_u32 old s =
     (case sentry s of (ok, s) \<Rightarrow>
        if \<not> ok then (old, s)
        else let sign = (hd (rest s) = CHR ''-'');
                 body = (if hd (rest s) = CHR ''-'' \<or> hd (rest s) = CHR ''+'' then tl (rest s) else rest s);
                 digits = takeWhile is_digit body;
                 after = dropWhile is_digit body;
                 s = s\<lparr>rest := after, eofbit := (after = [])\<rparr>;
                 n = dec_value digits
             in if digits = [] then (0, s\<lparr>failbit := True\<rparr>)
                else if n \<ge> 2 ^ 32 then (- 1, s\<lparr>failbit := True\<rparr>)
                else (if sign then - of_nat n else of_nat n, s))"

definition version_from_variant :: "string \<Rightarrow> v_num res" where
  "version_from_variant str =
     (let s = new_istream str;
          (major, s) = read_u32 0 s;
          (dot_a, s) = read_char (CHR 0x00) s;
          (hardfork, s) = read_u32 0 s;
          (dot_b, s) = read_char (CHR 0x00) s;
          (revision, s) = read_u32 0 s
      in rbind (run_checks
           [fc_assert ((dot_a = CHR ''.'' \<or> dot_a = CHR ''_'') \<and> dot_a = dot_b)
              ''Variant does not contain proper dotted decimal format'',
            fc_assert (major \<le> 0xFF) ''Major version is out of range'',
            fc_assert (hardfork \<le> 0xFF) ''Hardfork version is out of range'',
            fc_assert (revision \<le> 0xFFFF) ''Revision version is out of range'',
            fc_assert (eofbit s) ''Extra information at end of version string''])
         (\<lambda>_. Inr (or (or (or 0 (push_bit 24 major)) (push_bit 16 hardfork)) revision)))"

definition hardfork_version_from_variant :: "string \<Rightarrow> v_num res" where
  "hardfork_version_from_variant str =
     rbind (version_from_variant str) (\<lambda>ver. Inr (and ver 0xffff0000))"

section \<open>Order\<close>

interpretation version_cmp: comparison "\<lambda>_. True" version_less version_eq version_le version_greater version_ge
  by unfold_locales
    (auto simp: version_less_def version_eq_def version_le_def version_greater_def version_ge_def)

lemma digit_pair_less:
  fixes a b :: nat
  assumes "b < n" "b' < n"
  shows "a * n + b < a' * n + b' \<longleftrightarrow> a < a' \<or> a = a' \<and> b < b'"
proof -
  have "a * n + b < a' * n + b'" if "a < a'" "b < n" for a b a' b' :: nat
  proof -
    have "Suc a * n \<le> a' * n" using that(1) by (intro mult_le_mono1) simp
    then show ?thesis using that(2) by simp
  qed
  then show ?thesis using assms by (metis nat_neq_iff less_asym add_less_cancel_left)
qed

lemma digit_pair_eq:
  fixes a b :: nat
  assumes "b < n" "b' < n"
  shows "a * n + b = a' * n + b' \<longleftrightarrow> a = a' \<and> b = b'"
  using digit_pair_less [OF assms] digit_pair_less [OF assms(2,1)] by (metis nat_neq_iff)

lemma new_version_val:
  "unat (new_version m h r) = (unat m * 256 + unat h) * 65536 + unat r"
proof -
  have b: "n < 8" if "bit x n" for x :: u8 and n using that bit_imp_le_length by force
  have b16: "n < 16" if "bit x n" for x :: u16 and n using that bit_imp_le_length by force
  have "or (push_bit 8 (ucast m)) (ucast h) = push_bit 8 (ucast m) + (ucast h :: u32)"
    by (rule disjunctive_add [symmetric]) (auto simp: bit_simps dest!: b)
  moreover have "or (push_bit 16 v) (ucast r) = push_bit 16 v + (ucast r :: u32)" for v
    by (rule disjunctive_add [symmetric]) (auto simp: bit_simps dest!: b16)
  ultimately have e: "new_version m h r = (ucast m * 256 + ucast h) * 65536 + ucast r"
    by (simp add: new_version_def push_bit_eq_mult)
  have u: "unat (ucast m :: u32) = unat m" "unat (ucast h :: u32) = unat h" "unat (ucast r :: u32) = unat r"
    by (simp_all add: unsigned_ucast_eq take_bit_nat_eq_self_iff less_trans [OF unat_u8_less]
        less_trans [OF unat_u16_less])
  have "unat m * 256 + unat h < 256 * 256 + 0"
    using digit_pair_less [of "unat h" 256 0 "unat m" 256] by simp
  then have "(unat m * 256 + unat h) * 65536 + unat r < 65536 * 65536 + 0"
    using digit_pair_less [of "unat r" 65536 0 "unat m * 256 + unat h" 65536] by simp
  then show ?thesis
    unfolding e by (simp add: unat_word_ariths u)
qed

lemma hardfork_mask_new_version: "hardfork_mask (new_version m h r) = new_version m h 0"
proof (rule bit_word_eqI)
  fix n assume "n < LENGTH(32)"
  have "n < 16" if "bit r n" using that bit_imp_le_length by force
  moreover have "bit (4294901760 :: u32) n \<longleftrightarrow> 16 \<le> n \<and> n < 32"
  proof -
    have "(4294901760 :: u32) = push_bit 16 (mask 16)" by (simp add: mask_eq_exp_minus_1)
    then show ?thesis by (simp only: bit_push_bit_iff bit_mask_iff possible_bit_word) auto
  qed
  ultimately show "bit (hardfork_mask (new_version m h r)) n \<longleftrightarrow> bit (new_version m h 0) n"
    by (auto simp: hardfork_mask_def new_version_def bit_simps)
qed

text \<open>Versions compare like the triples of their major, hardfork and revision numbers, and the
  comparison of a hardfork version with a version ignores the revision.\<close>

theorem version_order:
  "(version_less (new_version m h r) (new_version m' h' r') \<longleftrightarrow>
     m < m' \<or> m = m' \<and> (h < h' \<or> h = h' \<and> r < r')) \<and>
   (hardfork_less (new_hardfork_version m h) (new_version m' h' r') \<longleftrightarrow> m < m' \<or> m = m' \<and> h < h') \<and>
   (hardfork_eq (new_hardfork_version m h) (new_version m' h' r') \<longleftrightarrow> m = m' \<and> h = h')"
  unfolding version_less_def hardfork_less_def hardfork_eq_def new_hardfork_version_def
    hardfork_mask_new_version word_less_nat_alt word_unat_eq_iff new_version_val
  by (simp_all only: digit_pair_less digit_pair_eq unat_u8_less unat_u16_less) auto

section \<open>Text\<close>

text \<open>A number followed by something that is not a digit.\<close>

lemma takeWhile_digits:
  assumes "list_all is_digit ds" and "r = [] \<or> \<not> is_digit (hd r)"
  shows "takeWhile is_digit (ds @ r) = ds" "dropWhile is_digit (ds @ r) = r"
  using assms by (induction ds; cases r; auto)+

lemma digit_no_sign: "is_digit c \<Longrightarrow> c \<noteq> CHR ''-'' \<and> c \<noteq> CHR ''+''"
  by (auto simp: is_digit_def)

lemma sentry_id:
  "rest s = c # r \<Longrightarrow> \<not> is_space c \<Longrightarrow> \<not> eofbit s \<Longrightarrow> \<not> failbit s \<Longrightarrow> sentry s = (True, s)"
  by (simp add: sentry_def)

lemma read_u32_digits:
  assumes "n < 2 ^ 32" and "r = [] \<or> \<not> is_digit (hd r)"
  shows "read_u32 old \<lparr>rest = dec_digits n @ r, eofbit = False, failbit = False\<rparr> =
    (of_nat n, \<lparr>rest = r, eofbit = (r = []), failbit = False\<rparr>)"
proof -
  obtain c ds where d: "dec_digits n = c # ds" by (cases "dec_digits n") auto
  then have c: "is_digit c" using dec_digits_all [of n] by simp
  note tw = takeWhile_digits [OF dec_digits_all [of n] assms(2)]
  have "hd (dec_digits n) \<noteq> CHR ''-''" "hd (dec_digits n) \<noteq> CHR ''+''"
    using d digit_no_sign [OF c] by auto
  moreover have "sentry \<lparr>rest = dec_digits n @ r, eofbit = False, failbit = False\<rparr> =
      (True, \<lparr>rest = dec_digits n @ r, eofbit = False, failbit = False\<rparr>)"
    using d digit_not_space [OF c] by (simp add: sentry_id)
  ultimately show ?thesis
    using assms(1) tw unfolding read_u32_def by (simp del: dropWhile_eq_Nil_conv add: Let_def)
qed

lemma read_char_dot:
  "read_char old \<lparr>rest = CHR ''.'' # r, eofbit = False, failbit = False\<rparr> =
    (CHR ''.'', \<lparr>rest = r, eofbit = False, failbit = False\<rparr>)"
  by (simp add: read_char_def sentry_id is_space_def)

lemma version_parts:
  "or (or (push_bit 24 (and (drop_bit 24 v) 255)) (push_bit 16 (and (drop_bit 16 v) 255))) (and v 65535) = (v :: u32)"
proof (rule bit_word_eqI)
  fix n assume n: "n < LENGTH(32)"
  have "(65535 :: u32) = mask 16" by (simp add: mask_eq_exp_minus_1)
  then have m: "bit (65535 :: u32) n \<longleftrightarrow> n < 16"
    using n by (simp only: bit_mask_iff possible_bit_word) auto
  show "bit (or (or (push_bit 24 (and (drop_bit 24 v) 255)) (push_bit 16 (and (drop_bit 16 v) 255)))
      (and v 65535)) n \<longleftrightarrow> bit v n"
    using n m by (cases "24 \<le> n") (auto simp del: push_bit_and simp: bit_simps bit_255)
qed

lemma version_from_string: "version_from_variant (version_string v) = Inr v"
proof -
  have l: "and x 255 \<le> (255 :: u32)" "and x 65535 \<le> (65535 :: u32)" for x
    using word_and_le1 [of x 255] word_and_le1 [of x 65535] by simp_all
  have dot: "\<not> is_digit CHR ''.''" by (simp add: is_digit_def)
  have u: "unat (x :: u32) < 2 ^ 32" for x by simp
  show ?thesis
    unfolding version_from_variant_def version_string_def new_istream_def Let_def
    by (simp del: push_bit_and add: read_u32_digits [OF u] read_u32_digits [OF u, where r = "[]", simplified] read_char_dot dot l
        version_parts)
qed

text \<open>Every version, printed and read back, is the same version.\<close>

theorem version_text_round_trip: "version_from_variant (version_string v) = Inr v"
  by (rule version_from_string)

text \<open>The parser does not check that the last number is there: a text that ends after the second
  dot is read as revision 0.\<close>

theorem version_text_missing_revision:
  "version_from_variant ''1.2.'' = Inr (new_version 1 2 0)"
  by (simp add: version_from_variant_def new_istream_def read_u32_def read_char_def sentry_def
      is_space_def is_digit_def dec_value_def new_version_def fc_assert_def Let_def)

end
