(* ===== verification/Authority.thy ===== *)
theory Authority
  imports Config
begin

text \<open>
  Authorities and account names: \<open>protocol/authority.hpp\<close> and \<open>protocol/authority.cpp\<close>.  An
  authority is a threshold and two flat maps of weights, one of accounts and one of keys.
\<close>

section \<open>Data and operations\<close>

type_synonym weight_type = u16

record authority =
  weight_threshold :: u32
  account_auths :: "(account_name_type, weight_type) flat_map"
  key_auths :: "(public_key_type, weight_type) flat_map"

definition default_authority :: authority where
  "default_authority = \<lparr>weight_threshold = 0, account_auths = [], key_auths = []\<rparr>"

definition add_authority_key :: "public_key_type \<Rightarrow> weight_type \<Rightarrow> authority \<Rightarrow> authority" where
  "add_authority_key k w a = a\<lparr>key_auths := fm_put k w (key_auths a)\<rparr>"

definition add_authority_account :: "account_name_type \<Rightarrow> weight_type \<Rightarrow> authority \<Rightarrow> authority" where
  "add_authority_account k w a = a\<lparr>account_auths := fm_put k w (account_auths a)\<rparr>"

definition get_keys :: "authority \<Rightarrow> public_key_type list" where
  "get_keys a = map fst (key_auths a)"

definition is_impossible :: "authority \<Rightarrow> bool" where
  "is_impossible a =
     (let auth_weights = foldl (\<lambda>s item. s + ucast (snd item)) (0 :: u64) (account_auths a);
          auth_weights = foldl (\<lambda>s item. s + ucast (snd item)) auth_weights (key_auths a)
      in auth_weights < ucast (weight_threshold a))"

definition num_auths :: "authority \<Rightarrow> u32" where
  "num_auths a = of_nat (length (account_auths a) + length (key_auths a))"

definition clear :: "authority \<Rightarrow> authority" where
  "clear a = a\<lparr>account_auths := [], key_auths := []\<rparr>"

definition authority_eq :: "authority \<Rightarrow> authority \<Rightarrow> bool" where
  "authority_eq a b \<longleftrightarrow> weight_threshold a = weight_threshold b \<and>
     account_auths a = account_auths b \<and> key_auths a = key_auths b"

definition add_authority_accounts ::
  "account_name_type flat_set \<Rightarrow> authority \<Rightarrow> account_name_type flat_set" where
  "add_authority_accounts result a = foldl (\<lambda>r item. fs_insert (fst item) r) result (account_auths a)"

section \<open>Account names\<close>

definition is_lower :: "char \<Rightarrow> bool" where
  "is_lower c \<longleftrightarrow> 97 \<le> (of_char c :: nat) \<and> (of_char c :: nat) \<le> 122"

definition is_let_dig :: "char \<Rightarrow> bool" where
  "is_let_dig c \<longleftrightarrow> is_lower c \<or> (48 \<le> (of_char c :: nat) \<and> (of_char c :: nat) \<le> 57)"

definition is_let_dig_hyp :: "char \<Rightarrow> bool" where
  "is_let_dig_hyp c \<longleftrightarrow> is_let_dig c \<or> c = CHR ''-''"

definition find_first_of :: "char \<Rightarrow> string \<Rightarrow> nat \<Rightarrow> nat option" where
  "find_first_of c s from = map_option (\<lambda>p. from + p) (find_char c (drop from s))"

text \<open>One iteration of the \<open>while(true)\<close> loop per label, from position \<open>b\<close>.\<close>

function name_loop :: "string \<Rightarrow> nat \<Rightarrow> bool" where
  "name_loop name b =
     (let len = length name;
          e = (case find_first_of (CHR ''.'') name b of None \<Rightarrow> len | Some p \<Rightarrow> p)
      in if e - b < 3 then False
         else if \<not> is_lower (name ! b) then False
         else if \<not> is_let_dig (name ! (e - 1)) then False
         else if \<not> list_all (\<lambda>i. is_let_dig_hyp (name ! i)) [b + 1..<e - 1] then False
         else if e = len then True
         else name_loop name (e + 1))"
  by pat_completeness auto
termination
proof (relation "measure (\<lambda>(name, b). length name - b)", goal_cases)
  case (2 name b len e)
  have "e < length name"
    using 2 by (auto simp: find_first_of_def dest!: find_char_Some split: option.splits)
  then show ?case using 2 by simp
qed simp

declare name_loop.simps [simp del]

definition is_valid_account_name :: "string \<Rightarrow> bool" where
  "is_valid_account_name name =
     (let len = length name
      in if len < STEEMIT_MIN_ACCOUNT_NAME_LENGTH then False
         else if len > STEEMIT_MAX_ACCOUNT_NAME_LENGTH then False
         else name_loop name 0)"

definition authority_validate :: "authority \<Rightarrow> unit res" where
  "authority_validate a =
     run_checks (map (\<lambda>item. fc_assert (is_valid_account_name (fst item))
                               ''is_valid_account_name( item.first )'') (account_auths a))"

section \<open>The grammar of names\<close>

text \<open>The reference: a name is a dot-separated sequence of labels, each a letter, then letters,
  digits or hyphens, then a letter or digit, at least three characters in all.\<close>

fun split_dots :: "string \<Rightarrow> string list" where
  "split_dots [] = [[]]"
| "split_dots (c # s) =
     (if c = CHR ''.'' then [] # split_dots s
      else (case split_dots s of [] \<Rightarrow> [[c]] | l # ls \<Rightarrow> (c # l) # ls))"

definition valid_label :: "string \<Rightarrow> bool" where
  "valid_label l \<longleftrightarrow> 3 \<le> length l \<and> is_lower (hd l) \<and> is_let_dig (last l) \<and> list_all is_let_dig_hyp l"

lemma split_dots_ne [simp]: "split_dots s \<noteq> []"
  by (induction s) (auto split: list.splits)

lemma split_dots_None: "CHR ''.'' \<notin> set s \<Longrightarrow> split_dots s = [s]"
  by (induction s) auto

lemma split_dots_Some:
  "find_char (CHR ''.'') s = Some p \<Longrightarrow> split_dots s = take p s # split_dots (drop (Suc p) s)"
proof (induction s arbitrary: p)
  case (Cons c s)
  then show ?case by (cases p) (auto split: if_splits)
qed simp

lemma segment_nth: "e \<le> length xs \<Longrightarrow> take (e - b) (drop b xs) = map ((!) xs) [b..<e]"
  by (rule nth_equalityI) auto

lemma list_all_segment:
  "e \<le> length xs \<Longrightarrow>
   list_all P (take (e - b) (drop b xs)) \<longleftrightarrow> list_all (\<lambda>i. P (xs ! i)) [b..<e]"
  by (simp add: segment_nth list_all_iff)

lemma valid_label_segment:
  assumes "b + 3 \<le> e" "e \<le> length name"
  shows "valid_label (take (e - b) (drop b name)) \<longleftrightarrow>
    is_lower (name ! b) \<and> is_let_dig (name ! (e - 1)) \<and>
    list_all (\<lambda>i. is_let_dig_hyp (name ! i)) [b + 1..<e - 1]"
proof -
  let ?l = "take (e - b) (drop b name)"
  have len: "length ?l = e - b" using assms by simp
  have h: "hd ?l = name ! b" using assms by (simp add: hd_conv_nth)
  have t: "last ?l = name ! (e - 1)"
    using assms by (subst last_conv_nth) auto
  have split: "[b..<e] = b # [b + 1..<e - 1] @ [e - 1]"
    using assms by (simp add: upt_conv_Cons flip: upt_Suc_append)
  have "list_all is_let_dig_hyp ?l \<longleftrightarrow> list_all (\<lambda>i. is_let_dig_hyp (name ! i)) [b..<e]"
    using assms(2) by (simp add: list_all_segment)
  also have "\<dots> \<longleftrightarrow> is_let_dig_hyp (name ! b) \<and> is_let_dig_hyp (name ! (e - 1)) \<and>
      list_all (\<lambda>i. is_let_dig_hyp (name ! i)) [b + 1..<e - 1]"
    unfolding split by auto
  finally show ?thesis
    using assms len h t by (auto simp: valid_label_def is_let_dig_hyp_def is_let_dig_def)
qed

lemma name_loop_step:
  assumes "(case find_first_of (CHR ''.'') name b of None \<Rightarrow> length name | Some p \<Rightarrow> p) = e"
    and "b \<le> e" "e \<le> length name"
  shows "name_loop name b \<longleftrightarrow>
    valid_label (take (e - b) (drop b name)) \<and> (e = length name \<or> name_loop name (e + 1))"
proof (cases "b + 3 \<le> e")
  case True
  then have "(e - b < 3) = False" by simp
  then show ?thesis
    unfolding name_loop.simps [of name b] Let_def assms(1) valid_label_segment [OF True assms(3)]
    by auto
next
  case False
  then have "(e - b < 3) = True" by simp
  then show ?thesis
    unfolding name_loop.simps [of name b] Let_def assms(1) valid_label_def by simp
qed

lemma name_loop_labels:
  "b \<le> length name \<Longrightarrow> name_loop name b \<longleftrightarrow> list_all valid_label (split_dots (drop b name))"
proof (induction "length name - b" arbitrary: b rule: less_induct)
  case less
  show ?case
  proof (cases "find_char (CHR ''.'') (drop b name)")
    case None
    then have "split_dots (drop b name) = [drop b name]"
      by (simp add: find_char_None_iff split_dots_None)
    then show ?thesis
      using None less.prems name_loop_step [of name b "length name"]
      by (simp add: find_first_of_def)
  next
    case (Some p)
    have p: "b + p < length name" using find_char_Some [OF Some] by auto
    have s: "split_dots (drop b name) = take p (drop b name) # split_dots (drop (b + p + 1) name)"
      using split_dots_Some [OF Some] by (simp add: add.commute)
    have "name_loop name (b + p + 1) \<longleftrightarrow> list_all valid_label (split_dots (drop (b + p + 1) name))"
      using p by (intro less.hyps) auto
    then show ?thesis
      using Some p s name_loop_step [of name b "b + p"]
      by (auto simp: find_first_of_def)
  qed
qed

text \<open>C35: The scanning loop of \<open>is_valid_account_name\<close> accepts exactly the names of the documented
  grammar: 3 to 16 characters, a dot-separated sequence of labels of at least three characters
  that begin with a lower-case letter, end with a letter or digit and contain only letters, digits
  and hyphens.\<close>

theorem valid_account_name_grammar:
  "is_valid_account_name name \<longleftrightarrow>
     3 \<le> length name \<and> length name \<le> 16 \<and> list_all valid_label (split_dots name)"
  using name_loop_labels [of 0 name]
  by (auto simp: is_valid_account_name_def STEEMIT_MIN_ACCOUNT_NAME_LENGTH_def
      STEEMIT_MAX_ACCOUNT_NAME_LENGTH_def Let_def)

section \<open>Weights\<close>

text \<open>The sum of the weights of an authority, without the 64-bit bound.\<close>

definition total_weight :: "authority \<Rightarrow> nat" where
  "total_weight a = sum_list (map (unat \<circ> snd) (account_auths a)) +
     sum_list (map (unat \<circ> snd) (key_auths a))"

lemma foldl_weights:
  fixes s :: u64
  shows "unat s + sum_list (map (unat \<circ> snd) xs) < 2 ^ 64 \<Longrightarrow>
    unat (foldl (\<lambda>s item. s + ucast (snd item :: u16)) s xs) = unat s + sum_list (map (unat \<circ> snd) xs)"
proof (induction xs arbitrary: s)
  case (Cons x xs)
  have u: "unat (ucast (snd x) :: u64) = unat (snd x)"
    by (simp add: unsigned_ucast_eq take_bit_nat_eq_self_iff less_trans [OF unat_u16_less])
  have "unat (s + ucast (snd x)) = unat s + unat (snd x)"
    using Cons.prems u by (simp add: unat_word_ariths)
  then show ?case using Cons by simp
qed simp

lemma weights_bound: "sum_list (map (unat \<circ> (snd :: 'k \<times> u16 \<Rightarrow> u16)) xs) \<le> 65535 * length xs"
proof (induction xs)
  case (Cons x xs)
  have "unat (snd x) \<le> 65535" using unat_u16_less [of "snd x"] by linarith
  with Cons show ?case by simp
qed simp

text \<open>With fewer than 2^48 entries the 64-bit sum does not wrap, so an authority is impossible
  exactly when all its weights together stay below the threshold.\<close>

theorem is_impossible_sum:
  assumes "length (account_auths a) + length (key_auths a) < 2 ^ 48"
  shows "is_impossible a \<longleftrightarrow> total_weight a < unat (weight_threshold a)"
proof -
  have "total_weight a \<le> 65535 * (length (account_auths a) + length (key_auths a))"
    using weights_bound [of "account_auths a"] weights_bound [of "key_auths a"]
    by (simp add: total_weight_def)
  then have "total_weight a < 2 ^ 64" using assms by simp
  then have "unat (foldl (\<lambda>s item. s + ucast (snd item))
      (foldl (\<lambda>s item. s + ucast (snd item)) (0 :: u64) (account_auths a)) (key_auths a)) = total_weight a"
    by (simp add: total_weight_def foldl_weights)
  moreover have "unat (ucast (weight_threshold a) :: u64) = unat (weight_threshold a)"
    by (simp add: unsigned_ucast_eq take_bit_nat_eq_self_iff less_trans [OF unat_u32_less])
  ultimately show ?thesis
    by (simp add: is_impossible_def word_less_nat_alt)
qed

theorem is_impossible_sum_witness:
  "is_impossible \<lparr>weight_threshold = 3, account_auths = [(''alice'', 1)], key_auths = [(7, 1)]\<rparr>"
  using is_impossible_sum
    [of "\<lparr>weight_threshold = 3, account_auths = [(''alice'', 1)], key_auths = [(7, 1)]\<rparr>"]
  by (simp add: total_weight_def)

end
