(* ===== verification/Block_Header.thy ===== *)
theory Block_Header
  imports Version Authority
begin

text \<open>
  Block headers (\<open>protocol/block_header.hpp\<close> and the header part of \<open>protocol/block.cpp\<close>) and the
  cryptographic functions of the fc submodule that the protocol layer calls.  Those functions are
  the fields of the parameter record \<open>fc_crypto\<close>; nothing is assumed of them except where a theorem
  says so.  A hash object is the list of its words, as the public array \<open>_hash\<close> of the fc types:
  eight 32-bit words would be the same bytes as the four 64-bit words of \<open>fc::sha256\<close>.
\<close>

section \<open>Types\<close>

text \<open>\<open>fc::sha256\<close> is \<open>uint64_t _hash[4]\<close>, \<open>fc::ripemd160\<close> is \<open>uint32_t _hash[5]\<close>,
  \<open>fc::sha224\<close> is \<open>uint32_t _hash[7]\<close>, a compact signature is 65 bytes.\<close>

type_synonym digest_type = "u64 list"
type_synonym chain_id_type = digest_type
type_synonym block_id_type = "u32 list"
type_synonym checksum_type = "u32 list"
type_synonym transaction_id_type = "u32 list"
type_synonym signature_type = "u8 list"
type_synonym private_key_type = digest_type

definition null_digest :: digest_type where "null_digest = replicate 4 0"
definition null_id :: "u32 list" where "null_id = replicate 5 0"

record hardfork_version_vote =
  hf_version :: v_num
  hf_time :: time_point_sec

datatype block_header_extensions =
    ext_void
  | ext_version v_num
  | ext_hardfork_vote hardfork_version_vote

type_synonym block_header_extensions_type = "block_header_extensions list"

text \<open>\<open>extensions_type\<close>, a set of \<open>static_variant<void_t>\<close>.\<close>

type_synonym extensions_type = "unit list"

record block_header =
  previous :: block_id_type
  timestamp :: time_point_sec
  witness :: string
  transaction_merkle_root :: checksum_type
  extensions :: block_header_extensions_type

record signed_block_header = block_header +
  witness_signature :: signature_type

record pow2_input =
  pi_worker_account :: account_name_type
  pi_prev_block :: block_id_type
  pi_nonce :: u64

text \<open>\<open>fc::equihash::proof\<close>, a struct of public fields.\<close>

record equihash_proof =
  eqp_n :: u32
  eqp_k :: u32
  eqp_seed :: digest_type
  eqp_inputs :: "u32 list"

section \<open>Cryptographic functions\<close>

record fc_crypto =
  sha256_of_block_id :: "block_id_type \<Rightarrow> digest_type"
  sha256_of_digest :: "digest_type \<Rightarrow> digest_type"
  sha256_of_signature :: "signature_type \<Rightarrow> digest_type"
  sha256_of_key :: "public_key_type \<Rightarrow> digest_type"
  sha256_of_pair :: "digest_type \<times> digest_type \<Rightarrow> digest_type"
  sha256_of_work :: "digest_type \<times> public_key_type \<Rightarrow> digest_type"
  sha256_of_pow2_input :: "pow2_input \<Rightarrow> digest_type"
  sha256_of_inputs :: "u32 list \<Rightarrow> digest_type"
  sha256_of_header :: "block_header \<Rightarrow> digest_type"
  sha224_of_signed_header :: "signed_block_header \<Rightarrow> u32 list"
  ripemd160_of_digest :: "digest_type \<Rightarrow> checksum_type"
  approx_log_32 :: "digest_type \<Rightarrow> u32"
  recover_key :: "signature_type \<Rightarrow> digest_type \<Rightarrow> bool \<Rightarrow> public_key_type res"
  regenerate :: "digest_type \<Rightarrow> private_key_type"
  sign_compact :: "private_key_type \<Rightarrow> digest_type \<Rightarrow> bool \<Rightarrow> signature_type"
  equihash_hash :: "nat \<Rightarrow> nat \<Rightarrow> digest_type \<Rightarrow> equihash_proof"
  equihash_is_valid :: "equihash_proof \<Rightarrow> bool"

section \<open>Operations on headers\<close>

definition header_digest :: "fc_crypto \<Rightarrow> ('a) block_header_scheme \<Rightarrow> digest_type" where
  "header_digest K h = sha256_of_header K (block_header.truncate h)"

definition num_from_id :: "fc_lib \<Rightarrow> block_id_type \<Rightarrow> u32" where
  "num_from_id L i = endian_reverse_u32 L (i ! 0)"

definition block_num :: "fc_lib \<Rightarrow> ('a) block_header_scheme \<Rightarrow> u32" where
  "block_num L h = num_from_id L (previous h) + 1"

definition header_id :: "fc_lib \<Rightarrow> fc_crypto \<Rightarrow> ('a) signed_block_header_scheme \<Rightarrow> block_id_type" where
  "header_id L K h =
     (let tmp = sha224_of_signed_header K (signed_block_header.truncate h);
          tmp = tmp[0 := endian_reverse_u32 L (block_num L h)]
      in take 5 tmp)"

definition signee :: "fc_crypto \<Rightarrow> ('a) signed_block_header_scheme \<Rightarrow> public_key_type res" where
  "signee K h = recover_key K (witness_signature h) (header_digest K h) True"

definition sign_header ::
  "fc_crypto \<Rightarrow> private_key_type \<Rightarrow> ('a) signed_block_header_scheme \<Rightarrow> ('a) signed_block_header_scheme" where
  "sign_header K signer h = h\<lparr>witness_signature := sign_compact K signer (header_digest K h) True\<rparr>"

definition validate_signee ::
  "fc_crypto \<Rightarrow> public_key_type \<Rightarrow> ('a) signed_block_header_scheme \<Rightarrow> bool res" where
  "validate_signee K expected_signee h = rbind (signee K h) (\<lambda>k. Inr (k = expected_signee))"

section \<open>Properties\<close>

text \<open>A SHA-224 value has seven words.\<close>

definition sha224_laws :: "fc_crypto \<Rightarrow> bool" where
  "sha224_laws K \<longleftrightarrow> (\<forall>h. length (sha224_of_signed_header K h) = 7)"

text \<open>Signing a digest and recovering the key gives the public key of the signer.\<close>

definition signature_laws :: "fc_crypto \<Rightarrow> (private_key_type \<Rightarrow> public_key_type) \<Rightarrow> bool" where
  "signature_laws K pub \<longleftrightarrow> (\<forall>s d. recover_key K (sign_compact K s d True) d True = Inr (pub s))"

lemma header_digest_unsigned [simp]:
  "header_digest K (h\<lparr>witness_signature := s\<rparr>) = header_digest K h"
  by (simp add: header_digest_def block_header.truncate_def)

lemma num_from_header_id:
  assumes "endian_laws L" and "sha224_laws K"
  shows "num_from_id L (header_id L K h) = block_num L h"
proof -
  obtain w ws where w: "sha224_of_signed_header K (signed_block_header.truncate h) = w # ws"
    using assms(2) by (metis sha224_laws_def length_Cons list.size(3) neq_Nil_conv zero_neq_numeral)
  show ?thesis
    using assms(1) by (simp add: num_from_id_def header_id_def endian_laws_def w Let_def nth_append)
qed

text \<open>A concrete choice of the cryptographic functions, for the witnesses: a signature is the bytes
  of the signer's first word, a hash is constant.\<close>

definition crypto_ref :: fc_crypto where
  "crypto_ref = \<lparr>
     sha256_of_block_id = (\<lambda>_. null_digest), sha256_of_digest = (\<lambda>d. d),
     sha256_of_signature = (\<lambda>_. null_digest), sha256_of_key = (\<lambda>k. [of_nat k, 1, 1, 1]),
     sha256_of_pair = fst, sha256_of_work = fst, sha256_of_pow2_input = (\<lambda>_. null_digest),
     sha256_of_inputs = (\<lambda>_. null_digest), sha256_of_header = (\<lambda>_. null_digest),
     sha224_of_signed_header = (\<lambda>_. replicate 7 0), ripemd160_of_digest = (\<lambda>_. null_id),
     approx_log_32 = (\<lambda>_. 0),
     recover_key = (\<lambda>s d c. case s of [] \<Rightarrow> Inl (library_exception ''recover'') | b # _ \<Rightarrow> Inr (unat b)),
     regenerate = (\<lambda>d. d),
     sign_compact = (\<lambda>s d c. [ucast (hd s)]),
     equihash_hash = (\<lambda>n k s. \<lparr>eqp_n = of_nat n, eqp_k = of_nat k, eqp_seed = s, eqp_inputs = []\<rparr>),
     equihash_is_valid = (\<lambda>_. True)\<rparr>"

lemma sha224_laws_ref [simp]: "sha224_laws crypto_ref"
  by (simp add: sha224_laws_def crypto_ref_def)

lemma signature_laws_ref [simp]: "signature_laws crypto_ref (\<lambda>s. unat (ucast (hd s) :: u8))"
  by (simp add: signature_laws_def crypto_ref_def)

text \<open>The number of a block can be read back from its id: \<open>num_from_id(id()) = block_num()\<close>, and a
  block built on it has the next number.\<close>

theorem block_num_in_id:
  assumes "endian_laws L" and "sha224_laws K"
  shows "num_from_id L (header_id L K h) = block_num L h \<and>
    (previous h' = header_id L K h \<longrightarrow> block_num L h' = block_num L h + 1)"
  by (simp add: block_num_def [of L h'] num_from_header_id [OF assms])

definition sample_header :: signed_block_header where
  "sample_header = \<lparr>previous = [0x05000000, 1, 2, 3, 4], timestamp = 30, witness = ''alice'',
     transaction_merkle_root = null_id, extensions = [], witness_signature = [7]\<rparr>"

theorem block_num_in_id_witness:
  "num_from_id fc_ref (header_id fc_ref crypto_ref sample_header) = 6"
proof -
  have "num_from_id fc_ref (header_id fc_ref crypto_ref sample_header) = block_num fc_ref sample_header"
    using block_num_in_id [of fc_ref crypto_ref sample_header sample_header] by simp
  then show ?thesis
    by (simp add: block_num_def num_from_id_def fc_ref_def swap_halves_def sample_header_def)
qed

text \<open>A header signed with a key validates against the public key of that key, and against no
  other.\<close>

theorem signed_header_validates:
  assumes "signature_laws K pub"
  shows "validate_signee K k (sign_header K s h) = Inr (k = pub s)"
  using assms by (auto simp: validate_signee_def signee_def sign_header_def signature_laws_def)

theorem signed_header_validates_witness:
  "validate_signee crypto_ref 9 (sign_header crypto_ref [9, 0, 0, 0] sample_header) = Inr True"
  using signed_header_validates [OF signature_laws_ref, of 9 "[9, 0, 0, 0]" sample_header] by simp

end
