(* ===== verification/Operations.thy ===== *)
theory Operations
  imports Block_Header
begin

text \<open>
  The operations of the protocol as data: the structs of \<open>protocol/steem_operations.hpp\<close> and
  \<open>protocol/steem_virtual_operations.hpp\<close> as records, in the order of the source, and the variant
  \<open>operation\<close> of \<open>protocol/operations.hpp\<close>.  The fields of a struct carry a short prefix that
  names the struct, since many structs share field names; the rest of the name is the source's.
\<close>

section \<open>Operations\<close>

record account_create_operation =
  ac_fee :: asset
  ac_creator :: account_name_type
  ac_new_account_name :: account_name_type
  ac_owner :: authority
  ac_active :: authority
  ac_posting :: authority
  ac_memo_key :: public_key_type
  ac_json_metadata :: string

record account_create_with_delegation_operation =
  acd_fee :: asset
  acd_delegation :: asset
  acd_creator :: account_name_type
  acd_new_account_name :: account_name_type
  acd_owner :: authority
  acd_active :: authority
  acd_posting :: authority
  acd_memo_key :: public_key_type
  acd_json_metadata :: string
  acd_extensions :: extensions_type

record account_update_operation =
  au_account :: account_name_type
  au_owner :: "authority option"
  au_active :: "authority option"
  au_posting :: "authority option"
  au_memo_key :: public_key_type
  au_json_metadata :: string

record comment_operation =
  co_parent_author :: account_name_type
  co_parent_permlink :: string
  co_author :: account_name_type
  co_permlink :: string
  co_title :: string
  co_body :: string
  co_json_metadata :: string

record beneficiary_route_type =
  br_account :: account_name_type
  br_weight :: u16

definition route_less :: "beneficiary_route_type \<Rightarrow> beneficiary_route_type \<Rightarrow> bool" where
  "route_less a b \<longleftrightarrow> br_account a < br_account b"

record comment_payout_beneficiaries =
  beneficiaries :: "beneficiary_route_type list"

text \<open>A \<open>static_variant\<close> with one alternative.\<close>

datatype comment_options_extension = ext_beneficiaries comment_payout_beneficiaries

type_synonym comment_options_extensions_type = "comment_options_extension list"

record comment_options_operation =
  cop_author :: account_name_type
  cop_permlink :: string
  cop_max_accepted_payout :: asset
  cop_percent_steem_dollars :: u16
  cop_allow_votes :: bool
  cop_allow_curation_rewards :: bool
  cop_extensions :: comment_options_extensions_type

record challenge_authority_operation =
  ch_challenger :: account_name_type
  ch_challenged :: account_name_type
  ch_require_owner :: bool

record prove_authority_operation =
  pr_challenged :: account_name_type
  pr_require_owner :: bool

record delete_comment_operation =
  dc_author :: account_name_type
  dc_permlink :: string

record vote_operation =
  vo_voter :: account_name_type
  vo_author :: account_name_type
  vo_permlink :: string
  vo_weight :: int

record transfer_operation =
  tr_from :: account_name_type
  tr_to :: account_name_type
  tr_amount :: asset
  tr_memo :: string

record escrow_transfer_operation =
  et_from :: account_name_type
  et_to :: account_name_type
  et_agent :: account_name_type
  et_escrow_id :: u32
  et_sbd_amount :: asset
  et_steem_amount :: asset
  et_fee :: asset
  et_ratification_deadline :: time_point_sec
  et_escrow_expiration :: time_point_sec
  et_json_meta :: string

record escrow_approve_operation =
  ea_from :: account_name_type
  ea_to :: account_name_type
  ea_agent :: account_name_type
  ea_who :: account_name_type
  ea_escrow_id :: u32
  ea_approve :: bool

record escrow_dispute_operation =
  ed_from :: account_name_type
  ed_to :: account_name_type
  ed_agent :: account_name_type
  ed_who :: account_name_type
  ed_escrow_id :: u32

record escrow_release_operation =
  er_from :: account_name_type
  er_to :: account_name_type
  er_agent :: account_name_type
  er_who :: account_name_type
  er_receiver :: account_name_type
  er_escrow_id :: u32
  er_sbd_amount :: asset
  er_steem_amount :: asset

record transfer_to_vesting_operation =
  tv_from :: account_name_type
  tv_to :: account_name_type
  tv_amount :: asset

record withdraw_vesting_operation =
  wv_account :: account_name_type
  wv_vesting_shares :: asset

record set_withdraw_vesting_route_operation =
  sr_from_account :: account_name_type
  sr_to_account :: account_name_type
  sr_percent :: u16
  sr_auto_vest :: bool

record chain_properties =
  cp_account_creation_fee :: asset
  cp_maximum_block_size :: u32
  cp_sbd_interest_rate :: u16

record witness_update_operation =
  wu_owner :: account_name_type
  wu_url :: string
  wu_block_signing_key :: public_key_type
  wu_props :: chain_properties
  wu_fee :: asset

record account_witness_vote_operation =
  awv_account :: account_name_type
  awv_witness :: account_name_type
  awv_approve :: bool

record account_witness_proxy_operation =
  awp_account :: account_name_type
  awp_proxy :: account_name_type

record custom_operation =
  cu_required_auths :: "account_name_type flat_set"
  cu_id :: u16
  cu_data :: "u8 list"

record custom_json_operation =
  cj_required_auths :: "account_name_type flat_set"
  cj_required_posting_auths :: "account_name_type flat_set"
  cj_id :: string
  cj_json :: string

record custom_binary_operation =
  cb_required_owner_auths :: "account_name_type flat_set"
  cb_required_active_auths :: "account_name_type flat_set"
  cb_required_posting_auths :: "account_name_type flat_set"
  cb_required_auths :: "authority list"
  cb_id :: string
  cb_data :: "u8 list"

record feed_publish_operation =
  fp_publisher :: account_name_type
  fp_exchange_rate :: price

record convert_operation =
  cv_owner :: account_name_type
  cv_requestid :: u32
  cv_amount :: asset

record limit_order_create_operation =
  lo_owner :: account_name_type
  lo_orderid :: u32
  lo_amount_to_sell :: asset
  lo_min_to_receive :: asset
  lo_fill_or_kill :: bool
  lo_expiration :: time_point_sec

record limit_order_create2_operation =
  lo2_owner :: account_name_type
  lo2_orderid :: u32
  lo2_amount_to_sell :: asset
  lo2_fill_or_kill :: bool
  lo2_exchange_rate :: price
  lo2_expiration :: time_point_sec

record limit_order_cancel_operation =
  lc_owner :: account_name_type
  lc_orderid :: u32

record pow =
  pow_worker :: public_key_type
  pow_input :: digest_type
  pow_signature :: signature_type
  pow_work :: digest_type

record pow_operation =
  po_worker_account :: account_name_type
  po_block_id :: block_id_type
  po_nonce :: u64
  po_work :: pow
  po_props :: chain_properties

record pow2 =
  p2_input :: pow2_input
  p2_pow_summary :: u32

record equihash_pow =
  eq_input :: pow2_input
  eq_proof :: equihash_proof
  eq_prev_block :: block_id_type
  eq_pow_summary :: u32

datatype pow2_work = work_pow2 pow2 | work_equihash equihash_pow

record pow2_operation =
  p2o_work :: pow2_work
  p2o_new_owner_key :: "public_key_type option"
  p2o_props :: chain_properties

record report_over_production_operation =
  ro_reporter :: account_name_type
  ro_first_block :: signed_block_header
  ro_second_block :: signed_block_header

record request_account_recovery_operation =
  rar_recovery_account :: account_name_type
  rar_account_to_recover :: account_name_type
  rar_new_owner_authority :: authority
  rar_extensions :: extensions_type

record recover_account_operation =
  ra_account_to_recover :: account_name_type
  ra_new_owner_authority :: authority
  ra_recent_owner_authority :: authority
  ra_extensions :: extensions_type

record reset_account_operation =
  rs_reset_account :: account_name_type
  rs_account_to_reset :: account_name_type
  rs_new_owner_authority :: authority

record set_reset_account_operation =
  srs_account :: account_name_type
  srs_current_reset_account :: account_name_type
  srs_reset_account :: account_name_type

record change_recovery_account_operation =
  cr_account_to_recover :: account_name_type
  cr_new_recovery_account :: account_name_type
  cr_extensions :: extensions_type

record transfer_to_savings_operation =
  ts_from :: account_name_type
  ts_to :: account_name_type
  ts_amount :: asset
  ts_memo :: string

record transfer_from_savings_operation =
  tfs_from :: account_name_type
  tfs_request_id :: u32
  tfs_to :: account_name_type
  tfs_amount :: asset
  tfs_memo :: string

record cancel_transfer_from_savings_operation =
  cts_from :: account_name_type
  cts_request_id :: u32

record decline_voting_rights_operation =
  dv_account :: account_name_type
  dv_decline :: bool

record claim_reward_balance_operation =
  cl_account :: account_name_type
  cl_reward_steem :: asset
  cl_reward_sbd :: asset
  cl_reward_vests :: asset

record delegate_vesting_shares_operation =
  dl_delegator :: account_name_type
  dl_delegatee :: account_name_type
  dl_vesting_shares :: asset

section \<open>Virtual operations\<close>

record author_reward_operation =
  var_author :: account_name_type
  var_permlink :: string
  var_sbd_payout :: asset
  var_steem_payout :: asset
  var_vesting_payout :: asset

record curation_reward_operation =
  vcr_curator :: account_name_type
  vcr_reward :: asset
  vcr_comment_author :: account_name_type
  vcr_comment_permlink :: string

record comment_reward_operation =
  vco_author :: account_name_type
  vco_permlink :: string
  vco_payout :: asset

record liquidity_reward_operation =
  vlr_owner :: account_name_type
  vlr_payout :: asset

record interest_operation =
  vin_owner :: account_name_type
  vin_interest :: asset

record fill_convert_request_operation =
  vfc_owner :: account_name_type
  vfc_requestid :: u32
  vfc_amount_in :: asset
  vfc_amount_out :: asset

record fill_vesting_withdraw_operation =
  vfw_from_account :: account_name_type
  vfw_to_account :: account_name_type
  vfw_withdrawn :: asset
  vfw_deposited :: asset

record shutdown_witness_operation =
  vsw_owner :: account_name_type

record fill_order_operation =
  vfo_current_owner :: account_name_type
  vfo_current_orderid :: u32
  vfo_current_pays :: asset
  vfo_open_owner :: account_name_type
  vfo_open_orderid :: u32
  vfo_open_pays :: asset

record fill_transfer_from_savings_operation =
  vfs_from :: account_name_type
  vfs_to :: account_name_type
  vfs_amount :: asset
  vfs_request_id :: u32
  vfs_memo :: string

record hardfork_operation =
  vhf_hardfork_id :: u32

record comment_payout_update_operation =
  vcp_author :: account_name_type
  vcp_permlink :: string

record return_vesting_delegation_operation =
  vrd_account :: account_name_type
  vrd_vesting_shares :: asset

record comment_benefactor_reward_operation =
  vbr_benefactor :: account_name_type
  vbr_author :: account_name_type
  vbr_permlink :: string
  vbr_reward :: asset

record producer_reward_operation =
  vpr_producer :: account_name_type
  vpr_vesting_shares :: asset

section \<open>The variant\<close>

datatype (plugins only:) operation =
    Op_vote vote_operation
  | Op_comment comment_operation
  | Op_transfer transfer_operation
  | Op_transfer_to_vesting transfer_to_vesting_operation
  | Op_withdraw_vesting withdraw_vesting_operation
  | Op_limit_order_create limit_order_create_operation
  | Op_limit_order_cancel limit_order_cancel_operation
  | Op_feed_publish feed_publish_operation
  | Op_convert convert_operation
  | Op_account_create account_create_operation
  | Op_account_update account_update_operation
  | Op_witness_update witness_update_operation
  | Op_account_witness_vote account_witness_vote_operation
  | Op_account_witness_proxy account_witness_proxy_operation
  | Op_pow pow_operation
  | Op_custom custom_operation
  | Op_report_over_production report_over_production_operation
  | Op_delete_comment delete_comment_operation
  | Op_custom_json custom_json_operation
  | Op_comment_options comment_options_operation
  | Op_set_withdraw_vesting_route set_withdraw_vesting_route_operation
  | Op_limit_order_create2 limit_order_create2_operation
  | Op_challenge_authority challenge_authority_operation
  | Op_prove_authority prove_authority_operation
  | Op_request_account_recovery request_account_recovery_operation
  | Op_recover_account recover_account_operation
  | Op_change_recovery_account change_recovery_account_operation
  | Op_escrow_transfer escrow_transfer_operation
  | Op_escrow_dispute escrow_dispute_operation
  | Op_escrow_release escrow_release_operation
  | Op_pow2 pow2_operation
  | Op_escrow_approve escrow_approve_operation
  | Op_transfer_to_savings transfer_to_savings_operation
  | Op_transfer_from_savings transfer_from_savings_operation
  | Op_cancel_transfer_from_savings cancel_transfer_from_savings_operation
  | Op_custom_binary custom_binary_operation
  | Op_decline_voting_rights decline_voting_rights_operation
  | Op_reset_account reset_account_operation
  | Op_set_reset_account set_reset_account_operation
  | Op_claim_reward_balance claim_reward_balance_operation
  | Op_delegate_vesting_shares delegate_vesting_shares_operation
  | Op_account_create_with_delegation account_create_with_delegation_operation
  | Op_fill_convert_request fill_convert_request_operation
  | Op_author_reward author_reward_operation
  | Op_curation_reward curation_reward_operation
  | Op_comment_reward comment_reward_operation
  | Op_liquidity_reward liquidity_reward_operation
  | Op_interest interest_operation
  | Op_fill_vesting_withdraw fill_vesting_withdraw_operation
  | Op_fill_order fill_order_operation
  | Op_shutdown_witness shutdown_witness_operation
  | Op_fill_transfer_from_savings fill_transfer_from_savings_operation
  | Op_hardfork hardfork_operation
  | Op_comment_payout_update comment_payout_update_operation
  | Op_return_vesting_delegation return_vesting_delegation_operation
  | Op_comment_benefactor_reward comment_benefactor_reward_operation
  | Op_producer_reward producer_reward_operation

end
