(* ===== verification/Operations_Validate.thy ===== *)
theory Operations_Validate
  imports Operations
begin

text \<open>
  The stateless checks of operations, \<open>validate()\<close> of every struct (\<open>protocol/steem_operations.cpp\<close>
  and the inline ones of \<open>steem_operations.hpp\<close>), and the authorities an operation requires
  (the \<open>get_required_*\<close> members and the visitors of \<open>protocol/operation_util_impl.hpp\<close>).  A
  \<open>validate()\<close> is the list of its checks in source order; the first failing one throws.
\<close>

section \<open>Checks shared by operations\<close>

definition validate_account_name :: "string \<Rightarrow> unit res" where
  "validate_account_name name =
     fc_assert (is_valid_account_name name) ''Account name ${n} is invalid''"

definition validate_permlink :: "fc_lib \<Rightarrow> string \<Rightarrow> unit res" where
  "validate_permlink L permlink = run_checks [
     fc_assert (length permlink < STEEMIT_MAX_PERMLINK_LENGTH) ''permlink is too long'',
     fc_assert (is_utf8 L permlink) ''permlink not formatted in UTF8'']"

definition is_asset_type :: "asset \<Rightarrow> asset_symbol_type \<Rightarrow> bool" where
  "is_asset_type a s \<longleftrightarrow> symbol a = s"

text \<open>\<open>FC_ASSERT\<close> of a comparison that may itself throw.\<close>

definition assert_res :: "bool res \<Rightarrow> string \<Rightarrow> unit res" where
  "assert_res m msg = rbind m (\<lambda>b. fc_assert b msg)"

text \<open>The guarded check of optional JSON metadata.\<close>

definition validate_json_metadata :: "fc_lib \<Rightarrow> string \<Rightarrow> unit res" where
  "validate_json_metadata L s = when_res (length s > 0) (run_checks [
     fc_assert (is_utf8 L s) ''JSON Metadata not formatted in UTF8'',
     fc_assert (json_is_valid L s) ''JSON Metadata not valid JSON''])"

section \<open>Accounts\<close>

definition validate_account_create :: "fc_lib \<Rightarrow> account_create_operation \<Rightarrow> unit res" where
  "validate_account_create L op = run_checks [
     validate_account_name (ac_new_account_name op),
     fc_assert (is_asset_type (ac_fee op) STEEM_SYMBOL) ''Account creation fee must be STEEM'',
     authority_validate (ac_owner op),
     authority_validate (ac_active op),
     validate_json_metadata L (ac_json_metadata op),
     assert_res (asset_ge (ac_fee op) (mk_asset 0 STEEM_SYMBOL)) ''Account creation fee cannot be negative'']"

definition validate_account_create_with_delegation ::
  "fc_lib \<Rightarrow> account_create_with_delegation_operation \<Rightarrow> unit res" where
  "validate_account_create_with_delegation L op = run_checks [
     validate_account_name (acd_new_account_name op),
     validate_account_name (acd_creator op),
     fc_assert (is_asset_type (acd_fee op) STEEM_SYMBOL) ''Account creation fee must be STEEM'',
     fc_assert (is_asset_type (acd_delegation op) VESTS_SYMBOL) ''Delegation must be VESTS'',
     authority_validate (acd_owner op),
     authority_validate (acd_active op),
     authority_validate (acd_posting op),
     validate_json_metadata L (acd_json_metadata op),
     assert_res (asset_ge (acd_fee op) (mk_asset 0 STEEM_SYMBOL)) ''Account creation fee cannot be negative'',
     assert_res (asset_ge (acd_delegation op) (mk_asset 0 VESTS_SYMBOL)) ''Delegation cannot be negative'']"

definition validate_account_update :: "fc_lib \<Rightarrow> account_update_operation \<Rightarrow> unit res" where
  "validate_account_update L op = run_checks [
     validate_account_name (au_account op),
     validate_json_metadata L (au_json_metadata op)]"

section \<open>Comments and votes\<close>

definition validate_comment :: "fc_lib \<Rightarrow> comment_operation \<Rightarrow> unit res" where
  "validate_comment L op = run_checks [
     fc_assert (length (co_title op) < 256) ''Title larger than size limit'',
     fc_assert (is_utf8 L (co_title op)) ''Title not formatted in UTF8'',
     fc_assert (length (co_body op) > 0) ''Body is empty'',
     fc_assert (is_utf8 L (co_body op)) ''Body not formatted in UTF8'',
     when_res (length (co_parent_author op) > 0) (validate_account_name (co_parent_author op)),
     validate_account_name (co_author op),
     validate_permlink L (co_parent_permlink op),
     validate_permlink L (co_permlink op),
     when_res (length (co_json_metadata op) > 0)
       (fc_assert (json_is_valid L (co_json_metadata op)) ''JSON Metadata not valid JSON'')]"

text \<open>The loop from index 1 on: \<open>prev\<close> is \<open>beneficiaries[i - 1]\<close>, \<open>sum\<close> the 32-bit sum so far.\<close>

fun validate_beneficiaries_from ::
  "beneficiary_route_type \<Rightarrow> u32 \<Rightarrow> beneficiary_route_type list \<Rightarrow> unit res" where
  "validate_beneficiaries_from prev s [] = Inr ()"
| "validate_beneficiaries_from prev s (b # bs) =
     rbind (validate_account_name (br_account b)) (\<lambda>_.
     rbind (fc_assert (unat (br_weight b) \<le> STEEMIT_100_PERCENT)
              ''Cannot allocate more than 100% of rewards to one account'') (\<lambda>_.
     let s = s + ucast (br_weight b)
     in rbind (fc_assert (unat s \<le> STEEMIT_100_PERCENT)
                 ''Cannot allocate more than 100% of rewards to a comment'') (\<lambda>_.
        rbind (fc_assert (route_less prev b)
                 ''Benficiaries must be specified in sorted order (account ascending)'') (\<lambda>_.
        validate_beneficiaries_from b s bs))))"

definition validate_comment_payout_beneficiaries :: "comment_payout_beneficiaries \<Rightarrow> unit res" where
  "validate_comment_payout_beneficiaries cpb =
     (let bs = beneficiaries cpb;
          s = 0 + ucast (br_weight (hd bs)) :: u32
      in run_checks [
        fc_assert (length bs \<noteq> 0) ''Must specify at least one beneficiary'',
        fc_assert (length bs < 128) ''Cannot specify more than 127 beneficiaries.'',
        validate_account_name (br_account (hd bs)),
        fc_assert (unat (br_weight (hd bs)) \<le> STEEMIT_100_PERCENT)
          ''Cannot allocate more than 100% of rewards to one account'',
        fc_assert (unat s \<le> STEEMIT_100_PERCENT)
          ''Cannot allocate more than 100% of rewards to a comment'',
        validate_beneficiaries_from (hd bs) s (tl bs)])"

definition validate_comment_options_extension :: "comment_options_extension \<Rightarrow> unit res" where
  "validate_comment_options_extension e =
     (case e of ext_beneficiaries cpb \<Rightarrow> validate_comment_payout_beneficiaries cpb)"

definition validate_comment_options :: "fc_lib \<Rightarrow> comment_options_operation \<Rightarrow> unit res" where
  "validate_comment_options L op = run_checks ([
     validate_account_name (cop_author op),
     fc_assert (unat (cop_percent_steem_dollars op) \<le> STEEMIT_100_PERCENT) ''Percent cannot exceed 100%'',
     fc_assert (symbol (cop_max_accepted_payout op) = SBD_SYMBOL) ''Max accepted payout must be in SBD'',
     fc_assert (amount (cop_max_accepted_payout op) \<ge> 0) ''Cannot accept less than 0 payout'',
     validate_permlink L (cop_permlink op)]
     @ map validate_comment_options_extension (cop_extensions op))"

definition validate_delete_comment :: "fc_lib \<Rightarrow> delete_comment_operation \<Rightarrow> unit res" where
  "validate_delete_comment L op = run_checks [
     validate_permlink L (dc_permlink op),
     validate_account_name (dc_author op)]"

definition validate_challenge_authority :: "challenge_authority_operation \<Rightarrow> unit res" where
  "validate_challenge_authority op = run_checks [
     validate_account_name (ch_challenger op),
     validate_account_name (ch_challenged op),
     fc_assert (ch_challenged op \<noteq> ch_challenger op) ''cannot challenge yourself'']"

definition validate_prove_authority :: "prove_authority_operation \<Rightarrow> unit res" where
  "validate_prove_authority op = validate_account_name (pr_challenged op)"

definition validate_vote :: "fc_lib \<Rightarrow> vote_operation \<Rightarrow> unit res" where
  "validate_vote L op = run_checks [
     validate_account_name (vo_voter op),
     validate_account_name (vo_author op),
     fc_assert (\<bar>vo_weight op\<bar> \<le> int STEEMIT_100_PERCENT) ''Weight is not a STEEMIT percentage'',
     validate_permlink L (vo_permlink op)]"

section \<open>Transfers, vesting and witnesses\<close>

definition validate_transfer :: "fc_lib \<Rightarrow> transfer_operation \<Rightarrow> unit res" where
  "validate_transfer L op = run_checks [
     validate_account_name (tr_from op),
     validate_account_name (tr_to op),
     fc_assert (symbol (tr_amount op) \<noteq> VESTS_SYMBOL) ''transferring of Steem Power (STMP) is not allowed.'',
     fc_assert (amount (tr_amount op) > 0) ''Cannot transfer a negative amount (aka: stealing)'',
     fc_assert (length (tr_memo op) < STEEMIT_MAX_MEMO_SIZE) ''Memo is too large'',
     fc_assert (is_utf8 L (tr_memo op)) ''Memo is not UTF8'']"

definition validate_transfer_to_vesting :: "transfer_to_vesting_operation \<Rightarrow> unit res" where
  "validate_transfer_to_vesting op = run_checks [
     validate_account_name (tv_from op),
     fc_assert (is_asset_type (tv_amount op) STEEM_SYMBOL) ''Amount must be STEEM'',
     when_res (tv_to op \<noteq> '''') (validate_account_name (tv_to op)),
     assert_res (asset_greater (tv_amount op) (mk_asset 0 STEEM_SYMBOL)) ''Must transfer a nonzero amount'']"

definition validate_withdraw_vesting :: "withdraw_vesting_operation \<Rightarrow> unit res" where
  "validate_withdraw_vesting op = run_checks [
     validate_account_name (wv_account op),
     fc_assert (is_asset_type (wv_vesting_shares op) VESTS_SYMBOL) ''Amount must be VESTS'']"

definition validate_set_withdraw_vesting_route :: "set_withdraw_vesting_route_operation \<Rightarrow> unit res" where
  "validate_set_withdraw_vesting_route op = run_checks [
     validate_account_name (sr_from_account op),
     validate_account_name (sr_to_account op),
     fc_assert (0 \<le> unat (sr_percent op) \<and> unat (sr_percent op) \<le> STEEMIT_100_PERCENT)
       ''Percent must be valid steemit percent'']"

definition validate_chain_properties :: "chain_properties \<Rightarrow> unit res" where
  "validate_chain_properties p = run_checks [
     fc_assert (amount (cp_account_creation_fee p) \<ge> STEEMIT_MIN_ACCOUNT_CREATION_FEE)
       ''account_creation_fee.amount >= STEEMIT_MIN_ACCOUNT_CREATION_FEE'',
     fc_assert (unat (cp_maximum_block_size p) \<ge> STEEMIT_MIN_BLOCK_SIZE_LIMIT)
       ''maximum_block_size >= STEEMIT_MIN_BLOCK_SIZE_LIMIT'',
     fc_assert (cp_sbd_interest_rate p \<ge> 0) ''sbd_interest_rate >= 0'',
     fc_assert (unat (cp_sbd_interest_rate p) \<le> STEEMIT_100_PERCENT)
       ''sbd_interest_rate <= STEEMIT_100_PERCENT'']"

definition validate_witness_update :: "fc_lib \<Rightarrow> witness_update_operation \<Rightarrow> unit res" where
  "validate_witness_update L op = run_checks [
     validate_account_name (wu_owner op),
     fc_assert (length (wu_url op) > 0) ''URL size must be greater than 0'',
     fc_assert (is_utf8 L (wu_url op)) ''URL is not valid UTF8'',
     assert_res (asset_ge (wu_fee op) (mk_asset 0 STEEM_SYMBOL)) ''Fee cannot be negative'',
     validate_chain_properties (wu_props op)]"

definition validate_account_witness_vote :: "account_witness_vote_operation \<Rightarrow> unit res" where
  "validate_account_witness_vote op = run_checks [
     validate_account_name (awv_account op),
     validate_account_name (awv_witness op)]"

definition validate_account_witness_proxy :: "account_witness_proxy_operation \<Rightarrow> unit res" where
  "validate_account_witness_proxy op = run_checks [
     validate_account_name (awp_account op),
     when_res (length (awp_proxy op) > 0) (validate_account_name (awp_proxy op)),
     fc_assert (awp_proxy op \<noteq> awp_account op) ''Cannot proxy to self'']"

definition validate_custom :: "custom_operation \<Rightarrow> unit res" where
  "validate_custom op = fc_assert (length (cu_required_auths op) > 0) ''at least on account must be specified''"

definition validate_custom_json :: "fc_lib \<Rightarrow> custom_json_operation \<Rightarrow> unit res" where
  "validate_custom_json L op = run_checks [
     fc_assert (length (cj_required_auths op) + length (cj_required_posting_auths op) > 0)
       ''at least on account must be specified'',
     fc_assert (length (cj_id op) \<le> 32) ''id is too long'',
     fc_assert (is_utf8 L (cj_json op)) ''JSON Metadata not formatted in UTF8'',
     fc_assert (json_is_valid L (cj_json op)) ''JSON Metadata not valid JSON'']"

definition validate_custom_binary :: "custom_binary_operation \<Rightarrow> unit res" where
  "validate_custom_binary op = run_checks ([
     fc_assert (length (cb_required_owner_auths op) + length (cb_required_active_auths op) +
         length (cb_required_posting_auths op) > 0) ''at least on account must be specified'',
     fc_assert (length (cb_id op) \<le> 32) ''id is too long'']
     @ map authority_validate (cb_required_auths op))"

section \<open>Proof of work\<close>

definition work_input :: "fc_crypto \<Rightarrow> pow_operation \<Rightarrow> digest_type" where
  "work_input K op =
     (let hash = sha256_of_block_id K (po_block_id op);
          hash = hash[0 := po_nonce op]
      in sha256_of_digest K hash)"

definition pow_create :: "fc_crypto \<Rightarrow> private_key_type \<Rightarrow> digest_type \<Rightarrow> pow \<Rightarrow> pow res" where
  "pow_create K w i p =
     (let sig = sign_compact K w i False;
          sig_hash = sha256_of_signature K sig
      in rbind (recover_key K sig sig_hash False) (\<lambda>recover.
         Inr (p\<lparr>pow_input := i, pow_signature := sig, pow_work := sha256_of_key K recover\<rparr>)))"

definition pow2_create :: "fc_crypto \<Rightarrow> block_id_type \<Rightarrow> account_name_type \<Rightarrow> u64 \<Rightarrow> pow2 res" where
  "pow2_create K prev account_name n =
     (let inp = \<lparr>pi_worker_account = account_name, pi_prev_block = prev, pi_nonce = n\<rparr>;
          prv_key = sha256_of_pow2_input K inp;
          i = sha256_of_digest K prv_key;
          sig = sign_compact K (regenerate K prv_key) i True;
          sig_hash = sha256_of_signature K sig
      in rbind (recover_key K sig sig_hash True) (\<lambda>recover.
         Inr \<lparr>p2_input = inp, p2_pow_summary = approx_log_32 K (sha256_of_work K (i, recover))\<rparr>))"

definition equihash_create ::
  "fc_crypto \<Rightarrow> block_id_type \<Rightarrow> account_name_type \<Rightarrow> u32 \<Rightarrow> equihash_pow \<Rightarrow> equihash_pow" where
  "equihash_create K recent_block account_name nonce p =
     (let inp = \<lparr>pi_worker_account = account_name, pi_prev_block = recent_block, pi_nonce = ucast nonce\<rparr>;
          seed = sha256_of_pow2_input K inp;
          proof = equihash_hash K STEEMIT_EQUIHASH_N STEEMIT_EQUIHASH_K seed
      in p\<lparr>eq_input := inp, eq_proof := proof,
           eq_pow_summary := approx_log_32 K (sha256_of_inputs K (eqp_inputs proof))\<rparr>)"

definition validate_pow_work :: "fc_crypto \<Rightarrow> pow \<Rightarrow> unit res" where
  "validate_pow_work K p = run_checks [
     fc_assert (pow_work p \<noteq> null_digest) ''work != fc::sha256()'',
     rbind (recover_key K (pow_signature p) (pow_input p) False) (\<lambda>k.
       fc_assert (k = pow_worker p) ''public_key == worker''),
     rbind (recover_key K (pow_signature p) (sha256_of_signature K (pow_signature p)) False) (\<lambda>recover.
       fc_assert (pow_work p = sha256_of_key K recover) ''work == fc::sha256::hash(recover)'')]"

definition validate_pow2_work :: "fc_crypto \<Rightarrow> pow2 \<Rightarrow> unit res" where
  "validate_pow2_work K p = run_checks [
     validate_account_name (pi_worker_account (p2_input p)),
     rbind (pow2_create K (pi_prev_block (p2_input p)) (pi_worker_account (p2_input p))
              (pi_nonce (p2_input p))) (\<lambda>tmp.
       fc_assert (p2_pow_summary p = p2_pow_summary tmp) ''reported work does not match calculated work'')]"

definition validate_equihash_work :: "fc_crypto \<Rightarrow> equihash_pow \<Rightarrow> unit res" where
  "validate_equihash_work K p = run_checks [
     validate_account_name (pi_worker_account (eq_input p)),
     fc_assert (unat (eqp_n (eq_proof p)) = STEEMIT_EQUIHASH_N) ''proof of work 'n' value is incorrect'',
     fc_assert (unat (eqp_k (eq_proof p)) = STEEMIT_EQUIHASH_K) ''proof of work 'k' value is incorrect'',
     fc_assert (eqp_seed (eq_proof p) = sha256_of_pow2_input K (eq_input p))
       ''proof of work seed does not match expected seed'',
     fc_assert (equihash_is_valid K (eq_proof p)) ''proof of work is not a solution'',
     fc_assert (eq_pow_summary p = approx_log_32 K (sha256_of_inputs K (eqp_inputs (eq_proof p))))
       ''pow_summary'']"

definition validate_pow :: "fc_crypto \<Rightarrow> pow_operation \<Rightarrow> unit res" where
  "validate_pow K op = run_checks [
     validate_chain_properties (po_props op),
     validate_account_name (po_worker_account op),
     fc_assert (work_input K op = pow_input (po_work op))
       ''Determninistic input does not match recorded input'',
     validate_pow_work K (po_work op)]"

definition validate_pow2 :: "fc_crypto \<Rightarrow> pow2_operation \<Rightarrow> unit res" where
  "validate_pow2 K op = run_checks [
     validate_chain_properties (p2o_props op),
     (case p2o_work op of
        work_pow2 w \<Rightarrow> validate_pow2_work K w
      | work_equihash w \<Rightarrow> validate_equihash_work K w)]"

section \<open>The market, conversions and reports\<close>

definition steem_sbd_pair :: "asset \<Rightarrow> asset \<Rightarrow> bool" where
  "steem_sbd_pair a b \<longleftrightarrow>
     (is_asset_type a STEEM_SYMBOL \<and> is_asset_type b SBD_SYMBOL) \<or>
     (is_asset_type a SBD_SYMBOL \<and> is_asset_type b STEEM_SYMBOL)"

definition validate_feed_publish :: "feed_publish_operation \<Rightarrow> unit res" where
  "validate_feed_publish op = run_checks [
     validate_account_name (fp_publisher op),
     fc_assert (steem_sbd_pair (base (fp_exchange_rate op)) (quote (fp_exchange_rate op)))
       ''Price feed must be a STEEM/SBD price'',
     price_validate (fp_exchange_rate op)]"

definition validate_limit_order_create :: "limit_order_create_operation \<Rightarrow> unit res" where
  "validate_limit_order_create op = run_checks [
     validate_account_name (lo_owner op),
     fc_assert (steem_sbd_pair (lo_amount_to_sell op) (lo_min_to_receive op))
       ''Limit order must be for the STEEM:SBD market'',
     rbind (asset_divide (lo_amount_to_sell op) (lo_min_to_receive op)) price_validate]"

definition validate_limit_order_create2 :: "fc_lib \<Rightarrow> limit_order_create2_operation \<Rightarrow> unit res" where
  "validate_limit_order_create2 L op = run_checks [
     validate_account_name (lo2_owner op),
     fc_assert (symbol (lo2_amount_to_sell op) = symbol (base (lo2_exchange_rate op)))
       ''Sell asset must be the base of the price'',
     price_validate (lo2_exchange_rate op),
     fc_assert (steem_sbd_pair (lo2_amount_to_sell op) (quote (lo2_exchange_rate op)))
       ''Limit order must be for the STEEM:SBD market'',
     rbind (asset_times_price L (lo2_amount_to_sell op) (lo2_exchange_rate op)) (\<lambda>x.
       fc_assert (amount x > 0) ''Amount to sell cannot round to 0 when traded'')]"

definition lo_get_price :: "limit_order_create_operation \<Rightarrow> price res" where
  "lo_get_price op = asset_divide (lo_amount_to_sell op) (lo_min_to_receive op)"

definition lo_get_market :: "limit_order_create_operation \<Rightarrow> asset_symbol_type \<times> asset_symbol_type" where
  "lo_get_market op =
     (if symbol (lo_amount_to_sell op) < symbol (lo_min_to_receive op)
      then (symbol (lo_amount_to_sell op), symbol (lo_min_to_receive op))
      else (symbol (lo_min_to_receive op), symbol (lo_amount_to_sell op)))"

definition lo2_get_price :: "limit_order_create2_operation \<Rightarrow> price" where
  "lo2_get_price op = lo2_exchange_rate op"

definition lo2_get_market :: "limit_order_create2_operation \<Rightarrow> asset_symbol_type \<times> asset_symbol_type" where
  "lo2_get_market op =
     (if symbol (base (lo2_exchange_rate op)) < symbol (quote (lo2_exchange_rate op))
      then (symbol (base (lo2_exchange_rate op)), symbol (quote (lo2_exchange_rate op)))
      else (symbol (quote (lo2_exchange_rate op)), symbol (base (lo2_exchange_rate op))))"

definition validate_limit_order_cancel :: "limit_order_cancel_operation \<Rightarrow> unit res" where
  "validate_limit_order_cancel op = validate_account_name (lc_owner op)"

definition validate_convert :: "convert_operation \<Rightarrow> unit res" where
  "validate_convert op = run_checks [
     validate_account_name (cv_owner op),
     fc_assert (is_asset_type (cv_amount op) SBD_SYMBOL) ''Can only convert SBD to STEEM'',
     fc_assert (amount (cv_amount op) > 0) ''Must convert some SBD'']"

definition validate_report_over_production ::
  "fc_lib \<Rightarrow> fc_crypto \<Rightarrow> report_over_production_operation \<Rightarrow> unit res" where
  "validate_report_over_production L K op = run_checks [
     validate_account_name (ro_reporter op),
     validate_account_name (witness (ro_first_block op)),
     fc_assert (witness (ro_first_block op) = witness (ro_second_block op)) ''witness'',
     fc_assert (timestamp (ro_first_block op) = timestamp (ro_second_block op)) ''timestamp'',
     rbind (signee K (ro_first_block op)) (\<lambda>a. rbind (signee K (ro_second_block op)) (\<lambda>b.
       fc_assert (a = b) ''first_block.signee() == second_block.signee()'')),
     fc_assert (header_id L K (ro_first_block op) \<noteq> header_id L K (ro_second_block op)) ''id'']"

section \<open>Escrow\<close>

definition validate_escrow_transfer :: "fc_lib \<Rightarrow> escrow_transfer_operation \<Rightarrow> unit res" where
  "validate_escrow_transfer L op = run_checks [
     validate_account_name (et_from op),
     validate_account_name (et_to op),
     validate_account_name (et_agent op),
     fc_assert (amount (et_fee op) \<ge> 0) ''fee cannot be negative'',
     fc_assert (amount (et_sbd_amount op) \<ge> 0) ''sbd amount cannot be negative'',
     fc_assert (amount (et_steem_amount op) \<ge> 0) ''steem amount cannot be negative'',
     fc_assert (amount (et_sbd_amount op) > 0 \<or> amount (et_steem_amount op) > 0)
       ''escrow must transfer a non-zero amount'',
     fc_assert (et_from op \<noteq> et_agent op \<and> et_to op \<noteq> et_agent op) ''agent must be a third party'',
     fc_assert (symbol (et_fee op) = STEEM_SYMBOL \<or> symbol (et_fee op) = SBD_SYMBOL) ''fee must be STEEM or SBD'',
     fc_assert (symbol (et_sbd_amount op) = SBD_SYMBOL) ''sbd amount must contain SBD'',
     fc_assert (symbol (et_steem_amount op) = STEEM_SYMBOL) ''steem amount must contain STEEM'',
     fc_assert (et_ratification_deadline op < et_escrow_expiration op)
       ''ratification deadline must be before escrow expiration'',
     validate_json_metadata L (et_json_meta op)]"

definition validate_escrow_approve :: "escrow_approve_operation \<Rightarrow> unit res" where
  "validate_escrow_approve op = run_checks [
     validate_account_name (ea_from op),
     validate_account_name (ea_to op),
     validate_account_name (ea_agent op),
     validate_account_name (ea_who op),
     fc_assert (ea_who op = ea_to op \<or> ea_who op = ea_agent op) ''to or agent must approve escrow'']"

definition validate_escrow_dispute :: "escrow_dispute_operation \<Rightarrow> unit res" where
  "validate_escrow_dispute op = run_checks [
     validate_account_name (ed_from op),
     validate_account_name (ed_to op),
     validate_account_name (ed_agent op),
     validate_account_name (ed_who op),
     fc_assert (ed_who op = ed_from op \<or> ed_who op = ed_to op) ''who must be from or to'']"

definition validate_escrow_release :: "escrow_release_operation \<Rightarrow> unit res" where
  "validate_escrow_release op = run_checks [
     validate_account_name (er_from op),
     validate_account_name (er_to op),
     validate_account_name (er_agent op),
     validate_account_name (er_who op),
     validate_account_name (er_receiver op),
     fc_assert (er_who op = er_from op \<or> er_who op = er_to op \<or> er_who op = er_agent op)
       ''who must be from or to or agent'',
     fc_assert (er_receiver op = er_from op \<or> er_receiver op = er_to op) ''receiver must be from or to'',
     fc_assert (amount (er_sbd_amount op) \<ge> 0) ''sbd amount cannot be negative'',
     fc_assert (amount (er_steem_amount op) \<ge> 0) ''steem amount cannot be negative'',
     fc_assert (amount (er_sbd_amount op) > 0 \<or> amount (er_steem_amount op) > 0)
       ''escrow must release a non-zero amount'',
     fc_assert (symbol (er_sbd_amount op) = SBD_SYMBOL) ''sbd amount must contain SBD'',
     fc_assert (symbol (er_steem_amount op) = STEEM_SYMBOL) ''steem amount must contain STEEM'']"

section \<open>Recovery, savings, rewards and delegation\<close>

definition validate_request_account_recovery :: "request_account_recovery_operation \<Rightarrow> unit res" where
  "validate_request_account_recovery op = run_checks [
     validate_account_name (rar_recovery_account op),
     validate_account_name (rar_account_to_recover op),
     authority_validate (rar_new_owner_authority op)]"

definition validate_recover_account :: "recover_account_operation \<Rightarrow> unit res" where
  "validate_recover_account op = run_checks [
     validate_account_name (ra_account_to_recover op),
     fc_assert (\<not> authority_eq (ra_new_owner_authority op) (ra_recent_owner_authority op))
       ''Cannot set new owner authority to the recent owner authority'',
     fc_assert (\<not> is_impossible (ra_new_owner_authority op)) ''new owner authority cannot be impossible'',
     fc_assert (\<not> is_impossible (ra_recent_owner_authority op)) ''recent owner authority cannot be impossible'',
     fc_assert (weight_threshold (ra_new_owner_authority op) \<noteq> 0) ''new owner authority cannot be trivial'',
     authority_validate (ra_new_owner_authority op),
     authority_validate (ra_recent_owner_authority op)]"

definition validate_change_recovery_account :: "change_recovery_account_operation \<Rightarrow> unit res" where
  "validate_change_recovery_account op = run_checks [
     validate_account_name (cr_account_to_recover op),
     validate_account_name (cr_new_recovery_account op)]"

definition validate_transfer_to_savings :: "fc_lib \<Rightarrow> transfer_to_savings_operation \<Rightarrow> unit res" where
  "validate_transfer_to_savings L op = run_checks [
     validate_account_name (ts_from op),
     validate_account_name (ts_to op),
     fc_assert (amount (ts_amount op) > 0) ''amount.amount > 0'',
     fc_assert (symbol (ts_amount op) = STEEM_SYMBOL \<or> symbol (ts_amount op) = SBD_SYMBOL) ''amount.symbol'',
     fc_assert (length (ts_memo op) < STEEMIT_MAX_MEMO_SIZE) ''Memo is too large'',
     fc_assert (is_utf8 L (ts_memo op)) ''Memo is not UTF8'']"

definition validate_transfer_from_savings :: "fc_lib \<Rightarrow> transfer_from_savings_operation \<Rightarrow> unit res" where
  "validate_transfer_from_savings L op = run_checks [
     validate_account_name (tfs_from op),
     validate_account_name (tfs_to op),
     fc_assert (amount (tfs_amount op) > 0) ''amount.amount > 0'',
     fc_assert (symbol (tfs_amount op) = STEEM_SYMBOL \<or> symbol (tfs_amount op) = SBD_SYMBOL) ''amount.symbol'',
     fc_assert (length (tfs_memo op) < STEEMIT_MAX_MEMO_SIZE) ''Memo is too large'',
     fc_assert (is_utf8 L (tfs_memo op)) ''Memo is not UTF8'']"

definition validate_cancel_transfer_from_savings :: "cancel_transfer_from_savings_operation \<Rightarrow> unit res" where
  "validate_cancel_transfer_from_savings op = validate_account_name (cts_from op)"

definition validate_decline_voting_rights :: "decline_voting_rights_operation \<Rightarrow> unit res" where
  "validate_decline_voting_rights op = validate_account_name (dv_account op)"

definition validate_reset_account :: "reset_account_operation \<Rightarrow> unit res" where
  "validate_reset_account op = run_checks [
     validate_account_name (rs_reset_account op),
     validate_account_name (rs_account_to_reset op),
     fc_assert (\<not> is_impossible (rs_new_owner_authority op)) ''new owner authority cannot be impossible'',
     fc_assert (weight_threshold (rs_new_owner_authority op) \<noteq> 0) ''new owner authority cannot be trivial'',
     authority_validate (rs_new_owner_authority op)]"

definition validate_set_reset_account :: "set_reset_account_operation \<Rightarrow> unit res" where
  "validate_set_reset_account op = run_checks [
     validate_account_name (srs_account op),
     when_res (length (srs_current_reset_account op) > 0)
       (validate_account_name (srs_current_reset_account op)),
     validate_account_name (srs_reset_account op),
     fc_assert (srs_current_reset_account op \<noteq> srs_reset_account op)
       ''new reset account cannot be current reset account'']"

definition validate_claim_reward_balance :: "claim_reward_balance_operation \<Rightarrow> unit res" where
  "validate_claim_reward_balance op = run_checks [
     validate_account_name (cl_account op),
     fc_assert (is_asset_type (cl_reward_steem op) STEEM_SYMBOL) ''Reward Steem must be STEEM'',
     fc_assert (is_asset_type (cl_reward_sbd op) SBD_SYMBOL) ''Reward Steem must be SBD'',
     fc_assert (is_asset_type (cl_reward_vests op) VESTS_SYMBOL) ''Reward Steem must be VESTS'',
     fc_assert (amount (cl_reward_steem op) \<ge> 0) ''Cannot claim a negative amount'',
     fc_assert (amount (cl_reward_sbd op) \<ge> 0) ''Cannot claim a negative amount'',
     fc_assert (amount (cl_reward_vests op) \<ge> 0) ''Cannot claim a negative amount'',
     fc_assert (amount (cl_reward_steem op) > 0 \<or> amount (cl_reward_sbd op) > 0 \<or>
         amount (cl_reward_vests op) > 0) ''Must claim something.'']"

definition validate_delegate_vesting_shares :: "delegate_vesting_shares_operation \<Rightarrow> unit res" where
  "validate_delegate_vesting_shares op = run_checks [
     validate_account_name (dl_delegator op),
     validate_account_name (dl_delegatee op),
     fc_assert (dl_delegator op \<noteq> dl_delegatee op) ''You cannot delegate VESTS to yourself'',
     fc_assert (is_asset_type (dl_vesting_shares op) VESTS_SYMBOL) ''Delegation must be VESTS'',
     assert_res (asset_ge (dl_vesting_shares op) (mk_asset 0 VESTS_SYMBOL)) ''Delegation cannot be negative'']"

section \<open>The variant\<close>

definition validate_virtual :: "unit res" where
  "validate_virtual = fc_assert False ''This is a virtual operation''"

definition operation_validate :: "fc_lib \<Rightarrow> fc_crypto \<Rightarrow> operation \<Rightarrow> unit res" where
  "operation_validate L K op = (case op of
      Op_vote v \<Rightarrow> validate_vote L v
    | Op_comment v \<Rightarrow> validate_comment L v
    | Op_transfer v \<Rightarrow> validate_transfer L v
    | Op_transfer_to_vesting v \<Rightarrow> validate_transfer_to_vesting v
    | Op_withdraw_vesting v \<Rightarrow> validate_withdraw_vesting v
    | Op_limit_order_create v \<Rightarrow> validate_limit_order_create v
    | Op_limit_order_cancel v \<Rightarrow> validate_limit_order_cancel v
    | Op_feed_publish v \<Rightarrow> validate_feed_publish v
    | Op_convert v \<Rightarrow> validate_convert v
    | Op_account_create v \<Rightarrow> validate_account_create L v
    | Op_account_update v \<Rightarrow> validate_account_update L v
    | Op_witness_update v \<Rightarrow> validate_witness_update L v
    | Op_account_witness_vote v \<Rightarrow> validate_account_witness_vote v
    | Op_account_witness_proxy v \<Rightarrow> validate_account_witness_proxy v
    | Op_pow v \<Rightarrow> validate_pow K v
    | Op_custom v \<Rightarrow> validate_custom v
    | Op_report_over_production v \<Rightarrow> validate_report_over_production L K v
    | Op_delete_comment v \<Rightarrow> validate_delete_comment L v
    | Op_custom_json v \<Rightarrow> validate_custom_json L v
    | Op_comment_options v \<Rightarrow> validate_comment_options L v
    | Op_set_withdraw_vesting_route v \<Rightarrow> validate_set_withdraw_vesting_route v
    | Op_limit_order_create2 v \<Rightarrow> validate_limit_order_create2 L v
    | Op_challenge_authority v \<Rightarrow> validate_challenge_authority v
    | Op_prove_authority v \<Rightarrow> validate_prove_authority v
    | Op_request_account_recovery v \<Rightarrow> validate_request_account_recovery v
    | Op_recover_account v \<Rightarrow> validate_recover_account v
    | Op_change_recovery_account v \<Rightarrow> validate_change_recovery_account v
    | Op_escrow_transfer v \<Rightarrow> validate_escrow_transfer L v
    | Op_escrow_dispute v \<Rightarrow> validate_escrow_dispute v
    | Op_escrow_release v \<Rightarrow> validate_escrow_release v
    | Op_pow2 v \<Rightarrow> validate_pow2 K v
    | Op_escrow_approve v \<Rightarrow> validate_escrow_approve v
    | Op_transfer_to_savings v \<Rightarrow> validate_transfer_to_savings L v
    | Op_transfer_from_savings v \<Rightarrow> validate_transfer_from_savings L v
    | Op_cancel_transfer_from_savings v \<Rightarrow> validate_cancel_transfer_from_savings v
    | Op_custom_binary v \<Rightarrow> validate_custom_binary v
    | Op_decline_voting_rights v \<Rightarrow> validate_decline_voting_rights v
    | Op_reset_account v \<Rightarrow> validate_reset_account v
    | Op_set_reset_account v \<Rightarrow> validate_set_reset_account v
    | Op_claim_reward_balance v \<Rightarrow> validate_claim_reward_balance v
    | Op_delegate_vesting_shares v \<Rightarrow> validate_delegate_vesting_shares v
    | Op_account_create_with_delegation v \<Rightarrow> validate_account_create_with_delegation L v
    | _ \<Rightarrow> validate_virtual)"

definition is_market_operation :: "operation \<Rightarrow> bool" where
  "is_market_operation op = (case op of
       Op_limit_order_create _ \<Rightarrow> True
     | Op_limit_order_cancel _ \<Rightarrow> True
     | Op_transfer _ \<Rightarrow> True
     | Op_transfer_to_vesting _ \<Rightarrow> True
     | _ \<Rightarrow> False)"

text \<open>The structs derived from \<open>virtual_operation\<close>.\<close>

definition is_virtual_operation :: "operation \<Rightarrow> bool" where
  "is_virtual_operation op = (case op of
       Op_fill_convert_request _ \<Rightarrow> True
     | Op_author_reward _ \<Rightarrow> True
     | Op_curation_reward _ \<Rightarrow> True
     | Op_comment_reward _ \<Rightarrow> True
     | Op_liquidity_reward _ \<Rightarrow> True
     | Op_interest _ \<Rightarrow> True
     | Op_fill_vesting_withdraw _ \<Rightarrow> True
     | Op_fill_order _ \<Rightarrow> True
     | Op_shutdown_witness _ \<Rightarrow> True
     | Op_fill_transfer_from_savings _ \<Rightarrow> True
     | Op_hardfork _ \<Rightarrow> True
     | Op_comment_payout_update _ \<Rightarrow> True
     | Op_return_vesting_delegation _ \<Rightarrow> True
     | Op_comment_benefactor_reward _ \<Rightarrow> True
     | Op_producer_reward _ \<Rightarrow> True
     | _ \<Rightarrow> False)"

section \<open>Required authorities\<close>

text \<open>\<open>for( const auto& i : xs ) a.insert(i)\<close>.\<close>

definition insert_all :: "account_name_type list \<Rightarrow> account_name_type flat_set \<Rightarrow> account_name_type flat_set" where
  "insert_all xs a = fold fs_insert xs a"

definition get_required_active_authorities ::
  "operation \<Rightarrow> account_name_type flat_set \<Rightarrow> account_name_type flat_set" where
  "get_required_active_authorities op a = (case op of
       Op_account_create v \<Rightarrow> fs_insert (ac_creator v) a
     | Op_account_create_with_delegation v \<Rightarrow> fs_insert (acd_creator v) a
     | Op_account_update v \<Rightarrow> if au_owner v = None then fs_insert (au_account v) a else a
     | Op_challenge_authority v \<Rightarrow> fs_insert (ch_challenger v) a
     | Op_prove_authority v \<Rightarrow> if \<not> pr_require_owner v then fs_insert (pr_challenged v) a else a
     | Op_transfer v \<Rightarrow> if symbol (tr_amount v) \<noteq> VESTS_SYMBOL then fs_insert (tr_from v) a else a
     | Op_escrow_transfer v \<Rightarrow> fs_insert (et_from v) a
     | Op_escrow_approve v \<Rightarrow> fs_insert (ea_who v) a
     | Op_escrow_dispute v \<Rightarrow> fs_insert (ed_who v) a
     | Op_escrow_release v \<Rightarrow> fs_insert (er_who v) a
     | Op_transfer_to_vesting v \<Rightarrow> fs_insert (tv_from v) a
     | Op_withdraw_vesting v \<Rightarrow> fs_insert (wv_account v) a
     | Op_set_withdraw_vesting_route v \<Rightarrow> fs_insert (sr_from_account v) a
     | Op_witness_update v \<Rightarrow> fs_insert (wu_owner v) a
     | Op_account_witness_vote v \<Rightarrow> fs_insert (awv_account v) a
     | Op_account_witness_proxy v \<Rightarrow> fs_insert (awp_account v) a
     | Op_custom v \<Rightarrow> insert_all (cu_required_auths v) a
     | Op_custom_json v \<Rightarrow> insert_all (cj_required_auths v) a
     | Op_custom_binary v \<Rightarrow> insert_all (cb_required_active_auths v) a
     | Op_feed_publish v \<Rightarrow> fs_insert (fp_publisher v) a
     | Op_convert v \<Rightarrow> fs_insert (cv_owner v) a
     | Op_limit_order_create v \<Rightarrow> fs_insert (lo_owner v) a
     | Op_limit_order_create2 v \<Rightarrow> fs_insert (lo2_owner v) a
     | Op_limit_order_cancel v \<Rightarrow> fs_insert (lc_owner v) a
     | Op_pow2 v \<Rightarrow>
         if p2o_new_owner_key v = None
         then (case p2o_work v of
                 work_pow2 w \<Rightarrow> fs_insert (pi_worker_account (p2_input w)) a
               | work_equihash w \<Rightarrow> fs_insert (pi_worker_account (eq_input w)) a)
         else a
     | Op_request_account_recovery v \<Rightarrow> fs_insert (rar_recovery_account v) a
     | Op_reset_account v \<Rightarrow> fs_insert (rs_reset_account v) a
     | Op_transfer_to_savings v \<Rightarrow> fs_insert (ts_from v) a
     | Op_transfer_from_savings v \<Rightarrow> fs_insert (tfs_from v) a
     | Op_cancel_transfer_from_savings v \<Rightarrow> fs_insert (cts_from v) a
     | Op_delegate_vesting_shares v \<Rightarrow> fs_insert (dl_delegator v) a
     | _ \<Rightarrow> a)"

definition get_required_owner_authorities ::
  "operation \<Rightarrow> account_name_type flat_set \<Rightarrow> account_name_type flat_set" where
  "get_required_owner_authorities op a = (case op of
       Op_account_update v \<Rightarrow> if au_owner v \<noteq> None then fs_insert (au_account v) a else a
     | Op_prove_authority v \<Rightarrow> if pr_require_owner v then fs_insert (pr_challenged v) a else a
     | Op_transfer v \<Rightarrow> if symbol (tr_amount v) = VESTS_SYMBOL then fs_insert (tr_from v) a else a
     | Op_custom_binary v \<Rightarrow> insert_all (cb_required_owner_auths v) a
     | Op_set_reset_account v \<Rightarrow>
         if length (srs_current_reset_account v) \<noteq> 0 then fs_insert (srs_account v) a else a
     | Op_change_recovery_account v \<Rightarrow> fs_insert (cr_account_to_recover v) a
     | Op_decline_voting_rights v \<Rightarrow> fs_insert (dv_account v) a
     | _ \<Rightarrow> a)"

definition get_required_posting_authorities ::
  "operation \<Rightarrow> account_name_type flat_set \<Rightarrow> account_name_type flat_set" where
  "get_required_posting_authorities op a = (case op of
       Op_comment v \<Rightarrow> fs_insert (co_author v) a
     | Op_comment_options v \<Rightarrow> fs_insert (cop_author v) a
     | Op_delete_comment v \<Rightarrow> fs_insert (dc_author v) a
     | Op_vote v \<Rightarrow> fs_insert (vo_voter v) a
     | Op_custom_json v \<Rightarrow> insert_all (cj_required_posting_auths v) a
     | Op_custom_binary v \<Rightarrow> insert_all (cb_required_posting_auths v) a
     | Op_set_reset_account v \<Rightarrow>
         if length (srs_current_reset_account v) = 0 then fs_insert (srs_account v) a else a
     | Op_claim_reward_balance v \<Rightarrow> fs_insert (cl_account v) a
     | _ \<Rightarrow> a)"

definition get_required_authorities :: "operation \<Rightarrow> authority list \<Rightarrow> authority list" where
  "get_required_authorities op a = (case op of
       Op_custom_binary v \<Rightarrow> a @ cb_required_auths v
     | Op_pow2 v \<Rightarrow>
         (case p2o_new_owner_key v of
            None \<Rightarrow> a
          | Some k \<Rightarrow> a @ [add_authority_key k 1 (default_authority\<lparr>weight_threshold := 1\<rparr>)])
     | Op_recover_account v \<Rightarrow> a @ [ra_new_owner_authority v, ra_recent_owner_authority v]
     | _ \<Rightarrow> a)"

text \<open>The accumulated requirements of a sequence of operations.\<close>

record required_auths =
  req_active :: "account_name_type flat_set"
  req_owner :: "account_name_type flat_set"
  req_posting :: "account_name_type flat_set"
  req_other :: "authority list"

definition operation_get_required_authorities :: "operation \<Rightarrow> required_auths \<Rightarrow> required_auths" where
  "operation_get_required_authorities op r = \<lparr>
     req_active = get_required_active_authorities op (req_active r),
     req_owner = get_required_owner_authorities op (req_owner r),
     req_posting = get_required_posting_authorities op (req_posting r),
     req_other = get_required_authorities op (req_other r)\<rparr>"

section \<open>Beneficiaries\<close>

lemma ucast_u16_u32: "unat (ucast (w :: u16) :: u32) = unat w"
  by (simp add: unsigned_ucast_eq take_bit_nat_eq_self_iff less_trans [OF unat_u16_less])

lemma add_weight_small:
  assumes "unat s \<le> 10000" and "unat (w :: u16) \<le> 10000"
  shows "unat (s + ucast w :: u32) = unat s + unat w"
  using assms by (simp add: unat_word_ariths ucast_u16_u32)

definition weights_sum :: "beneficiary_route_type list \<Rightarrow> nat" where
  "weights_sum bs = sum_list (map (\<lambda>b. unat (br_weight b)) bs)"

lemma validate_name_ok [simp]: "validate_account_name n = Inr u \<longleftrightarrow> is_valid_account_name n"
  by (simp add: validate_account_name_def)

lemma validate_beneficiaries_from_ok:
  "unat s \<le> 10000 \<Longrightarrow>
   validate_beneficiaries_from prev s bs = Inr () \<longleftrightarrow>
     list_all (\<lambda>b. is_valid_account_name (br_account b)) bs \<and>
     unat s + weights_sum bs \<le> 10000 \<and>
     sorted_wrt (<) (map br_account (prev # bs))"
proof (induction prev s bs rule: validate_beneficiaries_from.induct)
  case (2 prev s b bs)
  show ?case
  proof (cases "unat (br_weight b) \<le> 10000 \<and> unat s + unat (br_weight b) \<le> 10000")
    case True
    then have e: "unat (s + ucast (br_weight b)) = unat s + unat (br_weight b)"
      using 2 by (intro add_weight_small) auto
    have "validate_beneficiaries_from b (s + ucast (br_weight b)) bs = Inr () \<longleftrightarrow>
        list_all (\<lambda>b. is_valid_account_name (br_account b)) bs \<and>
        unat s + unat (br_weight b) + weights_sum bs \<le> 10000 \<and>
        sorted_wrt (<) (map br_account (b # bs))"
      if "is_valid_account_name (br_account b)" "route_less prev b"
      using 2 True e that by (simp add: STEEMIT_100_PERCENT_def validate_account_name_def fc_assert_def)
    then show ?thesis
      using True e by (auto simp: STEEMIT_100_PERCENT_def route_less_def weights_sum_def intro: less_trans)
  next
    case False
    have "unat (s + ucast (br_weight b)) = unat s + unat (br_weight b)" if "unat (br_weight b) \<le> 10000"
      using that 2 by (intro add_weight_small) auto
    then show ?thesis
      using False by (auto simp: STEEMIT_100_PERCENT_def weights_sum_def)
  qed
qed (simp add: weights_sum_def)

text \<open>A list of beneficiaries is accepted exactly when it has 1 to 127 entries with valid names in
  strictly ascending order, so without duplicates, whose weights add up to at most 100%; the
  32-bit running sum cannot be overflowed to pass the check.\<close>

theorem beneficiaries_accepted_iff:
  "validate_comment_payout_beneficiaries \<lparr>beneficiaries = bs\<rparr> = Inr () \<longleftrightarrow>
     1 \<le> length bs \<and> length bs \<le> 127 \<and>
     list_all (\<lambda>b. is_valid_account_name (br_account b)) bs \<and>
     sorted_wrt (<) (map br_account bs) \<and>
     weights_sum bs \<le> STEEMIT_100_PERCENT"
proof (cases bs)
  case (Cons b r)
  have "unat (0 + ucast (br_weight b) :: u32) = unat (br_weight b)" by (simp add: ucast_u16_u32)
  then show ?thesis
    using validate_beneficiaries_from_ok [of "0 + ucast (br_weight b)" b r] Cons
    by (auto simp: validate_comment_payout_beneficiaries_def STEEMIT_100_PERCENT_def weights_sum_def Let_def
        run_checks_ok)
qed (simp add: validate_comment_payout_beneficiaries_def Let_def rbind_def fc_assert_def)

section \<open>Which operations need a signature\<close>

lemma fs_insert_ne [simp]: "fs_insert k s \<noteq> []"
  by (cases s) auto

lemma insert_all_ne [simp]: "insert_all xs a = [] \<longleftrightarrow> xs = [] \<and> a = []"
proof -
  have "set (insert_all xs a) = set xs \<union> set a" by (simp add: insert_all_def)
  then show ?thesis by (metis Un_empty set_empty)
qed

definition no_auths :: required_auths where
  "no_auths = \<lparr>req_active = [], req_owner = [], req_posting = [], req_other = []\<rparr>"

lemmas required_defs = operation_get_required_authorities_def get_required_active_authorities_def
  get_required_owner_authorities_def get_required_posting_authorities_def get_required_authorities_def

text \<open>C25: Every operation that passes \<open>operation_validate\<close>, other than a proof of work of the first kind
  and a report of double production, requires at least one authority.  Virtual operations never
  pass.  (Which signatures satisfy the authority is decided elsewhere; the wildcard account \<open>temp\<close> needs
  none.)\<close>

theorem validated_operation_needs_authority:
  assumes "operation_validate L K op = Inr ()"
    and "\<nexists>v. op = Op_pow v" and "\<nexists>v. op = Op_report_over_production v"
  shows "operation_get_required_authorities op no_auths \<noteq> no_auths \<and> \<not> is_virtual_operation op"
  using assms
  by (cases op)
    (auto simp: required_defs no_auths_def operation_validate_def is_virtual_operation_def
      validate_virtual_def validate_custom_def validate_custom_json_def validate_custom_binary_def
      run_checks_append add_authority_key_def split: pow2_work.splits option.splits)

definition sample_transfer :: transfer_operation where
  "sample_transfer = \<lparr>tr_from = ''alice'', tr_to = ''bob'', tr_amount = mk_asset 5 STEEM_SYMBOL, tr_memo = ''hi''\<rparr>"

lemma sample_names [simp]:
  "is_valid_account_name ''alice''" "is_valid_account_name ''bob''"
  by (simp_all add: is_valid_account_name_def name_loop.simps find_first_of_def Let_def
      STEEMIT_MIN_ACCOUNT_NAME_LENGTH_def STEEMIT_MAX_ACCOUNT_NAME_LENGTH_def is_lower_def is_let_dig_def
      is_let_dig_hyp_def upt_rec)

lemma sample_transfer_valid: "operation_validate fc_ref crypto_ref (Op_transfer sample_transfer) = Inr ()"
  by (simp add: operation_validate_def validate_transfer_def sample_transfer_def run_checks_ok
      STEEMIT_MAX_MEMO_SIZE_def fc_ref_def)

theorem validated_operation_needs_authority_witness:
  "operation_get_required_authorities (Op_transfer sample_transfer) no_auths \<noteq> no_auths"
  using validated_operation_needs_authority [OF sample_transfer_valid] by simp

section \<open>Proof of work\<close>

text \<open>What is relied on of equihash: the solver returns a valid proof for the parameters and seed it
  was asked for.\<close>

definition equihash_laws :: "fc_crypto \<Rightarrow> bool" where
  "equihash_laws K \<longleftrightarrow> (\<forall>n k s. n < 2 ^ 32 \<longrightarrow> k < 2 ^ 32 \<longrightarrow>
     (let p = equihash_hash K n k s
      in unat (eqp_n p) = n \<and> unat (eqp_k p) = k \<and> eqp_seed p = s \<and> equihash_is_valid K p))"

lemma equihash_laws_ref [simp]: "equihash_laws crypto_ref"
  by (simp add: equihash_laws_def crypto_ref_def Let_def unat_of_nat)

text \<open>Work made by \<open>create\<close> passes \<open>validate\<close>: for both kinds of \<open>pow2\<close> work, the result for a
  valid worker name is accepted, and it names the worker that must authorise it.\<close>

theorem created_work_validates:
  assumes "is_valid_account_name name" and "equihash_laws K"
  shows "(\<forall>w. pow2_create K prev name n = Inr w \<longrightarrow>
      validate_pow2_work K w = Inr () \<and> pi_worker_account (p2_input w) = name) \<and>
    validate_equihash_work K (equihash_create K prev name m p) = Inr () \<and>
      pi_worker_account (eq_input (equihash_create K prev name m p)) = name"
proof (intro conjI [of "\<forall>w. _ w"] allI impI)
  show "validate_pow2_work K w = Inr () \<and> pi_worker_account (p2_input w) = name"
    if w: "pow2_create K prev name n = Inr w" for w
  proof -
    have i: "p2_input w = \<lparr>pi_worker_account = name, pi_prev_block = prev, pi_nonce = n\<rparr>"
      using w by (auto simp: pow2_create_def Let_def)
    then have "pow2_create K (pi_prev_block (p2_input w)) (pi_worker_account (p2_input w))
        (pi_nonce (p2_input w)) = Inr w"
      using w by simp
    then show ?thesis
      using assms(1) i by (simp add: validate_pow2_work_def run_checks_ok)
  qed
  have "let p = equihash_hash K STEEMIT_EQUIHASH_N STEEMIT_EQUIHASH_K s
     in unat (eqp_n p) = STEEMIT_EQUIHASH_N \<and> unat (eqp_k p) = STEEMIT_EQUIHASH_K \<and> eqp_seed p = s \<and>
        equihash_is_valid K p" for s
    using assms(2) by (simp add: equihash_laws_def STEEMIT_EQUIHASH_N_def STEEMIT_EQUIHASH_K_def)
  then show "validate_equihash_work K (equihash_create K prev name m p) = Inr () \<and>
      pi_worker_account (eq_input (equihash_create K prev name m p)) = name"
    using assms(1) by (simp add: validate_equihash_work_def equihash_create_def Let_def run_checks_ok)
qed

theorem created_work_validates_witness:
  "validate_equihash_work crypto_ref (equihash_create crypto_ref null_id ''alice'' 5
     \<lparr>eq_input = \<lparr>pi_worker_account = '''', pi_prev_block = [], pi_nonce = 0\<rparr>,
      eq_proof = \<lparr>eqp_n = 0, eqp_k = 0, eqp_seed = [], eqp_inputs = []\<rparr>, eq_prev_block = [], eq_pow_summary = 0\<rparr>) = Inr ()"
  using created_work_validates [of "''alice''" crypto_ref] by simp

section \<open>Limit orders\<close>

lemma price_validate_pos:
  "price_validate p = Inr u \<Longrightarrow> 0 < amount (base p) \<and> 0 < amount (quote p)"
  by (simp add: price_validate_def run_checks_ok)

lemma divide_parts: "asset_divide a b = Inr p \<Longrightarrow> p = mk_price a b"
  by (auto simp: asset_divide_def)

lemma sbd_less_steem: "SBD_SYMBOL < STEEM_SYMBOL" "\<not> STEEM_SYMBOL < SBD_SYMBOL"
  by (simp_all add: symbol_values)

lemma market_of_pair:
  "steem_sbd_pair a b \<Longrightarrow>
   (if symbol a < symbol b then (symbol a, symbol b) else (symbol b, symbol a)) = (SBD_SYMBOL, STEEM_SYMBOL)"
  unfolding steem_sbd_pair_def is_asset_type_def
  by (elim disjE conjE) (simp_all add: sbd_less_steem)

text \<open>An accepted limit order, of either form, is an order of the one STEEM:SBD market, whichever
  side it sells, and has a price with positive amounts on both sides.\<close>

theorem limit_order_market:
  shows "validate_limit_order_create o1 = Inr () \<Longrightarrow>
      lo_get_market o1 = (SBD_SYMBOL, STEEM_SYMBOL) \<and>
      (\<exists>p. lo_get_price o1 = Inr p \<and> 0 < amount (base p) \<and> 0 < amount (quote p))"
    and "validate_limit_order_create2 L o2 = Inr () \<Longrightarrow>
      lo2_get_market o2 = (SBD_SYMBOL, STEEM_SYMBOL) \<and>
      0 < amount (base (lo2_get_price o2)) \<and> 0 < amount (quote (lo2_get_price o2)) \<and>
      (\<exists>x. asset_times_price L (lo2_amount_to_sell o2) (lo2_get_price o2) = Inr x \<and> 0 < amount x)"
proof -
  assume "validate_limit_order_create o1 = Inr ()"
  then obtain p where pair: "steem_sbd_pair (lo_amount_to_sell o1) (lo_min_to_receive o1)"
    and p: "lo_get_price o1 = Inr p" "price_validate p = Inr ()"
    by (auto simp: validate_limit_order_create_def run_checks_ok lo_get_price_def)
  show "lo_get_market o1 = (SBD_SYMBOL, STEEM_SYMBOL) \<and>
      (\<exists>p. lo_get_price o1 = Inr p \<and> 0 < amount (base p) \<and> 0 < amount (quote p))"
    using p price_validate_pos [OF p(2)] market_of_pair [OF pair] by (simp add: lo_get_market_def)
next
  assume v: "validate_limit_order_create2 L o2 = Inr ()"
  let ?r = "lo2_exchange_rate o2"
  have "steem_sbd_pair (base ?r) (quote ?r)" and p: "price_validate ?r = Inr ()"
    and x: "\<exists>x. asset_times_price L (lo2_amount_to_sell o2) ?r = Inr x \<and> 0 < amount x"
    using v by (auto simp: validate_limit_order_create2_def run_checks_ok steem_sbd_pair_def
        is_asset_type_def)
  then show "lo2_get_market o2 = (SBD_SYMBOL, STEEM_SYMBOL) \<and>
      0 < amount (base (lo2_get_price o2)) \<and> 0 < amount (quote (lo2_get_price o2)) \<and>
      (\<exists>x. asset_times_price L (lo2_amount_to_sell o2) (lo2_get_price o2) = Inr x \<and> 0 < amount x)"
    using price_validate_pos [OF p] market_of_pair by (simp add: lo2_get_market_def lo2_get_price_def)
qed

definition sample_order :: limit_order_create_operation where
  "sample_order = \<lparr>lo_owner = ''alice'', lo_orderid = 1, lo_amount_to_sell = mk_asset 10 STEEM_SYMBOL,
     lo_min_to_receive = mk_asset 3 SBD_SYMBOL, lo_fill_or_kill = False, lo_expiration = 100\<rparr>"

theorem limit_order_market_witness: "lo_get_market sample_order = (SBD_SYMBOL, STEEM_SYMBOL)"
proof -
  have "validate_limit_order_create sample_order = Inr ()"
    by (simp add: validate_limit_order_create_def sample_order_def run_checks_ok steem_sbd_pair_def
        is_asset_type_def asset_divide_def price_validate_def)
  then show ?thesis using limit_order_market(1) by blast
qed

end
