(* ===== verification/Sign_State.thy ===== *)
theory Sign_State
  imports Authority
begin

text \<open>
  Checking an authority against a set of signatures: \<open>protocol/sign_state.hpp\<close> and
  \<open>protocol/sign_state.cpp\<close>.  The members that a check never changes (the getter of active
  authorities, the keys the caller can sign with, the recursion bound) form the context
  \<open>sign_context\<close>; the members it changes form \<open>sign_state\<close>.  The getter is supplied by the caller
  and may throw.

  The results: the check is total; when it succeeds the authority is satisfied in the sense of the
  inductive predicate \<open>satisfied\<close>; and it succeeds whenever the authority is satisfied within the
  recursion bound.
\<close>

section \<open>Data and operations\<close>

type_synonym authority_getter = "account_name_type \<Rightarrow> authority res"

record sign_context =
  get_active :: authority_getter
  available_keys :: "public_key_type flat_set"
  max_recursion :: u32

record sign_state =
  provided_signatures :: "(public_key_type, bool) flat_map"
  approved_by :: "account_name_type flat_set"

definition new_sign_state :: "public_key_type flat_set \<Rightarrow> sign_state" where
  "new_sign_state sigs = \<lparr>provided_signatures = foldl (\<lambda>m key. fm_put key False m) [] sigs,
     approved_by = fs_insert ''temp'' []\<rparr>"

definition new_sign_context :: "authority_getter \<Rightarrow> public_key_type flat_set \<Rightarrow> sign_context" where
  "new_sign_context a keys =
     \<lparr>get_active = a, available_keys = keys, max_recursion = STEEMIT_MAX_SIG_CHECK_DEPTH\<rparr>"

definition signed_by :: "sign_context \<Rightarrow> public_key_type \<Rightarrow> sign_state \<Rightarrow> bool \<times> sign_state" where
  "signed_by c k st =
     (case fm_find (provided_signatures st) k of
        None \<Rightarrow>
          (if k \<in> set (available_keys c)
           then (True, st\<lparr>provided_signatures := fm_put k True (provided_signatures st)\<rparr>)
           else (False, st))
      | Some _ \<Rightarrow> (True, st\<lparr>provided_signatures := fm_put k True (provided_signatures st)\<rparr>))"

text \<open>The loop over the keys of an authority: whether it returned, the weight so far, the state.\<close>

fun check_keys ::
  "sign_context \<Rightarrow> u32 \<Rightarrow> (public_key_type \<times> weight_type) list \<Rightarrow> u32 \<Rightarrow> sign_state \<Rightarrow>
   bool \<times> u32 \<times> sign_state" where
  "check_keys c thr [] tw st = (False, tw, st)"
| "check_keys c thr (k # ks) tw st =
     (let (s, st) = signed_by c (fst k) st
      in if s
         then (let tw = tw + ucast (snd k)
               in if tw \<ge> thr then (True, tw, st) else check_keys c thr ks tw st)
         else check_keys c thr ks tw st)"

text \<open>The two overloads of \<open>check_authority\<close>; the loop over accounts and the recursive call are
  mutually recursive.  The depth counts up to \<open>max_recursion\<close>, so every chain of calls ends.\<close>

function check_authority ::
    "sign_context \<Rightarrow> authority \<Rightarrow> u32 \<Rightarrow> sign_state \<Rightarrow> (bool \<times> sign_state) res"
  and check_accounts ::
    "sign_context \<Rightarrow> u32 \<Rightarrow> (account_name_type \<times> weight_type) list \<Rightarrow> u32 \<Rightarrow> u32 \<Rightarrow> sign_state \<Rightarrow>
     (bool \<times> sign_state) res" where
  "check_authority c auth depth st =
     (case check_keys c (weight_threshold auth) (key_auths auth) 0 st of
        (ret, tw, st') \<Rightarrow>
          if ret then Inr (True, st')
          else check_accounts c (weight_threshold auth) (account_auths auth) depth tw st')"
| "check_accounts c thr [] depth tw st = Inr (tw \<ge> thr, st)"
| "check_accounts c thr (a # xs) depth tw st =
     (if fst a \<notin> set (approved_by st)
      then (if depth = max_recursion c then check_accounts c thr xs depth tw st
            else (case get_active c (fst a) of
                    Inl e \<Rightarrow> Inl e
                  | Inr auth \<Rightarrow>
                     (case check_authority c auth (depth + 1) st of
                        Inl e \<Rightarrow> Inl e
                      | Inr (ok, st') \<Rightarrow>
                          if ok
                          then (if tw + ucast (snd a) \<ge> thr
                                then Inr (True, st'\<lparr>approved_by := fs_insert (fst a) (approved_by st')\<rparr>)
                                else check_accounts c thr xs depth (tw + ucast (snd a))
                                       (st'\<lparr>approved_by := fs_insert (fst a) (approved_by st')\<rparr>))
                          else check_accounts c thr xs depth tw st')))
      else (if tw + ucast (snd a) \<ge> thr then Inr (True, st)
            else check_accounts c thr xs depth (tw + ucast (snd a)) st))"
  by pat_completeness auto
termination
proof (relation "measures [\<lambda>p. case p of Inl (c, auth, depth, st) \<Rightarrow> unat (max_recursion c - depth)
                               | Inr (c, thr, xs, depth, tw, st) \<Rightarrow> unat (max_recursion c - depth),
                          \<lambda>p. case p of Inl (c, auth, depth, st) \<Rightarrow> length (account_auths auth) + 1
                               | Inr (c, thr, xs, depth, tw, st) \<Rightarrow> length xs]", goal_cases)
  case (4 c thr a xs depth tw st auth)
  then have "0 < unat (max_recursion c - depth)" by (simp add: unat_gt_0)
  with 4 show ?case by (simp add: unat_minus_one diff_diff_eq [symmetric])
qed auto

declare check_authority.simps [simp del] check_accounts.simps [simp del]

definition check_authority_id ::
  "sign_context \<Rightarrow> account_name_type \<Rightarrow> sign_state \<Rightarrow> (bool \<times> sign_state) res" where
  "check_authority_id c i st =
     (if i \<in> set (approved_by st) then Inr (True, st)
      else rbind (get_active c i) (\<lambda>auth. check_authority c auth 0 st))"

definition remove_unused_signatures :: "sign_state \<Rightarrow> bool \<times> sign_state" where
  "remove_unused_signatures st =
     (let remove_sigs = map fst (filter (\<lambda>sig. \<not> snd sig) (provided_signatures st))
      in (length remove_sigs \<noteq> 0,
          st\<lparr>provided_signatures := fold fm_erase remove_sigs (provided_signatures st)\<rparr>))"

section \<open>What a check promises\<close>

text \<open>The keys that count as signed: those with a signature, and those the caller can sign with.\<close>

definition can_sign :: "sign_context \<Rightarrow> sign_state \<Rightarrow> public_key_type set" where
  "can_sign c st = fst ` set (provided_signatures st) \<union> set (available_keys c)"

definition weight_of :: "('k \<times> weight_type) list \<Rightarrow> 'k set \<Rightarrow> nat" where
  "weight_of xs S = sum_list (map (unat \<circ> snd) (filter (\<lambda>x. fst x \<in> S) xs))"

text \<open>An authority is satisfied when the signed keys and the approved accounts it lists weigh at
  least the threshold; an account is approved when it is given, or its active authority is
  satisfied.\<close>

inductive satisfied ::
  "public_key_type set \<Rightarrow> authority_getter \<Rightarrow> account_name_type set \<Rightarrow> authority \<Rightarrow> bool"
  for keys getter given where
  satisfiedI: "\<lbrakk>\<And>n. n \<in> S \<Longrightarrow> n \<in> given \<or> (\<exists>b. getter n = Inr b \<and> satisfied keys getter given b);
    unat (weight_threshold a) \<le> weight_of (key_auths a) keys + weight_of (account_auths a) S\<rbrakk>
   \<Longrightarrow> satisfied keys getter given a"

text \<open>The same with a bound on the nesting of accounts.\<close>

fun satisfied_within ::
  "public_key_type set \<Rightarrow> authority_getter \<Rightarrow> account_name_type set \<Rightarrow> nat \<Rightarrow> authority \<Rightarrow> bool" where
  "satisfied_within keys getter given 0 a \<longleftrightarrow>
     unat (weight_threshold a) \<le> weight_of (key_auths a) keys + weight_of (account_auths a) given"
| "satisfied_within keys getter given (Suc n) a \<longleftrightarrow>
     unat (weight_threshold a) \<le> weight_of (key_auths a) keys +
       weight_of (account_auths a)
         (given \<union> {x. \<exists>b. getter x = Inr b \<and> satisfied_within keys getter given n b})"

definition approved_accounts ::
  "public_key_type set \<Rightarrow> authority_getter \<Rightarrow> account_name_type set \<Rightarrow> account_name_type set" where
  "approved_accounts keys getter given =
     {n. n \<in> given \<or> (\<exists>b. getter n = Inr b \<and> satisfied keys getter given b)}"

lemma satisfied_iff:
  "satisfied keys getter given a \<longleftrightarrow>
     unat (weight_threshold a) \<le> weight_of (key_auths a) keys +
       weight_of (account_auths a) (approved_accounts keys getter given)"
proof
  assume "satisfied keys getter given a"
  then show "unat (weight_threshold a) \<le> weight_of (key_auths a) keys +
       weight_of (account_auths a) (approved_accounts keys getter given)"
  proof cases
    case (satisfiedI S)
    have "weight_of xs S \<le> weight_of xs (approved_accounts keys getter given)" for xs
      using satisfiedI(1) by (induction xs) (auto simp: weight_of_def approved_accounts_def)
    then show ?thesis using satisfiedI(2) le_trans add_left_mono by blast
  qed
next
  assume "unat (weight_threshold a) \<le> weight_of (key_auths a) keys +
       weight_of (account_auths a) (approved_accounts keys getter given)"
  then show "satisfied keys getter given a"
    by (rule satisfiedI [rotated]) (auto simp: approved_accounts_def)
qed

section \<open>Lemmas on the loops\<close>

lemma weight_of_Cons [simp]:
  "weight_of (x # xs) S = (if fst x \<in> S then unat (snd x) else 0) + weight_of xs S"
  by (simp add: weight_of_def)

lemma weight_of_Nil [simp]: "weight_of [] S = 0"
  by (simp add: weight_of_def)

lemma weight_of_mono: "S \<subseteq> T \<Longrightarrow> weight_of xs S \<le> weight_of xs T"
  by (induction xs) (auto simp: add_mono)

text \<open>Adding a weight in 32 bits never exceeds the exact sum, and is exact below 2^32.\<close>

lemma unat_ucast_u16: "unat (ucast (w :: u16) :: u32) = unat w"
  by (simp add: unsigned_ucast_eq take_bit_nat_eq_self_iff less_trans [OF unat_u16_less])

lemma add_weight_le: "unat (tw + ucast (w :: u16) :: u32) \<le> unat tw + unat w"
  by (simp add: unat_word_ariths unat_ucast_u16)

lemma add_weight_exact:
  "unat tw + unat w < 2 ^ 32 \<Longrightarrow> unat (tw + ucast (w :: u16) :: u32) = unat tw + unat w"
  by (simp add: unat_word_ariths unat_ucast_u16)

lemma signed_by_eq:
  "signed_by c k st =
     (k \<in> can_sign c st,
      if k \<in> can_sign c st then st\<lparr>provided_signatures := fm_put k True (provided_signatures st)\<rparr> else st)"
  using fm_find_None [of "provided_signatures st" k]
  by (cases "fm_find (provided_signatures st) k") (auto simp: signed_by_def can_sign_def)

lemma can_sign_put:
  "can_sign c (st\<lparr>provided_signatures := fm_put k True (provided_signatures st)\<rparr>) = insert k (can_sign c st)"
  using set_fm_put [of k True "provided_signatures st"] by (simp add: can_sign_def)

lemma signed_by_result:
  assumes "signed_by c k st = (s, st')"
  shows "s \<longleftrightarrow> k \<in> can_sign c st" and "can_sign c st' = can_sign c st"
    and "approved_by st' = approved_by st"
  using assms by (auto simp: signed_by_eq can_sign_put split: if_splits)

lemma check_keys_state:
  "check_keys c thr ks tw st = (r, tw', st') \<Longrightarrow>
     can_sign c st' = can_sign c st \<and> approved_by st' = approved_by st"
proof (induction ks arbitrary: tw st)
  case (Cons k ks)
  obtain s st1 where s: "signed_by c (fst k) st = (s, st1)" by fastforce
  from Cons.prems Cons.IH show ?case
    using signed_by_result [OF s] by (fastforce simp: s Let_def split: if_splits)
qed simp

lemma check_keys_sound:
  "check_keys c thr ks tw st = (r, tw', st') \<Longrightarrow>
     unat tw' \<le> unat tw + weight_of ks (can_sign c st) \<and> (r \<longrightarrow> thr \<le> tw')"
proof (induction ks arbitrary: tw st)
  case (Cons k ks)
  obtain s st1 where s: "signed_by c (fst k) st = (s, st1)" by fastforce
  have st: "s \<longleftrightarrow> fst k \<in> can_sign c st" "can_sign c st1 = can_sign c st"
    using signed_by_result [OF s] by auto
  show ?case
  proof (cases "s \<and> \<not> thr \<le> tw + ucast (snd k)")
    case True
    then have "unat tw' \<le> unat (tw + ucast (snd k)) + weight_of ks (can_sign c st) \<and> (r \<longrightarrow> thr \<le> tw')"
      using Cons.prems Cons.IH [of "tw + ucast (snd k)" st1] s st by (simp add: Let_def)
    then show ?thesis using True st add_weight_le [of tw "snd k"] by auto
  next
    case False
    then show ?thesis
      using Cons.prems Cons.IH [of tw st1] s st add_weight_le [of tw "snd k"]
      by (fastforce simp: Let_def split: if_splits)
  qed
qed simp

lemma check_keys_complete:
  "check_keys c thr ks tw st = (r, tw', st') \<Longrightarrow> unat tw + weight_of ks UNIV < 2 ^ 32 \<Longrightarrow>
     r \<or> unat tw' = unat tw + weight_of ks (can_sign c st)"
proof (induction ks arbitrary: tw st)
  case (Cons k ks)
  obtain s st1 where s: "signed_by c (fst k) st = (s, st1)" by fastforce
  have st: "s \<longleftrightarrow> fst k \<in> can_sign c st" "can_sign c st1 = can_sign c st"
    using signed_by_result [OF s] by auto
  have ex: "unat (tw + ucast (snd k)) = unat tw + unat (snd k)"
    using Cons.prems(2) by (intro add_weight_exact) simp
  show ?case
    using Cons.prems Cons.IH [of "tw + ucast (snd k)" st1] Cons.IH [of tw st1] s st ex
    by (auto simp: Let_def split: if_splits)
qed simp

section \<open>Soundness\<close>

text \<open>What a call keeps of the state: the signable keys, and that every approved account is
  approved in the sense of the specification; approvals are only added.\<close>

definition keeps ::
  "sign_context \<Rightarrow> account_name_type set \<Rightarrow> public_key_type set \<Rightarrow> sign_state \<Rightarrow> sign_state \<Rightarrow> bool" where
  "keeps c G K st st' \<longleftrightarrow> can_sign c st' = K \<and> set (approved_by st) \<subseteq> set (approved_by st') \<and>
     set (approved_by st') \<subseteq> approved_accounts K (get_active c) G"

lemma approved_by_set [simp]: "can_sign c (st\<lparr>approved_by := x\<rparr>) = can_sign c st"
  by (simp add: can_sign_def)

lemma check_sound:
  "check_authority c auth depth st = Inr (r, st') \<Longrightarrow>
     set (approved_by st) \<subseteq> approved_accounts K (get_active c) G \<Longrightarrow> can_sign c st = K \<Longrightarrow>
     keeps c G K st st' \<and> (r \<longrightarrow> satisfied K (get_active c) G auth)"
  "check_accounts c thr xs depth tw st = Inr (r, st') \<Longrightarrow>
     set (approved_by st) \<subseteq> approved_accounts K (get_active c) G \<Longrightarrow> can_sign c st = K \<Longrightarrow>
     keeps c G K st st' \<and>
     (r \<longrightarrow> unat thr \<le> unat tw + weight_of xs (approved_accounts K (get_active c) G))"
proof (induction c auth depth st and c thr xs depth tw st
    arbitrary: r st' and r st' rule: check_authority_check_accounts.induct)
  case (1 c auth depth st)
  obtain d tw st1 where k: "check_keys c (weight_threshold auth) (key_auths auth) 0 st = (d, tw, st1)"
    using prod_cases3 by blast
  note st1 = check_keys_state [OF k] and tw = check_keys_sound [OF k]
  show ?case
  proof (cases d)
    case True
    then have "unat (weight_threshold auth) \<le> weight_of (key_auths auth) K"
      using tw "1.prems" by (auto simp: word_le_nat_alt)
    then show ?thesis
      using "1.prems" True k st1
      by (auto simp: check_authority.simps [of c auth] keeps_def satisfied_iff)
  next
    case False
    then have "keeps c G K st1 st' \<and> (r \<longrightarrow> unat (weight_threshold auth) \<le>
        unat tw + weight_of (account_auths auth) (approved_accounts K (get_active c) G))"
      using "1.prems" k st1 by (intro "1.IH") (auto simp: check_authority.simps [of c auth])
    then show ?thesis
      using tw st1 "1.prems" by (auto simp: keeps_def satisfied_iff)
  qed
next
  case (2 c thr depth tw st)
  then show ?case by (auto simp: check_accounts.simps keeps_def word_le_nat_alt)
next
  case (3 c thr a xs depth tw st)
  let ?A = "approved_accounts K (get_active c) G"
  note le = add_weight_le [of tw "snd a"]
  show ?case
  proof (cases "fst a \<in> set (approved_by st)")
    case True
    then show ?thesis
      using "3.prems" "3.IH"(5) le
      by (fastforce simp: check_accounts.simps keeps_def word_le_nat_alt split: if_splits)
  next
    case False
    show ?thesis
    proof (cases "depth = max_recursion c")
      case True
      then show ?thesis
        using False "3.prems" "3.IH"(1) by (fastforce simp: check_accounts.simps)
    next
      case deeper: False
      obtain auth ok st1 where g: "get_active c (fst a) = Inr auth"
        and ca: "check_authority c auth (depth + 1) st = Inr (ok, st1)"
        using "3.prems"(1) False deeper
        by (auto simp: check_accounts.simps split: sum.splits)
      have st1: "keeps c G K st st1" "ok \<longrightarrow> satisfied K (get_active c) G auth"
        using "3.IH"(2) [OF False deeper g ca "3.prems"(2,3)] by auto
      show ?thesis
      proof (cases ok)
        case ok: True
        then have a: "fst a \<in> ?A" using st1 g by (auto simp: approved_accounts_def)
        then show ?thesis
          using "3.prems" False deeper g ca ok st1 le "3.IH"(3) [OF False deeper g ca refl ok]
          by (fastforce simp: check_accounts.simps keeps_def word_le_nat_alt split: if_splits)
      next
        case nok: False
        then show ?thesis
          using "3.prems" False deeper g ca nok st1 "3.IH"(4) [OF False deeper g ca refl nok]
          by (fastforce simp: check_accounts.simps keeps_def)
      qed
    qed
  qed
qed

section \<open>Completeness\<close>

text \<open>The 32-bit sum of the weights of an authority does not wrap.\<close>

definition light :: "authority \<Rightarrow> bool" where
  "light a \<longleftrightarrow> weight_of (key_auths a) UNIV + weight_of (account_auths a) UNIV < 2 ^ 32"

text \<open>The getter finds an active authority for every account, and its weights do not wrap.\<close>

definition getter_ok :: "authority_getter \<Rightarrow> bool" where
  "getter_ok getter \<longleftrightarrow> (\<forall>n. \<exists>b. getter n = Inr b \<and> light b)"

definition accounts_within ::
  "public_key_type set \<Rightarrow> authority_getter \<Rightarrow> account_name_type set \<Rightarrow> nat \<Rightarrow> account_name_type set" where
  "accounts_within keys getter given n =
     given \<union> {x. 0 < n \<and> (\<exists>b. getter x = Inr b \<and> satisfied_within keys getter given (n - 1) b)}"

lemma satisfied_within_iff:
  "satisfied_within keys getter given n a \<longleftrightarrow>
     unat (weight_threshold a) \<le>
       weight_of (key_auths a) keys + weight_of (account_auths a) (accounts_within keys getter given n)"
  by (cases n) (simp_all add: accounts_within_def)

lemma light_partial: "light a \<Longrightarrow> weight_of (key_auths a) K + weight_of (account_auths a) UNIV < 2 ^ 32"
  using weight_of_mono [of K UNIV "key_auths a"] by (simp add: light_def)

definition completes ::
  "sign_context \<Rightarrow> public_key_type set \<Rightarrow> sign_state \<Rightarrow> (bool \<times> sign_state) res \<Rightarrow> bool \<Rightarrow> bool" where
  "completes c K st res ok \<longleftrightarrow> (\<exists>r st'. res = Inr (r, st') \<and> can_sign c st' = K \<and>
     set (approved_by st) \<subseteq> set (approved_by st') \<and> (ok \<longrightarrow> r))"

lemma completes_mono:
  "completes c K st res ok \<Longrightarrow> set (approved_by st0) \<subseteq> set (approved_by st) \<Longrightarrow> (ok' \<longrightarrow> ok) \<Longrightarrow>
   completes c K st0 res ok'"
  by (fastforce simp: completes_def)

lemma completes_True:
  "can_sign c st' = K \<Longrightarrow> set (approved_by st) \<subseteq> set (approved_by st') \<Longrightarrow>
   completes c K st (Inr (True, st')) ok"
  by (auto simp: completes_def)

lemma check_complete:
  "getter_ok (get_active c) \<Longrightarrow> light auth \<Longrightarrow> G \<subseteq> set (approved_by st) \<Longrightarrow> can_sign c st = K \<Longrightarrow>
     completes c K st (check_authority c auth depth st)
       (satisfied_within K (get_active c) G (unat (max_recursion c - depth)) auth)"
  "getter_ok (get_active c) \<Longrightarrow> unat tw + weight_of xs UNIV < 2 ^ 32 \<Longrightarrow>
     G \<subseteq> set (approved_by st) \<Longrightarrow> can_sign c st = K \<Longrightarrow>
     completes c K st (check_accounts c thr xs depth tw st)
       (unat thr \<le> unat tw +
          weight_of xs (accounts_within K (get_active c) G (unat (max_recursion c - depth))))"
proof (induction c auth depth st and c thr xs depth tw st rule: check_authority_check_accounts.induct)
  case (1 c auth depth st)
  obtain d tw st1 where k: "check_keys c (weight_threshold auth) (key_auths auth) 0 st = (d, tw, st1)"
    using prod_cases3 by blast
  note st1 = check_keys_state [OF k]
  have "unat (0 :: u32) + weight_of (key_auths auth) UNIV < 2 ^ 32"
    using "1.prems"(2) by (simp add: light_def)
  then have tw: "d \<or> unat tw = weight_of (key_auths auth) K"
    using check_keys_complete [OF k] "1.prems"(4) by simp
  show ?case
  proof (cases d)
    case True
    then show ?thesis
      using k st1 "1.prems" by (auto simp: check_authority.simps [of c auth] completes_def)
  next
    case False
    then have "completes c K st1 (check_authority c auth depth st)
        (unat (weight_threshold auth) \<le> unat tw + weight_of (account_auths auth)
           (accounts_within K (get_active c) G (unat (max_recursion c - depth))))"
      using k tw st1 "1.prems" light_partial [OF "1.prems"(2), of K] "1.IH" [OF k [symmetric] refl]
      by (simp add: check_authority.simps [of c auth])
    then show ?thesis
      using False tw st1 by (auto simp: satisfied_within_iff elim!: completes_mono)
  qed
next
  case (2 c thr depth tw st)
  then show ?case by (auto simp: check_accounts.simps completes_def word_le_nat_alt)
next
  case (3 c thr a xs depth tw st)
  let ?A = "accounts_within K (get_active c) G (unat (max_recursion c - depth))"
  have ex: "unat (tw + ucast (snd a)) = unat tw + unat (snd a)"
    using "3.prems"(2) by (intro add_weight_exact) simp
  have b: "unat tw + weight_of xs UNIV < 2 ^ 32"
    "unat (tw + ucast (snd a)) + weight_of xs UNIV < 2 ^ 32"
    using "3.prems"(2) ex by auto
  show ?case
  proof (cases "fst a \<in> set (approved_by st)")
    case appr: True
    then show ?thesis
    proof (cases "thr \<le> tw + ucast (snd a)")
      case True
      then show ?thesis
        using appr "3.prems" by (simp add: check_accounts.simps completes_True)
    next
      case low: False
      then show ?thesis
        using appr "3.prems" "3.IH"(5) b ex by (auto simp: check_accounts.simps elim: completes_mono)
    qed
  next
    case False
    show ?thesis
    proof (cases "depth = max_recursion c")
      case True
      then have "fst a \<notin> ?A" using False "3.prems"(3) by (auto simp: accounts_within_def)
      then show ?thesis
        using True False "3.prems" "3.IH"(1) b by (simp add: check_accounts.simps)
    next
      case deeper: False
      obtain auth where g: "get_active c (fst a) = Inr auth" "light auth"
        using "3.prems"(1) by (auto simp: getter_ok_def)
      have n: "unat (max_recursion c - (depth + 1)) = unat (max_recursion c - depth) - 1"
        "0 < unat (max_recursion c - depth)"
        using deeper by (simp_all add: unat_minus_one diff_diff_eq [symmetric] unat_gt_0)
      obtain ok st1 where ca: "check_authority c auth (depth + 1) st = Inr (ok, st1)"
        and st1: "can_sign c st1 = K" "set (approved_by st) \<subseteq> set (approved_by st1)"
        and ok: "satisfied_within K (get_active c) G (unat (max_recursion c - (depth + 1))) auth \<longrightarrow> ok"
        using "3.IH"(2) [OF False deeper g(1) "3.prems"(1) g(2) "3.prems"(3,4)] by (auto simp: completes_def)
      have a: "fst a \<in> ?A \<longleftrightarrow>
          satisfied_within K (get_active c) G (unat (max_recursion c - (depth + 1))) auth"
        using False "3.prems"(3) g n by (auto simp: accounts_within_def)
      let ?st2 = "st1\<lparr>approved_by := fs_insert (fst a) (approved_by st1)\<rparr>"
      have st2: "G \<subseteq> set (approved_by ?st2)" "can_sign c ?st2 = K" "G \<subseteq> set (approved_by st1)"
        using "3.prems"(3) st1 by auto
      have up: "completes c K ?st2 res ok1 \<Longrightarrow> (ok2 \<longrightarrow> ok1) \<Longrightarrow> completes c K st res ok2" for res ok1 ok2
        using st1(2) by (auto elim!: completes_mono [of c K ?st2])
      show ?thesis
      proof (cases ok)
        case ok: True
        show ?thesis
        proof (cases "thr \<le> tw + ucast (snd a)")
          case True
          then show ?thesis
            using False deeper g ca ok st1 by (auto simp: check_accounts.simps intro!: completes_True)
        next
          case low: False
          then show ?thesis
            using False deeper g ca ok ex
            by (auto simp: check_accounts.simps
                intro: up [OF "3.IH"(3) [OF False deeper g(1) ca refl ok _ "3.prems"(1) b(2) st2(1,2)]])
        qed
      next
        case nok: False
        then have "fst a \<notin> ?A" using a ok by blast
        then show ?thesis
          using completes_mono [OF "3.IH"(4) [OF False deeper g(1) ca refl nok "3.prems"(1) b(1) st2(3) st1(1)] st1(2)]
            False deeper g ca nok
          by (simp add: check_accounts.simps)
      qed
    qed
  qed
qed

section \<open>Which signatures a check marks as used\<close>

text \<open>A key is relevant to an authority when the authority lists it, or lists an account whose
  active authority it is relevant to.\<close>

inductive relevant :: "authority_getter \<Rightarrow> authority \<Rightarrow> public_key_type \<Rightarrow> bool" for getter where
  relevant_key: "k \<in> fst ` set (key_auths a) \<Longrightarrow> relevant getter a k"
| relevant_account: "n \<in> fst ` set (account_auths a) \<Longrightarrow> getter n = Inr b \<Longrightarrow> relevant getter b k \<Longrightarrow>
    relevant getter a k"

definition used :: "sign_state \<Rightarrow> public_key_type set" where
  "used st = {k. fm_find (provided_signatures st) k = Some True}"

lemma used_approved_by [simp]: "used (st\<lparr>approved_by := x\<rparr>) = used st"
  by (simp add: used_def)

lemma signed_by_used: "used (snd (signed_by c k st)) \<subseteq> insert k (used st)"
  by (auto simp: signed_by_eq used_def split: if_splits)

lemma check_keys_used:
  "check_keys c thr ks tw st = (r, tw', st') \<Longrightarrow> used st' \<subseteq> used st \<union> fst ` set ks"
proof (induction ks arbitrary: tw st)
  case (Cons k ks)
  obtain s st1 where s: "signed_by c (fst k) st = (s, st1)" by fastforce
  have "used st1 \<subseteq> insert (fst k) (used st)" using signed_by_used [of c "fst k" st] s by simp
  moreover have "st' = st1 \<or> (\<exists>tw. check_keys c thr ks tw st1 = (r, tw', st'))"
    using Cons.prems s by (auto simp: Let_def split: if_splits)
  ultimately show ?case using Cons.IH by fastforce
qed simp

lemma check_used:
  "check_authority c auth depth st = Inr (r, st') \<Longrightarrow>
     used st' \<subseteq> used st \<union> {k. relevant (get_active c) auth k}"
  "check_accounts c thr xs depth tw st = Inr (r, st') \<Longrightarrow>
     used st' \<subseteq> used st \<union> {k. \<exists>n \<in> fst ` set xs. \<exists>b. get_active c n = Inr b \<and> relevant (get_active c) b k}"
proof (induction c auth depth st and c thr xs depth tw st
    arbitrary: r st' and r st' rule: check_authority_check_accounts.induct)
  case (1 c auth depth st)
  obtain d tw st1 where k: "check_keys c (weight_threshold auth) (key_auths auth) 0 st = (d, tw, st1)"
    using prod_cases3 by blast
  have "used st1 \<subseteq> used st \<union> {k. relevant (get_active c) auth k}"
    using check_keys_used [OF k] by (auto intro: relevant_key)
  moreover have "used st' \<subseteq> used st1 \<union> {k. relevant (get_active c) auth k}"
  proof (cases d)
    case False
    then have "check_accounts c (weight_threshold auth) (account_auths auth) depth tw st1 = Inr (r, st')"
      using "1.prems" k by (simp add: check_authority.simps [of c auth])
    then show ?thesis using "1.IH" [OF k [symmetric] refl False] by (fastforce intro: relevant_account)
  qed (use "1.prems" k in \<open>auto simp: check_authority.simps [of c auth]\<close>)
  ultimately show ?case by blast
next
  case (2 c thr depth tw st)
  then show ?case by (auto simp: check_accounts.simps)
next
  case (3 c thr a xs depth tw st)
  show ?case
  proof (cases "fst a \<in> set (approved_by st)")
    case True
    then show ?thesis
      using "3.prems" "3.IH"(5) by (fastforce simp: check_accounts.simps split: if_splits)
  next
    case False
    show ?thesis
    proof (cases "depth = max_recursion c")
      case True
      then show ?thesis
        using False "3.prems" "3.IH"(1) by (fastforce simp: check_accounts.simps)
    next
      case deeper: False
      obtain auth ok st1 where g: "get_active c (fst a) = Inr auth"
        and ca: "check_authority c auth (depth + 1) st = Inr (ok, st1)"
        using "3.prems" False deeper by (auto simp: check_accounts.simps split: sum.splits)
      have st1: "used st1 \<subseteq> used st \<union> {k. relevant (get_active c) auth k}"
        by (rule "3.IH"(2) [OF False deeper g ca])
      have "used st' \<subseteq> used st1 \<union>
          {k. \<exists>n \<in> fst ` set xs. \<exists>b. get_active c n = Inr b \<and> relevant (get_active c) b k}"
        using "3.prems" False deeper g ca "3.IH"(3) [OF False deeper g ca refl]
          "3.IH"(4) [OF False deeper g ca refl]
        by (cases ok) (fastforce simp: check_accounts.simps split: if_splits)+
      then show ?thesis using st1 g by auto
    qed
  qed
qed

section \<open>Properties\<close>

lemma given_approved: "G \<subseteq> approved_accounts K getter G"
  by (auto simp: approved_accounts_def)

lemma satisfied_within_satisfied:
  "satisfied_within K getter G n a \<Longrightarrow> satisfied K getter G a"
proof (induction n arbitrary: a)
  case 0
  then show ?case
    using weight_of_mono [OF given_approved [of G K getter], of "account_auths a"] by (simp add: satisfied_iff)
next
  case (Suc n)
  have "weight_of (account_auths a) (G \<union> {x. \<exists>b. getter x = Inr b \<and> satisfied_within K getter G n b})
      \<le> weight_of (account_auths a) (approved_accounts K getter G)"
    using Suc.IH by (intro weight_of_mono) (auto simp: approved_accounts_def)
  then show ?case using Suc.prems by (simp add: satisfied_iff)
qed

text \<open>A two-level example: \<open>alice\<close> is controlled by key 7, and the authority asks for her.\<close>

definition sample_context :: sign_context where
  "sample_context = new_sign_context
     (\<lambda>n. Inr (if n = ''alice'' then \<lparr>weight_threshold = 1, account_auths = [], key_auths = [(7, 1)]\<rparr>
               else default_authority)) []"

definition sample_authority :: authority where
  "sample_authority =
     \<lparr>weight_threshold = 3, account_auths = [(''alice'', 2)], key_auths = [(5, 4), (9, 1)]\<rparr>"

lemmas sample_defs = sample_context_def sample_authority_def new_sign_context_def
  new_sign_state_def STEEMIT_MAX_SIG_CHECK_DEPTH_def default_authority_def

text \<open>C5: When \<open>check_authority\<close> returns true, at any depth and from any state, the authority is
  satisfied: the keys that are signed (or can be) and the accounts already approved or recursively
  satisfied weigh at least its threshold.  The 32-bit accumulation of weights cannot be used to
  pass the check.\<close>

theorem check_authority_sound:
  assumes "check_authority c auth depth st = Inr (True, st')"
  shows "satisfied (can_sign c st) (get_active c) (set (approved_by st)) auth"
  using check_sound(1) [OF assms given_approved refl] by simp

theorem check_authority_sound_witness:
  "satisfied {7, 9} (get_active sample_context) {''temp''} sample_authority"
proof -
  have "\<exists>st'. check_authority sample_context sample_authority 0 (new_sign_state [7, 9]) = Inr (True, st')"
    by (simp add: sample_defs check_authority.simps check_accounts.simps signed_by_def)
  then show ?thesis
    using check_authority_sound [of sample_context sample_authority 0 "new_sign_state [7, 9]"]
    by (auto simp: can_sign_def sample_defs insert_commute)
qed

text \<open>C6: \<open>check_authority\<close> never misses: when the getter finds an active authority for every name
  and no sum of weights reaches 2^32, an authority that is satisfied within the levels of nesting
  that remain below \<open>max_recursion\<close> is accepted, whatever the earlier checks approved.\<close>

theorem check_authority_complete:
  assumes "getter_ok (get_active c)" and "light auth"
    and "satisfied_within (can_sign c st) (get_active c) (set (approved_by st))
           (unat (max_recursion c - depth)) auth"
  shows "\<exists>st'. check_authority c auth depth st = Inr (True, st')"
  using check_complete(1) [OF assms(1,2) subset_refl refl, of st depth] assms(3)
  by (auto simp: completes_def)

theorem check_authority_complete_witness:
  "\<exists>st'. check_authority sample_context sample_authority 0 (new_sign_state [7, 9]) = Inr (True, st')"
proof (rule check_authority_complete)
  have n: "unat (max_recursion sample_context - 0) = Suc (Suc 0)"
    by (simp add: sample_defs)
  show "satisfied_within (can_sign sample_context (new_sign_state [7, 9]))
      (get_active sample_context) (set (approved_by (new_sign_state [7, 9])))
      (unat (max_recursion sample_context - 0)) sample_authority"
    unfolding n by (simp add: sample_defs can_sign_def)
qed (simp_all add: sample_defs getter_ok_def light_def)

text \<open>\<open>remove_unused_signatures\<close> reports whether some provided signature was not used by any
  check, and leaves exactly the used ones.\<close>

theorem remove_unused_signatures_spec:
  assumes "fm_ok (provided_signatures st)"
  shows "(fst (remove_unused_signatures st) \<longleftrightarrow> (\<exists>k. fm_find (provided_signatures st) k = Some False)) \<and>
    (\<forall>k. fm_find (provided_signatures (snd (remove_unused_signatures st))) k =
      (if fm_find (provided_signatures st) k = Some True then Some True else None))"
proof (intro conjI allI)
  have i: "k \<in> fst ` set (filter (\<lambda>sig. \<not> snd sig) (provided_signatures st)) \<longleftrightarrow>
      fm_find (provided_signatures st) k = Some False" for k
    using fm_find_iff [OF assms, of k False] by force
  show "fst (remove_unused_signatures st) \<longleftrightarrow> (\<exists>k. fm_find (provided_signatures st) k = Some False)"
    unfolding i [symmetric] by (simp add: remove_unused_signatures_def filter_empty_conv) force
  show "fm_find (provided_signatures (snd (remove_unused_signatures st))) k =
      (if fm_find (provided_signatures st) k = Some True then Some True else None)" for k
    using i [of k] by (cases "fm_find (provided_signatures st) k")
      (auto simp del: set_filter simp: remove_unused_signatures_def fm.fold_erase_find)
qed

theorem remove_unused_signatures_spec_witness:
  "fst (remove_unused_signatures \<lparr>provided_signatures = [(3, True), (5, False)], approved_by = []\<rparr>)"
  using remove_unused_signatures_spec [of "\<lparr>provided_signatures = [(3, True), (5, False)], approved_by = []\<rparr>"]
  by (auto simp: fm_ok_def intro!: exI [of _ 5])

end
