(* ===== verification/Transaction.thy ===== *)
theory Transaction
  imports Operations_Validate Sign_State
begin

text \<open>
  Transactions: \<open>protocol/transaction.hpp\<close> and \<open>protocol/transaction.cpp\<close>.  The hashes of packed
  transactions are the fields of the parameter record \<open>tx_crypto\<close>.  \<open>a || b\<close> over checks that
  change the \<open>sign_state\<close> is \<open>or_check\<close>, which runs the second one on the state the first one left.
\<close>

section \<open>Data\<close>

record transaction =
  ref_block_num :: u16
  ref_block_prefix :: u32
  expiration :: time_point_sec
  operations :: "operation list"
  tx_extensions :: extensions_type

record signed_transaction = transaction +
  signatures :: "signature_type list"

text \<open>SHA-256 of the packed bytes of: a signed transaction, a transaction, a chain id and a
  transaction, a chain id and a signed transaction.\<close>

record tx_crypto =
  hash_signed_transaction :: "signed_transaction \<Rightarrow> digest_type"
  hash_transaction :: "transaction \<Rightarrow> digest_type"
  hash_chain_transaction :: "chain_id_type \<Rightarrow> transaction \<Rightarrow> digest_type"
  hash_chain_signed_transaction :: "chain_id_type \<Rightarrow> signed_transaction \<Rightarrow> digest_type"

section \<open>Digests, ids and signing\<close>

definition merkle_digest :: "tx_crypto \<Rightarrow> signed_transaction \<Rightarrow> digest_type" where
  "merkle_digest T tx = hash_signed_transaction T tx"

definition tx_digest :: "tx_crypto \<Rightarrow> ('a) transaction_scheme \<Rightarrow> digest_type" where
  "tx_digest T tx = hash_transaction T (transaction.truncate tx)"

definition sig_digest :: "tx_crypto \<Rightarrow> chain_id_type \<Rightarrow> ('a) transaction_scheme \<Rightarrow> digest_type" where
  "sig_digest T chain_id tx = hash_chain_transaction T chain_id (transaction.truncate tx)"

definition tx_validate :: "fc_lib \<Rightarrow> fc_crypto \<Rightarrow> ('a) transaction_scheme \<Rightarrow> unit res" where
  "tx_validate L K tx = run_checks
     (fc_assert (length (operations tx) > 0) ''A transaction must have at least one operation''
      # map (operation_validate L K) (operations tx))"

text \<open>The bytes of a digest as 32-bit words (little-endian memory order).\<close>

definition digest_words :: "digest_type \<Rightarrow> u32 list" where
  "digest_words d = concat (map (\<lambda>w. [ucast w, ucast (drop_bit 32 w)]) d)"

definition tx_id :: "tx_crypto \<Rightarrow> ('a) transaction_scheme \<Rightarrow> transaction_id_type" where
  "tx_id T tx = take 5 (digest_words (tx_digest T tx))"

definition tx_sign ::
  "fc_crypto \<Rightarrow> tx_crypto \<Rightarrow> private_key_type \<Rightarrow> chain_id_type \<Rightarrow> signed_transaction \<Rightarrow> signed_transaction" where
  "tx_sign K T key chain_id tx =
     (let h = sig_digest T chain_id tx
      in tx\<lparr>signatures := signatures tx @ [sign_compact K key h True]\<rparr>)"

text \<open>The \<open>const\<close> overload packs \<open>*this\<close>, a \<open>signed_transaction\<close>, so its signatures are hashed too.\<close>

definition tx_sign_const ::
  "fc_crypto \<Rightarrow> tx_crypto \<Rightarrow> private_key_type \<Rightarrow> chain_id_type \<Rightarrow> signed_transaction \<Rightarrow> signature_type" where
  "tx_sign_const K T key chain_id tx = sign_compact K key (hash_chain_signed_transaction T chain_id tx) True"

definition set_expiration :: "time_point_sec \<Rightarrow> ('a) transaction_scheme \<Rightarrow> ('a) transaction_scheme" where
  "set_expiration t tx = tx\<lparr>expiration := t\<rparr>"

definition set_reference_block ::
  "fc_lib \<Rightarrow> block_id_type \<Rightarrow> ('a) transaction_scheme \<Rightarrow> ('a) transaction_scheme" where
  "set_reference_block L reference_block tx =
     tx\<lparr>ref_block_num := ucast (endian_reverse_u32 L (reference_block ! 0)),
        ref_block_prefix := reference_block ! 1\<rparr>"

definition tx_clear :: "signed_transaction \<Rightarrow> signed_transaction" where
  "tx_clear tx = tx\<lparr>operations := [], signatures := []\<rparr>"

definition tx_get_required_authorities :: "operation list \<Rightarrow> required_auths \<Rightarrow> required_auths" where
  "tx_get_required_authorities ops r = fold operation_get_required_authorities ops r"

section \<open>Verifying authority\<close>

definition or_check ::
  "(bool \<times> sign_state) res \<Rightarrow> (sign_state \<Rightarrow> (bool \<times> sign_state) res) \<Rightarrow> (bool \<times> sign_state) res" where
  "or_check m f = rbind m (\<lambda>(b, s). if b then Inr (True, s) else f s)"

text \<open>\<open>s.check_authority( getter( id ) )\<close>.\<close>

definition check_by ::
  "sign_context \<Rightarrow> authority_getter \<Rightarrow> account_name_type \<Rightarrow> sign_state \<Rightarrow> (bool \<times> sign_state) res" where
  "check_by c getter i st = rbind (getter i) (\<lambda>auth. check_authority c auth 0 st)"

text \<open>\<open>STEEMIT_ASSERT( check, e )\<close>, keeping the state.\<close>

definition require :: "exn \<Rightarrow> (bool \<times> sign_state) res \<Rightarrow> sign_state res" where
  "require e m = rbind m (\<lambda>(b, s). if b then Inr s else Inl e)"

definition approve_all :: "account_name_type list \<Rightarrow> sign_state \<Rightarrow> sign_state" where
  "approve_all ids st = st\<lparr>approved_by := fold fs_insert ids (approved_by st)\<rparr>"

definition no_unused :: "sign_state \<Rightarrow> unit res" where
  "no_unused st = throw_unless (\<not> fst (remove_unused_signatures st)) tx_irrelevant_sig"

definition with_recursion :: "u32 \<Rightarrow> sign_context \<Rightarrow> sign_context" where
  "with_recursion m c = c\<lparr>max_recursion := m\<rparr>"

definition verify_posting ::
  "account_name_type list \<Rightarrow> public_key_type flat_set \<Rightarrow> authority_getter \<Rightarrow> authority_getter \<Rightarrow>
   authority_getter \<Rightarrow> u32 \<Rightarrow> account_name_type flat_set \<Rightarrow> unit res" where
  "verify_posting required_posting sigs get_act get_own get_post max_rec posting_approvals =
     (let c = with_recursion max_rec (new_sign_context get_post []);
          st = approve_all posting_approvals (new_sign_state sigs)
      in rbind (fold_res (\<lambda>i st. require (tx_missing_posting_auth i)
                  (or_check (or_check (check_authority_id c i st) (check_by c get_act i))
                     (check_by c get_own i)))
                required_posting st)
           no_unused)"

definition verify_active ::
  "required_auths \<Rightarrow> public_key_type flat_set \<Rightarrow> authority_getter \<Rightarrow> authority_getter \<Rightarrow> u32 \<Rightarrow>
   account_name_type flat_set \<Rightarrow> account_name_type flat_set \<Rightarrow> unit res" where
  "verify_active r sigs get_act get_own max_rec active_approvals owner_approvals =
     (let c = with_recursion max_rec (new_sign_context get_act []);
          st = approve_all owner_approvals (approve_all active_approvals (new_sign_state sigs))
      in rbind (fold_res (\<lambda>auth st. require tx_missing_other_auth (check_authority c auth 0 st))
                 (req_other r) st) (\<lambda>st.
         rbind (fold_res (\<lambda>i st. require (tx_missing_active_auth i)
                   (or_check (check_authority_id c i st) (check_by c get_own i)))
                 (req_active r) st) (\<lambda>st.
         rbind (fold_res (\<lambda>i st. require (tx_missing_owner_auth i)
                   (if i \<in> set owner_approvals then Inr (True, st) else check_by c get_own i st))
                 (req_owner r) st)
           no_unused)))"

definition verify_authority ::
  "operation list \<Rightarrow> public_key_type flat_set \<Rightarrow> authority_getter \<Rightarrow> authority_getter \<Rightarrow>
   authority_getter \<Rightarrow> u32 \<Rightarrow> account_name_type flat_set \<Rightarrow> account_name_type flat_set \<Rightarrow>
   account_name_type flat_set \<Rightarrow> unit res" where
  "verify_authority ops sigs get_act get_own get_post max_rec
     active_approvals owner_approvals posting_approvals =
     (let r = tx_get_required_authorities ops no_auths
      in if length (req_posting r) \<noteq> 0
         then run_checks [
           fc_assert (length (req_active r) = 0) ''required_active.size() == 0'',
           fc_assert (length (req_owner r) = 0) ''required_owner.size() == 0'',
           fc_assert (length (req_other r) = 0) ''other.size() == 0'',
           verify_posting (req_posting r) sigs get_act get_own get_post max_rec posting_approvals]
         else verify_active r sigs get_act get_own max_rec active_approvals owner_approvals)"

section \<open>Signatures\<close>

definition get_signature_keys ::
  "fc_crypto \<Rightarrow> tx_crypto \<Rightarrow> chain_id_type \<Rightarrow> signed_transaction \<Rightarrow> public_key_type flat_set res" where
  "get_signature_keys K T chain_id tx =
     (let d = sig_digest T chain_id tx
      in fold_res (\<lambda>sig result.
           rbind (recover_key K sig d True) (\<lambda>k.
           if k \<in> set result then Inl tx_duplicate_sig else Inr (fs_insert k result)))
         (signatures tx) [])"

text \<open>A loop of calls of \<open>check_authority\<close> whose result is ignored.\<close>

definition check_each :: "('i \<Rightarrow> sign_state \<Rightarrow> (bool \<times> sign_state) res) \<Rightarrow> 'i list \<Rightarrow> sign_state \<Rightarrow> sign_state res" where
  "check_each f xs st = fold_res (\<lambda>x st. rbind (f x st) (\<lambda>(b, st). Inr st)) xs st"

definition available_used :: "public_key_type flat_set \<Rightarrow> sign_state \<Rightarrow> public_key_type list" where
  "available_used available st =
     (let st = snd (remove_unused_signatures st)
      in foldl (\<lambda>r p. if fst p \<in> set available then fs_insert (fst p) r else r) []
           (provided_signatures st))"

definition get_required_signatures ::
  "fc_crypto \<Rightarrow> tx_crypto \<Rightarrow> chain_id_type \<Rightarrow> public_key_type flat_set \<Rightarrow> authority_getter \<Rightarrow>
   authority_getter \<Rightarrow> authority_getter \<Rightarrow> u32 \<Rightarrow> signed_transaction \<Rightarrow> public_key_type list res" where
  "get_required_signatures K T chain_id available get_act get_own get_post max_rec tx =
     (let r = tx_get_required_authorities (operations tx) no_auths
      in if length (req_posting r) \<noteq> 0
         then rbind (get_signature_keys K T chain_id tx) (\<lambda>sigs.
              let c = with_recursion max_rec (new_sign_context get_post available)
              in rbind (run_checks [fc_assert (length (req_owner r) = 0) ''!required_owner.size()'',
                                    fc_assert (length (req_active r) = 0) ''!required_active.size()'']) (\<lambda>_.
                 rbind (check_each (check_authority_id c) (req_posting r) (new_sign_state sigs)) (\<lambda>st.
                 Inr (available_used available st))))
         else rbind (get_signature_keys K T chain_id tx) (\<lambda>sigs.
              let c = with_recursion max_rec (new_sign_context get_act available)
              in rbind (check_each (\<lambda>auth. check_authority c auth 0) (req_other r) (new_sign_state sigs)) (\<lambda>st.
                 rbind (check_each (check_by c get_own) (req_owner r) st) (\<lambda>st.
                 rbind (check_each (check_authority_id c) (req_active r) st) (\<lambda>st.
                 Inr (available_used available st))))))"

text \<open>The exceptions the loop of \<open>minimize_required_signatures\<close> catches.\<close>

definition caught :: "exn \<Rightarrow> bool" where
  "caught e = (case e of tx_missing_owner_auth _ \<Rightarrow> True | tx_missing_active_auth _ \<Rightarrow> True
     | tx_missing_posting_auth _ \<Rightarrow> True | tx_missing_other_auth \<Rightarrow> True | _ \<Rightarrow> False)"

fun minimize_loop ::
  "(public_key_type flat_set \<Rightarrow> unit res) \<Rightarrow> public_key_type list \<Rightarrow> public_key_type flat_set \<Rightarrow>
   public_key_type flat_set res" where
  "minimize_loop verify [] result = Inr result"
| "minimize_loop verify (k # ks) result =
     (case verify (fs_erase k result) of
        Inr _ \<Rightarrow> minimize_loop verify ks (fs_erase k result)
      | Inl e \<Rightarrow> if caught e then minimize_loop verify ks (fs_insert k (fs_erase k result)) else Inl e)"

definition minimize_required_signatures ::
  "fc_crypto \<Rightarrow> tx_crypto \<Rightarrow> chain_id_type \<Rightarrow> public_key_type flat_set \<Rightarrow> authority_getter \<Rightarrow>
   authority_getter \<Rightarrow> authority_getter \<Rightarrow> u32 \<Rightarrow> signed_transaction \<Rightarrow> public_key_type list res" where
  "minimize_required_signatures K T chain_id available get_act get_own get_post max_rec tx =
     rbind (get_required_signatures K T chain_id available get_act get_own get_post max_rec tx) (\<lambda>s.
     minimize_loop
       (\<lambda>sigs. verify_authority (operations tx) sigs get_act get_own get_post max_rec [] [] []) s s)"

definition tx_verify_authority ::
  "fc_crypto \<Rightarrow> tx_crypto \<Rightarrow> chain_id_type \<Rightarrow> authority_getter \<Rightarrow> authority_getter \<Rightarrow>
   authority_getter \<Rightarrow> u32 \<Rightarrow> signed_transaction \<Rightarrow> unit res" where
  "tx_verify_authority K T chain_id get_act get_own get_post max_rec tx =
     rbind (get_signature_keys K T chain_id tx) (\<lambda>sigs.
     verify_authority (operations tx) sigs get_act get_own get_post max_rec [] [] [])"

section \<open>Lemmas on the verification state\<close>

lemma new_sign_state_simps [simp]:
  "can_sign c (new_sign_state sigs) = set sigs \<union> set (available_keys c)"
  "used (new_sign_state sigs) = {}"
  "approved_by (new_sign_state sigs) = [''temp'']"
proof -
  have f: "foldl (\<lambda>m key. fm_put key False m) m sigs = fold (\<lambda>k. fm_put k False) sigs m" for m
    by (induction sigs arbitrary: m) auto
  have find: "fm_find (provided_signatures (new_sign_state sigs)) k = (if k \<in> set sigs then Some False else None)" for k
    by (simp add: new_sign_state_def f fm.fold_put_find)
  have "k \<in> fst ` set (provided_signatures (new_sign_state sigs)) \<longleftrightarrow> k \<in> set sigs" for k
    using fm_find_None [of "provided_signatures (new_sign_state sigs)" k] find [of k] by (auto split: if_splits)
  then show "can_sign c (new_sign_state sigs) = set sigs \<union> set (available_keys c)"
    unfolding can_sign_def by blast
  show "used (new_sign_state sigs) = {}" by (simp add: used_def find)
  show "approved_by (new_sign_state sigs) = [''temp'']" by (simp add: new_sign_state_def)
qed

lemma approve_all_simps [simp]:
  "can_sign c (approve_all ids st) = can_sign c st"
  "used (approve_all ids st) = used st"
  "set (approved_by (approve_all ids st)) = set ids \<union> set (approved_by st)"
  by (simp_all add: approve_all_def)

lemma with_recursion_simps [simp]:
  "get_active (with_recursion m (new_sign_context g ks)) = g"
  "available_keys (with_recursion m (new_sign_context g ks)) = ks"
  by (simp_all add: with_recursion_def new_sign_context_def)

text \<open>The invariant of the loops: the signable keys stay the same, every approved account is approved
  by the specification, and only keys of \<open>U\<close> have been used.\<close>

definition st_ok ::
  "sign_context \<Rightarrow> public_key_type set \<Rightarrow> account_name_type set \<Rightarrow> public_key_type set \<Rightarrow> sign_state \<Rightarrow> bool" where
  "st_ok c K G U st \<longleftrightarrow> can_sign c st = K \<and>
     set (approved_by st) \<subseteq> approved_accounts K (get_active c) G \<and> used st \<subseteq> U"

lemma st_ok_check:
  assumes "check_authority c auth depth st = Inr (r, st')" and "st_ok c K G U st"
    and "{k. relevant (get_active c) auth k} \<subseteq> U"
  shows "st_ok c K G U st' \<and> (r \<longrightarrow> satisfied K (get_active c) G auth)"
  using check_sound(1) [OF assms(1), of K G] check_used(1) [OF assms(1)] assms(2,3)
  by (auto simp: st_ok_def keeps_def)

lemma st_ok_check_by:
  assumes "check_by c f i st = Inr (r, st')" and "st_ok c K G U st"
    and "\<And>a. f i = Inr a \<Longrightarrow> {k. relevant (get_active c) a k} \<subseteq> U"
  shows "st_ok c K G U st' \<and> (r \<longrightarrow> (\<exists>a. f i = Inr a \<and> satisfied K (get_active c) G a))"
  using assms st_ok_check unfolding check_by_def by fastforce

lemma st_ok_check_id:
  assumes "check_authority_id c i st = Inr (r, st')" and "st_ok c K G U st"
    and "\<And>a. get_active c i = Inr a \<Longrightarrow> {k. relevant (get_active c) a k} \<subseteq> U"
  shows "st_ok c K G U st' \<and> (r \<longrightarrow> i \<in> approved_accounts K (get_active c) G)"
proof (cases "i \<in> set (approved_by st)")
  case True
  then show ?thesis using assms by (auto simp: check_authority_id_def st_ok_def)
next
  case False
  then have "check_by c (get_active c) i st = Inr (r, st')"
    using assms(1) by (simp add: check_authority_id_def check_by_def)
  then show ?thesis
    using st_ok_check_by [OF _ assms(2,3)] by (auto simp: approved_accounts_def)
qed

lemma require_Inr: "require e m = Inr st \<longleftrightarrow> m = Inr (True, st)"
  by (auto simp: require_def split: if_splits)

lemma or_check_Inr:
  "or_check m f = Inr (r, st') \<longleftrightarrow>
     (r \<and> m = Inr (True, st')) \<or> (\<exists>st. m = Inr (False, st) \<and> f st = Inr (r, st'))"
  by (auto simp: or_check_def split: if_splits)

text \<open>The rule for \<open>a || b\<close>: each operand keeps \<open>P\<close>; a true result comes from one of them.\<close>

lemma or_check_rule:
  assumes "or_check m f = Inr (r, st')"
    and "\<And>r st. m = Inr (r, st) \<Longrightarrow> P st \<and> (r \<longrightarrow> A)"
    and "\<And>st r st'. P st \<Longrightarrow> f st = Inr (r, st') \<Longrightarrow> P st' \<and> (r \<longrightarrow> B)"
  shows "P st' \<and> (r \<longrightarrow> A \<or> B)"
  using assms unfolding or_check_Inr by blast

lemma id_or_by:
  assumes "or_check (check_authority_id c i s) (check_by c f i) = Inr (r, t)" and "st_ok c K G U s"
    and "\<And>a. get_active c i = Inr a \<Longrightarrow> {k. relevant (get_active c) a k} \<subseteq> U"
    and "\<And>a. f i = Inr a \<Longrightarrow> {k. relevant (get_active c) a k} \<subseteq> U"
  shows "st_ok c K G U t \<and> (r \<longrightarrow> i \<in> approved_accounts K (get_active c) G \<or>
    (\<exists>a. f i = Inr a \<and> satisfied K (get_active c) G a))"
  by (rule or_check_rule [OF assms(1)])
    (use st_ok_check_id [OF _ assms(2,3)] st_ok_check_by [OF _ _ assms(4)] in blast)+

text \<open>After the last check every signature must be marked as used.\<close>

lemma no_unused_used:
  assumes "no_unused st = Inr u" and "available_keys c = []"
  shows "can_sign c st \<subseteq> used st"
proof
  fix k
  assume "k \<in> can_sign c st"
  then obtain v where v: "fm_find (provided_signatures st) k = Some v"
    using fm_find_None [of "provided_signatures st" k] assms(2) by (auto simp: can_sign_def)
  then have "(k, v) \<in> set (provided_signatures st)" by (rule fm_find_in)
  then have v
    using assms(1) by (auto simp: no_unused_def remove_unused_signatures_def filter_empty_conv)
  then show "k \<in> used st" using v by (simp add: used_def)
qed

section \<open>What a successful verification means\<close>

text \<open>An account has authorised the transaction when it is approved, or one of the given authorities
  of it is satisfied.\<close>

definition authorised ::
  "public_key_type set \<Rightarrow> authority_getter \<Rightarrow> account_name_type set \<Rightarrow> authority_getter list \<Rightarrow>
   account_name_type \<Rightarrow> bool" where
  "authorised K getter G fs i \<longleftrightarrow> i \<in> approved_accounts K getter G \<or>
     (\<exists>f \<in> set fs. \<exists>a. f i = Inr a \<and> satisfied K getter G a)"

text \<open>The keys relevant to the authorities that the checks look at.\<close>

definition relevant_keys ::
  "authority_getter \<Rightarrow> authority list \<Rightarrow> (account_name_type list \<times> authority_getter list) list \<Rightarrow>
   public_key_type set" where
  "relevant_keys getter others reqs =
     {k. (\<exists>a \<in> set others. relevant getter a k) \<or>
         (\<exists>(ids, fs) \<in> set reqs. \<exists>i \<in> set ids. \<exists>f \<in> set fs. \<exists>a. f i = Inr a \<and> relevant getter a k)}"

lemma relevant_keysI:
  "(ids, fs) \<in> set reqs \<Longrightarrow> i \<in> set ids \<Longrightarrow> f \<in> set fs \<Longrightarrow> f i = Inr a \<Longrightarrow>
     {k. relevant getter a k} \<subseteq> relevant_keys getter others reqs"
  "a \<in> set others \<Longrightarrow> {k. relevant getter a k} \<subseteq> relevant_keys getter others reqs"
  by (auto simp: relevant_keys_def) blast

lemma verify_posting_ok:
  assumes "verify_posting ids sigs ga go gp m pa = Inr u"
  shows "(\<forall>i \<in> set ids. authorised (set sigs) gp ({''temp''} \<union> set pa) [ga, go] i) \<and>
    set sigs \<subseteq> relevant_keys gp [] [(ids, [gp, ga, go])]"
proof -
  let ?G = "{''temp''} \<union> set pa" and ?U = "relevant_keys gp [] [(ids, [gp, ga, go])]"
  define c where "c = with_recursion m (new_sign_context gp [])"
  have c [simp]: "get_active c = gp" "available_keys c = []" by (simp_all add: c_def)
  let ?st = "approve_all pa (new_sign_state sigs)"
  let ?f = "\<lambda>i st. require (tx_missing_posting_auth i)
              (or_check (or_check (check_authority_id c i st) (check_by c ga i)) (check_by c go i))"
  obtain st where st: "fold_res ?f ids ?st = Inr st" "no_unused st = Inr ()"
    using assms by (auto simp: verify_posting_def Let_def c_def)
  have "st_ok c (set sigs) ?G ?U ?st"
    using given_approved [of ?G "set sigs" gp] by (auto simp: st_ok_def)
  moreover have "st_ok c (set sigs) ?G ?U t \<and> authorised (set sigs) gp ?G [ga, go] i"
    if i: "i \<in> set ids" and s: "st_ok c (set sigs) ?G ?U s" and f: "?f i s = Inr t" for i s t
  proof -
    have U: "h i = Inr a \<Longrightarrow> {k. relevant gp a k} \<subseteq> ?U" if "h \<in> {gp, ga, go}" for h a
      using i that by (intro relevant_keysI(1) [of ids "[gp, ga, go]" _ i h]) auto
    have Us: "\<And>a. get_active c i = Inr a \<Longrightarrow> {k. relevant (get_active c) a k} \<subseteq> ?U"
      "\<And>a. ga i = Inr a \<Longrightarrow> {k. relevant (get_active c) a k} \<subseteq> ?U"
      "\<And>a. go i = Inr a \<Longrightarrow> {k. relevant (get_active c) a k} \<subseteq> ?U"
      using U by auto
    have f': "or_check (or_check (check_authority_id c i s) (check_by c ga i)) (check_by c go i) = Inr (True, t)"
      using f unfolding require_Inr .
    have "st_ok c (set sigs) ?G ?U t \<and> (True \<longrightarrow> (i \<in> approved_accounts (set sigs) gp ?G \<or>
        (\<exists>a. ga i = Inr a \<and> satisfied (set sigs) gp ?G a)) \<or> (\<exists>a. go i = Inr a \<and> satisfied (set sigs) gp ?G a))"
      by (rule or_check_rule [OF f'])
        (use id_or_by [OF _ s Us(1,2)] st_ok_check_by [OF _ _ Us(3)] c(1) in metis)+
    then show ?thesis by (auto simp: authorised_def)
  qed
  ultimately have "st_ok c (set sigs) ?G ?U st \<and> (\<forall>i \<in> set ids. authorised (set sigs) gp ?G [ga, go] i)"
    by (rule fold_res_all [OF st(1)])
  then show ?thesis using no_unused_used [OF st(2) c(2)] by (auto simp: st_ok_def)
qed

lemma verify_active_ok:
  fixes sigs ga go aa oa r
  defines "G \<equiv> {''temp''} \<union> set aa \<union> set oa"
    and "U \<equiv> relevant_keys ga (req_other r) [(req_active r, [ga, go]), (req_owner r, [go])]"
  assumes "verify_active r sigs ga go m aa oa = Inr u"
  shows "(\<forall>a \<in> set (req_other r). satisfied (set sigs) ga G a) \<and>
    (\<forall>i \<in> set (req_active r). authorised (set sigs) ga G [go] i) \<and>
    (\<forall>i \<in> set (req_owner r). i \<in> set oa \<or> (\<exists>a. go i = Inr a \<and> satisfied (set sigs) ga G a)) \<and>
    set sigs \<subseteq> U"
proof -
  define c where "c = with_recursion m (new_sign_context ga [])"
  have c [simp]: "get_active c = ga" "available_keys c = []" by (simp_all add: c_def)
  let ?st = "approve_all oa (approve_all aa (new_sign_state sigs))"
  let ?f1 = "\<lambda>auth st. require tx_missing_other_auth (check_authority c auth 0 st)"
  let ?f2 = "\<lambda>i st. require (tx_missing_active_auth i) (or_check (check_authority_id c i st) (check_by c go i))"
  let ?f3 = "\<lambda>i st. require (tx_missing_owner_auth i)
              (if i \<in> set oa then Inr (True, st) else check_by c go i st)"
  let ?P = "st_ok c (set sigs) G U"
  obtain s1 s2 s3 where st: "fold_res ?f1 (req_other r) ?st = Inr s1" "fold_res ?f2 (req_active r) s1 = Inr s2"
    "fold_res ?f3 (req_owner r) s2 = Inr s3" "no_unused s3 = Inr ()"
    using assms(3) unfolding verify_active_def Let_def c_def [symmetric] by auto
  have "?P ?st" using given_approved [of G "set sigs" ga] by (auto simp: st_ok_def G_def)
  then have 1: "?P s1 \<and> (\<forall>a \<in> set (req_other r). satisfied (set sigs) ga G a)"
  proof (rule fold_res_all [OF st(1)])
    show "?P t \<and> satisfied (set sigs) ga G a"
      if "a \<in> set (req_other r)" "?P s" "?f1 a s = Inr t" for a s t
      using st_ok_check [of c a 0 s True t "set sigs" G U] that relevant_keysI(2) [of a "req_other r" ga]
      by (simp add: require_Inr U_def)
  qed
  then have 2: "?P s2 \<and> (\<forall>i \<in> set (req_active r). authorised (set sigs) ga G [go] i)"
    using conjunct1 [OF 1]
  proof (intro fold_res_all [OF st(2)])
    show "?P t \<and> authorised (set sigs) ga G [go] i"
      if i: "i \<in> set (req_active r)" and s: "?P s" and f: "?f2 i s = Inr t" for i s t
    proof -
      have "h i = Inr a \<Longrightarrow> {k. relevant ga a k} \<subseteq> U" if "h \<in> {ga, go}" for h a
        unfolding U_def using i that by (intro relevant_keysI(1) [of "req_active r" "[ga, go]" _ i h]) auto
      then have Us: "\<And>a. get_active c i = Inr a \<Longrightarrow> {k. relevant (get_active c) a k} \<subseteq> U"
        "\<And>a. go i = Inr a \<Longrightarrow> {k. relevant (get_active c) a k} \<subseteq> U"
        by auto
      show ?thesis
        using id_or_by [OF f [unfolded require_Inr] s Us] by (simp add: authorised_def)
    qed
  qed
  then have 3: "?P s3 \<and> (\<forall>i \<in> set (req_owner r). i \<in> set oa \<or> (\<exists>a. go i = Inr a \<and> satisfied (set sigs) ga G a))"
    using conjunct1 [OF 2]
  proof (intro fold_res_all [OF st(3)])
    show "?P t \<and> (i \<in> set oa \<or> (\<exists>a. go i = Inr a \<and> satisfied (set sigs) ga G a))"
      if i: "i \<in> set (req_owner r)" and s: "?P s" and f: "?f3 i s = Inr t" for i s t
    proof -
      have "go i = Inr a \<Longrightarrow> {k. relevant ga a k} \<subseteq> U" for a
        unfolding U_def using i by (intro relevant_keysI(1) [of "req_owner r" "[go]" _ i go]) auto
      then show ?thesis
        using st_ok_check_by [of c go i s True t "set sigs" G U] s f unfolding require_Inr c
        by (auto split: if_splits)
    qed
  qed
  then show ?thesis
    using 1 2 no_unused_used [OF st(4) c(2)] by (auto simp: st_ok_def)
qed

section \<open>Properties\<close>

definition sample_getter :: authority_getter where
  "sample_getter = (\<lambda>n. Inr (if n = ''alice'' then \<lparr>weight_threshold = 1, account_auths = [], key_auths = [(7, 1)]\<rparr>
     else default_authority))"

lemma sample_required:
  "tx_get_required_authorities [Op_transfer sample_transfer] no_auths = no_auths\<lparr>req_active := [''alice'']\<rparr>"
  by (simp add: tx_get_required_authorities_def required_defs no_auths_def sample_transfer_def)

lemma sample_verified:
  "verify_authority [Op_transfer sample_transfer] [7] sample_getter sample_getter sample_getter 2 [] [] [] = Inr ()"
  unfolding verify_authority_def sample_required
  by (simp add: verify_active_def no_auths_def with_recursion_def
      new_sign_context_def new_sign_state_def approve_all_def check_authority_id_def require_def or_check_def
      sample_getter_def check_authority.simps signed_by_def no_unused_def remove_unused_signatures_def
      throw_unless_def rbind_def)

text \<open>C2: \<open>verify_authority\<close> returns only when the transaction is authorised.  With posting operations in
  it, it has no others, and each account involved is approved or satisfied by its posting, active
  or owner authority; otherwise every extra authority is satisfied, every account whose active
  authority is needed is approved or satisfied by its active or owner authority, and every account
  whose owner authority is needed has its owner authority satisfied (or was approved by the caller).
  Only the keys of the given signatures count, and the wildcard account \<open>temp\<close>.\<close>

theorem verify_authority_sound:
  assumes "verify_authority ops sigs ga go gp m aa oa pa = Inr ()"
    and "tx_get_required_authorities ops no_auths = r"
  shows "if req_posting r \<noteq> []
    then req_active r = [] \<and> req_owner r = [] \<and> req_other r = [] \<and>
      (\<forall>i \<in> set (req_posting r). authorised (set sigs) gp ({''temp''} \<union> set pa) [ga, go] i)
    else (\<forall>a \<in> set (req_other r). satisfied (set sigs) ga ({''temp''} \<union> set aa \<union> set oa) a) \<and>
      (\<forall>i \<in> set (req_active r). authorised (set sigs) ga ({''temp''} \<union> set aa \<union> set oa) [go] i) \<and>
      (\<forall>i \<in> set (req_owner r). i \<in> set oa \<or>
         (\<exists>a. go i = Inr a \<and> satisfied (set sigs) ga ({''temp''} \<union> set aa \<union> set oa) a))"
  using assms verify_posting_ok [of "req_posting r" sigs ga go gp m pa] verify_active_ok [of r sigs ga go m aa oa]
  by (simp add: verify_authority_def Let_def split: if_splits)

theorem verify_authority_sound_witness:
  "authorised {7} sample_getter {''temp''} [sample_getter] ''alice''"
  using verify_authority_sound [OF sample_verified sample_required] by (simp add: no_auths_def)

text \<open>C27: \<open>verify_authority\<close> rejects unnecessary signatures: when it returns, every signature is by a key
  that occurs in an authority that the transaction needs, directly or through the accounts the
  authority lists.\<close>

theorem verify_authority_no_irrelevant:
  assumes "verify_authority ops sigs ga go gp m aa oa pa = Inr ()"
    and "tx_get_required_authorities ops no_auths = r" and "k \<in> set sigs"
  shows "k \<in> (if req_posting r \<noteq> [] then relevant_keys gp [] [(req_posting r, [gp, ga, go])]
     else relevant_keys ga (req_other r) [(req_active r, [ga, go]), (req_owner r, [go])])"
  using assms verify_posting_ok [of "req_posting r" sigs ga go gp m pa] verify_active_ok [of r sigs ga go m aa oa]
  by (auto simp add: verify_authority_def Let_def split: if_splits)

theorem verify_authority_no_irrelevant_witness:
  "7 \<in> relevant_keys sample_getter [] [([''alice''], [sample_getter, sample_getter]), ([], [sample_getter])]"
  using verify_authority_no_irrelevant [OF sample_verified sample_required, of 7] by (simp add: no_auths_def)

lemma signature_keys_loop:
  assumes "fold_res (\<lambda>sig result. rbind (recover_key K sig d True) (\<lambda>k.
      if k \<in> set result then Inl tx_duplicate_sig else Inr (fs_insert k result))) sigs ks0 = Inr ks"
    and "sorted_wrt (<) ks0"
  shows "sorted_wrt (<) ks \<and> length ks = length ks0 + length sigs \<and>
    set ks = set ks0 \<union> {k. \<exists>sig \<in> set sigs. recover_key K sig d True = Inr k}"
  using assms
proof (induction sigs arbitrary: ks0)
  case (Cons sig sigs)
  obtain k where k: "recover_key K sig d True = Inr k" "k \<notin> set ks0"
    using Cons.prems(1) by (auto split: if_splits)
  have "length (fs_insert k ks0) = Suc (length ks0)"
    using k(2) by (induction k ks0 rule: fs_insert.induct) auto
  moreover have "sorted_wrt (<) ks \<and> length ks = length (fs_insert k ks0) + length sigs \<and>
      set ks = set (fs_insert k ks0) \<union> {k. \<exists>sig \<in> set sigs. recover_key K sig d True = Inr k}"
    using Cons.prems k by (intro Cons.IH) (auto simp: sorted_fs_insert)
  ultimately show ?case using k by auto
qed simp

text \<open>C36: \<open>get_signature_keys\<close> returns the recovered keys without repetition, one per signature: two
  signatures by one key make it throw.\<close>

theorem signature_keys_exact:
  assumes "get_signature_keys K T chain_id tx = Inr ks"
  shows "sorted_wrt (<) ks \<and> length ks = length (signatures tx) \<and>
    set ks = {k. \<exists>sig \<in> set (signatures tx). recover_key K sig (sig_digest T chain_id tx) True = Inr k}"
  using signature_keys_loop [of K "sig_digest T chain_id tx" "signatures tx" "[]" ks] assms
  by (auto simp: get_signature_keys_def Let_def)

definition tx_crypto_ref :: tx_crypto where
  "tx_crypto_ref = \<lparr>hash_signed_transaction = (\<lambda>_. null_digest), hash_transaction = (\<lambda>_. null_digest),
     hash_chain_transaction = (\<lambda>_ _. null_digest), hash_chain_signed_transaction = (\<lambda>_ _. null_digest)\<rparr>"

definition sample_tx :: signed_transaction where
  "sample_tx = \<lparr>ref_block_num = 0, ref_block_prefix = 0, expiration = 0,
     operations = [Op_transfer sample_transfer], tx_extensions = [], signatures = [[9], [7]]\<rparr>"

theorem signature_keys_exact_witness:
  "\<exists>ks. get_signature_keys crypto_ref tx_crypto_ref null_digest sample_tx = Inr ks \<and> length ks = 2"
proof -
  have "get_signature_keys crypto_ref tx_crypto_ref null_digest sample_tx = Inr [7, 9]"
    by (simp add: get_signature_keys_def sample_tx_def crypto_ref_def)
  then show ?thesis using signature_keys_exact by (force simp: sample_tx_def)
qed

text \<open>C37: A transaction without signatures that is signed with a key yields exactly the public key of that
  key, whatever the chain id.\<close>

theorem sign_then_recover:
  assumes "signature_laws K pub" and "signatures tx = []"
  shows "get_signature_keys K T chain_id (tx_sign K T key chain_id tx) = Inr [pub key]"
proof -
  have "sig_digest T chain_id (tx\<lparr>signatures := x\<rparr>) = sig_digest T chain_id tx" for x
    by (simp add: sig_digest_def transaction.truncate_def)
  then show ?thesis
    using assms by (simp add: get_signature_keys_def tx_sign_def signature_laws_def Let_def)
qed

theorem sign_then_recover_witness:
  "get_signature_keys crypto_ref tx_crypto_ref null_digest
     (tx_sign crypto_ref tx_crypto_ref [9, 0, 0, 0] null_digest (sample_tx\<lparr>signatures := []\<rparr>)) = Inr [9]"
  using sign_then_recover [OF signature_laws_ref, of "sample_tx\<lparr>signatures := []\<rparr>"] by simp

lemma minimize_loop_inv:
  assumes "minimize_loop verify ks result = Inr out" and "verify result = Inr ()" and "set ks \<subseteq> set result"
    and "distinct ks" and "sorted_wrt (<) result"
  shows "verify out = Inr () \<and> set out \<subseteq> set result"
  using assms
proof (induction verify ks result rule: minimize_loop.induct)
  case (2 verify k ks result)
  have k: "k \<in> set result" using "2.prems"(3) by simp
  have sub: "set ks \<subseteq> set (fs_erase k result)" using "2.prems"(3,4) by auto
  have sorted: "sorted_wrt (<) (fs_erase k result)" using "2.prems"(5) by (simp add: fs_erase_def sorted_wrt_filter)
  have restored: "fs_insert k (fs_erase k result) = result"
    using sorted sorted_fs_insert "2.prems"(5) k by (intro strict_sorted_equal) auto
  show ?case
  proof (cases "verify (fs_erase k result)")
    case (Inl e)
    then show ?thesis using "2.prems" "2.IH"(1) [OF Inl, unfolded restored] restored by (auto split: if_splits)
  next
    case (Inr u)
    then show ?thesis using "2.prems" "2.IH"(2) [OF Inr] sub sorted by auto
  qed
qed simp

lemma available_used_sorted: "sorted_wrt (<) (available_used available st)"
proof -
  have "sorted_wrt (<) (foldl (\<lambda>r p. if fst p \<in> set available then fs_insert (fst p) r else r) r ps)"
    if "sorted_wrt (<) r" for r and ps :: "(public_key_type \<times> bool) list"
    using that by (induction ps arbitrary: r) (auto simp: sorted_fs_insert)
  then show ?thesis by (simp add: available_used_def Let_def)
qed

lemma required_signatures_sorted:
  "get_required_signatures K T chain_id available ga go gp m tx = Inr s \<Longrightarrow> sorted_wrt (<) s"
  by (auto simp: get_required_signatures_def Let_def available_used_sorted split: if_splits)

text \<open>C23: \<open>minimize_required_signatures\<close> returns a subset of the required signatures that still verifies,
  when all of them together do.\<close>

theorem minimized_signatures_verify:
  assumes "get_required_signatures K T chain_id available ga go gp m tx = Inr s"
    and "verify_authority (operations tx) s ga go gp m [] [] [] = Inr ()"
    and "minimize_required_signatures K T chain_id available ga go gp m tx = Inr out"
  shows "verify_authority (operations tx) out ga go gp m [] [] [] = Inr () \<and> set out \<subseteq> set s"
proof -
  note sorted = required_signatures_sorted [OF assms(1)]
  then have "distinct s" by (simp add: strict_sorted_iff)
  then show ?thesis
    using minimize_loop_inv [OF _ _ subset_refl _ sorted] assms by (auto simp: minimize_required_signatures_def)
qed

lemma sample_minimize:
  "get_required_signatures crypto_ref tx_crypto_ref null_digest [7] sample_getter sample_getter sample_getter 2
     (sample_tx\<lparr>signatures := []\<rparr>) = Inr [7]"
  "minimize_required_signatures crypto_ref tx_crypto_ref null_digest [7] sample_getter sample_getter sample_getter 2
     (sample_tx\<lparr>signatures := []\<rparr>) = Inr [7]"
proof -
  have ops: "operations (sample_tx\<lparr>signatures := []\<rparr>) = [Op_transfer sample_transfer]"
    by (simp add: sample_tx_def)
  show s: "get_required_signatures crypto_ref tx_crypto_ref null_digest [7] sample_getter sample_getter sample_getter 2
     (sample_tx\<lparr>signatures := []\<rparr>) = Inr [7]"
    unfolding get_required_signatures_def ops sample_required
    by (simp add: no_auths_def get_signature_keys_def with_recursion_def
      new_sign_context_def new_sign_state_def check_each_def check_authority_id_def
      sample_getter_def check_authority.simps signed_by_def remove_unused_signatures_def available_used_def
      rbind_def)
  have "verify_authority [Op_transfer sample_transfer] [] sample_getter sample_getter sample_getter 2 [] [] [] =
      Inl (tx_missing_active_auth ''alice'')"
    unfolding verify_authority_def sample_required
    by (simp add: verify_active_def no_auths_def with_recursion_def
      new_sign_context_def new_sign_state_def approve_all_def check_authority_id_def require_def or_check_def
      check_by_def sample_getter_def check_authority.simps check_accounts.simps signed_by_def rbind_def)
  then show "minimize_required_signatures crypto_ref tx_crypto_ref null_digest [7] sample_getter sample_getter
      sample_getter 2 (sample_tx\<lparr>signatures := []\<rparr>) = Inr [7]"
    by (simp add: minimize_required_signatures_def s ops fs_erase_def caught_def)
qed

theorem minimized_signatures_verify_witness:
  "verify_authority (operations (sample_tx\<lparr>signatures := []\<rparr>)) [7] sample_getter sample_getter sample_getter 2 [] [] [] = Inr ()"
proof -
  have "verify_authority (operations (sample_tx\<lparr>signatures := []\<rparr>)) [7] sample_getter sample_getter sample_getter 2 [] [] [] = Inr ()"
    using sample_verified by (simp add: sample_tx_def)
  from minimized_signatures_verify [OF sample_minimize(1) this sample_minimize(2)] show ?thesis by simp
qed

end
