(* ===== verification/Block.thy ===== *)
theory Block
  imports Transaction
begin

text \<open>
  Blocks: \<open>protocol/block.hpp\<close> and \<open>signed_block::calculate_merkle_root\<close> of \<open>protocol/block.cpp\<close>.
  The code hashes the transaction digests pairwise in place in one vector; the loop is modelled on
  that vector and proved equal to the recursive definition of the Merkle tree.  The indices are
  \<open>uint32_t\<close> in the code and natural numbers here: a block has fewer than 2^32 transactions.
\<close>

section \<open>The loops of the code\<close>

record signed_block = signed_block_header +
  transactions :: "signed_transaction list"

text \<open>The inner loop: \<open>ids[k++] = hash(ids[i], ids[i + 1])\<close> for even \<open>i < i_max\<close>.\<close>

function merkle_pairs ::
  "fc_crypto \<Rightarrow> digest_type list \<Rightarrow> nat \<Rightarrow> nat \<Rightarrow> nat \<Rightarrow> digest_type list \<times> nat" where
  "merkle_pairs K ids i i_max k =
     (if i < i_max
      then merkle_pairs K (ids[k := sha256_of_pair K (ids ! i, ids ! (i + 1))]) (i + 2) i_max (k + 1)
      else (ids, k))"
  by pat_completeness auto
termination by (relation "measure (\<lambda>(K, ids, i, i_max, k). i_max - i)") auto

declare merkle_pairs.simps [simp del]

lemma merkle_pairs_count: "snd (merkle_pairs K ids i i_max k) = k + (i_max - i + 1) div 2"
proof (induction K ids i i_max k rule: merkle_pairs.induct)
  case (1 K ids i i_max k)
  show ?case
  proof (cases "i < i_max")
    case True
    then have "i_max - i + 1 = i_max - (i + 2) + 1 + 2 \<or> i_max - i = 1" by arith
    then show ?thesis using True 1 by (auto simp: merkle_pairs.simps [of K ids])
  qed (simp add: merkle_pairs.simps [of K ids])
qed

text \<open>One round of the outer loop: the vector and the number of hashes left.\<close>

definition merkle_round :: "fc_crypto \<Rightarrow> digest_type list \<Rightarrow> nat \<Rightarrow> digest_type list \<times> nat" where
  "merkle_round K ids n =
     (let i_max = n - n mod 2;
          (ids, k) = merkle_pairs K ids 0 i_max 0
      in if n mod 2 = 1 then (ids[k := ids ! i_max], k + 1) else (ids, k))"

lemma merkle_round_count: "snd (merkle_round K ids n) = (n + 1) div 2"
proof -
  have "snd (merkle_pairs K ids 0 (n - n mod 2) 0) = n div 2"
    by (simp add: merkle_pairs_count) presburger
  then show ?thesis
    by (auto simp: merkle_round_def Let_def split: prod.splits) presburger+
qed

function merkle_loop :: "fc_crypto \<Rightarrow> digest_type list \<Rightarrow> nat \<Rightarrow> digest_type" where
  "merkle_loop K ids n =
     (if n > 1 then (case merkle_round K ids n of (ids', k) \<Rightarrow> merkle_loop K ids' k) else ids ! 0)"
  by pat_completeness auto
termination
proof (relation "measure (\<lambda>(K, ids, n). n)", goal_cases)
  case (2 K ids n ids' k)
  then have "k = (n + 1) div 2" using merkle_round_count [of K ids n] by (metis snd_conv)
  then show ?case using 2(1) by simp
qed simp

declare merkle_loop.simps [simp del]

definition calculate_merkle_root :: "fc_crypto \<Rightarrow> tx_crypto \<Rightarrow> ('a) signed_block_scheme \<Rightarrow> checksum_type" where
  "calculate_merkle_root K T b =
     (if length (transactions b) = 0 then null_id
      else let ids = map (merkle_digest T) (transactions b)
           in ripemd160_of_digest K (merkle_loop K ids (length ids)))"

section \<open>The tree\<close>

fun pair_up :: "fc_crypto \<Rightarrow> digest_type list \<Rightarrow> digest_type list" where
  "pair_up K (x # y # r) = sha256_of_pair K (x, y) # pair_up K r"
| "pair_up K r = r"

lemma length_pair_up [simp]: "length (pair_up K xs) = (length xs + 1) div 2"
  by (induction K xs rule: pair_up.induct) auto

lemma pair_up_snoc: "even (length xs) \<Longrightarrow> pair_up K (xs @ [x]) = pair_up K xs @ [x]"
  by (induction K xs rule: pair_up.induct) auto

fun merkle_tree :: "fc_crypto \<Rightarrow> digest_type list \<Rightarrow> digest_type" where
  "merkle_tree K [] = null_digest"
| "merkle_tree K [x] = x"
| "merkle_tree K (x # y # r) = merkle_tree K (pair_up K (x # y # r))"

text \<open>The inner loop leaves the hashes of the pairs in the first entries and does not touch the
  entries it has still to read.\<close>

lemma merkle_pairs_spec:
  assumes "k \<le> i" "i \<le> i_max" "i_max \<le> length ids" "even (i_max - i)"
  shows "\<exists>ids'. merkle_pairs K ids i i_max k = (ids', k + (i_max - i) div 2) \<and> length ids' = length ids \<and>
    take (k + (i_max - i) div 2) ids' = take k ids @ pair_up K (take (i_max - i) (drop i ids)) \<and>
    drop i_max ids' = drop i_max ids"
  using assms
proof (induction K ids i i_max k rule: merkle_pairs.induct)
  case (1 K ids i i_max k)
  show ?case
  proof (cases "i < i_max")
    case True
    then have i: "i + 2 \<le> i_max" "even (i_max - (i + 2))" using "1.prems"(4) by presburger+
    let ?h = "sha256_of_pair K (ids ! i, ids ! (i + 1))"
    let ?ids = "ids[k := ?h]"
    obtain ids' where ids': "merkle_pairs K ?ids (i + 2) i_max (k + 1) = (ids', k + 1 + (i_max - (i + 2)) div 2)"
      "length ids' = length ?ids"
      "take (k + 1 + (i_max - (i + 2)) div 2) ids' =
         take (k + 1) ?ids @ pair_up K (take (i_max - (i + 2)) (drop (i + 2) ?ids))"
      "drop i_max ids' = drop i_max ?ids"
      using "1.IH" [OF True] "1.prems" i by fastforce
    have n: "k + 1 + (i_max - (i + 2)) div 2 = k + (i_max - i) div 2" using i by presburger
    have t: "take (k + 1) ?ids = take k ids @ [?h]"
      using "1.prems" True by (simp add: take_Suc_conv_app_nth)
    have d: "drop (i + 2) ?ids = drop (i + 2) ids" "drop i_max ?ids = drop i_max ids"
      using "1.prems" True by simp_all
    have "drop i ids = ids ! i # ids ! (i + 1) # drop (i + 2) ids"
      using "1.prems" True i by (simp add: Cons_nth_drop_Suc)
    moreover have "i_max - i = Suc (Suc (i_max - (i + 2)))" using i by simp
    ultimately have "pair_up K (take (i_max - i) (drop i ids)) =
        ?h # pair_up K (take (i_max - (i + 2)) (drop (i + 2) ids))"
      by simp
    then show ?thesis
      using ids' [unfolded n] t d True by (simp add: merkle_pairs.simps [of K ids])
  qed (use "1.prems" in \<open>simp add: merkle_pairs.simps [of K ids]\<close>)
qed

lemma merkle_round_spec:
  assumes "1 < n" "n \<le> length ids"
  shows "\<exists>ids'. merkle_round K ids n = (ids', (n + 1) div 2) \<and> length ids' = length ids \<and>
    take ((n + 1) div 2) ids' = pair_up K (take n ids)"
proof -
  let ?m = "n - n mod 2"
  have m: "even ?m" "?m div 2 = n div 2" "?m \<le> length ids" using assms by presburger+
  obtain ids' where ids': "merkle_pairs K ids 0 ?m 0 = (ids', n div 2)" "length ids' = length ids"
    "take (n div 2) ids' = pair_up K (take ?m ids)" "drop ?m ids' = drop ?m ids"
    using merkle_pairs_spec [of 0 0 ?m ids K] m by auto
  show ?thesis
  proof (cases "even n")
    case True
    then show ?thesis using ids' by (simp add: merkle_round_def even_iff_mod_2_eq_zero)
  next
    case False
    then have n: "n mod 2 = 1" "?m < n" "(n + 1) div 2 = Suc (n div 2)" "n div 2 < length ids"
      using assms by presburger+
    have "ids' ! ?m = ids ! ?m"
      using ids'(2,4) n assms(2) by (metis Cons_nth_drop_Suc less_le_trans list.inject)
    moreover have "take n ids = take ?m ids @ [ids ! ?m]"
    proof -
      have "n = Suc ?m" using n by simp
      then show ?thesis using assms(2) by (metis Suc_le_lessD take_Suc_conv_app_nth)
    qed
    ultimately show ?thesis
      using ids' n m pair_up_snoc [of "take ?m ids" K "ids ! ?m"]
      by (simp add: merkle_round_def take_Suc_conv_app_nth min_def)
  qed
qed

lemma merkle_loop_tree:
  "0 < n \<Longrightarrow> n \<le> length ids \<Longrightarrow> merkle_loop K ids n = merkle_tree K (take n ids)"
proof (induction K ids n rule: merkle_loop.induct)
  case (1 K ids n)
  show ?case
  proof (cases "1 < n")
    case True
    obtain ids' where r: "merkle_round K ids n = (ids', (n + 1) div 2)" "length ids' = length ids"
      "take ((n + 1) div 2) ids' = pair_up K (take n ids)"
      using merkle_round_spec [OF True "1.prems"(2)] by blast
    obtain x y rest where "take n ids = x # y # rest"
      using True "1.prems"(2) by (metis One_nat_def Suc_le_length_iff length_take less_eq_Suc_le min.absorb2)
    then have "merkle_tree K (take n ids) = merkle_tree K (pair_up K (take n ids))" by simp
    moreover have "merkle_loop K ids' ((n + 1) div 2) = merkle_tree K (take ((n + 1) div 2) ids')"
      using r True "1.prems" by (intro "1.IH" [OF True r(1) [symmetric]]) auto
    ultimately show ?thesis
      using r True by (simp add: merkle_loop.simps [of K ids])
  next
    case False
    then have "n = 1" using "1.prems" by simp
    then show ?thesis
      using "1.prems" by (cases ids) (simp_all add: merkle_loop.simps [of K _ "Suc 0"])
  qed
qed

section \<open>Properties\<close>

lemma merkle_root_nonempty:
  "transactions b \<noteq> [] \<Longrightarrow>
   calculate_merkle_root K T b = ripemd160_of_digest K (merkle_tree K (map (merkle_digest T) (transactions b)))"
  by (simp add: calculate_merkle_root_def Let_def merkle_loop_tree)

text \<open>C24: The in-place loops of \<open>calculate_merkle_root\<close> compute the root of the Merkle tree of the
  transaction digests: the recursive pairing of neighbours, an odd last one moving up unchanged.\<close>

theorem merkle_root_tree:
  "calculate_merkle_root K T b =
     (if transactions b = [] then null_id
      else ripemd160_of_digest K (merkle_tree K (map (merkle_digest T) (transactions b))))"
  by (cases "transactions b = []") (simp add: calculate_merkle_root_def, simp add: merkle_root_nonempty)

text \<open>The pairs that are hashed for the tree over a list of digests, level by level.\<close>

fun level_pairs :: "digest_type list \<Rightarrow> (digest_type \<times> digest_type) list" where
  "level_pairs (x # y # r) = (x, y) # level_pairs r"
| "level_pairs r = []"

fun tree_pairs :: "fc_crypto \<Rightarrow> digest_type list \<Rightarrow> (digest_type \<times> digest_type) list" where
  "tree_pairs K (x # y # r) = level_pairs (x # y # r) @ tree_pairs K (pair_up K (x # y # r))"
| "tree_pairs K r = []"

text \<open>Two of the pairs that are hashed for the two lists are different and have the same hash.\<close>

definition tree_collision :: "fc_crypto \<Rightarrow> digest_type list \<Rightarrow> digest_type list \<Rightarrow> bool" where
  "tree_collision K xs ys \<longleftrightarrow>
     (\<exists>p \<in> set (tree_pairs K xs). \<exists>q \<in> set (tree_pairs K ys). p \<noteq> q \<and> sha256_of_pair K p = sha256_of_pair K q)"

lemma pair_up_inj:
  "length xs = length ys \<Longrightarrow> pair_up K xs = pair_up K ys \<Longrightarrow>
   xs = ys \<or> (\<exists>p \<in> set (level_pairs xs). \<exists>q \<in> set (level_pairs ys). p \<noteq> q \<and> sha256_of_pair K p = sha256_of_pair K q)"
proof (induction K xs arbitrary: ys rule: pair_up.induct, goal_cases)
  case (1 K x y r ys)
  from 1(2) obtain x' y' r' where ys: "ys = x' # y' # r'" by (cases ys; cases "tl ys") auto
  show ?case
  proof (cases "(x, y) = (x', y')")
    case True
    with 1 ys show ?thesis by fastforce
  qed (use 1(3) ys in auto)
next
  case (3 K v ys)
  from 3(1) obtain v' where "ys = [v']" by (cases ys) auto
  then show ?case using 3 by simp
qed simp

lemma merkle_tree_inj:
  "length xs = length ys \<Longrightarrow> merkle_tree K xs = merkle_tree K ys \<Longrightarrow> xs = ys \<or> tree_collision K xs ys"
proof (induction K xs arbitrary: ys rule: merkle_tree.induct)
  case (3 K x y r)
  then obtain x' y' r' where ys: "ys = x' # y' # r'" by (metis length_Suc_conv)
  have "pair_up K (x # y # r) = pair_up K ys \<or> tree_collision K (pair_up K (x # y # r)) (pair_up K ys)"
    using 3 ys by (intro "3.IH") auto
  then show ?case
  proof
    assume "pair_up K (x # y # r) = pair_up K ys"
    from pair_up_inj [OF "3.prems"(1) this] show ?thesis unfolding tree_collision_def ys tree_pairs.simps set_append by blast
  next
    assume "tree_collision K (pair_up K (x # y # r)) (pair_up K ys)"
    then show ?thesis unfolding tree_collision_def ys tree_pairs.simps set_append by blast
  qed
next
  case (2 K x)
  then obtain x' where "ys = [x']" by (metis length_0_conv length_Suc_conv list.size(4))
  then show ?case using 2 by simp
qed simp

text \<open>C34: The root commits to the transactions of a block: when two blocks with equally many transactions have
  the same root, then they have the same transaction digests in the same order, or two different pairs
  among those hashed in the two trees have the same hash, or the tops of the two trees differ and
  have the same final hash.  So a second block with the root of the first yields a collision that can
  be read off the two blocks.\<close>

theorem merkle_root_binding:
  assumes "calculate_merkle_root K T b = calculate_merkle_root K T b'"
    and "length (transactions b) = length (transactions b')"
  defines "xs \<equiv> map (merkle_digest T) (transactions b)" and "ys \<equiv> map (merkle_digest T) (transactions b')"
  shows "xs = ys \<or> tree_collision K xs ys \<or>
    merkle_tree K xs \<noteq> merkle_tree K ys \<and> ripemd160_of_digest K (merkle_tree K xs) = ripemd160_of_digest K (merkle_tree K ys)"
proof (cases "transactions b = []")
  case False
  have "ripemd160_of_digest K (merkle_tree K xs) = ripemd160_of_digest K (merkle_tree K ys)"
    using assms(1,2) False merkle_root_nonempty [of b K T] merkle_root_nonempty [of b' K T]
    unfolding xs_def ys_def by (metis length_0_conv)
  moreover have "length xs = length ys" using assms(2) by (simp add: xs_def ys_def)
  ultimately show ?thesis using merkle_tree_inj by blast
qed (use assms in simp)

definition sample_block :: "signed_transaction list \<Rightarrow> signed_block" where
  "sample_block txs = signed_block_header.extend sample_header (signed_block.fields txs)"

lemma sample_block_transactions [simp]: "transactions (sample_block txs) = txs"
  by (simp add: sample_block_def signed_block_header.extend_def signed_block.fields_def)

text \<open>With a pair hash that forgets its second half, two blocks that differ in their second transaction have
  the same root, and the pairs of their trees collide.\<close>

definition signature_count :: tx_crypto where
  "signature_count = tx_crypto_ref\<lparr>hash_signed_transaction := (\<lambda>tx. [of_nat (length (signatures tx))])\<rparr>"

theorem merkle_root_binding_witness:
  "let t = sample_tx; u = sample_tx\<lparr>signatures := []\<rparr>; w = sample_tx\<lparr>signatures := [[1]]\<rparr>
   in calculate_merkle_root crypto_ref signature_count (sample_block [t, u]) =
        calculate_merkle_root crypto_ref signature_count (sample_block [t, w]) \<and>
      tree_collision crypto_ref [[2], [0]] [[2], [1]]"
proof -
  let ?b = "sample_block [sample_tx, sample_tx\<lparr>signatures := []\<rparr>]"
  let ?c = "sample_block [sample_tx, sample_tx\<lparr>signatures := [[1]]\<rparr>]"
  have d: "map (merkle_digest signature_count) (transactions ?b) = [[2], [0]]"
    "map (merkle_digest signature_count) (transactions ?c) = [[2], [1]]"
    by (simp_all add: merkle_digest_def signature_count_def tx_crypto_ref_def sample_tx_def)
  have r: "calculate_merkle_root crypto_ref signature_count ?b = calculate_merkle_root crypto_ref signature_count ?c"
    using d merkle_root_nonempty [of ?b crypto_ref signature_count] merkle_root_nonempty [of ?c crypto_ref signature_count]
    by (simp add: crypto_ref_def)
  have "merkle_tree crypto_ref [[2], [0]] = merkle_tree crypto_ref [[2], [1]]" by (simp add: crypto_ref_def)
  then show ?thesis using merkle_root_binding [OF r] r unfolding d by (simp add: Let_def)
qed

end
