(* ===== verification/Fork_Database.thy ===== *)
theory Fork_Database
  imports Block
begin

text \<open>
  The fork database: \<open>chain/fork_database.hpp\<close> and \<open>chain/fork_database.cpp\<close>.  Blocks are shared
  objects linked by weak pointers to their parents, so the model keeps an explicit heap: an address
  stands for a \<open>shared_ptr\<close>, the two multi-index containers are lists of addresses in insertion
  order, and locking a weak pointer succeeds exactly when the object still has an owner (one of the
  containers or \<open>_head\<close>; pointers held by callers outside are not counted).

  A loop that follows parent links is a \<open>partial_function\<close>: \<open>None\<close> would mean that it does not
  return.  The results: every reachable state is a forest in which a link goes to the block whose id
  the child names and numbers grow by one; a push moves the head only to a higher block; the walk to
  the common ancestor returns, and returns the two branches.
\<close>

section \<open>Data\<close>

type_synonym addr = nat

record fork_item =
  fi_prev :: "addr option"
  fi_num :: u32
  fi_invalid :: bool
  fi_id :: block_id_type
  fi_data :: signed_block

record fork_database =
  fdb_heap :: "addr \<rightharpoonup> fork_item"
  fdb_next :: addr
  fdb_max_size :: u32
  fdb_unlinked :: "addr list"
  fdb_index :: "addr list"
  fdb_head :: "addr option"

definition fork_database_init :: fork_database where
  "fork_database_init = \<lparr>fdb_heap = Map.empty, fdb_next = 0, fdb_max_size = 1024,
     fdb_unlinked = [], fdb_index = [], fdb_head = None\<rparr>"

definition new_fork_item :: "fc_lib \<Rightarrow> fc_crypto \<Rightarrow> signed_block \<Rightarrow> fork_item" where
  "new_fork_item L K d = \<lparr>fi_prev = None, fi_num = block_num L d, fi_invalid = False,
     fi_id = header_id L K d, fi_data = d\<rparr>"

definition previous_id :: "fork_item \<Rightarrow> block_id_type" where
  "previous_id it = previous (fi_data it)"

text \<open>Dereferencing a pointer; the addresses in use are always mapped.\<close>

definition item :: "fork_database \<Rightarrow> addr \<Rightarrow> fork_item" where
  "item db a = the (fdb_heap db a)"

text \<open>\<open>std::make_shared<fork_item>\<close>.\<close>

definition make_shared :: "fork_item \<Rightarrow> fork_database \<Rightarrow> addr \<times> fork_database" where
  "make_shared it db =
     (fdb_next db, db\<lparr>fdb_heap := (fdb_heap db)(fdb_next db \<mapsto> it), fdb_next := fdb_next db + 1\<rparr>)"

definition owned :: "fork_database \<Rightarrow> addr set" where
  "owned db = set (fdb_index db) \<union> set (fdb_unlinked db) \<union> set_option (fdb_head db)"

text \<open>\<open>prev.lock()\<close>.\<close>

definition lock_prev :: "fork_database \<Rightarrow> addr \<Rightarrow> addr option" where
  "lock_prev db a =
     (case fi_prev (item db a) of None \<Rightarrow> None | Some p \<Rightarrow> if p \<in> owned db then Some p else None)"

section \<open>The indices\<close>

text \<open>\<open>get<block_id>().find(id)\<close>, \<open>insert\<close> (refused when the id is present), the order of
  \<open>get<block_num>()\<close> (by number, equal numbers in insertion order), \<open>get<by_previous>().find\<close>.\<close>

definition find_id :: "fork_database \<Rightarrow> addr list \<Rightarrow> block_id_type \<Rightarrow> addr option" where
  "find_id db idx i = List.find (\<lambda>a. fi_id (item db a) = i) idx"

definition idx_insert :: "fork_database \<Rightarrow> addr \<Rightarrow> addr list \<Rightarrow> addr list" where
  "idx_insert db a idx = (case find_id db idx (fi_id (item db a)) of None \<Rightarrow> idx @ [a] | Some _ \<Rightarrow> idx)"

definition by_num :: "fork_database \<Rightarrow> addr list \<Rightarrow> addr list" where
  "by_num db idx = sort_key (\<lambda>a. fi_num (item db a)) idx"

definition find_previous :: "fork_database \<Rightarrow> addr list \<Rightarrow> block_id_type \<Rightarrow> addr option" where
  "find_previous db idx i = List.find (\<lambda>a. previous_id (item db a) = i) idx"

section \<open>Operations\<close>

definition reset :: "fork_database \<Rightarrow> fork_database" where
  "reset db = db\<lparr>fdb_head := None, fdb_index := []\<rparr>"

definition pop_block :: "fork_database \<Rightarrow> fork_database res" where
  "pop_block db =
     (case fdb_head db of
        None \<Rightarrow> Inl (assert_exception ''cannot pop an empty fork database'')
      | Some h \<Rightarrow>
          (case lock_prev db h of
             None \<Rightarrow> Inl (assert_exception ''popping head block would leave fork DB empty'')
           | Some p \<Rightarrow> Inr (db\<lparr>fdb_head := Some p\<rparr>)))"

definition start_block :: "fc_lib \<Rightarrow> fc_crypto \<Rightarrow> signed_block \<Rightarrow> fork_database \<Rightarrow> fork_database" where
  "start_block L K b db =
     (let (a, db) = make_shared (new_fork_item L K b) db
      in db\<lparr>fdb_index := idx_insert db a (fdb_index db), fdb_head := Some a\<rparr>)"

definition oldest_allowed :: "fork_database \<Rightarrow> addr \<Rightarrow> int" where
  "oldest_allowed db h = max 0 (int (unat (fi_num (item db h))) - int (unat (fdb_max_size db)))"

text \<open>The insertion and the choice of the head at the end of \<open>_push_block\<close>.\<close>

definition add_item :: "addr \<Rightarrow> fork_database \<Rightarrow> fork_database" where
  "add_item a db =
     (let db = db\<lparr>fdb_index := idx_insert db a (fdb_index db)\<rparr>
      in case fdb_head db of
           None \<Rightarrow> db\<lparr>fdb_head := Some a\<rparr>
         | Some h \<Rightarrow> if fi_num (item db a) > fi_num (item db h) then db\<lparr>fdb_head := Some a\<rparr> else db)"

definition link_item :: "addr \<Rightarrow> addr \<Rightarrow> fork_database \<Rightarrow> fork_database" where
  "link_item a p db = db\<lparr>fdb_heap := (fdb_heap db)(a \<mapsto> (item db a)\<lparr>fi_prev := Some p\<rparr>)\<rparr>"

definition push_item :: "addr \<Rightarrow> fork_database \<Rightarrow> fork_database res" where
  "push_item a db =
     rbind (case fdb_head db of
              None \<Rightarrow> Inr ()
            | Some h \<Rightarrow> fc_assert (int (unat (fi_num (item db a))) > oldest_allowed db h)
                          ''attempting to push a block that is too old'') (\<lambda>_.
     if fdb_head db \<noteq> None \<and> previous_id (item db a) \<noteq> null_id
     then (case find_id db (fdb_index db) (previous_id (item db a)) of
             None \<Rightarrow> Inl (unlinkable_block_exception ''block does not link to known chain'')
           | Some p \<Rightarrow>
               rbind (fc_assert (\<not> fi_invalid (item db p)) ''!(*itr)->invalid'') (\<lambda>_.
               Inr (add_item a (link_item a p db))))
     else Inr (add_item a db))"

text \<open>The handler of the unlinkable exception logs and rethrows, so the block is not cached.\<close>

definition push_block ::
  "fc_lib \<Rightarrow> fc_crypto \<Rightarrow> signed_block \<Rightarrow> fork_database \<Rightarrow> (addr option \<times> fork_database) res" where
  "push_block L K b db =
     (let (a, db) = make_shared (new_fork_item L K b) db
      in rbind (push_item a db) (\<lambda>db. Inr (fdb_head db, db)))"

text \<open>\<open>_push_next\<close>: one unlinked child after the other is moved; each round erases one entry.\<close>

function push_next :: "addr \<Rightarrow> fork_database \<Rightarrow> fork_database res" where
  "push_next new_item db =
     (case find_previous db (fdb_unlinked db) (fi_id (item db new_item)) of
        None \<Rightarrow> Inr db
      | Some tmp \<Rightarrow>
          (case push_item tmp (db\<lparr>fdb_unlinked := remove1 tmp (fdb_unlinked db)\<rparr>) of
             Inl e \<Rightarrow> Inl e
           | Inr db' \<Rightarrow> push_next new_item db'))"
  by pat_completeness auto

lemma add_item_fields [simp]:
  "fdb_unlinked (add_item a db) = fdb_unlinked db"
  "fdb_heap (add_item a db) = fdb_heap db"
  "fdb_next (add_item a db) = fdb_next db"
  "fdb_max_size (add_item a db) = fdb_max_size db"
  "fdb_index (add_item a db) = idx_insert db a (fdb_index db)"
  by (simp_all add: add_item_def Let_def split: option.splits)

lemma push_item_unlinked: "push_item a db = Inr db' \<Longrightarrow> fdb_unlinked db' = fdb_unlinked db"
  by (auto simp: push_item_def link_item_def split: if_splits option.splits)

lemma length_remove1_less: "x \<in> set xs \<Longrightarrow> length (remove1 x xs) < length xs"
  using length_pos_if_in_set [of x xs] by (simp add: length_remove1)

lemma find_Some_in: "List.find P xs = Some x \<Longrightarrow> x \<in> set xs \<and> P x"
  by (auto simp: find_Some_iff)

termination push_next
proof (relation "measure (\<lambda>(a, db). length (fdb_unlinked db))", goal_cases)
  case (2 new_item db tmp db')
  then have "tmp \<in> set (fdb_unlinked db)" by (auto simp: find_previous_def dest: find_Some_in)
  then show ?case
    using push_item_unlinked [OF 2(2)] by (simp add: length_remove1_less)
qed simp

declare push_next.simps [simp del]

text \<open>The loops of \<open>set_max_size\<close>: erase the lowest block while it is below the bound.\<close>

function erase_old :: "fork_database \<Rightarrow> int \<Rightarrow> addr list \<Rightarrow> addr list" where
  "erase_old db bound idx =
     (case by_num db idx of
        [] \<Rightarrow> idx
      | a # _ \<Rightarrow> if int (unat (fi_num (item db a))) < bound then erase_old db bound (remove1 a idx) else idx)"
  by pat_completeness auto
termination
proof (relation "measure (\<lambda>(db, bound, idx). length idx)", goal_cases)
  case (2 db bound idx a rest)
  then have "a \<in> set (by_num db idx)" by simp
  then have "a \<in> set idx" by (simp add: by_num_def)
  then show ?case by (simp add: length_remove1_less)
qed simp

declare erase_old.simps [simp del]

definition set_max_size :: "u32 \<Rightarrow> fork_database \<Rightarrow> fork_database" where
  "set_max_size s db =
     (let db = db\<lparr>fdb_max_size := s\<rparr>
      in case fdb_head db of
           None \<Rightarrow> db
         | Some h \<Rightarrow>
             db\<lparr>fdb_index := erase_old db (oldest_allowed db h) (fdb_index db),
                fdb_unlinked := erase_old db (oldest_allowed db h) (fdb_unlinked db)\<rparr>)"

definition fetch_block :: "fork_database \<Rightarrow> block_id_type \<Rightarrow> addr option" where
  "fetch_block db i =
     (case find_id db (fdb_index db) i of Some a \<Rightarrow> Some a | None \<Rightarrow> find_id db (fdb_unlinked db) i)"

definition is_known_block :: "fork_database \<Rightarrow> block_id_type \<Rightarrow> bool" where
  "is_known_block db i =
     (if find_id db (fdb_index db) i \<noteq> None then True else find_id db (fdb_unlinked db) i \<noteq> None)"

definition fetch_block_by_number :: "fork_database \<Rightarrow> u32 \<Rightarrow> addr list" where
  "fetch_block_by_number db num =
     takeWhile (\<lambda>a. fi_num (item db a) = num)
       (dropWhile (\<lambda>a. fi_num (item db a) \<noteq> num) (by_num db (fdb_index db)))"

definition set_head :: "addr option \<Rightarrow> fork_database \<Rightarrow> fork_database" where
  "set_head h db = db\<lparr>fdb_head := h\<rparr>"

definition remove :: "block_id_type \<Rightarrow> fork_database \<Rightarrow> fork_database" where
  "remove i db = db\<lparr>fdb_index := filter (\<lambda>a. fi_id (item db a) \<noteq> i) (fdb_index db)\<rparr>"

section \<open>Walking back\<close>

definition data_num :: "fc_lib \<Rightarrow> fork_database \<Rightarrow> addr \<Rightarrow> u32" where
  "data_num L db a = block_num L (fi_data (item db a))"

text \<open>The first two loops of \<open>fetch_branch_from\<close>: follow the links down to number \<open>n\<close>.\<close>

partial_function (option) walk_down ::
  "fc_lib \<Rightarrow> fork_database \<Rightarrow> u32 \<Rightarrow> addr \<Rightarrow> addr list \<Rightarrow> (addr \<times> addr list) res option" where
  "walk_down L db n a acc =
     (if data_num L db a > n
      then (case lock_prev db a of
              None \<Rightarrow> Some (Inl (assert_exception ''first_branch''))
            | Some p \<Rightarrow> walk_down L db n p (acc @ [a]))
      else Some (Inr (a, acc)))"

text \<open>The third loop: both branches step back until they have the same parent.\<close>

partial_function (option) walk_both ::
  "fork_database \<Rightarrow> addr \<Rightarrow> addr \<Rightarrow> addr list \<Rightarrow> addr list \<Rightarrow> (addr list \<times> addr list) res option" where
  "walk_both db a b accA accB =
     (if previous (fi_data (item db a)) \<noteq> previous (fi_data (item db b))
      then (case lock_prev db a of
              None \<Rightarrow> Some (Inl (assert_exception ''first_branch''))
            | Some p \<Rightarrow>
                (case lock_prev db b of
                   None \<Rightarrow> Some (Inl (assert_exception ''second_branch''))
                 | Some q \<Rightarrow> walk_both db p q (accA @ [a]) (accB @ [b])))
      else Some (Inr (accA @ [a], accB @ [b])))"

definition fetch_branch_from ::
  "fc_lib \<Rightarrow> fork_database \<Rightarrow> block_id_type \<Rightarrow> block_id_type \<Rightarrow> (addr list \<times> addr list) res option" where
  "fetch_branch_from L db first second =
     (case find_id db (fdb_index db) first of
        None \<Rightarrow> Some (Inl (assert_exception ''first_branch_itr''))
      | Some a \<Rightarrow>
     (case find_id db (fdb_index db) second of
        None \<Rightarrow> Some (Inl (assert_exception ''second_branch_itr''))
      | Some b \<Rightarrow>
     (case walk_down L db (data_num L db b) a [] of
        None \<Rightarrow> None
      | Some (Inl e) \<Rightarrow> Some (Inl e)
      | Some (Inr (a, accA)) \<Rightarrow>
     (case walk_down L db (data_num L db a) b [] of
        None \<Rightarrow> None
      | Some (Inl e) \<Rightarrow> Some (Inl e)
      | Some (Inr (b, accB)) \<Rightarrow> walk_both db a b accA accB))))"

partial_function (option) walk_to_num :: "fork_database \<Rightarrow> u32 \<Rightarrow> addr option \<Rightarrow> addr option option" where
  "walk_to_num db n nxt =
     (case nxt of
        None \<Rightarrow> Some None
      | Some a \<Rightarrow> if fi_num (item db a) > n then walk_to_num db n (lock_prev db a) else Some (Some a))"

text \<open>Calling it without a head dereferences a null pointer: that call has no result here.\<close>

definition walk_main_branch_to_num :: "fork_database \<Rightarrow> u32 \<Rightarrow> addr option option" where
  "walk_main_branch_to_num db n =
     (case fdb_head db of
        None \<Rightarrow> None
      | Some h \<Rightarrow> if n > fi_num (item db h) then Some None else walk_to_num db n (Some h))"

definition fetch_block_on_main_branch_by_number :: "fork_database \<Rightarrow> u32 \<Rightarrow> addr option option" where
  "fetch_block_on_main_branch_by_number db n =
     (let blocks = fetch_block_by_number db n
      in if length blocks = 1 then Some (Some (blocks ! 0))
         else if length blocks = 0 then Some None
         else walk_main_branch_to_num db n)"

section \<open>The invariant\<close>

text \<open>An item records the number and id of its block, and its link, if any, goes to an older item
  that holds the block's parent.\<close>

definition item_ok :: "fc_lib \<Rightarrow> fc_crypto \<Rightarrow> (addr \<rightharpoonup> fork_item) \<Rightarrow> addr \<Rightarrow> bool" where
  "item_ok L K h a \<longleftrightarrow>
     (case h a of None \<Rightarrow> False
      | Some it \<Rightarrow>
          fi_num it = block_num L (fi_data it) \<and> fi_id it = header_id L K (fi_data it) \<and>
          (case fi_prev it of None \<Rightarrow> True
           | Some p \<Rightarrow> p < a \<and> (\<exists>pit. h p = Some pit \<and> fi_id pit = previous_id it)))"

definition fdb_ok :: "fc_lib \<Rightarrow> fc_crypto \<Rightarrow> fork_database \<Rightarrow> bool" where
  "fdb_ok L K db \<longleftrightarrow>
     (\<forall>a \<in> dom (fdb_heap db). a < fdb_next db \<and> item_ok L K (fdb_heap db) a) \<and>
     owned db \<subseteq> dom (fdb_heap db) \<and>
     distinct (map (\<lambda>a. fi_id (item db a)) (fdb_index db)) \<and>
     fdb_unlinked db = []"

lemma fdb_ok_owned: "fdb_ok L K db \<Longrightarrow> a \<in> owned db \<Longrightarrow> a \<in> dom (fdb_heap db) \<and> a < fdb_next db"
  unfolding fdb_ok_def by (meson subsetD)

lemma index_owned: "set (fdb_index db) \<subseteq> owned db"
  by (auto simp: owned_def)

lemma item_ok_upd:
  assumes "item_ok L K h a" and "a \<noteq> b" and "\<And>it. h b = Some it \<Longrightarrow> fi_id it' = fi_id it"
  shows "item_ok L K (h(b \<mapsto> it')) a"
  using assms by (fastforce simp: item_ok_def split: option.splits)

lemma find_id_in: "find_id db idx i = Some a \<Longrightarrow> a \<in> set idx \<and> fi_id (item db a) = i"
  by (auto simp: find_id_def dest: find_Some_in)

lemma find_id_None: "find_id db idx i = None \<longleftrightarrow> (\<forall>a \<in> set idx. fi_id (item db a) \<noteq> i)"
  by (auto simp: find_id_def find_None_iff)

lemma distinct_idx_insert:
  "distinct (map (\<lambda>a. fi_id (item db a)) idx) \<Longrightarrow>
   distinct (map (\<lambda>a. fi_id (item db a)) (idx_insert db a idx))"
  by (auto simp: idx_insert_def find_id_None split: option.splits)

lemma set_idx_insert: "set (idx_insert db a idx) \<subseteq> insert a (set idx)"
  by (auto simp: idx_insert_def split: option.splits)

lemma item_cong: "fdb_heap db = fdb_heap db' \<Longrightarrow> item db = item db'"
  by (simp add: item_def fun_eq_iff)

lemma fdb_ok_make_shared:
  assumes "fdb_ok L K db" and "make_shared (new_fork_item L K b) db = (a, db')"
  shows "fdb_ok L K db'" "a \<in> dom (fdb_heap db')" "item db' a = new_fork_item L K b"
    "fdb_index db' = fdb_index db" "fdb_head db' = fdb_head db" "fdb_max_size db' = fdb_max_size db"
    "\<forall>x \<in> dom (fdb_heap db). x \<noteq> a \<and> item db' x = item db x"
proof -
  have a: "a = fdb_next db" "db' = db\<lparr>fdb_heap := (fdb_heap db)(a \<mapsto> new_fork_item L K b), fdb_next := a + 1\<rparr>"
    using assms(2) by (auto simp: make_shared_def)
  have new: "a \<notin> dom (fdb_heap db)" using assms(1) a(1) by (auto simp: fdb_ok_def)
  show o: "a \<in> dom (fdb_heap db')" "item db' a = new_fork_item L K b"
    "fdb_index db' = fdb_index db" "fdb_head db' = fdb_head db" "fdb_max_size db' = fdb_max_size db"
    using a(2) by (auto simp: item_def)
  show same: "\<forall>x \<in> dom (fdb_heap db). x \<noteq> a \<and> item db' x = item db x"
    using new a(2) by (auto simp: item_def)
  have items: "item_ok L K (fdb_heap db') x" if "x \<in> dom (fdb_heap db')" for x
  proof (cases "x = a")
    case True
    then show ?thesis by (simp add: a(2) item_ok_def new_fork_item_def)
  next
    case False
    then show ?thesis
      using that assms(1) new unfolding a(2) by (auto simp: fdb_ok_def intro!: item_ok_upd)
  qed
  have eq: "map (\<lambda>x. fi_id (item db' x)) (fdb_index db) = map (\<lambda>x. fi_id (item db x)) (fdb_index db)"
  proof (rule map_cong [OF refl])
    fix x
    assume "x \<in> set (fdb_index db)"
    then have "x \<in> dom (fdb_heap db)" using fdb_ok_owned [OF assms(1)] index_owned by blast
    then show "fi_id (item db' x) = fi_id (item db x)" using same by simp
  qed
  have "distinct (map (\<lambda>x. fi_id (item db' x)) (fdb_index db'))"
    using assms(1) unfolding o(3) eq by (simp add: fdb_ok_def)
  moreover have "owned db' \<subseteq> dom (fdb_heap db')" "fdb_unlinked db' = []"
    using assms(1) a by (auto simp: fdb_ok_def owned_def)
  moreover have "\<forall>x \<in> dom (fdb_heap db'). x < fdb_next db'"
    using assms(1) unfolding fdb_ok_def a by (simp add: less_SucI)
  ultimately show "fdb_ok L K db'"
    using items by (simp add: fdb_ok_def)
qed

lemma add_item_head: "fdb_head (add_item a db) = Some a \<or> fdb_head (add_item a db) = fdb_head db"
  by (auto simp: add_item_def Let_def split: option.splits)

lemma fdb_ok_add_item:
  assumes "fdb_ok L K db" and "a \<in> dom (fdb_heap db)"
  shows "fdb_ok L K (add_item a db)"
proof -
  have i: "item (add_item a db) = item db" by (rule item_cong) simp
  have "owned (add_item a db) \<subseteq> insert a (owned db)"
    using set_idx_insert [of db a "fdb_index db"] add_item_head [of a db] by (auto simp: owned_def)
  then show ?thesis
    using assms distinct_idx_insert [of db "fdb_index db" a] by (auto simp: fdb_ok_def i)
qed

lemma fdb_ok_link_item:
  assumes "fdb_ok L K db" and "a \<in> dom (fdb_heap db)" and "p < a" and "p \<in> dom (fdb_heap db)"
    and "fi_id (item db p) = previous_id (item db a)"
  shows "fdb_ok L K (link_item a p db)"
proof -
  obtain it where it: "fdb_heap db a = Some it" using assms(2) by auto
  have h: "fdb_heap (link_item a p db) = (fdb_heap db)(a \<mapsto> it\<lparr>fi_prev := Some p\<rparr>)"
    using it by (simp add: link_item_def item_def)
  have "item_ok L K (fdb_heap (link_item a p db)) x" if "x \<in> dom (fdb_heap db)" for x
  proof (cases "x = a")
    case True
    have "item_ok L K (fdb_heap db) a" using assms(1,2) by (simp add: fdb_ok_def)
    then show ?thesis
      using True it assms(3-5) by (auto simp: h item_ok_def item_def previous_id_def)
  next
    case False
    then show ?thesis
      unfolding h using that assms(1) it by (auto simp: fdb_ok_def intro!: item_ok_upd)
  qed
  moreover have "fi_id (item (link_item a p db) x) = fi_id (item db x)" for x
    using it by (simp add: item_def h)
  ultimately show ?thesis
    using assms(1,2) by (auto simp: fdb_ok_def owned_def h link_item_def)
qed

lemma fdb_ok_push_item:
  assumes "fdb_ok L K db" and "a \<in> dom (fdb_heap db)" and "push_item a db = Inr db'"
    and "\<forall>p \<in> set (fdb_index db). p < a"
  shows "fdb_ok L K db'"
proof (cases "fdb_head db \<noteq> None \<and> previous_id (item db a) \<noteq> null_id")
  case True
  then obtain p where p: "find_id db (fdb_index db) (previous_id (item db a)) = Some p"
    "db' = add_item a (link_item a p db)"
    using assms(3) by (auto simp: push_item_def split: option.splits)
  have "p \<in> set (fdb_index db)" "fi_id (item db p) = previous_id (item db a)"
    using find_id_in [OF p(1)] by auto
  moreover have "p \<in> dom (fdb_heap db)"
    using calculation(1) fdb_ok_owned [OF assms(1)] index_owned by blast
  ultimately show ?thesis
    unfolding p(2) using assms by (intro fdb_ok_add_item fdb_ok_link_item) (auto simp: link_item_def)
next
  case False
  then have "db' = add_item a db"
    using assms(3) by (auto simp: push_item_def split: option.splits)
  then show ?thesis using fdb_ok_add_item assms(1,2) by blast
qed

lemma fdb_ok_push_block:
  assumes "fdb_ok L K db" and "push_block L K b db = Inr (h, db')"
  shows "fdb_ok L K db'"
proof -
  obtain a db1 where m: "make_shared (new_fork_item L K b) db = (a, db1)" by fastforce
  then have "push_item a db1 = Inr db'" using assms(2) by (auto simp: push_block_def)
  moreover have "\<forall>p \<in> set (fdb_index db1). p < a"
    using m fdb_ok_owned [OF assms(1)] index_owned by (fastforce simp: make_shared_def)
  ultimately show ?thesis
    using fdb_ok_push_item fdb_ok_make_shared [OF assms(1) m] by blast
qed

lemma fdb_ok_start_block: "fdb_ok L K db \<Longrightarrow> fdb_ok L K (start_block L K b db)"
proof -
  assume ok: "fdb_ok L K db"
  obtain a db1 where m: "make_shared (new_fork_item L K b) db = (a, db1)" by fastforce
  note d = fdb_ok_make_shared [OF ok m]
  let ?db = "db1\<lparr>fdb_index := idx_insert db1 a (fdb_index db1), fdb_head := Some a\<rparr>"
  have i: "item ?db = item db1" by (rule item_cong) simp
  have "owned ?db \<subseteq> insert a (owned db1)"
    using set_idx_insert [of db1 a "fdb_index db1"] by (auto simp: owned_def)
  then show ?thesis
    using d(1,2) m distinct_idx_insert [of db1 "fdb_index db1" a]
    by (auto simp: start_block_def fdb_ok_def i)
qed

text \<open>The loop of \<open>set_max_size\<close> removes exactly the blocks below the bound.\<close>

lemma by_num_hd:
  assumes "by_num db idx = a # r"
  shows "a \<in> set idx" and "\<forall>x \<in> set idx. fi_num (item db a) \<le> fi_num (item db x)"
proof -
  have s: "set (by_num db idx) = set idx" by (simp add: by_num_def)
  have "sorted (map (\<lambda>a. fi_num (item db a)) (by_num db idx))" by (simp add: by_num_def)
  then show "a \<in> set idx" "\<forall>x \<in> set idx. fi_num (item db a) \<le> fi_num (item db x)"
    using assms s by auto
qed

lemma erase_old_filter:
  "distinct idx \<Longrightarrow> erase_old db bound idx = filter (\<lambda>a. \<not> int (unat (fi_num (item db a))) < bound) idx"
proof (induction db bound idx rule: erase_old.induct)
  case (1 db bound idx)
  show ?case
  proof (cases "by_num db idx")
    case Nil
    then have "idx = []" by (metis by_num_def length_0_conv length_sort)
    then show ?thesis by (simp add: erase_old.simps by_num_def)
  next
    case (Cons a r)
    note hd = by_num_hd [OF Cons]
    show ?thesis
    proof (cases "int (unat (fi_num (item db a))) < bound")
      case True
      then have "erase_old db bound (remove1 a idx) =
          filter (\<lambda>a. \<not> int (unat (fi_num (item db a))) < bound) (remove1 a idx)"
        using 1 Cons by simp
      moreover have "filter (\<lambda>a. \<not> int (unat (fi_num (item db a))) < bound) (remove1 a idx) =
          filter (\<lambda>a. \<not> int (unat (fi_num (item db a))) < bound) idx"
        using True "1.prems" by (simp add: distinct_remove1_removeAll removeAll_filter_not_eq filter_filter)
          (metis (mono_tags, lifting) filter_cong)
      ultimately show ?thesis using Cons True by (simp add: erase_old.simps [of db bound idx])
    next
      case False
      then have "\<forall>x \<in> set idx. \<not> int (unat (fi_num (item db x))) < bound"
        using hd(2) by (fastforce simp: word_le_def)
      then have "filter (\<lambda>a. \<not> int (unat (fi_num (item db a))) < bound) idx = idx"
        by (simp add: filter_id_conv)
      then show ?thesis using Cons False by (simp add: erase_old.simps [of db bound idx])
    qed
  qed
qed

lemma distinct_index: "fdb_ok L K db \<Longrightarrow> distinct (fdb_index db)"
  by (auto simp: fdb_ok_def distinct_map)

lemma fdb_ok_shrink:
  assumes "fdb_ok L K db" and "fdb_heap db' = fdb_heap db" and "fdb_next db' = fdb_next db"
    and "owned db' \<subseteq> dom (fdb_heap db)" and "\<exists>P. fdb_index db' = filter P (fdb_index db)"
    and "fdb_unlinked db' = []"
  shows "fdb_ok L K db'"
proof -
  have "distinct (map (\<lambda>a. fi_id (item db a)) (filter P (fdb_index db)))" for P
    using assms(1) by (simp add: fdb_ok_def distinct_map_filter)
  then show ?thesis
    using assms item_cong [OF assms(2)] by (auto simp: fdb_ok_def)
qed

lemma fdb_ok_set_max_size:
  assumes "fdb_ok L K db"
  shows "fdb_ok L K (set_max_size s db)"
proof (rule fdb_ok_shrink [OF assms])
  have f: "\<exists>P. erase_old d b (fdb_index db) = filter P (fdb_index db)" for d b
    using erase_old_filter distinct_index [OF assms] by blast
  then show i: "\<exists>P. fdb_index (set_max_size s db) = filter P (fdb_index db)"
    by (auto simp: set_max_size_def Let_def filter_True intro: exI [of _ "\<lambda>_. True"] split: option.splits)
  have u: "erase_old d b [] = []" for d b by (simp add: erase_old.simps by_num_def)
  then show e: "fdb_unlinked (set_max_size s db) = []"
    using assms by (auto simp: set_max_size_def Let_def fdb_ok_def split: option.splits)
  have "fdb_head (set_max_size s db) = fdb_head db" by (simp add: set_max_size_def Let_def split: option.splits)
  then show "owned (set_max_size s db) \<subseteq> dom (fdb_heap db)"
    using i e assms by (auto simp: owned_def fdb_ok_def)
qed (simp_all add: set_max_size_def Let_def split: option.splits)

lemma lock_prev_in:
  assumes "fdb_ok L K db" and "a \<in> dom (fdb_heap db)" and "lock_prev db a = Some p"
  shows "p < a" and "p \<in> dom (fdb_heap db)" and "previous (fi_data (item db a)) = fi_id (item db p)"
    and "p \<in> owned db"
proof -
  have p: "fi_prev (item db a) = Some p" "p \<in> owned db"
    using assms(3) by (auto simp: lock_prev_def split: option.splits if_splits)
  have "item_ok L K (fdb_heap db) a" using assms(1,2) by (simp add: fdb_ok_def)
  then show "p < a" "p \<in> dom (fdb_heap db)" "previous (fi_data (item db a)) = fi_id (item db p)" "p \<in> owned db"
    using p by (auto simp: item_ok_def item_def previous_id_def split: option.splits)
qed

lemma fdb_ok_pop_block: "fdb_ok L K db \<Longrightarrow> pop_block db = Inr db' \<Longrightarrow> fdb_ok L K db'"
proof -
  assume ok: "fdb_ok L K db" and pop: "pop_block db = Inr db'"
  then obtain h p where p: "fdb_head db = Some h" "lock_prev db h = Some p" "db' = db\<lparr>fdb_head := Some p\<rparr>"
    by (auto simp: pop_block_def split: option.splits)
  have "h \<in> dom (fdb_heap db)" using fdb_ok_owned [OF ok, of h] p(1) by (simp add: owned_def)
  then have "p \<in> owned db" by (rule lock_prev_in(4) [OF ok _ p(2)])
  then show ?thesis
    using ok p(3) by (intro fdb_ok_shrink [OF ok]) (auto simp: owned_def fdb_ok_def intro: exI [of _ "\<lambda>_. True"])
qed

section \<open>Reachable states\<close>

text \<open>One call on the database.  A new head is one of the items of the database; the flag \<open>invalid\<close> is
  set by the caller.\<close>

inductive fdb_step :: "fc_lib \<Rightarrow> fc_crypto \<Rightarrow> fork_database \<Rightarrow> fork_database \<Rightarrow> bool" for L K where
  step_reset: "fdb_step L K db (reset db)"
| step_pop: "pop_block db = Inr db' \<Longrightarrow> fdb_step L K db db'"
| step_start: "fdb_step L K db (start_block L K b db)"
| step_push: "push_block L K b db = Inr (h, db') \<Longrightarrow> fdb_step L K db db'"
| step_max: "fdb_step L K db (set_max_size s db)"
| step_head: "a \<in> owned db \<Longrightarrow> fdb_step L K db (set_head (Some a) db)"
| step_remove: "fdb_step L K db (remove i db)"

inductive fdb_reachable :: "fc_lib \<Rightarrow> fc_crypto \<Rightarrow> fork_database \<Rightarrow> bool" for L K where
  reach_init: "fdb_reachable L K fork_database_init"
| reach_step: "fdb_reachable L K db \<Longrightarrow> fdb_step L K db db' \<Longrightarrow> fdb_reachable L K db'"

inductive_cases fdb_stepE: "fdb_step L K db db'"

lemma fdb_ok_reset: "fdb_ok L K db \<Longrightarrow> fdb_ok L K (reset db)"
  by (rule fdb_ok_shrink) (auto simp: reset_def owned_def fdb_ok_def intro: exI [of _ "\<lambda>_. False"])

lemma fdb_ok_set_head: "fdb_ok L K db \<Longrightarrow> a \<in> owned db \<Longrightarrow> fdb_ok L K (set_head (Some a) db)"
  by (rule fdb_ok_shrink) (auto simp: set_head_def owned_def fdb_ok_def intro: exI [of _ "\<lambda>_. True"])

lemma fdb_ok_remove: "fdb_ok L K db \<Longrightarrow> fdb_ok L K (remove i db)"
  by (rule fdb_ok_shrink) (auto simp: remove_def owned_def fdb_ok_def)

lemma fdb_step_ok: "fdb_step L K db db' \<Longrightarrow> fdb_ok L K db \<Longrightarrow> fdb_ok L K db'"
  by (erule fdb_stepE)
    (auto intro: fdb_ok_reset fdb_ok_pop_block fdb_ok_start_block fdb_ok_push_block fdb_ok_set_max_size
      fdb_ok_set_head fdb_ok_remove)

lemma fdb_reachable_ok: "fdb_reachable L K db \<Longrightarrow> fdb_ok L K db"
proof (induction rule: fdb_reachable.induct)
  case reach_init
  then show ?case by (simp add: fdb_ok_def fork_database_init_def owned_def)
qed (rule fdb_step_ok)

section \<open>Walks\<close>

lemma item_fields:
  assumes "fdb_ok L K db" and "a \<in> dom (fdb_heap db)"
  shows "fi_num (item db a) = block_num L (fi_data (item db a))"
    and "fi_id (item db a) = header_id L K (fi_data (item db a))"
  using assms by (auto simp: fdb_ok_def item_ok_def item_def split: option.splits)

lemma lock_prev_num:
  assumes "endian_laws L" and "sha224_laws K" and "fdb_ok L K db" and "a \<in> dom (fdb_heap db)"
    and "lock_prev db a = Some p"
  shows "fi_num (item db a) = fi_num (item db p) + 1"
  using item_fields [OF assms(3,4)] item_fields [OF assms(3) lock_prev_in(2) [OF assms(3-5)]]
    lock_prev_in(3) [OF assms(3-5)] num_from_header_id [OF assms(1,2), of "fi_data (item db p)"]
  by (simp add: block_num_def [of L "fi_data (item db a)"])

text \<open>A chain of items, each the locked parent of the one before.\<close>

fun branch :: "fork_database \<Rightarrow> addr list \<Rightarrow> bool" where
  "branch db (a # b # r) \<longleftrightarrow> lock_prev db a = Some b \<and> branch db (b # r)"
| "branch db xs \<longleftrightarrow> True"

lemma branch_snoc: "branch db (xs @ [a]) \<Longrightarrow> lock_prev db a = Some p \<Longrightarrow> branch db (xs @ [a, p])"
  by (induction db xs rule: branch.induct) auto

text \<open>Following links always ends, since a link goes to an older item.\<close>

lemma walk_down_returns:
  assumes "fdb_ok L K db"
  shows "a \<in> dom (fdb_heap db) \<Longrightarrow> branch db (acc @ [a]) \<Longrightarrow>
    \<exists>r. walk_down L db n a acc = Some r \<and>
      (\<forall>b acc'. r = Inr (b, acc') \<longrightarrow>
         b \<in> dom (fdb_heap db) \<and> branch db (acc' @ [b]) \<and> hd (acc' @ [b]) = hd (acc @ [a]))"
proof (induction a arbitrary: acc rule: less_induct)
  case (less a)
  show ?case
  proof (cases "data_num L db a > n")
    case True
    show ?thesis
    proof (cases "lock_prev db a")
      case None
      then show ?thesis using True by (simp add: walk_down.simps [of L db n a])
    next
      case (Some p)
      note p = lock_prev_in [OF assms less.prems(1) Some]
      have "branch db ((acc @ [a]) @ [p])" using branch_snoc [OF less.prems(2) Some] by simp
      moreover have "hd ((acc @ [a]) @ [p]) = hd (acc @ [a])" by (cases acc) auto
      ultimately show ?thesis
        using less.IH [OF p(1,2), of "acc @ [a]"] True Some by (simp add: walk_down.simps [of L db n a])
    qed
  next
    case False
    then show ?thesis using less.prems by (simp add: walk_down.simps [of L db n a])
  qed
qed

lemma walk_down_acc:
  assumes "fdb_ok L K db"
  shows "a \<in> dom (fdb_heap db) \<Longrightarrow> walk_down L db n a acc = Some (Inr (b, acc')) \<Longrightarrow>
    (acc' = acc \<and> b = a) \<or> length acc < length acc'"
proof (induction a arbitrary: acc rule: less_induct)
  case (less a)
  show ?case
  proof (cases "data_num L db a > n")
    case True
    then obtain p where p: "lock_prev db a = Some p" "walk_down L db n p (acc @ [a]) = Some (Inr (b, acc'))"
      using less.prems(2) by (auto simp: walk_down.simps [of L db n a] split: option.splits)
    show ?thesis
      using less.IH [OF lock_prev_in(1,2) [OF assms less.prems(1) p(1)] p(2)] by auto
  next
    case False
    then show ?thesis using less.prems(2) by (simp add: walk_down.simps [of L db n a])
  qed
qed

text \<open>Numbers go down by one per link, so the walk stops at the number it was given.\<close>

lemma walk_down_stops:
  assumes "endian_laws L" and "sha224_laws K" and "fdb_ok L K db"
  shows "a \<in> dom (fdb_heap db) \<Longrightarrow> walk_down L db n a acc = Some (Inr (b, acc')) \<Longrightarrow>
    acc' = acc \<or> n \<le> data_num L db b"
proof (induction a arbitrary: acc rule: less_induct)
  case (less a)
  show ?case
  proof (cases "data_num L db a > n")
    case True
    then obtain p where p: "lock_prev db a = Some p" "walk_down L db n p (acc @ [a]) = Some (Inr (b, acc'))"
      using less.prems(2) by (auto simp: walk_down.simps [of L db n a] split: option.splits)
    note lp = lock_prev_in [OF assms(3) less.prems(1) p(1)]
    have num: "data_num L db a = data_num L db p + 1"
      using lock_prev_num [OF assms less.prems(1) p(1)] item_fields(1) [OF assms(3) less.prems(1)]
        item_fields(1) [OF assms(3) lp(2)] by (simp add: data_num_def)
    have "n \<le> data_num L db p"
    proof -
      have "data_num L db a \<noteq> 0" using True by auto
      then have "unat (data_num L db p) = unat (data_num L db a) - 1"
        using unat_minus_one [of "data_num L db a"] num by simp
      then show ?thesis using True by (simp add: word_le_nat_alt word_less_nat_alt)
    qed
    moreover have "b = p" if "acc' = acc @ [a]"
      using walk_down_acc [OF assms(3) lp(2) p(2)] that by simp
    ultimately show ?thesis
      using less.IH [OF lp(1,2) p(2)] by auto
  next
    case False
    then show ?thesis using less.prems(2) by (simp add: walk_down.simps [of L db n a])
  qed
qed

text \<open>Going backwards from the ends of the two branches, all parents but the last differ.\<close>

definition fork_point :: "fork_database \<Rightarrow> addr list \<Rightarrow> addr list \<Rightarrow> bool" where
  "fork_point db xs ys \<longleftrightarrow>
     previous (fi_data (item db (last xs))) = previous (fi_data (item db (last ys))) \<and>
     (\<forall>j. 0 < j \<and> j < length xs \<and> j < length ys \<longrightarrow>
        previous (fi_data (item db (rev xs ! j))) \<noteq> previous (fi_data (item db (rev ys ! j))))"

lemma walk_both_returns:
  assumes "fdb_ok L K db"
  shows "a \<in> dom (fdb_heap db) \<Longrightarrow> b \<in> dom (fdb_heap db) \<Longrightarrow> branch db (accA @ [a]) \<Longrightarrow> branch db (accB @ [b]) \<Longrightarrow>
    (\<forall>j. j < length accA \<and> j < length accB \<longrightarrow>
        previous (fi_data (item db (rev accA ! j))) \<noteq> previous (fi_data (item db (rev accB ! j)))) \<Longrightarrow>
    \<exists>r. walk_both db a b accA accB = Some r \<and>
      (\<forall>xs ys. r = Inr (xs, ys) \<longrightarrow> xs \<noteq> [] \<and> ys \<noteq> [] \<and> branch db xs \<and> branch db ys \<and>
         hd xs = hd (accA @ [a]) \<and> hd ys = hd (accB @ [b]) \<and> fork_point db xs ys)"
proof (induction a arbitrary: b accA accB rule: less_induct)
  case (less a)
  show ?case
  proof (cases "previous (fi_data (item db a)) = previous (fi_data (item db b))")
    case True
    then have "fork_point db (accA @ [a]) (accB @ [b])"
      using less.prems(5) by (auto simp: fork_point_def gr0_conv_Suc)
    then show ?thesis
      using True less.prems by (simp add: walk_both.simps [of db a])
  next
    case diff: False
    show ?thesis
    proof (cases "lock_prev db a = None \<or> lock_prev db b = None")
      case True
      then show ?thesis using diff by (auto simp: walk_both.simps [of db a] split: option.splits)
    next
      case False
      then obtain p q where pq: "lock_prev db a = Some p" "lock_prev db b = Some q" by auto
      note p = lock_prev_in [OF assms less.prems(1) pq(1)] and q = lock_prev_in [OF assms less.prems(2) pq(2)]
      have br: "branch db ((accA @ [a]) @ [p])" "branch db ((accB @ [b]) @ [q])"
        using branch_snoc [OF less.prems(3) pq(1)] branch_snoc [OF less.prems(4) pq(2)] by simp_all
      have "\<forall>j. j < length (accA @ [a]) \<and> j < length (accB @ [b]) \<longrightarrow>
          previous (fi_data (item db (rev (accA @ [a]) ! j))) \<noteq> previous (fi_data (item db (rev (accB @ [b]) ! j)))"
        using less.prems(5) diff by (auto simp: nth_Cons split: nat.splits)
      moreover have "hd ((xs @ [x]) @ [y]) = hd (xs @ [x])" for xs and x y :: addr by (cases xs) auto
      ultimately show ?thesis
        using less.IH [OF p(1,2) q(2) br] diff pq by (simp add: walk_both.simps [of db a])
    qed
  qed
qed

lemma find_id_index:
  "fdb_ok L K db \<Longrightarrow> find_id db (fdb_index db) i = Some a \<Longrightarrow> a \<in> dom (fdb_heap db) \<and> fi_id (item db a) = i"
  using find_id_in fdb_ok_owned index_owned by blast

lemma fetch_branch_returns:
  assumes "endian_laws L" and "sha224_laws K" and "fdb_ok L K db"
  shows "\<exists>r. fetch_branch_from L db i j = Some r \<and>
    (\<forall>xs ys. r = Inr (xs, ys) \<longrightarrow>
       xs \<noteq> [] \<and> ys \<noteq> [] \<and> fi_id (item db (hd xs)) = i \<and> fi_id (item db (hd ys)) = j \<and>
       branch db xs \<and> branch db ys \<and> fork_point db xs ys)"
proof (cases "find_id db (fdb_index db) i = None \<or> find_id db (fdb_index db) j = None")
  case True
  then show ?thesis by (auto simp: fetch_branch_from_def split: option.splits)
next
  case False
  then obtain a b where ab: "find_id db (fdb_index db) i = Some a" "find_id db (fdb_index db) j = Some b" by auto
  note a = find_id_index [OF assms(3) ab(1)] and b = find_id_index [OF assms(3) ab(2)]
  obtain r where r: "walk_down L db (data_num L db b) a [] = Some r"
    "\<And>a' acc. r = Inr (a', acc) \<Longrightarrow> a' \<in> dom (fdb_heap db) \<and> branch db (acc @ [a']) \<and> hd (acc @ [a']) = a"
    using walk_down_returns [OF assms(3), of a "[]"] a by fastforce
  show ?thesis
  proof (cases r)
    case (Inl e)
    then show ?thesis using ab r(1) by (simp add: fetch_branch_from_def)
  next
    case (Inr x)
    obtain a' accA where x: "x = (a', accA)" by fastforce
    note A = r(2) [OF Inr [unfolded x]]
    obtain s where s: "walk_down L db (data_num L db a') b [] = Some s"
      "\<And>b' acc. s = Inr (b', acc) \<Longrightarrow> b' \<in> dom (fdb_heap db) \<and> branch db (acc @ [b']) \<and> hd (acc @ [b']) = b"
      using walk_down_returns [OF assms(3), of b "[]"] b by fastforce
    show ?thesis
    proof (cases s)
      case (Inl e)
      then show ?thesis using ab r(1) Inr x s(1) by (simp add: fetch_branch_from_def)
    next
      case Inr2: (Inr y)
      obtain b' accB where y: "y = (b', accB)" by fastforce
      note B = s(2) [OF Inr2 [unfolded y]]
      have "accA = [] \<or> accB = []"
        using walk_down_stops [OF assms _ r(1) [unfolded Inr x]] a s(1) [unfolded Inr2 y]
        by (auto simp: walk_down.simps [of L db _ b] split: if_splits)
      then have "\<exists>r. walk_both db a' b' accA accB = Some r \<and>
        (\<forall>xs ys. r = Inr (xs, ys) \<longrightarrow> xs \<noteq> [] \<and> ys \<noteq> [] \<and> branch db xs \<and> branch db ys \<and>
           hd xs = a \<and> hd ys = b \<and> fork_point db xs ys)"
        using walk_both_returns [OF assms(3), of a' b' accA accB] A B by auto
      then show ?thesis
        using ab a b r(1) Inr x s(1) Inr2 y by (auto simp: fetch_branch_from_def)
    qed
  qed
qed

section \<open>Properties\<close>

definition sample_db :: fork_database where
  "sample_db = start_block fc_ref crypto_ref (sample_block []) fork_database_init"

lemma sample_db_reachable [simp]: "fdb_reachable fc_ref crypto_ref sample_db"
  unfolding sample_db_def by (rule reach_step [OF reach_init step_start])

lemma sample_db_fields [simp]:
  "fdb_index sample_db = [0]" "fdb_head sample_db = Some 0"
  "item sample_db 0 = new_fork_item fc_ref crypto_ref (sample_block [])"
  by (simp_all add: sample_db_def start_block_def make_shared_def fork_database_init_def idx_insert_def
      find_id_def item_def)

text \<open>C9: Every reachable state of the fork database is a forest of blocks: the indexed blocks have
  different ids, each item records the id and number of its block, and a link that can be followed
  goes to the block named as the parent, whose number is one less.  The cache of unlinked blocks
  that \<open>push_block\<close> documents is always empty.\<close>

theorem fork_database_forest:
  assumes "endian_laws L" and "sha224_laws K" and "fdb_reachable L K db"
  shows "distinct (map (\<lambda>a. fi_id (item db a)) (fdb_index db)) \<and> fdb_unlinked db = [] \<and>
    (\<forall>a \<in> owned db.
       fi_id (item db a) = header_id L K (fi_data (item db a)) \<and>
       fi_num (item db a) = block_num L (fi_data (item db a)) \<and>
       (\<forall>p. lock_prev db a = Some p \<longrightarrow>
          fi_id (item db p) = previous_id (item db a) \<and> fi_num (item db a) = fi_num (item db p) + 1))"
proof -
  note ok = fdb_reachable_ok [OF assms(3)]
  have "fi_id (item db a) = header_id L K (fi_data (item db a)) \<and>
       fi_num (item db a) = block_num L (fi_data (item db a)) \<and>
       (\<forall>p. lock_prev db a = Some p \<longrightarrow>
          fi_id (item db p) = previous_id (item db a) \<and> fi_num (item db a) = fi_num (item db p) + 1)"
    if "a \<in> owned db" for a
    using conjunct1 [OF fdb_ok_owned [OF ok that]] item_fields [OF ok] lock_prev_in(3) [OF ok]
      lock_prev_num [OF assms(1,2) ok] by (simp add: previous_id_def)
  then show ?thesis using ok unfolding fdb_ok_def by blast
qed

theorem fork_database_forest_witness:
  "fi_num (item sample_db 0) = block_num fc_ref (sample_block []) \<and> fdb_unlinked sample_db = []"
  using fork_database_forest [OF endian_laws_ref sha224_laws_ref sample_db_reachable]
  by (simp add: owned_def new_fork_item_def)

lemma push_item_result:
  assumes "push_item a db = Inr db'" and "a \<in> dom (fdb_heap db)" and "fdb_head db \<noteq> Some a"
  shows "fdb_head db' = (case fdb_head db of None \<Rightarrow> Some a
           | Some h \<Rightarrow> if fi_num (item db a) > fi_num (item db h) then Some a else Some h)"
    and "find_id db' (fdb_index db') (fi_id (item db a)) \<noteq> None"
    and "\<And>x. x \<noteq> a \<Longrightarrow> item db' x = item db x" and "fi_num (item db' a) = fi_num (item db a)"
proof -
  obtain db1 where db1: "db' = add_item a db1" "fdb_index db1 = fdb_index db" "fdb_head db1 = fdb_head db"
    "\<And>x. x \<noteq> a \<Longrightarrow> item db1 x = item db x" "fi_num (item db1 a) = fi_num (item db a)"
    "fi_id (item db1 a) = fi_id (item db a)"
  proof (cases "db' = add_item a db")
    case False
    then obtain p where "db' = add_item a (link_item a p db)"
      using assms(1) by (auto simp: push_item_def split: if_splits option.splits)
    then show ?thesis using that [of "link_item a p db"] by (simp add: link_item_def item_def)
  qed (use that in auto)
  have i: "item db' = item db1" unfolding db1(1) by (rule item_cong) simp
  show "\<And>x. x \<noteq> a \<Longrightarrow> item db' x = item db x" "fi_num (item db' a) = fi_num (item db a)"
    using db1 i by simp_all
  show "fdb_head db' = (case fdb_head db of None \<Rightarrow> Some a
           | Some h \<Rightarrow> if fi_num (item db a) > fi_num (item db h) then Some a else Some h)"
    using db1 assms(3) by (auto simp: add_item_def Let_def item_def split: option.splits)
  show "find_id db' (fdb_index db') (fi_id (item db a)) \<noteq> None"
    unfolding find_id_None i using db1 find_id_in [of db1 "fdb_index db1"]
    by (fastforce simp: idx_insert_def split: option.splits)
qed

text \<open>C26: A push that returns has made the block known, and the head is a block of the highest number:
  the number of the returned head is the larger one of the previous head's and the new block's, and
  an equally high block does not displace the head.\<close>

theorem push_block_moves_head:
  assumes "fdb_reachable L K db" and "push_block L K b db = Inr (h, db')"
  shows "is_known_block db' (header_id L K b) \<and> h = fdb_head db' \<and>
    (case fdb_head db of
       None \<Rightarrow> \<exists>a. h = Some a \<and> fi_num (item db' a) = block_num L b
     | Some h0 \<Rightarrow> \<exists>a. h = Some a \<and> fi_num (item db' a) = max (fi_num (item db h0)) (block_num L b) \<and>
         (block_num L b \<le> fi_num (item db h0) \<longrightarrow> a = h0))"
proof -
  note ok = fdb_reachable_ok [OF assms(1)]
  obtain a db1 where m: "make_shared (new_fork_item L K b) db = (a, db1)" by fastforce
  note d = fdb_ok_make_shared [OF ok m]
  have push: "push_item a db1 = Inr db'" and h: "h = fdb_head db'"
    using assms(2) m by (auto simp: push_block_def)
  have head: "x \<noteq> a \<and> item db1 x = item db x" if "fdb_head db = Some x" for x
    using d(7) conjunct1 [OF fdb_ok_owned [OF ok, of x]] that by (auto simp: owned_def)
  have "fdb_head db1 \<noteq> Some a" using head d(5) by auto
  note r = push_item_result [OF push d(2) this]
  have n: "fi_num (item db1 a) = block_num L b" "fi_id (item db1 a) = header_id L K b"
    using d(3) by (simp_all add: new_fork_item_def)
  have "is_known_block db' (header_id L K b)" using r(2) n by (simp add: is_known_block_def)
  moreover have "case fdb_head db of
       None \<Rightarrow> \<exists>a. h = Some a \<and> fi_num (item db' a) = block_num L b
     | Some h0 \<Rightarrow> \<exists>a. h = Some a \<and> fi_num (item db' a) = max (fi_num (item db h0)) (block_num L b) \<and>
         (block_num L b \<le> fi_num (item db h0) \<longrightarrow> a = h0)"
    using r(1,3,4) n d(5) h head by (auto simp: max_def split: option.splits)
  ultimately show ?thesis using h by blast
qed

theorem push_block_moves_head_witness:
  "\<exists>h db'. push_block fc_ref crypto_ref (sample_block []) fork_database_init = Inr (h, db') \<and>
     is_known_block db' (header_id fc_ref crypto_ref (sample_block []))"
proof -
  have "\<exists>h db'. push_block fc_ref crypto_ref (sample_block []) fork_database_init = Inr (h, db')"
    by (simp add: push_block_def make_shared_def fork_database_init_def push_item_def)
  then show ?thesis using push_block_moves_head [OF reach_init] by blast
qed

text \<open>C10: \<open>fetch_branch_from\<close> always returns on a reachable database; when it does not throw, it returns
  two chains of parents that start at the two requested blocks and end at blocks with the same
  parent, and no two blocks at equal heights above them have the same parent: the parent is the most
  recent common ancestor.\<close>

theorem fetch_branch_common_ancestor:
  assumes "endian_laws L" and "sha224_laws K" and "fdb_reachable L K db"
  shows "\<exists>r. fetch_branch_from L db i j = Some r \<and>
    (\<forall>xs ys. r = Inr (xs, ys) \<longrightarrow>
       xs \<noteq> [] \<and> ys \<noteq> [] \<and> fi_id (item db (hd xs)) = i \<and> fi_id (item db (hd ys)) = j \<and>
       branch db xs \<and> branch db ys \<and> fork_point db xs ys)"
  using fetch_branch_returns [OF assms(1,2) fdb_reachable_ok [OF assms(3)]] .

text \<open>A fork: two blocks on a common parent, and one more on the first of them.  The hash of a header
  keeps its time, so the blocks have different ids.\<close>

definition fork_crypto :: fc_crypto where
  "fork_crypto = crypto_ref\<lparr>sha224_of_signed_header := (\<lambda>h. [0, timestamp h, 0, 0, 0, 0, 0])\<rparr>"

definition fork_block :: "block_id_type \<Rightarrow> u32 \<Rightarrow> signed_block" where
  "fork_block p t = (sample_block [])\<lparr>previous := p, timestamp := t\<rparr>"

definition fork_id :: "u32 \<Rightarrow> u32 \<Rightarrow> block_id_type" where
  "fork_id n t = [endian_reverse_u32 fc_ref n, t, 0, 0, 0]"

lemma fork_block_fields [simp]:
  "previous (fork_block p t) = p" "timestamp (fork_block p t) = t"
  by (simp_all add: fork_block_def)

lemma fork_block_id:
  "block_num fc_ref (fork_block (fork_id n t) u) = n + 1"
  "header_id fc_ref fork_crypto (fork_block (fork_id n t) u) = fork_id (n + 1) u"
proof -
  have "endian_reverse_u32 fc_ref (endian_reverse_u32 fc_ref n) = n" using endian_laws_ref by (simp add: endian_laws_def)
  then show n: "block_num fc_ref (fork_block (fork_id n t) u) = n + 1" by (simp add: block_num_def num_from_id_def fork_id_def)
  have "timestamp (signed_block_header.truncate (fork_block p u)) = u" for p
    by (simp add: signed_block_header.truncate_def)
  with n show "header_id fc_ref fork_crypto (fork_block (fork_id n t) u) = fork_id (n + 1) u"
    by (simp add: header_id_def fork_crypto_def Let_def fork_id_def)
qed

lemma fork_id_eq [simp]: "fork_id n t = fork_id m u \<longleftrightarrow> n = m \<and> t = u"
  using endian_laws_ref unfolding fork_id_def endian_laws_def by (metis list.inject)

lemma fork_id_not_null [simp]: "t \<noteq> 0 \<Longrightarrow> fork_id n t \<noteq> null_id"
  by (simp add: fork_id_def null_id_def numeral_eq_Suc)

definition fork_item_of :: "addr option \<Rightarrow> u32 \<Rightarrow> u32 \<Rightarrow> u32 \<Rightarrow> fork_item" where
  "fork_item_of p n t u = (new_fork_item fc_ref fork_crypto (fork_block (fork_id n t) u))\<lparr>fi_prev := p\<rparr>"

lemma fork_item_fields [simp]:
  "fi_prev (fork_item_of p n t u) = p" "fi_num (fork_item_of p n t u) = n + 1" "\<not> fi_invalid (fork_item_of p n t u)"
  "fi_id (fork_item_of p n t u) = fork_id (n + 1) u" "fi_data (fork_item_of p n t u) = fork_block (fork_id n t) u"
  by (simp_all add: fork_item_of_def new_fork_item_def fork_block_id)

text \<open>The database after the first \<open>k\<close> of the four blocks; the blocks with numbers 2, 3, 3 and 4.\<close>

definition fork_items :: "fork_item list" where
  "fork_items = [fork_item_of None 1 5 10, fork_item_of (Some 0) 2 10 11, fork_item_of (Some 0) 2 10 12, fork_item_of (Some 1) 3 11 13]"

definition fork_db :: "nat \<Rightarrow> addr \<Rightarrow> fork_database" where
  "fork_db k h = \<lparr>fdb_heap = (\<lambda>a. if a < k then Some (fork_items ! a) else None), fdb_next = k, fdb_max_size = 1024,
     fdb_unlinked = [], fdb_index = [0..<k], fdb_head = Some h\<rparr>"

lemma fork_db_start: "start_block fc_ref fork_crypto (fork_block (fork_id 1 5) 10) fork_database_init = fork_db 1 0"
  by (simp add: start_block_def make_shared_def fork_database_init_def fork_db_def idx_insert_def find_id_def item_def fork_items_def
      fork_item_of_def new_fork_item_def fun_eq_iff)

lemma item_fork_db: "a < k \<Longrightarrow> item (fork_db k h) a = fork_items ! a"
  by (simp add: item_def fork_db_def)

lemma fork_push_eval:
  assumes "find_id (fork_db k h) [0..<k] (fork_id n t) = Some p" and "p < k" and "h < k" and "t \<noteq> 0"
    and "fork_items ! k = fork_item_of (Some p) n t u" and "find_id (fork_db k h) [0..<k] (fork_id (n + 1) u) = None"
    and "0 < uint (n + 1)" and "uint (fi_num (fork_items ! h)) < 1024" and "\<not> fi_invalid (fork_items ! p)"
    and "h' = (if n + 1 > fi_num (fork_items ! h) then k else h)"
  shows "push_block fc_ref fork_crypto (fork_block (fork_id n t) u) (fork_db k h) = Inr (Some h', fork_db (k + 1) h')"
proof -
  define it where "it = new_fork_item fc_ref fork_crypto (fork_block (fork_id n t) u)"
  define db where "db = (fork_db k h)\<lparr>fdb_heap := (fdb_heap (fork_db k h))(k \<mapsto> it), fdb_next := k + 1\<rparr>"
  define db2 where "db2 = link_item k p db"
  have m: "make_shared it (fork_db k h) = (k, db)" by (simp add: make_shared_def db_def fork_db_def)
  have db: "fdb_index db = [0..<k]" "fdb_head db = Some h" "fdb_max_size db = 1024" "item db k = it"
    "\<And>a. a < k \<Longrightarrow> item db a = fork_items ! a"
    by (simp_all add: db_def fork_db_def item_def)
  have it: "it\<lparr>fi_prev := Some p\<rparr> = fork_items ! k" "previous_id it = fork_id n t" "fi_num it = n + 1"
    by (simp_all add: assms(5) fork_item_of_def it_def previous_id_def new_fork_item_def fork_block_id)
  have f: "find_id db [0..<k] i = find_id (fork_db k h) [0..<k] i" for i
    unfolding find_id_def by (rule find_cong) (simp_all add: db(5) item_fork_db)
  have "db2 = (fork_db (k + 1) h)\<lparr>fdb_index := [0..<k]\<rparr>"
    unfolding db2_def link_item_def db(4) it(1) by (simp add: db_def fork_db_def fun_eq_iff)
  then have db2: "fdb_index db2 = [0..<k]" "fdb_head db2 = Some h" "item db2 k = fork_items ! k"
    "\<And>a. a < k \<Longrightarrow> item db2 a = fork_items ! a" "db2\<lparr>fdb_index := [0..<k] @ [k]\<rparr> = fork_db (k + 1) h"
    by (simp_all add: fork_db_def item_def)
  have f2: "find_id db2 [0..<k] (fork_id (n + 1) u) = None"
    using assms(6) unfolding find_id_None by (auto simp: db2(4) item_fork_db)
  have "idx_insert db2 k (fdb_index db2) = [0..<k] @ [k]"
    using f2 by (simp add: idx_insert_def db2(1,3) assms(5))
  then have ins: "db2\<lparr>fdb_index := idx_insert db2 k (fdb_index db2)\<rparr> = fork_db (k + 1) h" by (simp only: db2(5))
  have "(fork_db (k + 1) h)\<lparr>fdb_head := Some x\<rparr> = fork_db (k + 1) x" "fdb_head (fork_db (k + 1) h) = Some h" for x
    by (simp_all add: fork_db_def)
  then have a: "add_item k db2 = fork_db (k + 1) h'"
    using assms(3,10) by (simp add: add_item_def Let_def ins item_fork_db assms(5))
  have "push_item k db = Inr (fork_db (k + 1) h')"
    using assms(1-4,7-9) by (simp add: push_item_def db it f oldest_allowed_def db2_def [symmetric] a max_def)
  then show ?thesis unfolding push_block_def it_def [symmetric] m by (simp add: fork_db_def)
qed

lemma fork_upt: "[0..<1] = [0 :: nat]" "[0..<2] = [0, 1 :: nat]" "[0..<3] = [0, 1, 2 :: nat]" "[0..<4] = [0, 1, 2, 3 :: nat]"
  by (simp_all add: upt_rec numeral_eq_Suc)

lemma fork_items_nth:
  "fork_items ! 0 = fork_item_of None 1 5 10" "fork_items ! 1 = fork_item_of (Some 0) 2 10 11"
  "fork_items ! Suc 0 = fork_item_of (Some 0) 2 10 11"
  "fork_items ! 2 = fork_item_of (Some 0) 2 10 12" "fork_items ! 3 = fork_item_of (Some 1) 3 11 13"
  by (simp_all add: fork_items_def)

lemma fork_db_pushes:
  "push_block fc_ref fork_crypto (fork_block (fork_id 2 10) 11) (fork_db 1 0) = Inr (Some 1, fork_db 2 1)"
  "push_block fc_ref fork_crypto (fork_block (fork_id 2 10) 12) (fork_db 2 1) = Inr (Some 1, fork_db 3 1)"
  "push_block fc_ref fork_crypto (fork_block (fork_id 3 11) 13) (fork_db 3 1) = Inr (Some 3, fork_db 4 3)"
proof -
  note eval = find_id_def fork_upt item_fork_db fork_items_nth
  have n: "(1 + 1 :: nat) = 2" "(2 + 1 :: nat) = 3" "(3 + 1 :: nat) = 4" by simp_all
  show "push_block fc_ref fork_crypto (fork_block (fork_id 2 10) 11) (fork_db 1 0) = Inr (Some 1, fork_db 2 1)"
    by (rule fork_push_eval [where k = 1 and p = 0, unfolded n]) (simp_all add: eval del: One_nat_def)
  show "push_block fc_ref fork_crypto (fork_block (fork_id 2 10) 12) (fork_db 2 1) = Inr (Some 1, fork_db 3 1)"
    by (rule fork_push_eval [where k = 2 and p = 0, unfolded n]) (simp_all add: eval del: One_nat_def)
  show "push_block fc_ref fork_crypto (fork_block (fork_id 3 11) 13) (fork_db 3 1) = Inr (Some 3, fork_db 4 3)"
    by (rule fork_push_eval [where k = 3 and p = 1, unfolded n]) (simp_all add: eval del: One_nat_def)
qed

lemma fork_db_reachable: "fdb_reachable fc_ref fork_crypto (fork_db 4 3)"
proof -
  have "fdb_reachable fc_ref fork_crypto (fork_db 1 0)"
    unfolding fork_db_start [symmetric] by (rule reach_step [OF reach_init step_start])
  then have "fdb_reachable fc_ref fork_crypto (fork_db 2 1)" by (rule reach_step [OF _ step_push [OF fork_db_pushes(1)]])
  then have "fdb_reachable fc_ref fork_crypto (fork_db 3 1)" by (rule reach_step [OF _ step_push [OF fork_db_pushes(2)]])
  then show ?thesis by (rule reach_step [OF _ step_push [OF fork_db_pushes(3)]])
qed

lemma fork_branches: "fetch_branch_from fc_ref (fork_db 4 3) (fork_id 4 13) (fork_id 3 12) = Some (Inr ([3, 1], [2]))"
proof -
  have i: "item (fork_db 4 3) 0 = fork_item_of None 1 5 10" "item (fork_db 4 3) 1 = fork_item_of (Some 0) 2 10 11"
    "item (fork_db 4 3) 2 = fork_item_of (Some 0) 2 10 12" "item (fork_db 4 3) 3 = fork_item_of (Some 1) 3 11 13"
    by (simp_all add: item_def fork_db_def fork_items_def)
  have f: "find_id (fork_db 4 3) [0..<4] (fork_id 4 13) = Some 3" "find_id (fork_db 4 3) [0..<4] (fork_id 3 12) = Some 2"
    by (simp_all add: find_id_def fork_upt i [simplified])
  have p: "lock_prev (fork_db 4 3) 3 = Some 1" by (simp add: lock_prev_def i owned_def) (simp add: fork_db_def)
  have "walk_down fc_ref (fork_db 4 3) 3 3 [] = Some (Inr (1, [3]))"
    using p i by (simp add: walk_down.simps data_num_def fork_block_id)
  moreover have "walk_down fc_ref (fork_db 4 3) 3 2 [] = Some (Inr (2, []))"
    using i by (simp add: walk_down.simps data_num_def fork_block_id)
  moreover have "walk_both (fork_db 4 3) 1 2 [3] [] = Some (Inr ([3, 1], [2]))"
    using i by (simp add: walk_both.simps)
  moreover have "fdb_index (fork_db 4 3) = [0..<4]" by (simp add: fork_db_def)
  ultimately show ?thesis using f i by (simp add: fetch_branch_from_def data_num_def fork_block_id)
qed

text \<open>From the tip of one branch and the block of the other: the two branches, and their fork point.\<close>

theorem fetch_branch_common_ancestor_witness:
  "fetch_branch_from fc_ref (fork_db 4 3) (fork_id 4 13) (fork_id 3 12) = Some (Inr ([3, 1], [2])) \<and>
   branch (fork_db 4 3) [3, 1] \<and> branch (fork_db 4 3) [2] \<and> fork_point (fork_db 4 3) [3, 1] [2]"
proof -
  have "sha224_laws fork_crypto" by (simp add: sha224_laws_def fork_crypto_def)
  from fetch_branch_common_ancestor [OF endian_laws_ref this fork_db_reachable, of "fork_id 4 13" "fork_id 3 12"]
  show ?thesis using fork_branches by simp
qed

text \<open>\<open>set_max_size\<close> keeps exactly the blocks within the given distance of the head, although it
  erases from the lowest number upwards one by one.\<close>

theorem set_max_size_keeps:
  assumes "fdb_reachable L K db" and "fdb_head db = Some h"
  shows "fdb_index (set_max_size s db) =
    filter (\<lambda>a. int (unat (fi_num (item db h))) - int (unat s) \<le> int (unat (fi_num (item db a)))) (fdb_index db)"
proof -
  have i: "item (db\<lparr>fdb_max_size := s\<rparr>) = item db" by (rule item_cong) simp
  have bound: "\<not> uint y < max 0 z \<longleftrightarrow> z \<le> uint y" for y :: u32 and z
    by (simp add: max_def) (use uint_ge_0 [of y] in linarith)
  show ?thesis
    using assms(2) erase_old_filter [OF distinct_index [OF fdb_reachable_ok [OF assms(1)]]]
      bound by (simp add: set_max_size_def Let_def oldest_allowed_def i)
qed

theorem set_max_size_keeps_witness: "fdb_index (set_max_size 5 sample_db) = [0]"
  using set_max_size_keeps [OF sample_db_reachable, of 0 5] by simp

end
