(* ===== verification/Chainbase.thy ===== *)
theory Chainbase
  imports Calib_Prelude
begin

text \<open>
  The undoable object store: \<open>generic_index\<close> of \<open>chainbase/chainbase.hpp\<close>.  Every object type of
  the chain lives in such an index; a session on it can be undone, squashed into the one below, or
  committed.

  The multi-index container is a parameter of the template.  The model keeps its primary index, the
  flat map from ids to objects, and represents all its other unique indices by a relation \<open>clash\<close>:
  two objects that clash cannot both be in the container.  As in boost, \<open>modify\<close> to a clashing
  object erases the object and reports failure.  The stack of undo states is a list whose first
  element is \<open>_stack.back()\<close>.  An operation returns whether it threw, and the state it left.

  The result: the store refines a stack of snapshots.  Undo restores the snapshot taken when the
  session was started, squash drops the latest snapshot, commit drops the oldest ones, and creating,
  modifying and removing objects change none of them.
\<close>

section \<open>Data\<close>

type_synonym oid = nat

record 'v undo_state =
  old_values :: "(oid, 'v) flat_map"
  removed_values :: "(oid, 'v) flat_map"
  new_ids :: "oid flat_set"
  old_next_id :: oid
  us_revision :: int

record 'v generic_index =
  gi_stack :: "'v undo_state list"
  gi_revision :: int
  gi_next_id :: oid
  gi_indices :: "(oid, 'v) flat_map"

definition generic_index_init :: "'v generic_index" where
  "generic_index_init = \<lparr>gi_stack = [], gi_revision = 0, gi_next_id = 0, gi_indices = []\<rparr>"

type_synonym 'v clash = "'v \<Rightarrow> 'v \<Rightarrow> bool"

section \<open>The container\<close>

definition idx_emplace :: "'v clash \<Rightarrow> oid \<Rightarrow> 'v \<Rightarrow> (oid, 'v) flat_map \<Rightarrow> bool \<times> (oid, 'v) flat_map" where
  "idx_emplace clash i v m =
     (if fm_find m i \<noteq> None \<or> (\<exists>e \<in> set m. clash v (snd e)) then (False, m) else (True, fm_put i v m))"

definition idx_modify ::
  "'v clash \<Rightarrow> oid \<Rightarrow> ('v \<Rightarrow> 'v) \<Rightarrow> (oid, 'v) flat_map \<Rightarrow> bool \<times> (oid, 'v) flat_map" where
  "idx_modify clash i f m =
     (case fm_find m i of
        None \<Rightarrow> (False, m)
      | Some v \<Rightarrow>
          if \<exists>e \<in> set m. fst e \<noteq> i \<and> clash (f v) (snd e) then (False, fm_erase i m)
          else (True, fm_put i (f v) m))"

section \<open>Recording changes\<close>

definition enabled :: "'v generic_index \<Rightarrow> bool" where
  "enabled g \<longleftrightarrow> length (gi_stack g) \<noteq> 0"

text \<open>Updates \<open>_stack.back()\<close> when there is one.\<close>

definition on_head :: "('v undo_state \<Rightarrow> 'v undo_state) \<Rightarrow> 'v generic_index \<Rightarrow> 'v generic_index" where
  "on_head f g = (case gi_stack g of [] \<Rightarrow> g | h # st \<Rightarrow> g\<lparr>gi_stack := f h # st\<rparr>)"

definition record_modify :: "oid \<Rightarrow> 'v \<Rightarrow> 'v undo_state \<Rightarrow> 'v undo_state" where
  "record_modify i v h =
     (if i \<in> set (new_ids h) then h
      else if fm_find (old_values h) i \<noteq> None then h
      else h\<lparr>old_values := fm_insert (i, v) (old_values h)\<rparr>)"

definition record_remove :: "oid \<Rightarrow> 'v \<Rightarrow> 'v undo_state \<Rightarrow> 'v undo_state" where
  "record_remove i v h =
     (if i \<in> set (new_ids h) then h\<lparr>new_ids := fs_erase i (new_ids h)\<rparr>
      else (case fm_find (old_values h) i of
              Some w \<Rightarrow> h\<lparr>removed_values := fm_insert (i, w) (removed_values h),
                          old_values := fm_erase i (old_values h)\<rparr>
            | None \<Rightarrow>
                if fm_find (removed_values h) i \<noteq> None then h
                else h\<lparr>removed_values := fm_insert (i, v) (removed_values h)\<rparr>))"

definition record_create :: "oid \<Rightarrow> 'v undo_state \<Rightarrow> 'v undo_state" where
  "record_create i h = h\<lparr>new_ids := fs_insert i (new_ids h)\<rparr>"

section \<open>Operations on objects\<close>

text \<open>The constructor gets the new id.\<close>

definition emplace :: "'v clash \<Rightarrow> (oid \<Rightarrow> 'v) \<Rightarrow> 'v generic_index \<Rightarrow> oid res \<times> 'v generic_index" where
  "emplace clash c g =
     (let new_id = gi_next_id g;
          (inserted, m) = idx_emplace clash new_id (c new_id) (gi_indices g)
      in if \<not> inserted
         then (Inl (logic_error ''could not insert object, most likely a uniqueness constraint was violated''), g)
         else (Inr new_id,
               on_head (record_create new_id) (g\<lparr>gi_indices := m, gi_next_id := gi_next_id g + 1\<rparr>)))"

text \<open>\<open>modify\<close> and \<open>remove\<close> take a reference to an object of the index, here its id.\<close>

definition modify :: "'v clash \<Rightarrow> oid \<Rightarrow> ('v \<Rightarrow> 'v) \<Rightarrow> 'v generic_index \<Rightarrow> unit res \<times> 'v generic_index" where
  "modify clash i f g =
     (case fm_find (gi_indices g) i of
        None \<Rightarrow> (Inl (out_of_range ''not an object of the index''), g)
      | Some v \<Rightarrow>
          let g = on_head (record_modify i v) g;
              (ok, m) = idx_modify clash i f (gi_indices g)
          in (if ok then Inr () else Inl (logic_error ''Could not modify object, most likely a uniqueness constraint was violated''), g\<lparr>gi_indices := m\<rparr>))"

definition remove_obj :: "oid \<Rightarrow> 'v generic_index \<Rightarrow> unit res \<times> 'v generic_index" where
  "remove_obj i g =
     (case fm_find (gi_indices g) i of
        None \<Rightarrow> (Inl (out_of_range ''not an object of the index''), g)
      | Some v \<Rightarrow>
          let g = on_head (record_remove i v) g
          in (Inr (), g\<lparr>gi_indices := fm_erase i (gi_indices g)\<rparr>))"

definition find_obj :: "oid \<Rightarrow> 'v generic_index \<Rightarrow> 'v option" where
  "find_obj i g = fm_find (gi_indices g) i"

definition get_obj :: "oid \<Rightarrow> 'v generic_index \<Rightarrow> 'v res" where
  "get_obj i g = (case find_obj i g of None \<Rightarrow> Inl (out_of_range ''key not found'') | Some v \<Rightarrow> Inr v)"

definition remove_object :: "oid \<Rightarrow> 'v generic_index \<Rightarrow> unit res \<times> 'v generic_index" where
  "remove_object i g =
     (case find_obj i g of None \<Rightarrow> (Inl (out_of_range ''id''), g) | Some _ \<Rightarrow> remove_obj i g)"

section \<open>Sessions\<close>

definition start_undo_session :: "bool \<Rightarrow> 'v generic_index \<Rightarrow> int \<times> 'v generic_index" where
  "start_undo_session en g =
     (if en
      then (let r = gi_revision g + 1;
                u = \<lparr>old_values = [], removed_values = [], new_ids = [], old_next_id = gi_next_id g, us_revision = r\<rparr>
            in (r, g\<lparr>gi_stack := u # gi_stack g, gi_revision := r\<rparr>))
      else (- 1, g))"

text \<open>The three loops of \<open>undo\<close>; the first failing entry throws.\<close>

fun undo_old :: "'v clash \<Rightarrow> (oid \<times> 'v) list \<Rightarrow> (oid, 'v) flat_map \<Rightarrow> bool \<times> (oid, 'v) flat_map" where
  "undo_old clash [] m = (True, m)"
| "undo_old clash ((i, v) # r) m =
     (case idx_modify clash i (\<lambda>_. v) m of (ok, m') \<Rightarrow> if ok then undo_old clash r m' else (False, m'))"

fun undo_removed :: "'v clash \<Rightarrow> (oid \<times> 'v) list \<Rightarrow> (oid, 'v) flat_map \<Rightarrow> bool \<times> (oid, 'v) flat_map" where
  "undo_removed clash [] m = (True, m)"
| "undo_removed clash ((i, v) # r) m =
     (case idx_emplace clash i v m of (ok, m') \<Rightarrow> if ok then undo_removed clash r m' else (False, m'))"

definition undo :: "'v clash \<Rightarrow> 'v generic_index \<Rightarrow> unit res \<times> 'v generic_index" where
  "undo clash g =
     (case gi_stack g of
        [] \<Rightarrow> (Inr (), g)
      | h # st \<Rightarrow>
          (case undo_old clash (old_values h) (gi_indices g) of (ok, m) \<Rightarrow>
             if \<not> ok then (Inl (logic_error ''Could not modify object, most likely a uniqueness constraint was violated''), g\<lparr>gi_indices := m\<rparr>)
             else
               let m = fold fm_erase (new_ids h) m
               in case undo_removed clash (removed_values h) m of (ok, m) \<Rightarrow>
                    if \<not> ok
                    then (Inl (logic_error ''Could not restore object, most likely a uniqueness constraint was violated''),
                          g\<lparr>gi_indices := m, gi_next_id := old_next_id h\<rparr>)
                    else (Inr (), g\<lparr>gi_indices := m, gi_next_id := old_next_id h,
                                    gi_stack := st, gi_revision := gi_revision g - 1\<rparr>)))"

text \<open>The merge loops of \<open>squash\<close>, for one entry each.\<close>

definition merge_old :: "oid \<times> 'v \<Rightarrow> 'v undo_state \<Rightarrow> 'v undo_state" where
  "merge_old e p =
     (if fst e \<in> set (new_ids p) then p
      else if fm_find (old_values p) (fst e) \<noteq> None then p
      else p\<lparr>old_values := fm_insert e (old_values p)\<rparr>)"

definition merge_new :: "oid \<Rightarrow> 'v undo_state \<Rightarrow> 'v undo_state" where
  "merge_new i p = p\<lparr>new_ids := fs_insert i (new_ids p)\<rparr>"

definition merge_removed :: "oid \<times> 'v \<Rightarrow> 'v undo_state \<Rightarrow> 'v undo_state" where
  "merge_removed e p =
     (if fst e \<in> set (new_ids p) then p\<lparr>new_ids := fs_erase (fst e) (new_ids p)\<rparr>
      else (case fm_find (old_values p) (fst e) of
              Some w \<Rightarrow> p\<lparr>removed_values := fm_insert (fst e, w) (removed_values p),
                          old_values := fm_erase (fst e) (old_values p)\<rparr>
            | None \<Rightarrow> p\<lparr>removed_values := fm_insert e (removed_values p)\<rparr>))"

definition merge_states :: "'v undo_state \<Rightarrow> 'v undo_state \<Rightarrow> 'v undo_state" where
  "merge_states prev state =
     fold merge_removed (removed_values state)
       (fold merge_new (new_ids state) (fold merge_old (old_values state) prev))"

definition squash :: "'v generic_index \<Rightarrow> 'v generic_index" where
  "squash g =
     (case gi_stack g of
        [] \<Rightarrow> g
      | [h] \<Rightarrow> g\<lparr>gi_stack := []\<rparr>
      | state # prev # st \<Rightarrow> g\<lparr>gi_stack := merge_states prev state # st, gi_revision := gi_revision g - 1\<rparr>)"

definition commit :: "int \<Rightarrow> 'v generic_index \<Rightarrow> 'v generic_index" where
  "commit r g = g\<lparr>gi_stack := rev (dropWhile (\<lambda>u. us_revision u \<le> r) (rev (gi_stack g)))\<rparr>"

text \<open>\<open>undo_all\<close> stops at the first exception; each completed undo pops one state.\<close>

function undo_all :: "'v clash \<Rightarrow> 'v generic_index \<Rightarrow> unit res \<times> 'v generic_index" where
  "undo_all clash g =
     (if \<not> enabled g then (Inr (), g)
      else (case undo clash g of
              (Inl e, g') \<Rightarrow> (Inl e, g')
            | (Inr _, g') \<Rightarrow> undo_all clash g'))"
  by pat_completeness auto

lemma undo_pops: "undo clash g = (Inr u, g') \<Longrightarrow> gi_stack g' = tl (gi_stack g)"
  by (auto simp: undo_def Let_def split: list.splits prod.splits if_splits)

termination undo_all
proof (relation "measure (\<lambda>(clash, g). length (gi_stack g))", goal_cases)
  case (2 clash g x g' u)
  then show ?case using undo_pops [of clash g u g'] by (cases "gi_stack g") (auto simp: enabled_def)
qed simp

declare undo_all.simps [simp del]

definition set_revision :: "int \<Rightarrow> 'v generic_index \<Rightarrow> unit res \<times> 'v generic_index" where
  "set_revision r g =
     (if length (gi_stack g) \<noteq> 0
      then (Inl (logic_error ''cannot set revision while there is an existing undo stack''), g)
      else (Inr (), g\<lparr>gi_revision := r\<rparr>))"

text \<open>The RAII object: it remembers whether to undo when it goes out of scope.\<close>

record session =
  s_apply :: bool
  s_revision :: int

definition new_session :: "int \<Rightarrow> session" where
  "new_session r = \<lparr>s_apply = (r \<noteq> - 1), s_revision = r\<rparr>"

definition session_push :: "session \<Rightarrow> session" where
  "session_push s = s\<lparr>s_apply := False\<rparr>"

definition session_squash :: "session \<Rightarrow> 'v generic_index \<Rightarrow> session \<times> 'v generic_index" where
  "session_squash s g = (s\<lparr>s_apply := False\<rparr>, if s_apply s then squash g else g)"

definition session_undo :: "'v clash \<Rightarrow> session \<Rightarrow> 'v generic_index \<Rightarrow> session \<times> unit res \<times> 'v generic_index" where
  "session_undo clash s g =
     (if s_apply s
      then (case undo clash g of
              (Inl e, g') \<Rightarrow> (s, Inl e, g')
            | (Inr u, g') \<Rightarrow> (s\<lparr>s_apply := False\<rparr>, Inr u, g'))
      else (s\<lparr>s_apply := False\<rparr>, Inr (), g))"

text \<open>Going out of scope undoes the session unless it was pushed, squashed or undone; so does being
  assigned another session, whose role it then takes over.\<close>

definition session_destroy :: "'v clash \<Rightarrow> session \<Rightarrow> 'v generic_index \<Rightarrow> unit res \<times> 'v generic_index" where
  "session_destroy clash s g = (if s_apply s then undo clash g else (Inr (), g))"

definition session_assign ::
  "'v clash \<Rightarrow> session \<Rightarrow> session \<Rightarrow> 'v generic_index \<Rightarrow> (session \<times> session) res \<times> 'v generic_index" where
  "session_assign clash s mv g =
     (case session_destroy clash s g of
        (Inl e, g') \<Rightarrow> (Inl e, g')
      | (Inr _, g') \<Rightarrow> (Inr (s\<lparr>s_apply := s_apply mv\<rparr>, mv\<lparr>s_apply := False\<rparr>), g'))"

section \<open>The abstract store\<close>

text \<open>The contents of the store, and what one undo state restores them to.\<close>

type_synonym 'v contents = "oid \<rightharpoonup> 'v"

definition contents :: "'v generic_index \<Rightarrow> 'v contents" where
  "contents g = fm_find (gi_indices g)"

definition restore :: "'v undo_state \<Rightarrow> 'v contents \<Rightarrow> 'v contents" where
  "restore u m = (\<lambda>i.
     if fm_find (removed_values u) i \<noteq> None then fm_find (removed_values u) i
     else if fm_find (old_values u) i \<noteq> None then fm_find (old_values u) i
     else if i \<in> set (new_ids u) then None else m i)"

text \<open>The snapshots that the stack stands for, latest first: contents and next id.\<close>

fun snapshots :: "'v undo_state list \<Rightarrow> 'v contents \<Rightarrow> ('v contents \<times> oid) list" where
  "snapshots [] m = []"
| "snapshots (u # st) m = (restore u m, old_next_id u) # snapshots st (restore u m)"

definition current :: "'v generic_index \<Rightarrow> 'v contents \<times> oid" where
  "current g = (contents g, gi_next_id g)"

definition saved :: "'v generic_index \<Rightarrow> ('v contents \<times> oid) list" where
  "saved g = snapshots (gi_stack g) (contents g)"

text \<open>What an undo state may hold of one id, given the object \<open>c\<close> that the contents have now and
  whether the id is older than the session.\<close>

definition slot_ok :: "'v option \<Rightarrow> 'v option \<Rightarrow> bool \<Rightarrow> 'v option \<Rightarrow> bool \<Rightarrow> bool" where
  "slot_ok ov rv new c older \<longleftrightarrow>
     (ov \<noteq> None \<longrightarrow> c \<noteq> None \<and> older \<and> rv = None) \<and> (rv \<noteq> None \<longrightarrow> c = None \<and> older) \<and>
     (new \<longrightarrow> c \<noteq> None \<and> \<not> older) \<and> (c \<noteq> None \<longrightarrow> \<not> older \<longrightarrow> new)"

definition us_ok :: "'v undo_state \<Rightarrow> 'v contents \<Rightarrow> oid \<Rightarrow> bool" where
  "us_ok u m n \<longleftrightarrow> fm_ok (old_values u) \<and> fm_ok (removed_values u) \<and> old_next_id u \<le> n \<and>
     (\<forall>i. slot_ok (fm_find (old_values u) i) (fm_find (removed_values u) i) (i \<in> set (new_ids u)) (m i)
            (i < old_next_id u))"

lemma us_ok_slot:
  "us_ok u m n \<Longrightarrow>
   slot_ok (fm_find (old_values u) i) (fm_find (removed_values u) i) (i \<in> set (new_ids u)) (m i) (i < old_next_id u)"
  by (simp add: us_ok_def)

fun stack_ok :: "'v undo_state list \<Rightarrow> 'v contents \<Rightarrow> oid \<Rightarrow> bool" where
  "stack_ok [] m n \<longleftrightarrow> True"
| "stack_ok (u # st) m n \<longleftrightarrow> us_ok u m n \<and> stack_ok st (restore u m) (old_next_id u)"

definition gi_ok :: "'v generic_index \<Rightarrow> bool" where
  "gi_ok g \<longleftrightarrow> fm_ok (gi_indices g) \<and> (\<forall>i. contents g i \<noteq> None \<longrightarrow> i < gi_next_id g) \<and>
     stack_ok (gi_stack g) (contents g) (gi_next_id g)"

lemma fm_find_insert [simp]:
  "fm_find (fm_insert (k, v) m) i = (if i = k \<and> fm_find m k = None then Some v else fm_find m i)"
  by (auto simp: fm_insert_def split: option.splits)

lemma fm_ok_insert: "fm_ok m \<Longrightarrow> fm_ok (fm_insert e m)"
  by (auto simp: fm_insert_def fm_ok_put split: option.splits)

lemma restore_bound:
  assumes "us_ok u m n" and "restore u m i \<noteq> None"
  shows "i < old_next_id u"
  using us_ok_slot [OF assms(1), of i] assms(2)
  by (auto simp: restore_def slot_ok_def split: option.splits if_splits)

section \<open>Changes keep the snapshots\<close>

text \<open>One rule for the three kinds of change: a change of the head state that restores the new
  contents to what the old one restored the old contents to.\<close>

lemma change_ok:
  assumes "stack_ok st m n" "n \<le> n'"
    and "\<And>u. st \<noteq> [] \<Longrightarrow> u = hd st \<Longrightarrow> us_ok u m n \<Longrightarrow>
      us_ok (f u) m' n' \<and> restore (f u) m' = restore u m \<and> old_next_id (f u) = old_next_id u"
    and "st' = (case st of [] \<Rightarrow> [] | u # r \<Rightarrow> f u # r)"
  shows "stack_ok st' m' n'" and "snapshots st' m' = snapshots st m"
  using assms by (cases st; auto)+

text \<open>A change that touches one id only has to be checked there.\<close>

lemma us_ok_point:
  assumes "us_ok u m n" and "n \<le> n'" and "old_next_id u' = old_next_id u"
    and "fm_ok (old_values u')" and "fm_ok (removed_values u')"
    and "\<And>j. j \<noteq> i \<Longrightarrow> fm_find (old_values u') j = fm_find (old_values u) j \<and>
      fm_find (removed_values u') j = fm_find (removed_values u) j \<and>
      (j \<in> set (new_ids u') \<longleftrightarrow> j \<in> set (new_ids u)) \<and> m' j = m j"
    and "slot_ok (fm_find (old_values u') i) (fm_find (removed_values u') i) (i \<in> set (new_ids u')) (m' i)
      (i < old_next_id u)"
    and "restore u' m' i = restore u m i"
  shows "us_ok u' m' n'" and "restore u' m' = restore u m"
proof -
  have "slot_ok (fm_find (old_values u') j) (fm_find (removed_values u') j) (j \<in> set (new_ids u')) (m' j)
      (j < old_next_id u')" for j
    using assms(3,6,7) us_ok_slot [OF assms(1), of j] by (cases "j = i") auto
  then show "us_ok u' m' n'"
    using assms(1-5) by (simp add: us_ok_def)
  have "restore u' m' j = restore u m j" for j
    using assms(6) [of j] assms(8) by (cases "j = i") (simp, simp add: restore_def)
  then show "restore u' m' = restore u m" by (rule ext)
qed

lemma record_create_ok:
  assumes "us_ok u m n" and "m n = None"
  shows "us_ok (record_create n u) (m(n \<mapsto> v)) (n + 1)" and "restore (record_create n u) (m(n \<mapsto> v)) = restore u m"
proof -
  have n: "\<not> n < old_next_id u" using assms(1) by (simp add: us_ok_def)
  let ?u = "record_create n u" and ?m = "m(n \<mapsto> v)"
  note slot = us_ok_slot [OF assms(1), of n]
  have frame: "\<And>j. j \<noteq> n \<Longrightarrow> fm_find (old_values ?u) j = fm_find (old_values u) j \<and>
      fm_find (removed_values ?u) j = fm_find (removed_values u) j \<and>
      (j \<in> set (new_ids ?u) \<longleftrightarrow> j \<in> set (new_ids u)) \<and> ?m j = m j"
    and nxt: "old_next_id ?u = old_next_id u"
    by (auto simp: record_create_def split: option.splits)
  have maps: "fm_ok (old_values ?u)" "fm_ok (removed_values ?u)"
    using assms(1) by (auto simp: record_create_def us_ok_def fm_ok_insert fm_ok_erase split: option.splits)
  have here: "slot_ok (fm_find (old_values ?u) n) (fm_find (removed_values ?u) n) (n \<in> set (new_ids ?u)) (?m n)
      (n < old_next_id u)"
    using slot assms(2) n by (auto simp: record_create_def slot_ok_def split: option.splits)
  have back_here: "restore ?u ?m n = restore u m n"
    using slot assms(2) n by (auto simp: record_create_def slot_ok_def restore_def split: option.splits)
  have le: "n \<le> (n + 1)" by simp
  show "us_ok (record_create n u) (m(n \<mapsto> v)) (n + 1)" "restore (record_create n u) (m(n \<mapsto> v)) = restore u m"
    using us_ok_point [OF assms(1) le nxt maps frame here back_here] by simp_all
qed

lemma record_modify_ok:
  assumes "us_ok u m n" and "m i = Some v"
  shows "us_ok (record_modify i v u) (m(i \<mapsto> v')) n" and "restore (record_modify i v u) (m(i \<mapsto> v')) = restore u m"
proof -
  let ?u = "record_modify i v u" and ?m = "m(i \<mapsto> v')"
  note slot = us_ok_slot [OF assms(1), of i]
  have frame: "\<And>j. j \<noteq> i \<Longrightarrow> fm_find (old_values ?u) j = fm_find (old_values u) j \<and>
      fm_find (removed_values ?u) j = fm_find (removed_values u) j \<and>
      (j \<in> set (new_ids ?u) \<longleftrightarrow> j \<in> set (new_ids u)) \<and> ?m j = m j"
    and nxt: "old_next_id ?u = old_next_id u"
    by (auto simp: record_modify_def split: option.splits)
  have maps: "fm_ok (old_values ?u)" "fm_ok (removed_values ?u)"
    using assms(1) by (auto simp: record_modify_def us_ok_def fm_ok_insert fm_ok_erase split: option.splits)
  have here: "slot_ok (fm_find (old_values ?u) i) (fm_find (removed_values ?u) i) (i \<in> set (new_ids ?u)) (?m i)
      (i < old_next_id u)"
    using slot assms(2) by (auto simp: record_modify_def slot_ok_def split: option.splits)
  have back_here: "restore ?u ?m i = restore u m i"
    using slot assms(2) by (auto simp: record_modify_def slot_ok_def restore_def split: option.splits)
  have le: "n \<le> n" by simp
  show "us_ok (record_modify i v u) (m(i \<mapsto> v')) n" "restore (record_modify i v u) (m(i \<mapsto> v')) = restore u m"
    using us_ok_point [OF assms(1) le nxt maps frame here back_here] by simp_all
qed

lemma record_remove_ok:
  assumes "us_ok u m n" and "m i = Some v"
  shows "us_ok (record_remove i v u) (m(i := None)) n" and "restore (record_remove i v u) (m(i := None)) = restore u m"
proof -
  let ?u = "record_remove i v u" and ?m = "m(i := None)"
  note slot = us_ok_slot [OF assms(1), of i]
  have frame: "\<And>j. j \<noteq> i \<Longrightarrow> fm_find (old_values ?u) j = fm_find (old_values u) j \<and>
      fm_find (removed_values ?u) j = fm_find (removed_values u) j \<and>
      (j \<in> set (new_ids ?u) \<longleftrightarrow> j \<in> set (new_ids u)) \<and> ?m j = m j"
    and nxt: "old_next_id ?u = old_next_id u"
    by (auto simp: record_remove_def split: option.splits)
  have maps: "fm_ok (old_values ?u)" "fm_ok (removed_values ?u)"
    using assms(1) by (auto simp: record_remove_def us_ok_def fm_ok_insert fm_ok_erase split: option.splits)
  have here: "slot_ok (fm_find (old_values ?u) i) (fm_find (removed_values ?u) i) (i \<in> set (new_ids ?u)) (?m i)
      (i < old_next_id u)"
    using slot assms(2) by (auto simp: record_remove_def slot_ok_def split: option.splits)
  have back_here: "restore ?u ?m i = restore u m i"
    using slot assms(2) by (auto simp: record_remove_def slot_ok_def restore_def split: option.splits)
  have le: "n \<le> n" by simp
  show "us_ok (record_remove i v u) (m(i := None)) n" "restore (record_remove i v u) (m(i := None)) = restore u m"
    using us_ok_point [OF assms(1) le nxt maps frame here back_here] by simp_all
qed

section \<open>Squash\<close>

text \<open>What an undo state says about one id.\<close>

definition view :: "oid \<Rightarrow> 'v undo_state \<Rightarrow> 'v option \<times> 'v option \<times> bool" where
  "view i u = (fm_find (old_values u) i, fm_find (removed_values u) i, i \<in> set (new_ids u))"

text \<open>A loop over a flat map acts on an id only in the entry of that id.\<close>

lemma fold_view_other:
  assumes "\<And>e p. view i (f e p) = k e (view i p)" and "\<And>e w. fst e \<noteq> i \<Longrightarrow> k e w = w" and "i \<notin> fst ` set es"
  shows "view i (fold f es p) = view i p"
  using assms(3) by (induction es arbitrary: p) (auto simp: assms(1,2))

lemma fold_view:
  assumes "\<And>e p. view i (f e p) = k e (view i p)" and "\<And>e w. fst e \<noteq> i \<Longrightarrow> k e w = w" and "distinct (map fst es)"
  shows "view i (fold f es p) = (case fm_find es i of None \<Rightarrow> view i p | Some v \<Rightarrow> k (i, v) (view i p))"
  using assms(3)
proof (induction es arbitrary: p)
  case (Cons e es)
  obtain j v where e: "e = (j, v)" by (cases e)
  show ?case
  proof (cases "j = i")
    case True
    then have "i \<notin> fst ` set es" using Cons.prems e by (simp add: image_iff)
    then show ?thesis using fold_view_other [of i f k es, OF assms(1,2)] True e by (simp add: assms(1))
  next
    case False
    then show ?thesis using Cons assms(2) [of e] by (simp add: e assms(1) split: option.splits)
  qed
qed simp

definition old_step :: "oid \<Rightarrow> oid \<times> 'v \<Rightarrow> 'v option \<times> 'v option \<times> bool \<Rightarrow> 'v option \<times> 'v option \<times> bool" where
  "old_step i e w =
     (case w of (ov, rv, new) \<Rightarrow>
        if fst e = i \<and> \<not> new \<and> ov = None then (Some (snd e), rv, new) else (ov, rv, new))"

definition removed_step :: "oid \<Rightarrow> oid \<times> 'v \<Rightarrow> 'v option \<times> 'v option \<times> bool \<Rightarrow> 'v option \<times> 'v option \<times> bool" where
  "removed_step i e w =
     (case w of (ov, rv, new) \<Rightarrow>
        if fst e \<noteq> i then (ov, rv, new)
        else if new then (ov, rv, False)
        else (None, if rv \<noteq> None then rv else if ov \<noteq> None then ov else Some (snd e), False))"

lemma view_merge_old: "view i (merge_old e p) = old_step i e (view i p)"
  by (cases e) (auto simp: view_def merge_old_def old_step_def)

lemma view_merge_removed: "view i (merge_removed e p) = removed_step i e (view i p)"
  by (cases e) (auto simp: view_def merge_removed_def removed_step_def split: option.splits)

lemma steps_elsewhere: "fst e \<noteq> i \<Longrightarrow> old_step i e w = w" "fst e \<noteq> i \<Longrightarrow> removed_step i e w = w"
  by (auto simp: old_step_def removed_step_def split: prod.splits)

lemma view_fold_new: "view i (fold merge_new is p) = (case view i p of (ov, rv, new) \<Rightarrow> (ov, rv, i \<in> set is \<or> new))"
  by (induction "is" arbitrary: p) (auto simp: view_def merge_new_def)

text \<open>The table of the comment in \<open>squash\<close>, for one id: \<open>A\<close> is the earlier state, \<open>B\<close> the later.\<close>

definition merge_view ::
  "'v option \<times> 'v option \<times> bool \<Rightarrow> 'v option \<times> 'v option \<times> bool \<Rightarrow> 'v option \<times> 'v option \<times> bool" where
  "merge_view A B =
     (case A of (ao, ar, an) \<Rightarrow> case B of (bo, br, bn) \<Rightarrow>
        let ov = (if \<not> an \<and> ao = None then bo else ao);
            new = (bn \<or> an)
        in if br = None then (ov, ar, new)
           else if new then (ov, ar, False)
           else (None, if ar \<noteq> None then ar else if ov \<noteq> None then ov else br, False))"

lemma fm_ok_distinct: "fm_ok m \<Longrightarrow> distinct (map fst m)"
  by (auto simp: fm_ok_def strict_sorted_iff)

lemma view_merge_states:
  assumes "fm_ok (old_values B)" and "fm_ok (removed_values B)"
  shows "view i (merge_states A B) = merge_view (view i A) (view i B)"
proof -
  have 1: "view i (fold merge_old (old_values B) p) =
      (case fm_find (old_values B) i of None \<Rightarrow> view i p | Some v \<Rightarrow> old_step i (i, v) (view i p))" for p
    by (rule fold_view [OF view_merge_old steps_elsewhere(1) fm_ok_distinct [OF assms(1)]])
  have 2: "view i (fold merge_removed (removed_values B) p) =
      (case fm_find (removed_values B) i of None \<Rightarrow> view i p | Some v \<Rightarrow> removed_step i (i, v) (view i p))" for p
    by (rule fold_view [OF view_merge_removed steps_elsewhere(2) fm_ok_distinct [OF assms(2)]])
  obtain ao ar an where A: "view i A = (ao, ar, an)" by (cases "view i A")
  show ?thesis
    unfolding merge_states_def 1 2 view_fold_new A
    by (auto simp: merge_view_def view_def old_step_def removed_step_def Let_def split: option.splits)
qed

text \<open>The maps stay sorted and the next id is the earlier one's.\<close>

lemma fold_merge_old:
  "old_next_id (fold merge_old es p) = old_next_id p \<and> us_revision (fold merge_old es p) = us_revision p \<and>
   removed_values (fold merge_old es p) = removed_values p \<and>
   (fm_ok (old_values p) \<longrightarrow> fm_ok (old_values (fold merge_old es p)))"
  by (induction es arbitrary: p) (simp_all add: merge_old_def fm_ok_insert)

lemma fold_merge_new:
  "old_next_id (fold merge_new is p) = old_next_id p \<and> us_revision (fold merge_new is p) = us_revision p \<and>
   old_values (fold merge_new is p) = old_values p \<and> removed_values (fold merge_new is p) = removed_values p"
  by (induction "is" arbitrary: p) (simp_all add: merge_new_def)

lemma fold_merge_removed:
  "old_next_id (fold merge_removed es p) = old_next_id p \<and> us_revision (fold merge_removed es p) = us_revision p \<and>
   (fm_ok (old_values p) \<longrightarrow> fm_ok (old_values (fold merge_removed es p))) \<and>
   (fm_ok (removed_values p) \<longrightarrow> fm_ok (removed_values (fold merge_removed es p)))"
  by (induction es arbitrary: p) (simp_all add: merge_removed_def fm_ok_insert fm_ok_erase split: option.splits)

lemma merge_states_ok [simp]:
  "old_next_id (merge_states A B) = old_next_id A"
  "us_revision (merge_states A B) = us_revision A"
  "fm_ok (old_values A) \<Longrightarrow> fm_ok (old_values (merge_states A B))"
  "fm_ok (removed_values A) \<Longrightarrow> fm_ok (removed_values (merge_states A B))"
  by (simp_all add: merge_states_def fold_merge_old fold_merge_new fold_merge_removed)

text \<open>Undoing the merged state is undoing the later one, then the earlier one: first for one id.\<close>

definition restore_view :: "'v option \<times> 'v option \<times> bool \<Rightarrow> 'v option \<Rightarrow> 'v option" where
  "restore_view w c = (case w of (ov, rv, new) \<Rightarrow> if rv \<noteq> None then rv else if ov \<noteq> None then ov else if new then None else c)"

lemma restore_eq_view: "restore u m i = restore_view (view i u) (m i)"
  by (simp add: restore_def restore_view_def view_def)

lemma merge_view_ok:
  assumes "slot_ok bo br bn c later" and "slot_ok ao ar an (restore_view (bo, br, bn) c) earlier"
    and "earlier \<longrightarrow> later"
  shows "case merge_view (ao, ar, an) (bo, br, bn) of (mo, mr, mn) \<Rightarrow>
    slot_ok mo mr mn c earlier \<and> restore_view (mo, mr, mn) c = restore_view (ao, ar, an) (restore_view (bo, br, bn) c)"
  using assms by (cases bo; cases br; cases bn; cases ao; cases ar; cases an; cases c;
      simp add: slot_ok_def restore_view_def merge_view_def)

lemma merge_states_restore:
  assumes "us_ok B m n" and "us_ok A (restore B m) (old_next_id B)"
  shows "us_ok (merge_states A B) m n" and "restore (merge_states A B) m = restore A (restore B m)"
proof -
  have B: "fm_ok (old_values B)" "fm_ok (removed_values B)" "old_next_id B \<le> n" using assms(1) by (auto simp: us_ok_def)
  have A: "fm_ok (old_values A)" "fm_ok (removed_values A)" "old_next_id A \<le> old_next_id B"
    using assms(2) by (auto simp: us_ok_def)
  note v = view_merge_states [OF B(1,2)]
  have one: "slot_ok (fm_find (old_values (merge_states A B)) i) (fm_find (removed_values (merge_states A B)) i)
        (i \<in> set (new_ids (merge_states A B))) (m i) (i < old_next_id A) \<and>
      restore (merge_states A B) m i = restore A (restore B m) i" for i
    using merge_view_ok [OF us_ok_slot [OF assms(1), of i]
        us_ok_slot [OF assms(2), of i, unfolded restore_eq_view view_def]] v [of i A] A(3)
    by (simp add: view_def restore_eq_view split: prod.splits)
  show "us_ok (merge_states A B) m n" using one A B by (simp add: us_ok_def)
  show "restore (merge_states A B) m = restore A (restore B m)" using one by (intro ext) blast
qed

section \<open>The refinement\<close>

lemma on_head_simps [simp]:
  "gi_indices (on_head f g) = gi_indices g" "gi_next_id (on_head f g) = gi_next_id g"
  "gi_revision (on_head f g) = gi_revision g"
  "gi_stack (on_head f g) = (case gi_stack g of [] \<Rightarrow> [] | u # r \<Rightarrow> f u # r)"
  by (simp_all add: on_head_def split: list.splits)

text \<open>Every change goes through this rule.\<close>

lemma gi_change:
  assumes "gi_ok g" and "fm_ok m'" and "gi_next_id g \<le> n'" and "\<And>i. fm_find m' i \<noteq> None \<Longrightarrow> i < n'"
    and "\<And>u. us_ok u (contents g) (gi_next_id g) \<Longrightarrow> us_ok (f u) (fm_find m') n' \<and>
      restore (f u) (fm_find m') = restore u (contents g) \<and> old_next_id (f u) = old_next_id u"
    and "g' = on_head f g\<lparr>gi_indices := m', gi_next_id := n'\<rparr>"
  shows "gi_ok g'" and "saved g' = saved g"
proof -
  have st: "stack_ok (gi_stack g) (contents g) (gi_next_id g)" using assms(1) by (simp add: gi_ok_def)
  have g': "gi_stack g' = (case gi_stack g of [] \<Rightarrow> [] | u # r \<Rightarrow> f u # r)" "contents g' = fm_find m'"
      "gi_next_id g' = n'" "gi_indices g' = m'"
    by (simp_all add: assms(6) contents_def)
  note c = change_ok [OF st assms(3) assms(5) g'(1)]
  show "gi_ok g'" using c(1) assms(2,4) by (simp add: gi_ok_def g')
  show "saved g' = saved g" using c(2) by (simp add: saved_def g')
qed

lemma record_next [simp]:
  "old_next_id (record_create i u) = old_next_id u"
  "old_next_id (record_modify i v u) = old_next_id u"
  "old_next_id (record_remove i v u) = old_next_id u"
  by (simp_all add: record_create_def record_modify_def record_remove_def split: option.splits)

lemma gi_okD:
  assumes "gi_ok g"
  shows "fm_ok (gi_indices g)" and "contents g i \<noteq> None \<Longrightarrow> i < gi_next_id g" and "contents g (gi_next_id g) = None"
  using assms by (auto simp: gi_ok_def)

lemma fm_find_put_fun: "fm_find (fm_put k v m) = (fm_find m)(k \<mapsto> v)"
  by (auto simp: fun_eq_iff)

lemma fm_find_erase_fun: "fm_find (fm_erase k m) = (fm_find m)(k := None)"
  by (auto simp: fun_eq_iff)

lemma emplace_cases:
  assumes "emplace clash c g = (Inr i, g')"
  shows "i = gi_next_id g" and
    "g' = on_head (record_create i) g\<lparr>gi_indices := fm_put i (c i) (gi_indices g), gi_next_id := i + 1\<rparr>"
  using assms by (auto simp: emplace_def idx_emplace_def on_head_def Let_def split: if_splits list.splits)

lemma emplace_ok:
  assumes "gi_ok g" and "emplace clash c g = (Inr i, g')"
  shows "gi_ok g'" and "saved g' = saved g" and "i = gi_next_id g" and "current g' = ((contents g)(i \<mapsto> c i), i + 1)"
proof -
  have g': "i = gi_next_id g"
      "g' = on_head (record_create i) g\<lparr>gi_indices := fm_put i (c i) (gi_indices g), gi_next_id := i + 1\<rparr>"
    using emplace_cases [OF assms(2)] by simp_all
  note ok = gi_okD [OF assms(1)]
  have s: "fm_find (fm_put i (c i) (gi_indices g)) = (contents g)(i \<mapsto> c i)"
    by (simp add: contents_def fm_find_put_fun)
  have 1: "fm_ok (fm_put i (c i) (gi_indices g))" using ok(1) by (rule fm_ok_put)
  have 2: "gi_next_id g \<le> i + 1" using g'(1) by simp
  have 3: "\<And>j. fm_find (fm_put i (c i) (gi_indices g)) j \<noteq> None \<Longrightarrow> j < i + 1"
    unfolding s using ok(2) g'(1) by (force split: if_splits)
  have 4: "us_ok (record_create i u) (fm_find (fm_put i (c i) (gi_indices g))) (i + 1) \<and>
      restore (record_create i u) (fm_find (fm_put i (c i) (gi_indices g))) = restore u (contents g) \<and>
      old_next_id (record_create i u) = old_next_id u" if "us_ok u (contents g) (gi_next_id g)" for u
    unfolding s using record_create_ok [OF that ok(3)] g'(1) by simp
  show "gi_ok g'" "saved g' = saved g" using gi_change [OF assms(1) 1 2 3 4 g'(2)] by blast+
  show "i = gi_next_id g" "current g' = ((contents g)(i \<mapsto> c i), i + 1)"
    using g' by (simp_all add: current_def contents_def fm_find_put_fun)
qed

lemma modify_ok:
  assumes "gi_ok g" and "modify clash i f g = (Inr (), g')"
  obtains v where "contents g i = Some v" "gi_ok g'" "saved g' = saved g" "current g' = ((contents g)(i \<mapsto> f v), gi_next_id g)"
proof -
  obtain v where v: "contents g i = Some v"
    and g0: "g' = on_head (record_modify i v) g\<lparr>gi_indices := fm_put i (f v) (gi_indices g)\<rparr>"
    using assms(2) by (auto simp: modify_def idx_modify_def contents_def Let_def split: option.splits if_splits)
  have g': "g' = on_head (record_modify i v) g\<lparr>gi_indices := fm_put i (f v) (gi_indices g), gi_next_id := gi_next_id g\<rparr>"
    using g0 by (simp add: on_head_def split: list.splits)
  note ok = gi_okD [OF assms(1)]
  have s: "fm_find (fm_put i (f v) (gi_indices g)) = (contents g)(i \<mapsto> f v)"
    by (simp add: contents_def fm_find_put_fun)
  have 1: "fm_ok (fm_put i (f v) (gi_indices g))" using ok(1) by (rule fm_ok_put)
  have 3: "\<And>j. fm_find (fm_put i (f v) (gi_indices g)) j \<noteq> None \<Longrightarrow> j < gi_next_id g"
    unfolding s using ok(2) v by (force split: if_splits)
  have 4: "us_ok (record_modify i v u) (fm_find (fm_put i (f v) (gi_indices g))) (gi_next_id g) \<and>
      restore (record_modify i v u) (fm_find (fm_put i (f v) (gi_indices g))) = restore u (contents g) \<and>
      old_next_id (record_modify i v u) = old_next_id u" if "us_ok u (contents g) (gi_next_id g)" for u
    unfolding s using record_modify_ok [OF that v] by simp
  have "gi_ok g'" "saved g' = saved g" using gi_change [OF assms(1) 1 order_refl 3 4 g'] by blast+
  moreover have "current g' = ((contents g)(i \<mapsto> f v), gi_next_id g)"
    using g' by (simp add: current_def contents_def fm_find_put_fun)
  ultimately show thesis using that v by blast
qed

lemma remove_ok:
  assumes "gi_ok g" and "remove_obj i g = (Inr (), g')"
  obtains v where "contents g i = Some v" "gi_ok g'" "saved g' = saved g" "current g' = ((contents g)(i := None), gi_next_id g)"
proof -
  obtain v where v: "contents g i = Some v"
    and g0: "g' = on_head (record_remove i v) g\<lparr>gi_indices := fm_erase i (gi_indices g)\<rparr>"
    using assms(2) by (auto simp: remove_obj_def contents_def Let_def split: option.splits if_splits)
  have g': "g' = on_head (record_remove i v) g\<lparr>gi_indices := fm_erase i (gi_indices g), gi_next_id := gi_next_id g\<rparr>"
    using g0 by (simp add: on_head_def split: list.splits)
  note ok = gi_okD [OF assms(1)]
  have s: "fm_find (fm_erase i (gi_indices g)) = (contents g)(i := None)"
    by (simp add: contents_def fm_find_erase_fun)
  have 1: "fm_ok (fm_erase i (gi_indices g))" using ok(1) by (rule fm_ok_erase)
  have 3: "\<And>j. fm_find (fm_erase i (gi_indices g)) j \<noteq> None \<Longrightarrow> j < gi_next_id g"
    unfolding s using ok(2) v by (force split: if_splits)
  have 4: "us_ok (record_remove i v u) (fm_find (fm_erase i (gi_indices g))) (gi_next_id g) \<and>
      restore (record_remove i v u) (fm_find (fm_erase i (gi_indices g))) = restore u (contents g) \<and>
      old_next_id (record_remove i v u) = old_next_id u" if "us_ok u (contents g) (gi_next_id g)" for u
    unfolding s using record_remove_ok [OF that v] by simp
  have "gi_ok g'" "saved g' = saved g" using gi_change [OF assms(1) 1 order_refl 3 4 g'] by blast+
  moreover have "current g' = ((contents g)(i := None), gi_next_id g)"
    using g' by (simp add: current_def contents_def fm_find_erase_fun)
  ultimately show thesis using that v by blast
qed

lemma start_ok:
  assumes "gi_ok g" and "start_undo_session True g = (r, g')"
  shows "gi_ok g'" and "saved g' = current g # saved g" and "current g' = current g" and "r = gi_revision g + 1"
    and "gi_revision g' = r"
  using assms by (auto simp: start_undo_session_def gi_ok_def us_ok_def slot_ok_def saved_def current_def contents_def
      restore_def Let_def fm_ok_def)

text \<open>The loops of \<open>undo\<close>, as updates of the contents.\<close>

lemma undo_old_spec:
  assumes "undo_old clash es m = (True, m')" and "distinct (map fst es)" and "fm_ok m"
  shows "fm_ok m' \<and> fm_find m' i = (case fm_find es i of None \<Rightarrow> fm_find m i | Some v \<Rightarrow> Some v)"
  using assms
proof (induction es arbitrary: m)
  case (Cons e es)
  obtain j v where e: "e = (j, v)" by (cases e)
  then have "undo_old clash es (fm_put j v m) = (True, m')"
    using Cons.prems(1) by (auto simp: idx_modify_def split: option.splits if_splits)
  moreover have "j \<notin> fst ` set es" using Cons.prems(2) e by (simp add: image_iff)
  then have "fm_find es j = None" by (simp add: fm_find_None)
  ultimately show ?case using Cons.IH [of "fm_put j v m"] Cons.prems e
    by (cases "i = j") (simp_all add: fm_ok_put split: option.splits)
qed simp

lemma undo_removed_spec:
  assumes "undo_removed clash es m = (True, m')" and "distinct (map fst es)" and "fm_ok m"
  shows "fm_ok m' \<and> fm_find m' i = (case fm_find es i of None \<Rightarrow> fm_find m i | Some v \<Rightarrow> Some v)"
  using assms
proof (induction es arbitrary: m)
  case (Cons e es)
  obtain j v where e: "e = (j, v)" by (cases e)
  then have "undo_removed clash es (fm_put j v m) = (True, m')"
    using Cons.prems(1) by (auto simp: idx_emplace_def split: option.splits if_splits)
  moreover have "j \<notin> fst ` set es" using Cons.prems(2) e by (simp add: image_iff)
  then have "fm_find es j = None" by (simp add: fm_find_None)
  ultimately show ?case using Cons.IH [of "fm_put j v m"] Cons.prems e
    by (cases "i = j") (simp_all add: fm_ok_put split: option.splits)
qed simp

lemma fold_erase_spec:
  "fm_find (fold fm_erase is m) i = (if i \<in> set is then None else fm_find m i)"
  "fm_ok m \<Longrightarrow> fm_ok (fold fm_erase is m)"
  by (induction "is" arbitrary: m) (auto simp: fm_ok_erase)

lemma undo_ok:
  assumes "gi_ok g" and "gi_stack g = h # st" and "undo clash g = (Inr (), g')"
  shows "gi_ok g'" and "saved g = current g' # saved g'" and "gi_revision g' = gi_revision g - 1"
proof -
  have h: "us_ok h (contents g) (gi_next_id g)" "stack_ok st (restore h (contents g)) (old_next_id h)"
    using assms(1,2) by (auto simp: gi_ok_def)
  then have d: "fm_ok (old_values h)" "fm_ok (removed_values h)" by (auto simp: us_ok_def)
  obtain m1 where m1: "undo_old clash (old_values h) (gi_indices g) = (True, m1)"
    using assms(2,3) by (auto simp: undo_def split: prod.splits if_splits)
  obtain m2 where m2: "undo_removed clash (removed_values h) (fold fm_erase (new_ids h) m1) = (True, m2)"
    using assms(2,3) m1 by (auto simp: undo_def split: prod.splits if_splits)
  have g': "g' = g\<lparr>gi_indices := m2, gi_next_id := old_next_id h, gi_stack := st, gi_revision := gi_revision g - 1\<rparr>"
    using assms(2,3) m1 m2 by (simp add: undo_def)
  note s1 = undo_old_spec [OF m1 fm_ok_distinct [OF d(1)] gi_okD(1) [OF assms(1)]]
  have ok1: "fm_ok (fold fm_erase (new_ids h) m1)" using s1 by (simp add: fold_erase_spec)
  note s2 = undo_removed_spec [OF m2 fm_ok_distinct [OF d(2)] ok1]
  have "fm_find m2 i = restore h (contents g) i" for i
    using s2 [of i] s1 [of i] us_ok_slot [OF h(1), of i]
    by (auto simp: restore_def fold_erase_spec contents_def slot_ok_def split: option.splits if_splits)
  then have c: "contents g' = restore h (contents g)" using g' by (simp add: contents_def fun_eq_iff)
  show "gi_ok g'" using h c s2 restore_bound [OF h(1)] by (simp add: gi_ok_def g' contents_def)
  show "saved g = current g' # saved g'" using c by (simp add: saved_def current_def assms(2) g')
  show "gi_revision g' = gi_revision g - 1" by (simp add: g')
qed

text \<open>Without other unique indices \<open>undo\<close> does not throw.\<close>

definition no_clash :: "'v clash" where
  "no_clash = (\<lambda>_ _. False)"

lemma undo_old_returns:
  assumes "\<And>e. e \<in> set es \<Longrightarrow> fm_find m (fst e) \<noteq> None"
  shows "\<exists>m'. undo_old no_clash es m = (True, m')"
  using assms
proof (induction es arbitrary: m)
  case (Cons e es)
  obtain j v where e: "e = (j, v)" by (cases e)
  obtain w where w: "fm_find m j = Some w" using Cons.prems e by fastforce
  have "\<exists>m'. undo_old no_clash es (fm_put j v m) = (True, m')" using Cons.prems by (intro Cons.IH) simp
  then show ?case using e w by (simp add: idx_modify_def no_clash_def)
qed simp

lemma undo_removed_returns:
  assumes "distinct (map fst es)" and "\<And>e. e \<in> set es \<Longrightarrow> fm_find m (fst e) = None"
  shows "\<exists>m'. undo_removed no_clash es m = (True, m')"
  using assms
proof (induction es arbitrary: m)
  case (Cons e es)
  obtain j v where e: "e = (j, v)" by (cases e)
  have j: "fm_find m j = None" using Cons.prems(2) [of e] e by simp
  have "\<exists>m'. undo_removed no_clash es (fm_put j v m) = (True, m')"
    using Cons.prems e by (intro Cons.IH) (auto simp: image_iff)
  then show ?case using e j by (simp add: idx_emplace_def no_clash_def)
qed simp

lemma undo_returns:
  assumes "gi_ok g"
  shows "\<exists>g'. undo no_clash g = (Inr (), g')"
proof (cases "gi_stack g")
  case (Cons h st)
  then have h: "us_ok h (contents g) (gi_next_id g)" using assms by (simp add: gi_ok_def)
  then have d: "fm_ok (old_values h)" "fm_ok (removed_values h)" by (auto simp: us_ok_def)
  have "contents g (fst e) \<noteq> None" if "e \<in> set (old_values h)" for e
    using that us_ok_slot [OF h, of "fst e"] fm_find_iff [OF d(1), of "fst e" "snd e"] by (simp add: slot_ok_def)
  then obtain m1 where m1: "undo_old no_clash (old_values h) (gi_indices g) = (True, m1)"
    using undo_old_returns [of "old_values h" "gi_indices g"] by (auto simp: contents_def)
  note s1 = undo_old_spec [OF m1 fm_ok_distinct [OF d(1)] gi_okD(1) [OF assms]]
  have "fm_find (fold fm_erase (new_ids h) m1) (fst e) = None" if "e \<in> set (removed_values h)" for e
    using that us_ok_slot [OF h, of "fst e"] fm_find_iff [OF d(2), of "fst e" "snd e"] s1 [of "fst e"]
    by (auto simp: slot_ok_def fold_erase_spec contents_def split: option.splits)
  then obtain m2 where "undo_removed no_clash (removed_values h) (fold fm_erase (new_ids h) m1) = (True, m2)"
    using undo_removed_returns [OF fm_ok_distinct [OF d(2)]] by blast
  then show ?thesis using Cons m1 by (simp add: undo_def)
qed (simp add: undo_def)

text \<open>Squash drops the latest snapshot.\<close>

lemma squash_ok:
  assumes "gi_ok g"
  shows "gi_ok (squash g)" and "saved (squash g) = tl (saved g)" and "current (squash g) = current g"
proof -
  have c: "contents (squash g) = contents g" "gi_next_id (squash g) = gi_next_id g" "gi_indices (squash g) = gi_indices g"
    by (auto simp: squash_def contents_def split: list.splits)
  then show "current (squash g) = current g" by (simp add: current_def)
  have st: "stack_ok (gi_stack g) (contents g) (gi_next_id g)" using assms by (simp add: gi_ok_def)
  have "stack_ok (gi_stack (squash g)) (contents g) (gi_next_id g) \<and>
      snapshots (gi_stack (squash g)) (contents g) = tl (snapshots (gi_stack g) (contents g))"
  proof (cases "gi_stack g")
    case (Cons B r)
    show ?thesis
    proof (cases r)
      case (Cons A q)
      have "us_ok B (contents g) (gi_next_id g)" "us_ok A (restore B (contents g)) (old_next_id B)"
        using st Cons \<open>gi_stack g = B # r\<close> by auto
      note m = merge_states_restore [OF this]
      show ?thesis using st Cons \<open>gi_stack g = B # r\<close> m by (simp add: squash_def)
    qed (use Cons in \<open>simp add: squash_def\<close>)
  qed (simp add: squash_def)
  then show "gi_ok (squash g)" "saved (squash g) = tl (saved g)"
    using assms by (auto simp: c gi_ok_def saved_def)
qed

section \<open>Revisions\<close>

text \<open>The undo states carry consecutive revisions, the latest one the revision of the index.\<close>

fun revs_ok :: "int \<Rightarrow> 'v undo_state list \<Rightarrow> bool" where
  "revs_ok r [] \<longleftrightarrow> True"
| "revs_ok r (u # st) \<longleftrightarrow> us_revision u = r \<and> revs_ok (r - 1) st"

definition index_ok :: "'v generic_index \<Rightarrow> bool" where
  "index_ok g \<longleftrightarrow> gi_ok g \<and> revs_ok (gi_revision g) (gi_stack g)"

lemma index_okD: "index_ok g \<Longrightarrow> gi_ok g" by (simp add: index_ok_def)

lemma record_revision [simp]:
  "us_revision (record_create i u) = us_revision u"
  "us_revision (record_modify i v u) = us_revision u"
  "us_revision (record_remove i v u) = us_revision u"
  by (simp_all add: record_create_def record_modify_def record_remove_def split: option.splits)

lemma revs_ok_head: "(\<And>u. us_revision (f u) = us_revision u) \<Longrightarrow>
    revs_ok r (case st of [] \<Rightarrow> [] | u # st' \<Rightarrow> f u # st') = revs_ok r st"
  by (cases st) simp_all

lemma revs_ok_bound: "revs_ok r st \<Longrightarrow> u \<in> set st \<Longrightarrow> us_revision u \<le> r"
  by (induction st arbitrary: r) force+

text \<open>Committing revision \<open>r\<close> keeps the states above \<open>r\<close>.\<close>

lemma commit_keeps_newest:
  "revs_ok R st \<Longrightarrow> rev (dropWhile (\<lambda>u. us_revision u \<le> r) (rev st)) = take (nat (R - r)) st"
proof (induction st arbitrary: R)
  case (Cons u st)
  then have u: "us_revision u = R" and st: "revs_ok (R - 1) st" by auto
  show ?case
  proof (cases "R \<le> r")
    case True
    then have "\<forall>x \<in> set (rev st @ [u]). us_revision x \<le> r" using revs_ok_bound [OF st] u by force
    then have "dropWhile (\<lambda>x. us_revision x \<le> r) (rev st @ [u]) = []" by (simp only: dropWhile_eq_Nil_conv)
    then show ?thesis using True by simp
  next
    case False
    then have "nat (R - r) = Suc (nat (R - 1 - r))" by linarith
    moreover have "rev (dropWhile (\<lambda>x. us_revision x \<le> r) (rev st @ [u])) =
        u # rev (dropWhile (\<lambda>x. us_revision x \<le> r) (rev st))"
      using False u by (simp add: dropWhile_append)
    ultimately show ?thesis using Cons.IH [OF st] by simp
  qed
qed simp

lemma snapshots_take: "snapshots (take k st) m = take k (snapshots st m)"
  by (induction st m arbitrary: k rule: snapshots.induct) (auto simp: take_Cons split: nat.split)

lemma stack_ok_take: "stack_ok st m n \<Longrightarrow> stack_ok (take k st) m n"
  by (induction st m n arbitrary: k rule: stack_ok.induct) (auto simp: take_Cons split: nat.split)

lemma revs_ok_take: "revs_ok r st \<Longrightarrow> revs_ok r (take k st)"
  by (induction r st arbitrary: k rule: revs_ok.induct) (auto simp: take_Cons split: nat.split)

lemma commit_ok:
  assumes "index_ok g"
  shows "index_ok (commit r g)" and "current (commit r g) = current g"
    and "saved (commit r g) = take (nat (gi_revision g - r)) (saved g)" and "gi_revision (commit r g) = gi_revision g"
proof -
  have r: "revs_ok (gi_revision g) (gi_stack g)" using assms by (simp add: index_ok_def)
  have c: "commit r g = g\<lparr>gi_stack := take (nat (gi_revision g - r)) (gi_stack g)\<rparr>"
    using commit_keeps_newest [OF r] by (simp add: commit_def)
  show "index_ok (commit r g)"
    using assms by (auto simp: c index_ok_def gi_ok_def contents_def stack_ok_take revs_ok_take)
  show "current (commit r g) = current g" "gi_revision (commit r g) = gi_revision g"
    "saved (commit r g) = take (nat (gi_revision g - r)) (saved g)"
    by (simp_all add: c current_def contents_def saved_def snapshots_take)
qed

section \<open>The store as an interface\<close>

text \<open>The contract of an undoable store: its current contents, the saved snapshots, and what its
  operations do with them.  A client of the store needs no more than these laws.\<close>

locale snapshot_store =
  fixes ok :: "'s \<Rightarrow> bool" and cur :: "'s \<Rightarrow> 'c" and sav :: "'s \<Rightarrow> 'c list"
    and chg :: "'s \<Rightarrow> 's \<Rightarrow> bool" and start :: "'s \<Rightarrow> 's" and sqush :: "'s \<Rightarrow> 's" and und :: "'s \<Rightarrow> 's \<Rightarrow> bool"
  assumes chg_inv: "ok s \<Longrightarrow> chg s t \<Longrightarrow> ok t"
    and chg_saved: "ok s \<Longrightarrow> chg s t \<Longrightarrow> sav t = sav s"
    and start_inv: "ok s \<Longrightarrow> ok (start s)"
    and start_saved: "ok s \<Longrightarrow> sav (start s) = cur s # sav s"
    and squash_inv: "ok s \<Longrightarrow> ok (sqush s)"
    and squash_saved: "ok s \<Longrightarrow> sav (sqush s) = tl (sav s)"
    and und_inv: "ok s \<Longrightarrow> sav s = c # cs \<Longrightarrow> und s t \<Longrightarrow> ok t"
    and und_restores: "ok s \<Longrightarrow> sav s = c # cs \<Longrightarrow> und s t \<Longrightarrow> cur t = c"
    and und_saved: "ok s \<Longrightarrow> sav s = c # cs \<Longrightarrow> und s t \<Longrightarrow> sav t = cs"
begin

lemma chgs_ok: "chg\<^sup>*\<^sup>* s t \<Longrightarrow> ok s \<Longrightarrow> ok t \<and> sav t = sav s"
  by (induction rule: rtranclp_induct) (auto simp: chg_inv chg_saved)

lemma undo_session:
  assumes "ok s" and "chg\<^sup>*\<^sup>* (start s) t" and "und t u"
  shows "ok u \<and> cur u = cur s \<and> sav u = sav s"
  using chgs_ok [OF assms(2) start_inv [OF assms(1)]] start_saved [OF assms(1)] assms(3)
  by (auto dest: und_inv und_restores und_saved)

lemma squash_session:
  assumes "ok s" and "chg\<^sup>*\<^sup>* (start s) t" and "chg\<^sup>*\<^sup>* (start t) u" and "chg\<^sup>*\<^sup>* (sqush u) v" and "und v w"
  shows "ok w \<and> cur w = cur s \<and> sav w = sav s"
proof -
  have t: "ok t" "sav t = cur s # sav s" using chgs_ok [OF assms(2) start_inv [OF assms(1)]] start_saved [OF assms(1)] by auto
  have u: "ok u" "sav u = cur t # sav t" using chgs_ok [OF assms(3) start_inv [OF t(1)]] start_saved [OF t(1)] by auto
  have v: "ok v" "sav v = cur s # sav s" using chgs_ok [OF assms(4) squash_inv [OF u(1)]] squash_saved [OF u(1)] t u by auto
  then show ?thesis using assms(5) by (auto dest: und_inv und_restores und_saved)
qed

end

text \<open>A change of the objects is a call of \<open>emplace\<close>, \<open>modify\<close> or \<open>remove\<close> that returns.\<close>

inductive object_change :: "'v clash \<Rightarrow> 'v generic_index \<Rightarrow> 'v generic_index \<Rightarrow> bool" for clash where
  created: "emplace clash c g = (Inr i, g') \<Longrightarrow> object_change clash g g'"
| modified: "modify clash i f g = (Inr (), g') \<Longrightarrow> object_change clash g g'"
| removed: "remove_obj i g = (Inr (), g') \<Longrightarrow> object_change clash g g'"

definition open_session :: "'v generic_index \<Rightarrow> 'v generic_index" where
  "open_session g = snd (start_undo_session True g)"

definition undone :: "'v clash \<Rightarrow> 'v generic_index \<Rightarrow> 'v generic_index \<Rightarrow> bool" where
  "undone clash g g' \<longleftrightarrow> undo clash g = (Inr (), g')"

lemma object_change_revs:
  assumes "object_change clash g g'"
  shows "gi_revision g' = gi_revision g \<and> revs_ok r (gi_stack g') = revs_ok r (gi_stack g)"
  using assms
proof cases
  case (created c i)
  then show ?thesis using emplace_cases [of clash c g i g'] by (simp add: revs_ok_head)
next
  case (modified i f)
  then show ?thesis
    by (auto simp: modify_def idx_modify_def Let_def revs_ok_head split: option.splits if_splits prod.splits)
next
  case (removed i)
  then show ?thesis by (auto simp: remove_obj_def Let_def revs_ok_head split: option.splits)
qed

lemma object_change_ok:
  assumes "index_ok g" and "object_change clash g g'"
  shows "index_ok g'" and "saved g' = saved g"
proof -
  have "gi_ok g' \<and> saved g' = saved g"
    using assms(2) by cases (use assms(1) in \<open>auto dest!: index_okD elim: modify_ok remove_ok dest: emplace_ok\<close>)
  then show "index_ok g'" "saved g' = saved g"
    using assms(1) object_change_revs [OF assms(2), of "gi_revision g"] by (auto simp: index_ok_def)
qed

lemma open_session_ok:
  assumes "index_ok g"
  shows "index_ok (open_session g)" and "saved (open_session g) = current g # saved g"
    and "current (open_session g) = current g" and "gi_revision (open_session g) = gi_revision g + 1"
proof -
  obtain r g' where s: "start_undo_session True g = (r, g')" by fastforce
  note st = start_ok [OF index_okD [OF assms] s]
  show "saved (open_session g) = current g # saved g" "current (open_session g) = current g"
    "gi_revision (open_session g) = gi_revision g + 1"
    using st by (simp_all add: open_session_def s)
  show "index_ok (open_session g)"
    using assms st(1) s by (auto simp: index_ok_def open_session_def start_undo_session_def Let_def)
qed

lemma squash_index_ok: "index_ok g \<Longrightarrow> index_ok (squash g)"
  using squash_ok(1) by (fastforce simp: index_ok_def squash_def split: list.splits)

lemma undone_ok:
  assumes "index_ok g" and "saved g = c # cs" and "undone clash g g'"
  shows "index_ok g'" and "current g' = c" and "saved g' = cs" and "gi_revision g' = gi_revision g - 1"
proof -
  obtain h st where h: "gi_stack g = h # st" using assms(2) by (cases "gi_stack g") (auto simp: saved_def)
  note u = undo_ok [OF index_okD [OF assms(1)] h, of clash g']
  have "gi_stack g' = st" using assms(3) h undo_pops [of clash g "()" g'] by (simp add: undone_def)
  then show "index_ok g'" "current g' = c" "saved g' = cs" "gi_revision g' = gi_revision g - 1"
    using u assms h by (auto simp: undone_def index_ok_def)
qed

interpretation gi: snapshot_store index_ok current saved "object_change clash" open_session squash "undone clash" for clash
  by unfold_locales
    (auto simp: object_change_ok open_session_ok squash_ok [OF index_okD] squash_index_ok dest: undone_ok)

section \<open>Histories of an index\<close>

inductive gi_reachable :: "'v clash \<Rightarrow> 'v generic_index \<Rightarrow> bool" for clash where
  init: "gi_reachable clash generic_index_init"
| change: "gi_reachable clash g \<Longrightarrow> object_change clash g g' \<Longrightarrow> gi_reachable clash g'"
| start: "gi_reachable clash g \<Longrightarrow> start_undo_session en g = (r, g') \<Longrightarrow> gi_reachable clash g'"
| undo: "gi_reachable clash g \<Longrightarrow> undo clash g = (Inr (), g') \<Longrightarrow> gi_reachable clash g'"
| squash: "gi_reachable clash g \<Longrightarrow> gi_reachable clash (squash g)"
| commit: "gi_reachable clash g \<Longrightarrow> gi_reachable clash (commit r g)"
| set_revision: "gi_reachable clash g \<Longrightarrow> set_revision r g = (Inr (), g') \<Longrightarrow> gi_reachable clash g'"

lemma undo_index_ok: "index_ok g \<Longrightarrow> undo clash g = (Inr (), g') \<Longrightarrow> index_ok g'"
  by (cases "saved g") (auto simp: undone_def saved_def undo_def intro: undone_ok(1) split: list.splits
      elim: snapshots.elims)

lemma reachable_ok: "gi_reachable clash g \<Longrightarrow> index_ok g"
proof (induction rule: gi_reachable.induct)
  case init
  show ?case by (simp add: index_ok_def gi_ok_def generic_index_init_def contents_def fm_ok_def)
next
  case (start g en r g')
  then show ?case using open_session_ok(1) [of g]
    by (cases en) (auto simp: open_session_def start_undo_session_def Let_def)
next
  case (set_revision g r g')
  then show ?case by (auto simp: set_revision_def index_ok_def gi_ok_def contents_def split: if_splits)
qed (auto intro: object_change_ok undo_index_ok squash_index_ok commit_ok)

lemma undo_all_ok:
  assumes "index_ok g"
  shows "\<exists>g'. undo_all no_clash g = (Inr (), g') \<and> index_ok g' \<and> gi_stack g' = [] \<and>
    current g' = last (current g # saved g) \<and> gi_revision g' = gi_revision g - int (length (gi_stack g))"
  using assms
proof (induction "length (gi_stack g)" arbitrary: g)
  case 0
  then show ?case by (simp add: undo_all.simps enabled_def saved_def)
next
  case (Suc n)
  then obtain h st where h: "gi_stack g = h # st" by (cases "gi_stack g") auto
  obtain g1 where u: "undo no_clash g = (Inr (), g1)" using undo_returns index_okD [OF Suc.prems] by blast
  note o = undo_ok [OF index_okD [OF Suc.prems] h u]
  have st: "gi_stack g1 = st" using undo_pops [OF u] h by simp
  obtain g' where g': "undo_all no_clash g1 = (Inr (), g')" "index_ok g'" "gi_stack g' = []"
      "current g' = last (current g1 # saved g1)" "gi_revision g' = gi_revision g1 - int (length (gi_stack g1))"
    using Suc.hyps(1) [of g1] Suc.hyps(2) h st undo_index_ok [OF Suc.prems u] by auto
  then have "undo_all no_clash g = (Inr (), g')"
    using u h by (subst undo_all.simps) (simp add: enabled_def)
  then show ?case using g' o st h by auto
qed

lemma changes_revision: "(object_change clash)\<^sup>*\<^sup>* g h \<Longrightarrow> gi_revision h = gi_revision g"
  by (induction rule: rtranclp_induct) (auto dest: object_change_revs)

lemma start_session: "start_undo_session True g = (r, s) \<Longrightarrow> s = open_session g"
  by (simp add: open_session_def)

section \<open>Properties\<close>

text \<open>C4: Undo restores: whatever objects are created, modified and removed in a session, an undo that
  returns leaves exactly the objects and the next id from before the session, the snapshots of the
  sessions below it and the revision from before it; and without other unique indices the undo
  returns.\<close>

theorem undo_restores_session:
  assumes "gi_reachable clash g" and "start_undo_session True g = (r, s)" and "(object_change clash)\<^sup>*\<^sup>* s h"
  shows "(\<forall>g'. undo clash h = (Inr (), g') \<longrightarrow>
      current g' = current g \<and> saved g' = saved g \<and> gi_revision g' = gi_revision g) \<and>
    (clash = no_clash \<longrightarrow> (\<exists>g'. undo clash h = (Inr (), g')))"
proof (intro conjI allI impI)
  note ok = reachable_ok [OF assms(1)] and s = start_session [OF assms(2)]
  have h: "index_ok h" "saved h = current g # saved g"
    using gi.chgs_ok [OF assms(3)] open_session_ok [OF ok] s by auto
  have rev: "gi_revision h = gi_revision g + 1" using changes_revision [OF assms(3)] open_session_ok(4) [OF ok] s by simp
  show "current g' = current g" "saved g' = saved g" if "undo clash h = (Inr (), g')" for g'
    using gi.undo_session [OF ok assms(3) [unfolded s], of g'] that by (auto simp: undone_def)
  show "gi_revision g' = gi_revision g" if "undo clash h = (Inr (), g')" for g'
    using undone_ok(4) [OF h, of clash g'] that rev by (simp add: undone_def)
  show "\<exists>g'. undo clash h = (Inr (), g')" if "clash = no_clash"
    using undo_returns [OF index_okD [OF h(1)]] that by simp
qed

text \<open>A store with one object, and a session in which it is modified and another one is created.\<close>

definition demo_store :: "string generic_index" where
  "demo_store = snd (emplace (=) (\<lambda>_. ''alice'') generic_index_init)"

definition demo_session :: "string generic_index" where
  "demo_session = snd (emplace (=) (\<lambda>_. ''carol'') (snd (modify (=) 0 (\<lambda>_. ''bob'') (open_session demo_store))))"

lemma demo_store_reachable: "gi_reachable (=) demo_store"
  unfolding demo_store_def
  by (rule gi_reachable.change [OF gi_reachable.init], rule object_change.created [where c = "\<lambda>_. ''alice''" and i = 0])
    code_simp

lemma demo_session_changes: "(object_change (=))\<^sup>*\<^sup>* (open_session demo_store) demo_session"
proof -
  let ?m = "snd (modify (=) 0 (\<lambda>_. ''bob'') (open_session demo_store))"
  have "object_change (=) (open_session demo_store) ?m"
    by (rule object_change.modified [where i = 0 and f = "\<lambda>_. ''bob''"]) code_simp
  moreover have "object_change (=) ?m demo_session"
    by (rule object_change.created [where i = 1 and c = "\<lambda>_. ''carol''"]) code_simp
  ultimately show ?thesis by (meson converse_rtranclp_into_rtranclp r_into_rtranclp)
qed

lemma demo_session_reachable: "gi_reachable (=) demo_session"
  using demo_session_changes
proof (induction rule: rtranclp_induct)
  case base
  show ?case using gi_reachable.start [OF demo_store_reachable, of True] by (simp add: open_session_def prod_eq_iff)
qed (rule gi_reachable.change)

theorem undo_restores_session_witness:
  "undo (=) demo_session = (Inr (), snd (undo (=) demo_session)) \<and>
   current (snd (undo (=) demo_session)) = current demo_store"
proof
  show u: "undo (=) demo_session = (Inr (), snd (undo (=) demo_session))" by code_simp
  have s: "start_undo_session True demo_store = (1, open_session demo_store)" by code_simp
  show "current (snd (undo (=) demo_session)) = current demo_store"
    using undo_restores_session [OF demo_store_reachable s demo_session_changes] u by blast
qed

text \<open>C11: Squash joins a session with the one below it: undoing the joined session goes back to where
  the outer session was started, whatever was done in the two and after the squash.\<close>

theorem squash_joins_sessions:
  assumes "gi_reachable clash g" and "start_undo_session True g = (r, s)" and "(object_change clash)\<^sup>*\<^sup>* s t"
    and "start_undo_session True t = (r', u)" and "(object_change clash)\<^sup>*\<^sup>* u v"
    and "(object_change clash)\<^sup>*\<^sup>* (squash v) w" and "undo clash w = (Inr (), g')"
  shows "current g' = current g \<and> saved g' = saved g \<and> current (squash v) = current v"
  using gi.squash_session [of g clash t v w g'] reachable_ok [OF assms(1)] start_session [OF assms(2)]
    start_session [OF assms(4)] assms(3,5-7) squash_ok(3) gi.chgs_ok open_session_ok(1)
  by (metis undone_def index_okD)

theorem squash_joins_sessions_witness:
  "current (snd (undo (=) (squash (open_session demo_session)))) = current demo_store"
proof -
  have s: "start_undo_session True demo_store = (1, open_session demo_store)" by code_simp
  have t: "start_undo_session True demo_session = (2, open_session demo_session)" by code_simp
  have u: "undo (=) (squash (open_session demo_session)) = (Inr (), snd (undo (=) (squash (open_session demo_session))))"
    by code_simp
  show ?thesis
    using squash_joins_sessions [OF demo_store_reachable s demo_session_changes t rtranclp.rtrancl_refl
        rtranclp.rtrancl_refl u] by simp
qed

text \<open>Committing revision \<open>r\<close> forgets exactly the snapshots of the sessions with revision up to
  \<open>r\<close>, and changes neither the objects nor the revision.\<close>

theorem commit_forgets_oldest:
  assumes "gi_reachable clash g"
  shows "saved (commit r g) = take (nat (gi_revision g - r)) (saved g) \<and> current (commit r g) = current g \<and>
    gi_revision (commit r g) = gi_revision g"
  using commit_ok [OF reachable_ok [OF assms]] by blast

theorem commit_forgets_oldest_witness:
  "length (saved (open_session demo_session)) = 2 \<and> length (saved (commit 1 (open_session demo_session))) = 1"
proof
  have "gi_reachable (=) (open_session demo_session)"
    using gi_reachable.start [OF demo_session_reachable, of True] by (simp add: open_session_def prod_eq_iff)
  note c = commit_forgets_oldest [OF this, of 1]
  have r: "gi_revision (open_session demo_session) = 2" by code_simp
  show l: "length (saved (open_session demo_session)) = 2"
    by (simp add: saved_def) code_simp
  show "length (saved (commit 1 (open_session demo_session))) = 1" using c l r by simp
qed

text \<open>C33: \<open>undo_all\<close> terminates, empties the stack, and leaves the oldest snapshot; this is for an index
  whose only unique key is the id.\<close>

theorem undo_all_restores_oldest:
  assumes "gi_reachable no_clash g"
  shows "\<exists>g'. undo_all no_clash g = (Inr (), g') \<and> gi_stack g' = [] \<and> current g' = last (current g # saved g) \<and>
    gi_revision g' = gi_revision g - int (length (gi_stack g))"
  using undo_all_ok [OF reachable_ok [OF assms]] by blast

text \<open>An index with two sessions: an object before them, one created and the first one modified in the
  first session, the first one removed in the second.  \<open>undo_all\<close> goes back over both.\<close>

definition base_store :: "string generic_index" where
  "base_store = snd (emplace no_clash (\<lambda>_. ''alice'') generic_index_init)"

definition first_session :: "string generic_index" where
  "first_session = snd (emplace no_clash (\<lambda>_. ''carol'') (snd (modify no_clash 0 (\<lambda>_. ''bob'') (open_session base_store))))"

definition second_session :: "string generic_index" where
  "second_session = snd (remove_obj 0 (open_session first_session))"

lemma second_session_reachable: "gi_reachable no_clash second_session"
proof -
  let ?m = "snd (modify no_clash 0 (\<lambda>_. ''bob'') (open_session base_store))"
  have "gi_reachable no_clash base_store"
    by (rule gi_reachable.change [OF gi_reachable.init], rule object_change.created [where c = "\<lambda>_. ''alice''" and i = 0]) code_simp
  then have "gi_reachable no_clash (open_session base_store)"
    using gi_reachable.start [of no_clash base_store True] by (simp add: open_session_def prod_eq_iff)
  moreover have "object_change no_clash (open_session base_store) ?m"
    by (rule object_change.modified [where i = 0 and f = "\<lambda>_. ''bob''"]) code_simp
  moreover have "object_change no_clash ?m first_session"
    by (rule object_change.created [where i = 1 and c = "\<lambda>_. ''carol''"]) code_simp
  ultimately have "gi_reachable no_clash first_session" by (blast intro: gi_reachable.change)
  then have "gi_reachable no_clash (open_session first_session)"
    using gi_reachable.start [of no_clash first_session True] by (simp add: open_session_def prod_eq_iff)
  moreover have "object_change no_clash (open_session first_session) second_session"
    by (rule object_change.removed [where i = 0]) code_simp
  ultimately show ?thesis by (rule gi_reachable.change)
qed

theorem undo_all_restores_oldest_witness:
  "length (gi_stack second_session) = 2 \<and> find_obj 0 second_session = None \<and> find_obj 1 second_session = Some ''carol'' \<and>
   (\<exists>g'. undo_all no_clash second_session = (Inr (), g') \<and> gi_stack g' = [] \<and>
      find_obj 0 g' = Some ''alice'' \<and> find_obj 1 g' = None \<and> gi_revision g' = 0)"
proof -
  obtain g' where g': "undo_all no_clash second_session = (Inr (), g')" "gi_stack g' = []"
    "current g' = last (current second_session # saved second_session)"
    "gi_revision g' = gi_revision second_session - int (length (gi_stack second_session))"
    using undo_all_restores_oldest [OF second_session_reachable] by blast
  have l: "length (gi_stack second_session) = 2" "find_obj 0 second_session = None" "find_obj 1 second_session = Some ''carol''"
    "gi_revision second_session = 2" by code_simp+
  have "fst (last (current second_session # saved second_session)) 0 = Some ''alice''"
    "fst (last (current second_session # saved second_session)) 1 = None" by code_simp+
  then have "find_obj 0 g' = Some ''alice''" "find_obj 1 g' = None"
    unfolding g'(3) [symmetric] by (simp_all add: current_def contents_def find_obj_def)
  with g' l show ?thesis by auto
qed

text \<open>The first failing entry of the old values: the object it belongs to is lost.\<close>

lemma undo_old_collides:
  assumes "(i, v) \<in> set es" and "fm_find m j = Some w" and "j \<notin> fst ` set es" and "clash v w"
    and "\<forall>e \<in> set es. fm_find m (fst e) \<noteq> None" and "distinct (map fst es)"
  shows "\<exists>m' k. undo_old clash es m = (False, m') \<and> k \<in> fst ` set es \<and> fm_find m' k = None"
  using assms
proof (induction es arbitrary: m)
  case (Cons e es)
  obtain k u where e: "e = (k, u)" by (cases e)
  obtain x where x: "fm_find m k = Some x" using Cons.prems(5) e by fastforce
  show ?case
  proof (cases "\<exists>d \<in> set m. fst d \<noteq> k \<and> clash u (snd d)")
    case True
    then have "undo_old clash (e # es) m = (False, fm_erase k m)" using x e by (simp add: idx_modify_def)
    then show ?thesis using e by auto
  next
    case False
    then have r: "undo_old clash (e # es) m = undo_old clash es (fm_put k u m)" using x e by (auto simp: idx_modify_def)
    have jk: "j \<noteq> k" using Cons.prems(3) e by auto
    have "(i, v) \<noteq> e"
    proof
      assume "(i, v) = e"
      with False fm_find_in [OF Cons.prems(2)] jk Cons.prems(4) e show False by force
    qed
    with Cons.prems jk e have "\<exists>m' k'. undo_old clash es (fm_put k u m) = (False, m') \<and> k' \<in> fst ` set es \<and> fm_find m' k' = None"
      by (intro Cons.IH) auto
    then show ?thesis unfolding r by auto
  qed
qed simp

text \<open>C38: Undo first puts back the old values and only then erases the new objects.  With a second unique key a
  session can therefore make its own undo throw, in every index: when an object of before the
  session has changed and an object created in the session has taken a key of its old value, undo
  throws, the session stays on the stack, and an object of before the session is lost.\<close>

theorem undo_throws_on_reused_key:
  assumes "gi_reachable clash g" and "start_undo_session True g = (r, s)" and "(object_change clash)\<^sup>*\<^sup>* s h"
    and "find_obj i g = Some v" and "find_obj i h = Some x" and "x \<noteq> v"
    and "find_obj j g = None" and "find_obj j h = Some w" and "clash v w"
  shows "\<exists>g' k. undo clash h = (Inl (logic_error ''Could not modify object, most likely a uniqueness constraint was violated''), g') \<and>
    gi_stack g' = gi_stack h \<and> find_obj k g \<noteq> None \<and> find_obj k g' = None"
proof -
  note ok = reachable_ok [OF assms(1)] and s = start_session [OF assms(2)]
  have h: "index_ok h" "saved h = current g # saved g"
    using gi.chgs_ok [OF assms(3)] open_session_ok [OF ok] s by auto
  from h(2) obtain u st where u: "gi_stack h = u # st" "restore u (contents h) = contents g"
    by (cases "gi_stack h") (auto simp: saved_def current_def)
  have us: "us_ok u (contents h) (gi_next_id h)" using index_okD [OF h(1)] u(1) by (simp add: gi_ok_def)
  then have fm: "fm_ok (old_values u)" by (simp add: us_ok_def)
  have slot: "slot_ok (fm_find (old_values u) k) (fm_find (removed_values u) k) (k \<in> set (new_ids u)) (contents h k) (k < old_next_id u)" for k
    using us_ok_slot [OF us] .
  have back_to: "contents g k = restore u (contents h) k" for k by (simp add: u(2))
  have i: "fm_find (old_values u) i = Some v"
    using back_to [of i] slot [of i] assms(4-6) by (auto simp: restore_def slot_ok_def contents_def find_obj_def split: if_splits)
  have j: "fm_find (old_values u) j = None"
    using back_to [of j] assms(7) by (auto simp: restore_def contents_def find_obj_def split: if_splits)
  have old: "contents h k \<noteq> None \<and> contents g k \<noteq> None" if "fm_find (old_values u) k \<noteq> None" for k
    using that slot [of k] back_to [of k] by (auto simp: restore_def slot_ok_def)
  have in_old: "k \<in> fst ` set (old_values u) \<longleftrightarrow> fm_find (old_values u) k \<noteq> None" for k by (simp add: fm_find_None)
  have "\<exists>m' k. undo_old clash (old_values u) (gi_indices h) = (False, m') \<and> k \<in> fst ` set (old_values u) \<and> fm_find m' k = None"
  proof (rule undo_old_collides [of i v _ _ j w])
    show "\<forall>e \<in> set (old_values u). fm_find (gi_indices h) (fst e) \<noteq> None"
    proof
      fix e assume "e \<in> set (old_values u)"
      then have "fst e \<in> fst ` set (old_values u)" by simp
      then have "fm_find (old_values u) (fst e) \<noteq> None" unfolding in_old .
      then show "fm_find (gi_indices h) (fst e) \<noteq> None" using old by (simp add: contents_def)
    qed
    show "distinct (map fst (old_values u))" using fm by (simp add: fm_ok_def strict_sorted_iff)
  qed (use i j assms(8,9) in_old fm_find_in in \<open>auto simp: find_obj_def\<close>)
  then obtain m' k where m': "undo_old clash (old_values u) (gi_indices h) = (False, m')" "k \<in> fst ` set (old_values u)" "fm_find m' k = None"
    by blast
  then have "undo clash h = (Inl (logic_error ''Could not modify object, most likely a uniqueness constraint was violated''), h\<lparr>gi_indices := m'\<rparr>)"
    using u(1) by (simp add: undo_def)
  moreover have "contents g k \<noteq> None" using old [of k] m'(2) in_old [of k] by simp
  ultimately show ?thesis using m'(3) by (auto simp: find_obj_def contents_def)
qed

text \<open>An object is renamed and a new one takes its name.\<close>

definition reused_name :: "string generic_index" where
  "reused_name = snd (emplace (=) (\<lambda>_. ''alice'') (snd (modify (=) 0 (\<lambda>_. ''bob'') (open_session demo_store))))"

theorem undo_throws_on_reused_key_witness:
  "\<exists>g'. undo (=) reused_name = (Inl (logic_error ''Could not modify object, most likely a uniqueness constraint was violated''), g') \<and>
     gi_stack g' = gi_stack reused_name"
proof -
  let ?m = "snd (modify (=) 0 (\<lambda>_. ''bob'') (open_session demo_store))"
  have s: "start_undo_session True demo_store = (1, open_session demo_store)" by code_simp
  have "object_change (=) (open_session demo_store) ?m"
    by (rule object_change.modified [where i = 0 and f = "\<lambda>_. ''bob''"]) code_simp
  moreover have "object_change (=) ?m reused_name"
    by (rule object_change.created [where i = 1 and c = "\<lambda>_. ''alice''"]) code_simp
  ultimately have c: "(object_change (=))\<^sup>*\<^sup>* (open_session demo_store) reused_name"
    by (meson converse_rtranclp_into_rtranclp r_into_rtranclp)
  have v: "find_obj 0 demo_store = Some ''alice''" "find_obj 0 reused_name = Some ''bob''"
    "find_obj 1 demo_store = None" "find_obj 1 reused_name = Some ''alice''" by code_simp+
  from undo_throws_on_reused_key [OF demo_store_reachable s c v(1,2) _ v(3,4)] show ?thesis by fastforce
qed

end
