(* ===== verification/Chain_Objects.thy ===== *)
theory Chain_Objects
  imports Operations Chainbase
begin

text \<open>
  The objects of the chain state: \<open>chain/account_object.hpp\<close>, \<open>chain/global_property_object.hpp\<close>,
  \<open>chain/witness_objects.hpp\<close>, \<open>chain/steem_objects.hpp\<close>, with the constants of
  \<open>protocol/config.hpp\<close> that the chain code uses.  A class is a record with the members of the
  source, in its order; the members carry a short prefix that names the class.

  The objects of a type live in a \<open>generic_index\<close>; its unique keys besides the id are the clash
  relation of the type.  A reference to an object is its id.  The chain state is the record of all
  indices, with the objects of which there is one (global properties, feed, schedule) as plain
  fields, and the log of virtual operations that were pushed to the observers.
\<close>

section \<open>Constants\<close>

definition STEEMIT_MAX_PROXY_RECURSION_DEPTH :: nat where "STEEMIT_MAX_PROXY_RECURSION_DEPTH = 4"
definition STEEMIT_PROXY_TO_SELF_ACCOUNT :: account_name_type where "STEEMIT_PROXY_TO_SELF_ACCOUNT = ''''"
definition STEEMIT_NULL_ACCOUNT :: account_name_type where "STEEMIT_NULL_ACCOUNT = ''null''"
definition STEEMIT_BLOCK_INTERVAL :: nat where "STEEMIT_BLOCK_INTERVAL = 3"
definition STEEMIT_BLOCKS_PER_DAY :: nat where "STEEMIT_BLOCKS_PER_DAY = 24 * 60 * 60 div STEEMIT_BLOCK_INTERVAL"
definition STEEMIT_BLOCKS_PER_YEAR :: nat where "STEEMIT_BLOCKS_PER_YEAR = 365 * 24 * 60 * 60 div STEEMIT_BLOCK_INTERVAL"
definition STEEMIT_MAX_WITNESSES :: nat where "STEEMIT_MAX_WITNESSES = 21"
definition STEEMIT_START_MINER_VOTING_BLOCK :: nat where "STEEMIT_START_MINER_VOTING_BLOCK = STEEMIT_BLOCKS_PER_DAY * 30"
definition STEEMIT_SECONDS_PER_YEAR :: int where "STEEMIT_SECONDS_PER_YEAR = 60 * 60 * 24 * 365"
definition STEEMIT_SBD_INTEREST_COMPOUND_INTERVAL_SEC :: int where
  "STEEMIT_SBD_INTEREST_COMPOUND_INTERVAL_SEC = 60 * 60 * 24 * 30"
definition STEEMIT_VESTING_WITHDRAW_INTERVALS :: int where "STEEMIT_VESTING_WITHDRAW_INTERVALS = 13"
definition STEEMIT_MAX_WITHDRAW_ROUTES :: u16 where "STEEMIT_MAX_WITHDRAW_ROUTES = 10"
definition STEEMIT_MAX_ACCOUNT_WITNESS_VOTES :: u16 where "STEEMIT_MAX_ACCOUNT_WITNESS_VOTES = 30"
definition STEEMIT_SAVINGS_WITHDRAW_REQUEST_LIMIT :: u8 where "STEEMIT_SAVINGS_WITHDRAW_REQUEST_LIMIT = 100"

text \<open>Durations, in microseconds.\<close>

definition seconds :: "int \<Rightarrow> int" where "seconds s = 1000000 * s"

definition STEEMIT_VESTING_WITHDRAW_INTERVAL_SECONDS :: int where
  "STEEMIT_VESTING_WITHDRAW_INTERVAL_SECONDS = 60 * 60 * 24 * 7"
definition STEEMIT_SAVINGS_WITHDRAW_TIME :: int where "STEEMIT_SAVINGS_WITHDRAW_TIME = seconds (60 * 60 * 24 * 3)"
definition STEEMIT_CONVERSION_DELAY :: int where "STEEMIT_CONVERSION_DELAY = seconds (60 * 60 * (12 * 7))"
definition STEEMIT_CASHOUT_WINDOW_SECONDS :: int where "STEEMIT_CASHOUT_WINDOW_SECONDS = 60 * 60 * 24 * 7"
definition STEEMIT_LIQUIDITY_TIMEOUT_SEC :: int where "STEEMIT_LIQUIDITY_TIMEOUT_SEC = seconds (60 * 60 * 24 * 7)"
definition STEEMIT_MIN_LIQUIDITY_REWARD_PERIOD_SEC :: int where
  "STEEMIT_MIN_LIQUIDITY_REWARD_PERIOD_SEC = seconds 60"
definition STEEMIT_MIN_LIQUIDITY_REWARD_PERIOD_SEC_HF10 :: int where
  "STEEMIT_MIN_LIQUIDITY_REWARD_PERIOD_SEC_HF10 = seconds (60 * 30)"

definition STEEMIT_OWNER_AUTH_RECOVERY_PERIOD :: int where
  "STEEMIT_OWNER_AUTH_RECOVERY_PERIOD = seconds (60 * 60 * 24 * 30)"

definition time_maximum :: time_point_sec where "time_maximum = 0xFFFFFFFF"

section \<open>Objects\<close>

record account_object =
  a_id :: oid
  a_name :: account_name_type
  a_memo_key :: public_key_type
  a_json_metadata :: string
  a_proxy :: account_name_type
  a_last_account_update :: time_point_sec
  a_created :: time_point_sec
  a_mined :: bool
  a_owner_challenged :: bool
  a_active_challenged :: bool
  a_last_owner_proved :: time_point_sec
  a_last_active_proved :: time_point_sec
  a_recovery_account :: account_name_type
  a_reset_account :: account_name_type
  a_last_account_recovery :: time_point_sec
  a_comment_count :: u32
  a_lifetime_vote_count :: u32
  a_post_count :: u32
  a_can_vote :: bool
  a_voting_power :: u16
  a_last_vote_time :: time_point_sec
  a_balance :: asset
  a_savings_balance :: asset
  a_sbd_balance :: asset
  a_sbd_seconds :: uint128
  a_sbd_seconds_last_update :: time_point_sec
  a_sbd_last_interest_payment :: time_point_sec
  a_savings_sbd_balance :: asset
  a_savings_sbd_seconds :: uint128
  a_savings_sbd_seconds_last_update :: time_point_sec
  a_savings_sbd_last_interest_payment :: time_point_sec
  a_savings_withdraw_requests :: u8
  a_reward_sbd_balance :: asset
  a_reward_steem_balance :: asset
  a_reward_vesting_balance :: asset
  a_reward_vesting_steem :: asset
  a_curation_rewards :: int
  a_posting_rewards :: int
  a_vesting_shares :: asset
  a_delegated_vesting_shares :: asset
  a_received_vesting_shares :: asset
  a_vesting_withdraw_rate :: asset
  a_next_vesting_withdrawal :: time_point_sec
  a_withdrawn :: int
  a_to_withdraw :: int
  a_withdraw_routes :: u16
  a_proxied_vsf_votes :: "int list"
  a_witnesses_voted_for :: u16
  a_last_post :: time_point_sec
  a_last_root_post :: time_point_sec
  a_post_bandwidth :: u32

record dynamic_global_property_object =
  g_head_block_number :: u32
  g_head_block_id :: block_id_type
  g_time :: time_point_sec
  g_current_witness :: account_name_type
  g_total_pow :: u64
  g_num_pow_witnesses :: u32
  g_virtual_supply :: asset
  g_current_supply :: asset
  g_confidential_supply :: asset
  g_current_sbd_supply :: asset
  g_confidential_sbd_supply :: asset
  g_total_vesting_fund_steem :: asset
  g_total_vesting_shares :: asset
  g_total_reward_fund_steem :: asset
  g_total_reward_shares2 :: uint128
  g_pending_rewarded_vesting_shares :: asset
  g_pending_rewarded_vesting_steem :: asset
  g_sbd_interest_rate :: u16
  g_sbd_print_rate :: u16
  g_maximum_block_size :: u32
  g_current_aslot :: u64
  g_recent_slots_filled :: uint128
  g_participation_count :: u8
  g_last_irreversible_block_num :: u32
  g_vote_power_reserve_rate :: u32

datatype witness_schedule_type = top19 | timeshare | miner | none

record witness_object =
  w_id :: oid
  w_owner :: account_name_type
  w_created :: time_point_sec
  w_url :: string
  w_total_missed :: u32
  w_last_aslot :: u64
  w_last_confirmed_block_num :: u64
  w_pow_worker :: u64
  w_signing_key :: public_key_type
  w_props :: chain_properties
  w_sbd_exchange_rate :: price
  w_last_sbd_exchange_update :: time_point_sec
  w_votes :: int
  w_schedule :: witness_schedule_type
  w_virtual_last_update :: uint128
  w_virtual_position :: uint128
  w_virtual_scheduled_time :: uint128
  w_last_work :: digest_type
  w_running_version :: v_num
  w_hardfork_version_vote :: v_num
  w_hardfork_time_vote :: time_point_sec

record witness_vote_object =
  wv_id :: oid
  wv_witness :: oid
  wv_account :: oid

record witness_schedule_object =
  ws_current_virtual_time :: uint128
  ws_next_shuffle_block_num :: u32
  ws_current_shuffled_witnesses :: "account_name_type list"
  ws_num_scheduled_witnesses :: u8
  ws_top19_weight :: u8
  ws_timeshare_weight :: u8
  ws_miner_weight :: u8
  ws_witness_pay_normalization_factor :: u32
  ws_median_props :: chain_properties
  ws_majority_version :: v_num
  ws_max_voted_witnesses :: u8
  ws_max_miner_witnesses :: u8
  ws_max_runner_witnesses :: u8
  ws_hardfork_required_witnesses :: u8

record convert_request_object =
  cr_id :: oid
  cr_owner :: account_name_type
  cr_requestid :: u32
  cr_amount :: asset
  cr_conversion_date :: time_point_sec

record escrow_object =
  e_id :: oid
  e_escrow_id :: u32
  e_from :: account_name_type
  e_to :: account_name_type
  e_agent :: account_name_type
  e_ratification_deadline :: time_point_sec
  e_escrow_expiration :: time_point_sec
  e_sbd_balance :: asset
  e_steem_balance :: asset
  e_pending_fee :: asset
  e_to_approved :: bool
  e_agent_approved :: bool
  e_disputed :: bool

definition is_approved :: "escrow_object \<Rightarrow> bool" where
  "is_approved e \<longleftrightarrow> e_to_approved e \<and> e_agent_approved e"

record savings_withdraw_object =
  sw_id :: oid
  sw_from :: account_name_type
  sw_to :: account_name_type
  sw_memo :: string
  sw_request_id :: u32
  sw_amount :: asset
  sw_complete :: time_point_sec

record liquidity_reward_balance_object =
  lr_id :: oid
  lr_owner :: oid
  lr_steem_volume :: int
  lr_sbd_volume :: int
  lr_weight :: uint128
  lr_last_update :: time_point_sec

definition is_positive :: "liquidity_reward_balance_object \<Rightarrow> int" where
  "is_positive r = (if lr_steem_volume r > 0 \<and> lr_sbd_volume r > 0 then 1 else 0)"

definition volume_weight :: "fc_lib \<Rightarrow> liquidity_reward_balance_object \<Rightarrow> uint128" where
  "volume_weight L r = u128_of_int L (wrap64 (wrap64 (lr_steem_volume r * lr_sbd_volume r) * is_positive r))"

definition min_volume_weight :: "fc_lib \<Rightarrow> liquidity_reward_balance_object \<Rightarrow> uint128" where
  "min_volume_weight L r = u128_of_int L (wrap64 (min (lr_steem_volume r) (lr_sbd_volume r) * is_positive r))"

definition update_weight :: "fc_lib \<Rightarrow> bool \<Rightarrow> liquidity_reward_balance_object \<Rightarrow> liquidity_reward_balance_object" where
  "update_weight L hf9 r = r\<lparr>lr_weight := (if hf9 then min_volume_weight L r else volume_weight L r)\<rparr>"

record feed_history_object =
  fh_current_median_history :: price
  fh_price_history :: "price list"

record limit_order_object =
  o_id :: oid
  o_created :: time_point_sec
  o_expiration :: time_point_sec
  o_seller :: account_name_type
  o_orderid :: u32
  o_for_sale :: int
  o_sell_price :: price

definition get_market :: "limit_order_object \<Rightarrow> asset_symbol_type \<times> asset_symbol_type" where
  "get_market ord =
     (let b = symbol (base (o_sell_price ord)); q = symbol (quote (o_sell_price ord))
      in if b < q then (b, q) else (q, b))"

definition amount_for_sale :: "limit_order_object \<Rightarrow> asset" where
  "amount_for_sale ord = mk_asset (o_for_sale ord) (symbol (base (o_sell_price ord)))"

definition amount_to_receive :: "fc_lib \<Rightarrow> limit_order_object \<Rightarrow> asset res" where
  "amount_to_receive L ord = asset_times_price L (amount_for_sale ord) (o_sell_price ord)"

record withdraw_vesting_route_object =
  wr_id :: oid
  wr_from_account :: oid
  wr_to_account :: oid
  wr_percent :: u16
  wr_auto_vest :: bool

record decline_voting_rights_request_object =
  dr_id :: oid
  dr_account :: oid
  dr_effective_date :: time_point_sec

record vesting_delegation_object =
  vd_id :: oid
  vd_delegator :: account_name_type
  vd_delegatee :: account_name_type
  vd_vesting_shares :: asset
  vd_min_delegation_time :: time_point_sec

record vesting_delegation_expiration_object =
  vde_id :: oid
  vde_delegator :: account_name_type
  vde_vesting_shares :: asset
  vde_expiration :: time_point_sec

datatype curve_id = quadratic | quadratic_curation | linear | square_root

record reward_fund_object =
  rf_id :: oid
  rf_name :: string
  rf_reward_balance :: asset
  rf_recent_claims :: uint128
  rf_last_update :: time_point_sec
  rf_content_constant :: uint128
  rf_percent_curation_rewards :: u16
  rf_percent_content_rewards :: u16
  rf_author_reward_curve :: curve_id
  rf_curation_reward_curve :: curve_id

record hardfork_property_object =
  h_processed_hardforks :: "time_point_sec list"
  h_last_hardfork :: u32
  h_current_hardfork_version :: v_num
  h_next_hardfork :: v_num
  h_next_hardfork_time :: time_point_sec

section \<open>Derived values\<close>

definition sum_shares :: "fc_lib \<Rightarrow> int \<Rightarrow> int list \<Rightarrow> int res" where
  "sum_shares L = (\<lambda>acc xs. fold_res (\<lambda>x s. safe_add L s x) xs acc)"

definition witness_vote_weight :: "fc_lib \<Rightarrow> account_object \<Rightarrow> int res" where
  "witness_vote_weight L a = sum_shares L (amount (a_vesting_shares a)) (a_proxied_vsf_votes a)"

definition proxied_vsf_votes_total :: "fc_lib \<Rightarrow> account_object \<Rightarrow> int res" where
  "proxied_vsf_votes_total L a = sum_shares L 0 (a_proxied_vsf_votes a)"

definition effective_vesting_shares :: "fc_lib \<Rightarrow> account_object \<Rightarrow> asset res" where
  "effective_vesting_shares L a =
     rbind (asset_minus L (a_vesting_shares a) (a_delegated_vesting_shares a)) (\<lambda>x.
     asset_plus L x (a_received_vesting_shares a))"

definition get_vesting_share_price :: "dynamic_global_property_object \<Rightarrow> price" where
  "get_vesting_share_price g =
     (if amount (g_total_vesting_fund_steem g) = 0 \<or> amount (g_total_vesting_shares g) = 0
      then mk_price (mk_asset 1000 STEEM_SYMBOL) (mk_asset 1000000 VESTS_SYMBOL)
      else mk_price (g_total_vesting_shares g) (g_total_vesting_fund_steem g))"

definition get_reward_vesting_share_price :: "fc_lib \<Rightarrow> dynamic_global_property_object \<Rightarrow> price res" where
  "get_reward_vesting_share_price L g =
     rbind (asset_plus L (g_total_vesting_shares g) (g_pending_rewarded_vesting_shares g)) (\<lambda>b.
     rbind (asset_plus L (g_total_vesting_fund_steem g) (g_pending_rewarded_vesting_steem g)) (\<lambda>q.
     Inr (mk_price b q)))"

section \<open>Unique keys\<close>

definition account_clash :: "account_object clash" where
  "account_clash x y \<longleftrightarrow> a_name x = a_name y"
definition witness_clash :: "witness_object clash" where
  "witness_clash x y \<longleftrightarrow> w_owner x = w_owner y"
definition witness_vote_clash :: "witness_vote_object clash" where
  "witness_vote_clash x y \<longleftrightarrow> wv_account x = wv_account y \<and> wv_witness x = wv_witness y"
definition convert_clash :: "convert_request_object clash" where
  "convert_clash x y \<longleftrightarrow> cr_owner x = cr_owner y \<and> cr_requestid x = cr_requestid y"
definition escrow_clash :: "escrow_object clash" where
  "escrow_clash x y \<longleftrightarrow> e_from x = e_from y \<and> e_escrow_id x = e_escrow_id y"
definition savings_clash :: "savings_withdraw_object clash" where
  "savings_clash x y \<longleftrightarrow> sw_from x = sw_from y \<and> sw_request_id x = sw_request_id y"
definition liquidity_clash :: "liquidity_reward_balance_object clash" where
  "liquidity_clash x y \<longleftrightarrow> lr_owner x = lr_owner y"
definition order_clash :: "limit_order_object clash" where
  "order_clash x y \<longleftrightarrow> o_seller x = o_seller y \<and> o_orderid x = o_orderid y"
definition delegation_clash :: "vesting_delegation_object clash" where
  "delegation_clash x y \<longleftrightarrow> vd_delegator x = vd_delegator y \<and> vd_delegatee x = vd_delegatee y"
definition route_clash :: "withdraw_vesting_route_object clash" where
  "route_clash x y \<longleftrightarrow> wr_from_account x = wr_from_account y \<and> wr_to_account x = wr_to_account y"
definition decline_clash :: "decline_voting_rights_request_object clash" where
  "decline_clash x y \<longleftrightarrow> dr_account x = dr_account y"
definition reward_fund_clash :: "reward_fund_object clash" where
  "reward_fund_clash x y \<longleftrightarrow> rf_name x = rf_name y"

section \<open>The chain state\<close>

record chain =
  ch_accounts :: "account_object generic_index"
  ch_witnesses :: "witness_object generic_index"
  ch_witness_votes :: "witness_vote_object generic_index"
  ch_converts :: "convert_request_object generic_index"
  ch_escrows :: "escrow_object generic_index"
  ch_savings :: "savings_withdraw_object generic_index"
  ch_liquidity :: "liquidity_reward_balance_object generic_index"
  ch_orders :: "limit_order_object generic_index"
  ch_routes :: "withdraw_vesting_route_object generic_index"
  ch_declines :: "decline_voting_rights_request_object generic_index"
  ch_delegations :: "vesting_delegation_object generic_index"
  ch_expirations :: "vesting_delegation_expiration_object generic_index"
  ch_reward_funds :: "reward_fund_object generic_index"
  ch_gpo :: dynamic_global_property_object
  ch_feed :: feed_history_object
  ch_wso :: witness_schedule_object
  ch_hpo :: hardfork_property_object
  ch_virtual_ops :: "operation list"

text \<open>\<open>get_feed_history ( ).current_median_history\<close>, which much of the code reads.\<close>

abbreviation median_history :: "chain \<Rightarrow> price" where
  "median_history c \<equiv> fh_current_median_history (ch_feed c)"

end
