(* ===== verification/Chain_State.thy ===== *)
theory Chain_State
  imports Chain_Objects
begin

text \<open>
  Access to the chain state: \<open>create\<close>, \<open>modify\<close> and \<open>remove\<close> of the database on each index, the
  lookups of \<open>chain/database.cpp\<close>, and the books: how much of each asset the objects of the state
  hold and how much the global properties say was issued.

  A C++ handler that throws is rolled back by the undo session it runs in, so a handler here returns
  either an exception or the new state.  The books are the subject of the conservation lemmas: for
  every primitive there is one lemma that says how it changes them.
\<close>

section \<open>Operations on an index\<close>

text \<open>What is left of a call that threw is dropped.\<close>

definition returned :: "'a res \<times> 's \<Rightarrow> ('a \<times> 's) res" where
  "returned r = (case r of (Inl e, _) \<Rightarrow> Inl e | (Inr x, s) \<Rightarrow> Inr (x, s))"

lemma returned_eq [simp]: "returned r = Inr (x, s) \<longleftrightarrow> r = (Inr x, s)"
  by (cases r) (auto simp: returned_def split: sum.splits)

definition db_create :: "'v clash \<Rightarrow> (oid \<Rightarrow> 'v) \<Rightarrow> 'v generic_index \<Rightarrow> (oid \<times> 'v generic_index) res" where
  "db_create clash c t = returned (emplace clash c t)"

text \<open>The modifier may throw.\<close>

definition db_modify :: "'v clash \<Rightarrow> oid \<Rightarrow> ('v \<Rightarrow> 'v res) \<Rightarrow> 'v generic_index \<Rightarrow> 'v generic_index res" where
  "db_modify clash i f t =
     rbind (get_obj i t) (\<lambda>v. rbind (f v) (\<lambda>v'.
     rbind (returned (modify clash i (\<lambda>_. v') t)) (\<lambda>r. Inr (snd r))))"

definition db_remove :: "oid \<Rightarrow> 'v generic_index \<Rightarrow> 'v generic_index res" where
  "db_remove i t = rbind (returned (remove_obj i t)) (\<lambda>r. Inr (snd r))"

text \<open>The first object, by id, with a property: a lookup by a unique key.\<close>

definition find_by :: "('v \<Rightarrow> bool) \<Rightarrow> 'v generic_index \<Rightarrow> oid option" where
  "find_by P t = map_option fst (find (\<lambda>e. P (snd e)) (gi_indices t))"

definition get_by :: "('v \<Rightarrow> bool) \<Rightarrow> 'v generic_index \<Rightarrow> oid res" where
  "get_by P t = (case find_by P t of None \<Rightarrow> Inl (out_of_range ''key not found'') | Some i \<Rightarrow> Inr i)"

text \<open>The objects in the order of a non-unique key; equal keys in the order of creation.\<close>

definition ordered_by :: "('v \<Rightarrow> 'k :: linorder) \<Rightarrow> 'v generic_index \<Rightarrow> (oid \<times> 'v) list" where
  "ordered_by k t = sort_key (\<lambda>e. k (snd e)) (gi_indices t)"

section \<open>Access to the state\<close>

definition head_block_time :: "chain \<Rightarrow> time_point_sec" where
  "head_block_time c = g_time (ch_gpo c)"

definition head_block_num :: "chain \<Rightarrow> u32" where
  "head_block_num c = g_head_block_number (ch_gpo c)"

definition has_hardfork :: "nat \<Rightarrow> chain \<Rightarrow> bool" where
  "has_hardfork n c \<longleftrightarrow> length (h_processed_hardforks (ch_hpo c)) > n"

definition get_account :: "account_name_type \<Rightarrow> chain \<Rightarrow> oid res" where
  "get_account n c = get_by (\<lambda>a. a_name a = n) (ch_accounts c)"

definition get_witness :: "account_name_type \<Rightarrow> chain \<Rightarrow> oid res" where
  "get_witness n c = get_by (\<lambda>w. w_owner w = n) (ch_witnesses c)"

definition get_escrow :: "account_name_type \<Rightarrow> u32 \<Rightarrow> chain \<Rightarrow> oid res" where
  "get_escrow n i c = get_by (\<lambda>e. e_from e = n \<and> e_escrow_id e = i) (ch_escrows c)"

definition get_limit_order :: "account_name_type \<Rightarrow> u32 \<Rightarrow> chain \<Rightarrow> oid res" where
  "get_limit_order n i c =
     (let i = and i 0xFFFF in get_by (\<lambda>ord. o_seller ord = n \<and> o_orderid ord = i) (ch_orders c))"

definition get_savings_withdraw :: "account_name_type \<Rightarrow> u32 \<Rightarrow> chain \<Rightarrow> oid res" where
  "get_savings_withdraw n i c = get_by (\<lambda>s. sw_from s = n \<and> sw_request_id s = i) (ch_savings c)"

definition account :: "oid \<Rightarrow> chain \<Rightarrow> account_object res" where
  "account i c = get_obj i (ch_accounts c)"

definition modify_account :: "oid \<Rightarrow> (account_object \<Rightarrow> account_object res) \<Rightarrow> chain \<Rightarrow> chain res" where
  "modify_account i f c = rbind (db_modify account_clash i f (ch_accounts c)) (\<lambda>t. Inr (c\<lparr>ch_accounts := t\<rparr>))"

definition modify_gpo ::
  "(dynamic_global_property_object \<Rightarrow> dynamic_global_property_object res) \<Rightarrow> chain \<Rightarrow> chain res" where
  "modify_gpo f c = rbind (f (ch_gpo c)) (\<lambda>g. Inr (c\<lparr>ch_gpo := g\<rparr>))"

definition modify_witness :: "oid \<Rightarrow> (witness_object \<Rightarrow> witness_object res) \<Rightarrow> chain \<Rightarrow> chain res" where
  "modify_witness i f c = rbind (db_modify witness_clash i f (ch_witnesses c)) (\<lambda>t. Inr (c\<lparr>ch_witnesses := t\<rparr>))"

definition modify_escrow :: "oid \<Rightarrow> (escrow_object \<Rightarrow> escrow_object res) \<Rightarrow> chain \<Rightarrow> chain res" where
  "modify_escrow i f c = rbind (db_modify escrow_clash i f (ch_escrows c)) (\<lambda>t. Inr (c\<lparr>ch_escrows := t\<rparr>))"

definition modify_order :: "oid \<Rightarrow> (limit_order_object \<Rightarrow> limit_order_object res) \<Rightarrow> chain \<Rightarrow> chain res" where
  "modify_order i f c = rbind (db_modify order_clash i f (ch_orders c)) (\<lambda>t. Inr (c\<lparr>ch_orders := t\<rparr>))"

definition modify_delegation ::
  "oid \<Rightarrow> (vesting_delegation_object \<Rightarrow> vesting_delegation_object res) \<Rightarrow> chain \<Rightarrow> chain res" where
  "modify_delegation i f c =
     rbind (db_modify delegation_clash i f (ch_delegations c)) (\<lambda>t. Inr (c\<lparr>ch_delegations := t\<rparr>))"

definition remove_escrow :: "oid \<Rightarrow> chain \<Rightarrow> chain res" where
  "remove_escrow i c = rbind (db_remove i (ch_escrows c)) (\<lambda>t. Inr (c\<lparr>ch_escrows := t\<rparr>))"

definition remove_savings :: "oid \<Rightarrow> chain \<Rightarrow> chain res" where
  "remove_savings i c = rbind (db_remove i (ch_savings c)) (\<lambda>t. Inr (c\<lparr>ch_savings := t\<rparr>))"

definition remove_convert :: "oid \<Rightarrow> chain \<Rightarrow> chain res" where
  "remove_convert i c = rbind (db_remove i (ch_converts c)) (\<lambda>t. Inr (c\<lparr>ch_converts := t\<rparr>))"

definition remove_order :: "oid \<Rightarrow> chain \<Rightarrow> chain res" where
  "remove_order i c = rbind (db_remove i (ch_orders c)) (\<lambda>t. Inr (c\<lparr>ch_orders := t\<rparr>))"

definition push_virtual_operation :: "operation \<Rightarrow> chain \<Rightarrow> chain" where
  "push_virtual_operation op c = c\<lparr>ch_virtual_ops := ch_virtual_ops c @ [op]\<rparr>"

section \<open>Totals over an index\<close>

definition tsum :: "('v \<Rightarrow> int) \<Rightarrow> 'v generic_index \<Rightarrow> int" where
  "tsum f t = sum_list (map (\<lambda>e. f (snd e)) (gi_indices t))"

definition tbl_ok :: "'v generic_index \<Rightarrow> bool" where
  "tbl_ok t \<longleftrightarrow> fm_ok (gi_indices t)"

lemma fm_ok_Cons: "fm_ok ((k, v) # m) \<longleftrightarrow> fm_ok m \<and> (\<forall>k' \<in> fst ` set m. k < k')"
  by (auto simp: fm_ok_def)

lemma sum_fm_put:
  "fm_ok m \<Longrightarrow> sum_list (map (\<lambda>e. f (snd e)) (fm_put k v m)) =
     sum_list (map (\<lambda>e. f (snd e)) m) + f v - (case fm_find m k of None \<Rightarrow> 0 | Some w \<Rightarrow> (f w :: int))"
proof (induction k v m rule: fm_put.induct)
  case (2 k v k' v' m)
  have "k < k' \<Longrightarrow> fm_find m k = None" using 2(2) by (force simp: fm_ok_Cons fm_find_None)
  then show ?case using 2 by (auto simp: fm_ok_Cons split: option.splits)
qed simp

lemma sum_fm_erase:
  "fm_ok m \<Longrightarrow> sum_list (map (\<lambda>e. f (snd e)) (fm_erase k m)) =
     sum_list (map (\<lambda>e. f (snd e)) m) - (case fm_find m k of None \<Rightarrow> 0 | Some w \<Rightarrow> (f w :: int))"
proof (induction m)
  case (Cons e m)
  obtain k' v where e: "e = (k', v)" by (cases e)
  have m: "fm_ok m" "\<forall>j \<in> fst ` set m. k' < j" using Cons.prems e by (auto simp: fm_ok_Cons)
  have "k = k' \<Longrightarrow> fm_find m k = None" using m(2) by (force simp: fm_find_None)
  then show ?case using Cons.IH [OF m(1)] e by (auto simp: fm_erase_def)
qed (simp add: fm_erase_def)

lemma db_create_spec:
  assumes "db_create clash c t = Inr (i, t')" and "tbl_ok t"
  shows "(\<forall>f. tsum f t' = tsum f t + f (c i)) \<and> tbl_ok t' \<and> (\<forall>j. find_obj j t' = (if j = i then Some (c i) else find_obj j t))"
proof -
  have "emplace clash c t = (Inr i, t')" using assms(1) by (simp add: db_create_def)
  note t' = emplace_cases [OF this]
  have "fm_find (gi_indices t) i = None"
    using assms(1) t' by (auto simp: db_create_def emplace_def idx_emplace_def Let_def split: if_splits)
  then show ?thesis using assms(2) t' by (simp add: tsum_def tbl_ok_def sum_fm_put fm_ok_put find_obj_def)
qed

lemma db_modify_spec:
  assumes "db_modify clash i g t = Inr t'" and "tbl_ok t"
  obtains v v' where "find_obj i t = Some v" "g v = Inr v'" "\<And>f. tsum f t' = tsum f t - f v + f v'" "tbl_ok t'"
    "\<And>j. find_obj j t' = (if j = i then Some v' else find_obj j t)"
proof -
  obtain v v' where v: "find_obj i t = Some v" "g v = Inr v'"
    and m: "modify clash i (\<lambda>_. v') t = (Inr (), t')"
    using assms(1) by (auto simp: db_modify_def get_obj_def split: option.splits)
  have t': "gi_indices t' = fm_put i v' (gi_indices t)"
    using m v(1) by (auto simp: modify_def find_obj_def idx_modify_def Let_def split: option.splits if_splits prod.splits)
  show thesis
  proof (rule that [OF v])
    show "tsum f t' = tsum f t - f v + f v'" for f
      using v(1) assms(2) t' by (simp add: tsum_def tbl_ok_def sum_fm_put find_obj_def)
    show "tbl_ok t'" "\<And>j. find_obj j t' = (if j = i then Some v' else find_obj j t)"
      using assms(2) t' by (simp_all add: tbl_ok_def fm_ok_put find_obj_def)
  qed
qed

lemma db_remove_spec:
  assumes "db_remove i t = Inr t'" and "tbl_ok t"
  obtains v where "find_obj i t = Some v" "\<And>f. tsum f t' = tsum f t - f v" "tbl_ok t'"
    "\<And>j. find_obj j t' = (if j = i then None else find_obj j t)"
proof -
  have "remove_obj i t = (Inr (), t')" using assms(1) by (auto simp: db_remove_def)
  then obtain v where v: "find_obj i t = Some v" and t': "gi_indices t' = fm_erase i (gi_indices t)"
    by (auto simp: remove_obj_def find_obj_def Let_def split: option.splits)
  show thesis
  proof (rule that [OF v])
    show "tsum f t' = tsum f t - f v" for f
      using v assms(2) t' by (simp add: tsum_def tbl_ok_def sum_fm_erase find_obj_def)
    show "tbl_ok t'" "\<And>j. find_obj j t' = (if j = i then None else find_obj j t)"
      using assms(2) t' by (simp_all add: tbl_ok_def fm_ok_erase find_obj_def)
  qed
qed

section \<open>The books\<close>

text \<open>What an asset contributes to the total of a symbol.\<close>

definition val :: "asset_symbol_type \<Rightarrow> asset \<Rightarrow> int" where
  "val s x = (if symbol x = s then amount x else 0)"

definition account_holds :: "asset_symbol_type \<Rightarrow> account_object \<Rightarrow> int" where
  "account_holds s a = val s (a_balance a) + val s (a_savings_balance a) + val s (a_reward_steem_balance a) +
     val s (a_sbd_balance a) + val s (a_savings_sbd_balance a) + val s (a_reward_sbd_balance a) +
     val s (a_vesting_shares a) + val s (a_reward_vesting_balance a)"

definition escrow_holds :: "asset_symbol_type \<Rightarrow> escrow_object \<Rightarrow> int" where
  "escrow_holds s e = val s (e_steem_balance e) + val s (e_sbd_balance e) + val s (e_pending_fee e)"

definition gpo_holds :: "asset_symbol_type \<Rightarrow> dynamic_global_property_object \<Rightarrow> int" where
  "gpo_holds s g = val s (g_total_vesting_fund_steem g) + val s (g_total_reward_fund_steem g) +
     val s (g_pending_rewarded_vesting_steem g)"

definition holdings :: "asset_symbol_type \<Rightarrow> chain \<Rightarrow> int" where
  "holdings s c = tsum (account_holds s) (ch_accounts c) + tsum (\<lambda>x. val s (cr_amount x)) (ch_converts c) +
     tsum (\<lambda>x. val s (amount_for_sale x)) (ch_orders c) + tsum (escrow_holds s) (ch_escrows c) +
     tsum (\<lambda>x. val s (sw_amount x)) (ch_savings c) + tsum (\<lambda>x. val s (rf_reward_balance x)) (ch_reward_funds c) +
     gpo_holds s (ch_gpo c)"

definition gpo_issued :: "asset_symbol_type \<Rightarrow> dynamic_global_property_object \<Rightarrow> int" where
  "gpo_issued s g = val s (g_current_supply g) + val s (g_current_sbd_supply g) + val s (g_total_vesting_shares g) +
     val s (g_pending_rewarded_vesting_shares g)"

text \<open>What was issued and is not held by any object; and the difference between the STEEM set aside
  for unclaimed vesting rewards and the claims of the accounts to it.\<close>

definition gap :: "asset_symbol_type \<Rightarrow> chain \<Rightarrow> int" where
  "gap s c = gpo_issued s (ch_gpo c) - holdings s c"

definition pending_gap :: "chain \<Rightarrow> int" where
  "pending_gap c = val STEEM_SYMBOL (g_pending_rewarded_vesting_steem (ch_gpo c)) -
     tsum (\<lambda>a. val STEEM_SYMBOL (a_reward_vesting_steem a)) (ch_accounts c)"

definition tables_ok :: "chain \<Rightarrow> bool" where
  "tables_ok c \<longleftrightarrow> tbl_ok (ch_accounts c) \<and> tbl_ok (ch_converts c) \<and> tbl_ok (ch_orders c) \<and> tbl_ok (ch_escrows c) \<and>
     tbl_ok (ch_savings c) \<and> tbl_ok (ch_reward_funds c)"

definition balanced :: "chain \<Rightarrow> bool" where
  "balanced c \<longleftrightarrow> tables_ok c \<and> gap STEEM_SYMBOL c = 0 \<and> gap SBD_SYMBOL c = 0 \<and> gap VESTS_SYMBOL c = 0 \<and> pending_gap c = 0"

text \<open>\<open>booked d p c c'\<close>: the books change by \<open>d\<close>, per symbol, and \<open>p\<close>.\<close>

definition booked :: "(asset_symbol_type \<Rightarrow> int) \<Rightarrow> int \<Rightarrow> chain \<Rightarrow> chain \<Rightarrow> bool" where
  "booked d p c c' \<longleftrightarrow> tables_ok c' \<and> (\<forall>s. gap s c' = gap s c + d s) \<and> pending_gap c' = pending_gap c + p"

lemma val_simps [simp]:
  "val s (mk_asset 0 t) = 0"
  "val s (mk_asset (x + y) t) = val s (mk_asset x t) + val s (mk_asset y t)"
  "val s (mk_asset (x - y) t) = val s (mk_asset x t) - val s (mk_asset y t)"
  "val s (mk_asset (- x) t) = - val s (mk_asset x t)"
  by (simp_all add: val_def)

lemma val_mk [simp]: "symbol x = t \<Longrightarrow> val s (mk_asset (amount x) t) = val s x"
  by (simp add: val_def)

lemma booked_refl: "tables_ok c \<Longrightarrow> booked (\<lambda>_. 0) 0 c c"
  by (simp add: booked_def)

lemma booked_trans: "booked d p c c' \<Longrightarrow> booked e q c' c'' \<Longrightarrow> booked (\<lambda>s. d s + e s) (p + q) c c''"
  by (simp add: booked_def)

lemma booked_tables: "booked d p c c' \<Longrightarrow> tables_ok c'"
  by (simp add: booked_def)

lemma booked_balanced: "booked (\<lambda>_. 0) 0 c c' \<Longrightarrow> balanced c \<Longrightarrow> balanced c'"
  by (simp add: booked_def balanced_def)

lemma booked_eq: "booked d p c c' \<Longrightarrow> (\<And>s. d s = e s) \<Longrightarrow> p = q \<Longrightarrow> booked e q c c'"
  by (simp add: booked_def)

section \<open>How the primitives change the books\<close>

lemma find_obj_get: "get_obj i t = Inr v \<longleftrightarrow> find_obj i t = Some v"
  by (auto simp: get_obj_def split: option.splits)

lemmas books_defs = booked_def gap_def holdings_def pending_gap_def tables_ok_def

lemma modify_account_booked:
  assumes "modify_account i f c = Inr c'" and "tables_ok c"
  obtains a a' t where "account i c = Inr a" "f a = Inr a'" "c' = c\<lparr>ch_accounts := t\<rparr>"
    "\<And>j. account j c' = (if j = i then Inr a' else account j c)"
    "booked (\<lambda>s. account_holds s a - account_holds s a')
      (val STEEM_SYMBOL (a_reward_vesting_steem a) - val STEEM_SYMBOL (a_reward_vesting_steem a')) c c'"
proof -
  obtain t where t: "db_modify account_clash i f (ch_accounts c) = Inr t" "c' = c\<lparr>ch_accounts := t\<rparr>"
    using assms(1) by (auto simp: modify_account_def)
  have "tbl_ok (ch_accounts c)" using assms(2) by (simp add: tables_ok_def)
  from t(1) this show thesis
  proof (rule db_modify_spec)
    fix a a'
    assume v: "find_obj i (ch_accounts c) = Some a" "f a = Inr a'"
      "\<And>h. tsum h t = tsum h (ch_accounts c) - h a + h a'" "tbl_ok t"
      "\<And>j. find_obj j t = (if j = i then Some a' else find_obj j (ch_accounts c))"
    show thesis
      by (rule that [OF _ v(2) t(2)])
        (use v assms(2) t(2) in \<open>auto simp: account_def find_obj_get get_obj_def books_defs\<close>)
  qed
qed

lemma modify_gpo_booked:
  assumes "modify_gpo f c = Inr c'" and "tables_ok c"
  obtains g where "f (ch_gpo c) = Inr g" "c' = c\<lparr>ch_gpo := g\<rparr>"
    "booked (\<lambda>s. gpo_issued s g - gpo_issued s (ch_gpo c) - gpo_holds s g + gpo_holds s (ch_gpo c))
      (val STEEM_SYMBOL (g_pending_rewarded_vesting_steem g) -
       val STEEM_SYMBOL (g_pending_rewarded_vesting_steem (ch_gpo c))) c c'"
  using assms by (auto simp: modify_gpo_def books_defs)

lemma modify_escrow_booked:
  assumes "modify_escrow i f c = Inr c'" and "tables_ok c"
  obtains e e' t where "find_obj i (ch_escrows c) = Some e" "f e = Inr e'" "c' = c\<lparr>ch_escrows := t\<rparr>"
    "\<And>j. find_obj j t = (if j = i then Some e' else find_obj j (ch_escrows c))"
    "booked (\<lambda>s. escrow_holds s e - escrow_holds s e') 0 c c'"
proof -
  obtain t where t: "db_modify escrow_clash i f (ch_escrows c) = Inr t" "c' = c\<lparr>ch_escrows := t\<rparr>"
    using assms(1) by (auto simp: modify_escrow_def)
  have "tbl_ok (ch_escrows c)" using assms(2) by (simp add: tables_ok_def)
  from t(1) this show thesis
    by (rule db_modify_spec) (rule that [OF _ _ t(2)], use assms(2) t(2) in \<open>auto simp: books_defs\<close>)
qed

lemma modify_order_booked:
  assumes "modify_order i f c = Inr c'" and "tables_ok c"
  obtains ord ord' t where "find_obj i (ch_orders c) = Some ord" "f ord = Inr ord'" "c' = c\<lparr>ch_orders := t\<rparr>"
    "\<And>j. find_obj j t = (if j = i then Some ord' else find_obj j (ch_orders c))"
    "booked (\<lambda>s. val s (amount_for_sale ord) - val s (amount_for_sale ord')) 0 c c'"
proof -
  obtain t where t: "db_modify order_clash i f (ch_orders c) = Inr t" "c' = c\<lparr>ch_orders := t\<rparr>"
    using assms(1) by (auto simp: modify_order_def)
  have "tbl_ok (ch_orders c)" using assms(2) by (simp add: tables_ok_def)
  from t(1) this show thesis
    by (rule db_modify_spec) (rule that [OF _ _ t(2)], use assms(2) t(2) in \<open>auto simp: books_defs\<close>)
qed

text \<open>Removing an object releases what it holds.\<close>

lemma remove_escrow_booked:
  assumes "remove_escrow i c = Inr c'" and "tables_ok c"
  obtains e t where "find_obj i (ch_escrows c) = Some e" "c' = c\<lparr>ch_escrows := t\<rparr>"
    "\<And>j. find_obj j t = (if j = i then None else find_obj j (ch_escrows c))"
    "booked (\<lambda>s. escrow_holds s e) 0 c c'"
proof -
  obtain t where t: "db_remove i (ch_escrows c) = Inr t" "c' = c\<lparr>ch_escrows := t\<rparr>"
    using assms(1) by (auto simp: remove_escrow_def)
  have "tbl_ok (ch_escrows c)" using assms(2) by (simp add: tables_ok_def)
  from t(1) this show thesis
    by (rule db_remove_spec) (rule that [OF _ t(2)], use assms(2) t(2) in \<open>auto simp: books_defs\<close>)
qed

lemma remove_savings_booked:
  assumes "remove_savings i c = Inr c'" and "tables_ok c"
  obtains x t where "find_obj i (ch_savings c) = Some x" "c' = c\<lparr>ch_savings := t\<rparr>"
    "\<And>j. find_obj j t = (if j = i then None else find_obj j (ch_savings c))"
    "booked (\<lambda>s. val s (sw_amount x)) 0 c c'"
proof -
  obtain t where t: "db_remove i (ch_savings c) = Inr t" "c' = c\<lparr>ch_savings := t\<rparr>"
    using assms(1) by (auto simp: remove_savings_def)
  have "tbl_ok (ch_savings c)" using assms(2) by (simp add: tables_ok_def)
  from t(1) this show thesis
    by (rule db_remove_spec) (rule that [OF _ t(2)], use assms(2) t(2) in \<open>auto simp: books_defs\<close>)
qed

lemma remove_convert_booked:
  assumes "remove_convert i c = Inr c'" and "tables_ok c"
  obtains x t where "find_obj i (ch_converts c) = Some x" "c' = c\<lparr>ch_converts := t\<rparr>"
    "\<And>j. find_obj j t = (if j = i then None else find_obj j (ch_converts c))"
    "booked (\<lambda>s. val s (cr_amount x)) 0 c c'"
proof -
  obtain t where t: "db_remove i (ch_converts c) = Inr t" "c' = c\<lparr>ch_converts := t\<rparr>"
    using assms(1) by (auto simp: remove_convert_def)
  have "tbl_ok (ch_converts c)" using assms(2) by (simp add: tables_ok_def)
  from t(1) this show thesis
    by (rule db_remove_spec) (rule that [OF _ t(2)], use assms(2) t(2) in \<open>auto simp: books_defs\<close>)
qed

lemma remove_order_booked:
  assumes "remove_order i c = Inr c'" and "tables_ok c"
  obtains ord t where "find_obj i (ch_orders c) = Some ord" "c' = c\<lparr>ch_orders := t\<rparr>"
    "\<And>j. find_obj j t = (if j = i then None else find_obj j (ch_orders c))"
    "booked (\<lambda>s. val s (amount_for_sale ord)) 0 c c'"
proof -
  obtain t where t: "db_remove i (ch_orders c) = Inr t" "c' = c\<lparr>ch_orders := t\<rparr>"
    using assms(1) by (auto simp: remove_order_def)
  have "tbl_ok (ch_orders c)" using assms(2) by (simp add: tables_ok_def)
  from t(1) this show thesis
    by (rule db_remove_spec) (rule that [OF _ t(2)], use assms(2) t(2) in \<open>auto simp: books_defs\<close>)
qed

end
