(* ===== verification/Balances.thy ===== *)
theory Balances
  imports Chain_State
begin

text \<open>
  Balances, supply and vesting: the functions of \<open>chain/database.cpp\<close> through which every movement
  of STEEM, SBD and VESTS goes.  The \<open>assert\<close>s of the source (not the \<open>FC_ASSERT\<close>s) are not part of
  a release build and not of the model.

  For every function there is a lemma \<open>_booked\<close>: how it changes the books.  Interest that is paid
  when an SBD balance is touched is issued at the same time, so it does not show.
\<close>

section \<open>Balances\<close>

definition to_seconds :: "int \<Rightarrow> int" where
  "to_seconds us = cdiv us 1000000"

definition sbd_interest :: "fc_lib \<Rightarrow> uint128 \<Rightarrow> u16 \<Rightarrow> uint128 res" where
  "sbd_interest L secs rate =
     rbind (u128_div L secs (u128_of_int L STEEMIT_SECONDS_PER_YEAR)) (\<lambda>i.
     u128_div L (u128_mul L i (u128_of_int L (uint rate))) (u128_of_int L (int STEEMIT_100_PERCENT)))"

definition issue_interest :: "fc_lib \<Rightarrow> account_name_type \<Rightarrow> uint128 \<Rightarrow> asset \<Rightarrow> chain \<Rightarrow> chain res" where
  "issue_interest L n interest paid c =
     (let c = (if u128_less L (u128_of_int L 0) interest
               then push_virtual_operation (Op_interest \<lparr>vin_owner = n, vin_interest = paid\<rparr>) c else c)
      in modify_gpo (\<lambda>p.
           rbind (asset_plus_assign L (g_current_sbd_supply p) paid) (\<lambda>s.
           rbind (asset_times_price L paid (median_history c)) (\<lambda>x.
           rbind (asset_plus_assign L (g_virtual_supply p) x) (\<lambda>v.
           Inr (p\<lparr>g_current_sbd_supply := s, g_virtual_supply := v\<rparr>))))) c)"

text \<open>The part of \<open>adjust_balance\<close> before the SBD balance changes.\<close>

definition accrue_sbd :: "fc_lib \<Rightarrow> account_object \<Rightarrow> chain \<Rightarrow> (account_object \<times> chain) res" where
  "accrue_sbd L a c =
     (if a_sbd_seconds_last_update a \<noteq> head_block_time c
      then (let now = head_block_time c;
                secs = u128_add L (a_sbd_seconds a)
                  (u128_mul L (u128_of_int L (amount (a_sbd_balance a)))
                     (u128_of_int L (to_seconds (time_minus L now (a_sbd_seconds_last_update a)))));
                a = a\<lparr>a_sbd_seconds := secs, a_sbd_seconds_last_update := now\<rparr>
            in if u128_less L (u128_of_int L 0) secs \<and>
                  to_seconds (time_minus L now (a_sbd_last_interest_payment a)) >
                    STEEMIT_SBD_INTEREST_COMPOUND_INTERVAL_SEC
               then rbind (sbd_interest L secs (g_sbd_interest_rate (ch_gpo c))) (\<lambda>interest.
                    rbind (to_uint64 L interest) (\<lambda>v.
                    let paid = mk_asset (sint v) SBD_SYMBOL
                    in rbind (asset_plus_assign L (a_sbd_balance a) paid) (\<lambda>b.
                       rbind (issue_interest L (a_name a) interest paid c) (\<lambda>c.
                       Inr (a\<lparr>a_sbd_balance := b, a_sbd_seconds := u128_of_int L 0, a_sbd_last_interest_payment := now\<rparr>, c)))))
               else Inr (a, c))
      else Inr (a, c))"

definition adjust_balance :: "fc_lib \<Rightarrow> oid \<Rightarrow> asset \<Rightarrow> chain \<Rightarrow> chain res" where
  "adjust_balance L i delta c =
     (if symbol delta = STEEM_SYMBOL
      then modify_account i (\<lambda>a. rbind (asset_plus_assign L (a_balance a) delta) (\<lambda>b. Inr (a\<lparr>a_balance := b\<rparr>))) c
      else if symbol delta = SBD_SYMBOL
      then rbind (account i c) (\<lambda>a.
           rbind (accrue_sbd L a c) (\<lambda>(a, c).
           rbind (asset_plus_assign L (a_sbd_balance a) delta) (\<lambda>b.
           modify_account i (\<lambda>_. Inr (a\<lparr>a_sbd_balance := b\<rparr>)) c)))
      else Inl (assert_exception ''invalid symbol''))"

definition accrue_savings_sbd :: "fc_lib \<Rightarrow> account_object \<Rightarrow> chain \<Rightarrow> (account_object \<times> chain) res" where
  "accrue_savings_sbd L a c =
     (if a_savings_sbd_seconds_last_update a \<noteq> head_block_time c
      then (let now = head_block_time c;
                secs = u128_add L (a_savings_sbd_seconds a)
                  (u128_mul L (u128_of_int L (amount (a_savings_sbd_balance a)))
                     (u128_of_int L (to_seconds (time_minus L now (a_savings_sbd_seconds_last_update a)))));
                a = a\<lparr>a_savings_sbd_seconds := secs, a_savings_sbd_seconds_last_update := now\<rparr>
            in if u128_less L (u128_of_int L 0) secs \<and>
                  to_seconds (time_minus L now (a_savings_sbd_last_interest_payment a)) >
                    STEEMIT_SBD_INTEREST_COMPOUND_INTERVAL_SEC
               then rbind (sbd_interest L secs (g_sbd_interest_rate (ch_gpo c))) (\<lambda>interest.
                    rbind (to_uint64 L interest) (\<lambda>v.
                    let paid = mk_asset (sint v) SBD_SYMBOL
                    in rbind (asset_plus_assign L (a_savings_sbd_balance a) paid) (\<lambda>b.
                       rbind (issue_interest L (a_name a) interest paid c) (\<lambda>c.
                       Inr (a\<lparr>a_savings_sbd_balance := b, a_savings_sbd_seconds := u128_of_int L 0,
                              a_savings_sbd_last_interest_payment := now\<rparr>, c)))))
               else Inr (a, c))
      else Inr (a, c))"

definition adjust_savings_balance :: "fc_lib \<Rightarrow> oid \<Rightarrow> asset \<Rightarrow> chain \<Rightarrow> chain res" where
  "adjust_savings_balance L i delta c =
     (if symbol delta = STEEM_SYMBOL
      then modify_account i (\<lambda>a. rbind (asset_plus_assign L (a_savings_balance a) delta)
             (\<lambda>b. Inr (a\<lparr>a_savings_balance := b\<rparr>))) c
      else if symbol delta = SBD_SYMBOL
      then rbind (account i c) (\<lambda>a.
           rbind (accrue_savings_sbd L a c) (\<lambda>(a, c).
           rbind (asset_plus_assign L (a_savings_sbd_balance a) delta) (\<lambda>b.
           modify_account i (\<lambda>_. Inr (a\<lparr>a_savings_sbd_balance := b\<rparr>)) c)))
      else Inl (assert_exception ''invalid symbol''))"

definition adjust_reward_balance :: "fc_lib \<Rightarrow> oid \<Rightarrow> asset \<Rightarrow> chain \<Rightarrow> chain res" where
  "adjust_reward_balance L i delta c =
     (if symbol delta = STEEM_SYMBOL
      then modify_account i (\<lambda>a. rbind (asset_plus_assign L (a_reward_steem_balance a) delta)
             (\<lambda>b. Inr (a\<lparr>a_reward_steem_balance := b\<rparr>))) c
      else if symbol delta = SBD_SYMBOL
      then modify_account i (\<lambda>a. rbind (asset_plus_assign L (a_reward_sbd_balance a) delta)
             (\<lambda>b. Inr (a\<lparr>a_reward_sbd_balance := b\<rparr>))) c
      else Inl (assert_exception ''invalid symbol''))"

definition get_balance :: "account_object \<Rightarrow> asset_symbol_type \<Rightarrow> asset res" where
  "get_balance a s =
     (if s = STEEM_SYMBOL then Inr (a_balance a)
      else if s = SBD_SYMBOL then Inr (a_sbd_balance a)
      else Inl (assert_exception ''invalid symbol''))"

definition get_savings_balance :: "account_object \<Rightarrow> asset_symbol_type \<Rightarrow> asset res" where
  "get_savings_balance a s =
     (if s = STEEM_SYMBOL then Inr (a_savings_balance a)
      else if s = SBD_SYMBOL then Inr (a_savings_sbd_balance a)
      else Inl (assert_exception ''invalid symbol''))"

text \<open>What the evaluators say of a balance before they take from it, and the taking.\<close>

definition has_funds :: "oid \<Rightarrow> asset \<Rightarrow> string \<Rightarrow> chain \<Rightarrow> unit res" where
  "has_funds i x msg c =
     rbind (account i c) (\<lambda>a.
     rbind (get_balance a (symbol x)) (\<lambda>b.
     rbind (asset_ge b x) (\<lambda>enough. fc_assert enough msg)))"

definition take_balance :: "fc_lib \<Rightarrow> oid \<Rightarrow> asset \<Rightarrow> chain \<Rightarrow> chain res" where
  "take_balance L i x c = rbind (asset_uminus L x) (\<lambda>m. adjust_balance L i m c)"

section \<open>Supply\<close>

definition adjust_supply :: "fc_lib \<Rightarrow> asset \<Rightarrow> bool \<Rightarrow> chain \<Rightarrow> chain res" where
  "adjust_supply L delta adjust_vesting c =
     (let adjust_vesting = (if unat (g_head_block_number (ch_gpo c)) < STEEMIT_BLOCKS_PER_DAY * 7 then False
                            else adjust_vesting)
      in modify_gpo (\<lambda>p.
           if symbol delta = STEEM_SYMBOL
           then rbind (if adjust_vesting \<and> amount delta > 0 then safe_mul L (amount delta) 9 else Inr 0) (\<lambda>nv.
                let new_vesting = mk_asset nv STEEM_SYMBOL
                in rbind (asset_plus L delta new_vesting) (\<lambda>d.
                   rbind (asset_plus_assign L (g_current_supply p) d) (\<lambda>cs.
                   rbind (asset_plus_assign L (g_virtual_supply p) d) (\<lambda>vs.
                   rbind (asset_plus_assign L (g_total_vesting_fund_steem p) new_vesting) (\<lambda>f.
                   Inr (p\<lparr>g_current_supply := cs, g_virtual_supply := vs, g_total_vesting_fund_steem := f\<rparr>))))))
           else if symbol delta = SBD_SYMBOL
           then rbind (asset_plus_assign L (g_current_sbd_supply p) delta) (\<lambda>s.
                rbind (asset_times_price L s (median_history c)) (\<lambda>x.
                rbind (asset_plus L x (g_current_supply p)) (\<lambda>v.
                Inr (p\<lparr>g_current_sbd_supply := s, g_virtual_supply := v\<rparr>))))
           else Inl (assert_exception ''invalid symbol'')) c)"

definition pay_fee :: "fc_lib \<Rightarrow> oid \<Rightarrow> asset \<Rightarrow> chain \<Rightarrow> chain res" where
  "pay_fee L i fee c =
     rbind (fc_assert (amount fee \<ge> 0) ''fee.amount >= 0'') (\<lambda>_.
     if amount fee = 0 then Inr c
     else rbind (account i c) (\<lambda>a.
          rbind (asset_ge (a_balance a) fee) (\<lambda>b.
          rbind (fc_assert b ''account.balance >= fee'') (\<lambda>_.
          rbind (asset_uminus L fee) (\<lambda>m.
          rbind (adjust_balance L i m c) (\<lambda>c.
          adjust_supply L m False c))))))"

section \<open>Witness votes\<close>

definition VIRTUAL_SCHEDULE_LAP_LENGTH :: uint128 where "VIRTUAL_SCHEDULE_LAP_LENGTH = \<lparr>hi = 0, lo = - 1\<rparr>"
definition VIRTUAL_SCHEDULE_LAP_LENGTH2 :: uint128 where "VIRTUAL_SCHEDULE_LAP_LENGTH2 = \<lparr>hi = - 1, lo = - 1\<rparr>"

definition adjust_witness_vote :: "fc_lib \<Rightarrow> oid \<Rightarrow> int \<Rightarrow> chain \<Rightarrow> chain res" where
  "adjust_witness_vote L i delta c =
     (let now = ws_current_virtual_time (ch_wso c);
          lap = (if has_hardfork 2 c then VIRTUAL_SCHEDULE_LAP_LENGTH2 else VIRTUAL_SCHEDULE_LAP_LENGTH)
      in modify_witness i (\<lambda>w.
           let delta_pos = u128_mul L (u128_of_int L (w_votes w)) (u128_sub L now (w_virtual_last_update w));
               pos = u128_add L (w_virtual_position w) delta_pos
           in rbind (safe_add L (w_votes w) delta) (\<lambda>votes.
              rbind (fc_assert (votes \<le> amount (g_total_vesting_shares (ch_gpo c))) ''w.votes'') (\<lambda>_.
              rbind (u128_div L (u128_sub L lap pos) (u128_of_int L (wrap64 (votes + 1)))) (\<lambda>q.
              let t = u128_add L now q;
                  t = (if has_hardfork 4 c \<and> u128_less L t now then \<lparr>hi = - 1, lo = - 1\<rparr> else t)
              in Inr (w\<lparr>w_virtual_position := pos, w_virtual_last_update := now, w_votes := votes,
                        w_virtual_scheduled_time := t\<rparr>))))) c)"

definition adjust_witness_votes :: "fc_lib \<Rightarrow> oid \<Rightarrow> int \<Rightarrow> chain \<Rightarrow> chain res" where
  "adjust_witness_votes L i delta c =
     fold_res (\<lambda>v. adjust_witness_vote L (wv_witness v) delta)
       (sort_key wv_witness (filter (\<lambda>v. wv_account v = i) (map snd (gi_indices (ch_witness_votes c))))) c"

definition add_proxied_vote :: "fc_lib \<Rightarrow> nat \<Rightarrow> int \<Rightarrow> account_object \<Rightarrow> account_object res" where
  "add_proxied_vote L depth delta a =
     rbind (safe_add L (a_proxied_vsf_votes a ! depth) delta)
       (\<lambda>x. Inr (a\<lparr>a_proxied_vsf_votes := (a_proxied_vsf_votes a)[depth := x]\<rparr>))"

text \<open>The change travels along at most four proxies.\<close>

function adjust_proxied_witness_votes :: "fc_lib \<Rightarrow> oid \<Rightarrow> int \<Rightarrow> nat \<Rightarrow> chain \<Rightarrow> chain res" where
  "adjust_proxied_witness_votes L i delta depth c =
     rbind (account i c) (\<lambda>a.
     if a_proxy a \<noteq> STEEMIT_PROXY_TO_SELF_ACCOUNT
     then (if depth \<ge> STEEMIT_MAX_PROXY_RECURSION_DEPTH then Inr c
           else rbind (get_account (a_proxy a) c) (\<lambda>p.
                rbind (modify_account p (add_proxied_vote L depth delta) c) (\<lambda>c'.
                adjust_proxied_witness_votes L p delta (depth + 1) c')))
     else adjust_witness_votes L i delta c)"
  by pat_completeness auto

termination
  by (relation "measure (\<lambda>(L, i, d, depth, c). STEEMIT_MAX_PROXY_RECURSION_DEPTH - depth)") auto

declare adjust_proxied_witness_votes.simps [simp del]

section \<open>Vesting\<close>

definition create_vesting :: "fc_lib \<Rightarrow> oid \<Rightarrow> asset \<Rightarrow> bool \<Rightarrow> chain \<Rightarrow> (asset \<times> chain) res" where
  "create_vesting L i steem to_reward_balance c =
     rbind (if to_reward_balance then get_reward_vesting_share_price L (ch_gpo c)
            else Inr (get_vesting_share_price (ch_gpo c))) (\<lambda>p.
     rbind (asset_times_price L steem p) (\<lambda>new_vesting.
     rbind (modify_account i (\<lambda>a.
       if to_reward_balance
       then rbind (asset_plus_assign L (a_reward_vesting_balance a) new_vesting) (\<lambda>b.
            rbind (asset_plus_assign L (a_reward_vesting_steem a) steem) (\<lambda>x.
            Inr (a\<lparr>a_reward_vesting_balance := b, a_reward_vesting_steem := x\<rparr>)))
       else rbind (asset_plus_assign L (a_vesting_shares a) new_vesting) (\<lambda>b.
            Inr (a\<lparr>a_vesting_shares := b\<rparr>))) c) (\<lambda>c.
     rbind (modify_gpo (\<lambda>g.
       if to_reward_balance
       then rbind (asset_plus_assign L (g_pending_rewarded_vesting_shares g) new_vesting) (\<lambda>x.
            rbind (asset_plus_assign L (g_pending_rewarded_vesting_steem g) steem) (\<lambda>y.
            Inr (g\<lparr>g_pending_rewarded_vesting_shares := x, g_pending_rewarded_vesting_steem := y\<rparr>)))
       else rbind (asset_plus_assign L (g_total_vesting_fund_steem g) steem) (\<lambda>x.
            rbind (asset_plus_assign L (g_total_vesting_shares g) new_vesting) (\<lambda>y.
            Inr (g\<lparr>g_total_vesting_fund_steem := x, g_total_vesting_shares := y\<rparr>)))) c) (\<lambda>c.
     rbind (if to_reward_balance then Inr c else adjust_proxied_witness_votes L i (amount new_vesting) 0 c) (\<lambda>c.
     Inr (new_vesting, c))))))"

definition create_sbd :: "fc_lib \<Rightarrow> oid \<Rightarrow> asset \<Rightarrow> bool \<Rightarrow> chain \<Rightarrow> ((asset \<times> asset) \<times> chain) res" where
  "create_sbd L i steem to_reward_balance c =
     (if amount steem = 0 then Inr ((mk_asset 0 SBD_SYMBOL, mk_asset 0 STEEM_SYMBOL), c)
      else if \<not> is_null L (median_history c)
      then rbind (safe_mul L (uint (g_sbd_print_rate (ch_gpo c))) (amount steem)) (\<lambda>x.
           rbind (safe_div L x (int STEEMIT_100_PERCENT)) (\<lambda>to_sbd.
           rbind (safe_sub L (amount steem) to_sbd) (\<lambda>to_steem.
           rbind (asset_times_price L (mk_asset to_sbd STEEM_SYMBOL) (median_history c)) (\<lambda>sbd.
           let give = (if to_reward_balance then adjust_reward_balance L i else adjust_balance L i)
           in rbind (give sbd c) (\<lambda>c.
              rbind (give (mk_asset to_steem STEEM_SYMBOL) c) (\<lambda>c.
              rbind (safe_neg L to_sbd) (\<lambda>m.
              rbind (adjust_supply L (mk_asset m STEEM_SYMBOL) False c) (\<lambda>c.
              rbind (adjust_supply L sbd False c) (\<lambda>c.
              Inr ((sbd, mk_asset to_steem STEEM_SYMBOL), c))))))))))
      else rbind (adjust_balance L i steem c) (\<lambda>c. Inr ((mk_asset 0 SBD_SYMBOL, steem), c)))"

section \<open>What the functions do not touch\<close>

text \<open>The functions of this theory change accounts, witnesses, the global properties other than time
  and block number, and the log.\<close>

definition ledger_frame :: "chain \<Rightarrow> chain \<Rightarrow> bool" where
  "ledger_frame c c' \<longleftrightarrow>
     ch_witness_votes c' = ch_witness_votes c \<and> ch_converts c' = ch_converts c \<and> ch_escrows c' = ch_escrows c \<and>
     ch_savings c' = ch_savings c \<and> ch_routes c' = ch_routes c \<and> ch_declines c' = ch_declines c \<and> ch_orders c' = ch_orders c \<and> ch_delegations c' = ch_delegations c \<and>
     ch_expirations c' = ch_expirations c \<and> ch_reward_funds c' = ch_reward_funds c \<and> ch_liquidity c' = ch_liquidity c \<and>
     ch_feed c' = ch_feed c \<and> ch_wso c' = ch_wso c \<and>
     ch_hpo c' = ch_hpo c \<and> head_block_time c' = head_block_time c \<and>
     head_block_num c' = head_block_num c"

lemma ledger_frame_refl [simp]: "ledger_frame c c"
  by (simp add: ledger_frame_def)

lemma ledger_frame_trans: "ledger_frame c c' \<Longrightarrow> ledger_frame c' c'' \<Longrightarrow> ledger_frame c c''"
  by (simp add: ledger_frame_def)

lemma ledger_frame_accounts [simp]: "ledger_frame c (c\<lparr>ch_accounts := t\<rparr>)"
  by (simp add: ledger_frame_def head_block_time_def head_block_num_def)

lemma booked_push [simp]: "booked d p c (push_virtual_operation op c') \<longleftrightarrow> booked d p c c'"
  by (simp add: push_virtual_operation_def books_defs)

lemma booked_push_left [simp]: "booked d p (push_virtual_operation op c) c' \<longleftrightarrow> booked d p c c'"
  by (simp add: push_virtual_operation_def books_defs)

lemma tables_ok_push [simp]: "tables_ok (push_virtual_operation op c) = tables_ok c"
  by (simp add: push_virtual_operation_def tables_ok_def)

lemma push_fields [simp]:
  "ch_gpo (push_virtual_operation op c) = ch_gpo c" "ch_accounts (push_virtual_operation op c) = ch_accounts c"
  "ch_feed (push_virtual_operation op c) = ch_feed c"
  "account i (push_virtual_operation op c) = account i c"
  by (simp_all add: push_virtual_operation_def account_def)

lemma ledger_frame_push [simp]: "ledger_frame c (push_virtual_operation op c') \<longleftrightarrow> ledger_frame c c'"
  "ledger_frame (push_virtual_operation op c) c' \<longleftrightarrow> ledger_frame c c'"
  by (simp_all add: push_virtual_operation_def ledger_frame_def head_block_time_def head_block_num_def)

section \<open>How the functions change the books\<close>

lemma ledger_frame_gpo:
  "g_time g = g_time (ch_gpo c) \<Longrightarrow> g_head_block_number g = g_head_block_number (ch_gpo c) \<Longrightarrow>
     ledger_frame c (c\<lparr>ch_gpo := g\<rparr>)"
  by (simp add: ledger_frame_def head_block_time_def head_block_num_def)

lemma issue_interest_booked:
  assumes "safe_laws L" and "issue_interest L n interest paid c = Inr c'" and "tables_ok c"
  shows "booked (\<lambda>s. val s paid) 0 c c' \<and> ledger_frame c c' \<and> ch_accounts c' = ch_accounts c"
proof -
  define d where "d = (if u128_less L (u128_of_int L 0) interest
    then push_virtual_operation (Op_interest \<lparr>vin_owner = n, vin_interest = paid\<rparr>) c else c)"
  have d: "tables_ok d" "ch_gpo d = ch_gpo c" "\<And>e q x. booked e q d x \<longleftrightarrow> booked e q c x"
      "ledger_frame c d" "ch_accounts d = ch_accounts c"
    using assms(3) by (simp_all add: d_def)
  from assms(2) have "modify_gpo (\<lambda>p.
           rbind (asset_plus_assign L (g_current_sbd_supply p) paid) (\<lambda>s.
           rbind (asset_times_price L paid (median_history d)) (\<lambda>x.
           rbind (asset_plus_assign L (g_virtual_supply p) x) (\<lambda>v.
           Inr (p\<lparr>g_current_sbd_supply := s, g_virtual_supply := v\<rparr>))))) d = Inr c'"
    by (simp add: issue_interest_def d_def Let_def)
  from this d(1) show ?thesis
  proof (rule modify_gpo_booked)
    fix g
    assume g: "rbind (asset_plus_assign L (g_current_sbd_supply (ch_gpo d)) paid) (\<lambda>s.
           rbind (asset_times_price L paid (median_history d)) (\<lambda>x.
           rbind (asset_plus_assign L (g_virtual_supply (ch_gpo d)) x) (\<lambda>v.
           Inr ((ch_gpo d)\<lparr>g_current_sbd_supply := s, g_virtual_supply := v\<rparr>)))) = Inr g"
      and c': "c' = d\<lparr>ch_gpo := g\<rparr>"
      and b: "booked (\<lambda>s. gpo_issued s g - gpo_issued s (ch_gpo d) - gpo_holds s g + gpo_holds s (ch_gpo d))
        (val STEEM_SYMBOL (g_pending_rewarded_vesting_steem g) -
         val STEEM_SYMBOL (g_pending_rewarded_vesting_steem (ch_gpo d))) d c'"
    have "ledger_frame d c'"
      unfolding c' using g by (intro ledger_frame_gpo) (auto simp: asset_arith_iffs [OF assms(1)])
    moreover have "booked (\<lambda>s. val s paid) 0 d c'"
      using b by (rule booked_eq) (use g in \<open>auto simp: asset_arith_iffs [OF assms(1)] gpo_issued_def gpo_holds_def\<close>)
    ultimately show ?thesis using d c' by (auto intro: ledger_frame_trans)
  qed
qed

lemma accrue_sbd_booked:
  assumes "safe_laws L" and "accrue_sbd L a c = Inr (a', c')" and "tables_ok c"
  shows "booked (\<lambda>s. account_holds s a' - account_holds s a) 0 c c' \<and> ledger_frame c c' \<and>
    ch_accounts c' = ch_accounts c \<and> a_reward_vesting_steem a' = a_reward_vesting_steem a"
  using assms(2) issue_interest_booked [OF assms(1) _ assms(3)] booked_refl [OF assms(3)]
  by (fastforce simp: accrue_sbd_def Let_def asset_arith_iffs [OF assms(1)] account_holds_def
      split: if_splits elim!: booked_eq)

lemma accrue_savings_sbd_booked:
  assumes "safe_laws L" and "accrue_savings_sbd L a c = Inr (a', c')" and "tables_ok c"
  shows "booked (\<lambda>s. account_holds s a' - account_holds s a) 0 c c' \<and> ledger_frame c c' \<and>
    ch_accounts c' = ch_accounts c \<and> a_reward_vesting_steem a' = a_reward_vesting_steem a"
  using assms(2) issue_interest_booked [OF assms(1) _ assms(3)] booked_refl [OF assms(3)]
  by (fastforce simp: accrue_savings_sbd_def Let_def asset_arith_iffs [OF assms(1)] account_holds_def
      split: if_splits elim!: booked_eq)

text \<open>A change of one account books what the account holds less.\<close>

lemma modify_account_books:
  assumes "modify_account i f c = Inr c'" and "tables_ok c"
    and "\<And>a a'. account i c = Inr a \<Longrightarrow> f a = Inr a' \<Longrightarrow>
      (\<forall>s. account_holds s a' = account_holds s a + d s) \<and>
      val STEEM_SYMBOL (a_reward_vesting_steem a') = val STEEM_SYMBOL (a_reward_vesting_steem a) + p"
  shows "booked (\<lambda>s. - d s) (- p) c c' \<and> ledger_frame c c'"
  using assms(1,2)
proof (rule modify_account_booked)
  fix a a' t
  assume a: "account i c = Inr a" "f a = Inr a'" "c' = c\<lparr>ch_accounts := t\<rparr>"
    "booked (\<lambda>s. account_holds s a - account_holds s a')
      (val STEEM_SYMBOL (a_reward_vesting_steem a) - val STEEM_SYMBOL (a_reward_vesting_steem a')) c c'"
  show ?thesis using a(3) booked_eq [OF a(4)] assms(3) [OF a(1,2)] by simp
qed

text \<open>The state and the account that an accrual leaves, with the account then written back.\<close>

lemma accrued_books:
  assumes "account i c = Inr a" and "modify_account i (\<lambda>_. Inr a'') c1 = Inr c'"
    and "booked (\<lambda>s. account_holds s a' - account_holds s a) 0 c c1" and "ledger_frame c c1"
    and "ch_accounts c1 = ch_accounts c" and "a_reward_vesting_steem a' = a_reward_vesting_steem a"
    and "\<And>s. account_holds s a'' = account_holds s a' + d s" and "a_reward_vesting_steem a'' = a_reward_vesting_steem a'"
  shows "booked (\<lambda>s. - d s) 0 c c' \<and> ledger_frame c c'"
proof -
  have a: "account i c1 = Inr a" using assms(1,5) by (simp add: account_def)
  have "booked (\<lambda>s. - (account_holds s a'' - account_holds s a)) (- 0) c1 c' \<and> ledger_frame c1 c'"
    using assms(2) booked_tables [OF assms(3)]
    by (rule modify_account_books) (use a assms(6,8) in auto)
  then show ?thesis
    using assms(3,4,7) by (auto elim!: booked_eq intro: ledger_frame_trans dest!: booked_trans [OF assms(3)])
qed

lemma adjust_balance_booked:
  assumes "safe_laws L" and "adjust_balance L i x c = Inr c'" and "tables_ok c"
  shows "booked (\<lambda>s. - val s x) 0 c c' \<and> ledger_frame c c'"
proof (cases "symbol x = STEEM_SYMBOL")
  case True
  then have "modify_account i (\<lambda>a. rbind (asset_plus_assign L (a_balance a) x) (\<lambda>b. Inr (a\<lparr>a_balance := b\<rparr>))) c = Inr c'"
    using assms(2) by (simp add: adjust_balance_def)
  from modify_account_books [OF this assms(3), of "\<lambda>s. val s x" 0] show ?thesis
    by (auto simp: asset_arith_iffs [OF assms(1)] account_holds_def)
next
  case False
  then obtain a a' c1 b where a: "account i c = Inr a" "accrue_sbd L a c = Inr (a', c1)"
    "asset_plus_assign L (a_sbd_balance a') x = Inr b"
    "modify_account i (\<lambda>_. Inr (a'\<lparr>a_sbd_balance := b\<rparr>)) c1 = Inr c'"
    using assms(2) by (auto simp: adjust_balance_def split: if_splits)
  from accrue_sbd_booked [OF assms(1) a(2) assms(3)] show ?thesis
    by (intro accrued_books [where a' = a' and d = "\<lambda>s. val s x", OF a(1,4)])
      (use a(3) in \<open>auto simp: asset_arith_iffs [OF assms(1)] account_holds_def\<close>)
qed

lemma adjust_savings_balance_booked:
  assumes "safe_laws L" and "adjust_savings_balance L i x c = Inr c'" and "tables_ok c"
  shows "booked (\<lambda>s. - val s x) 0 c c' \<and> ledger_frame c c'"
proof (cases "symbol x = STEEM_SYMBOL")
  case True
  then have "modify_account i (\<lambda>a. rbind (asset_plus_assign L (a_savings_balance a) x)
      (\<lambda>b. Inr (a\<lparr>a_savings_balance := b\<rparr>))) c = Inr c'"
    using assms(2) by (simp add: adjust_savings_balance_def)
  from modify_account_books [OF this assms(3), of "\<lambda>s. val s x" 0] show ?thesis
    by (auto simp: asset_arith_iffs [OF assms(1)] account_holds_def)
next
  case False
  then obtain a a' c1 b where a: "account i c = Inr a" "accrue_savings_sbd L a c = Inr (a', c1)"
    "asset_plus_assign L (a_savings_sbd_balance a') x = Inr b"
    "modify_account i (\<lambda>_. Inr (a'\<lparr>a_savings_sbd_balance := b\<rparr>)) c1 = Inr c'"
    using assms(2) by (auto simp: adjust_savings_balance_def split: if_splits)
  from accrue_savings_sbd_booked [OF assms(1) a(2) assms(3)] show ?thesis
    by (intro accrued_books [where a' = a' and d = "\<lambda>s. val s x", OF a(1,4)])
      (use a(3) in \<open>auto simp: asset_arith_iffs [OF assms(1)] account_holds_def\<close>)
qed

lemma adjust_reward_balance_booked:
  assumes "safe_laws L" and "adjust_reward_balance L i x c = Inr c'" and "tables_ok c"
  shows "booked (\<lambda>s. - val s x) 0 c c' \<and> ledger_frame c c'"
proof -
  obtain f where f: "modify_account i f c = Inr c'"
    and "\<And>a a'. f a = Inr a' \<Longrightarrow> (\<forall>s. account_holds s a' = account_holds s a + val s x) \<and>
      a_reward_vesting_steem a' = a_reward_vesting_steem a"
    using assms(2)
    by (fastforce simp: adjust_reward_balance_def asset_arith_iffs [OF assms(1)] account_holds_def split: if_splits)
  with modify_account_books [OF f assms(3), of "\<lambda>s. val s x" 0] show ?thesis by auto
qed

lemma take_balance_booked:
  assumes "safe_laws L" and "take_balance L i x c = Inr c'" and "tables_ok c"
  shows "booked (\<lambda>s. val s x) 0 c c' \<and> ledger_frame c c'"
proof -
  have "adjust_balance L i (mk_asset (- amount x) (symbol x)) c = Inr c'"
    using assms(2) by (auto simp: take_balance_def asset_arith_iffs [OF assms(1)])
  from adjust_balance_booked [OF assms(1) this assms(3)] show ?thesis by simp
qed

lemma modify_gpo_books:
  assumes "modify_gpo f c = Inr c'" and "tables_ok c"
    and "\<And>g. f (ch_gpo c) = Inr g \<Longrightarrow>
      (\<forall>s. gpo_issued s g - gpo_holds s g = gpo_issued s (ch_gpo c) - gpo_holds s (ch_gpo c) + d s) \<and>
      val STEEM_SYMBOL (g_pending_rewarded_vesting_steem g) =
        val STEEM_SYMBOL (g_pending_rewarded_vesting_steem (ch_gpo c)) + p \<and>
      g_time g = g_time (ch_gpo c) \<and> g_head_block_number g = g_head_block_number (ch_gpo c)"
  shows "booked d p c c' \<and> ledger_frame c c'"
  using assms(1,2)
proof (rule modify_gpo_booked)
  fix g
  assume g: "f (ch_gpo c) = Inr g" "c' = c\<lparr>ch_gpo := g\<rparr>"
    "booked (\<lambda>s. gpo_issued s g - gpo_issued s (ch_gpo c) - gpo_holds s g + gpo_holds s (ch_gpo c))
      (val STEEM_SYMBOL (g_pending_rewarded_vesting_steem g) -
       val STEEM_SYMBOL (g_pending_rewarded_vesting_steem (ch_gpo c))) c c'"
  note g' = assms(3) [OF g(1)]
  have "booked d p c c'" using g(3) by (rule booked_eq) (use g' in \<open>auto simp: algebra_simps\<close>)
  then show ?thesis using g(2) g' by (simp add: ledger_frame_gpo)
qed

lemma adjust_supply_booked:
  assumes "safe_laws L" and "adjust_supply L x v c = Inr c'" and "tables_ok c"
  shows "booked (\<lambda>s. val s x) 0 c c' \<and> ledger_frame c c'"
proof -
  obtain f where f: "modify_gpo f c = Inr c'"
    and "\<And>g g'. f g = Inr g' \<Longrightarrow>
      (\<forall>s. gpo_issued s g' - gpo_holds s g' = gpo_issued s g - gpo_holds s g + val s x) \<and>
      g_pending_rewarded_vesting_steem g' = g_pending_rewarded_vesting_steem g \<and>
      g_time g' = g_time g \<and> g_head_block_number g' = g_head_block_number g"
    using assms(2)
    by (fastforce simp: adjust_supply_def Let_def asset_arith_iffs [OF assms(1)] gpo_issued_def gpo_holds_def split: if_splits)
  with modify_gpo_books [OF f assms(3), of "\<lambda>s. val s x" 0] show ?thesis by auto
qed

lemma pay_fee_booked:
  assumes "safe_laws L" and "pay_fee L i x c = Inr c'" and "tables_ok c"
  shows "booked (\<lambda>_. 0) 0 c c' \<and> ledger_frame c c'"
proof (cases "amount x = 0")
  case True
  then show ?thesis using assms by (auto simp: pay_fee_def booked_refl)
next
  case False
  then obtain m c1 where m: "asset_uminus L x = Inr m" "adjust_balance L i m c = Inr c1"
    "adjust_supply L m False c1 = Inr c'"
    using assms(2) by (auto simp: pay_fee_def)
  note 1 = adjust_balance_booked [OF assms(1) m(2) assms(3)]
  note 2 = adjust_supply_booked [OF assms(1) m(3) booked_tables [OF conjunct1 [OF 1]]]
  show ?thesis using 1 2 booked_trans [OF conjunct1 [OF 1] conjunct1 [OF 2]] by (auto intro: ledger_frame_trans)
qed

text \<open>Steps that leave the books alone, and their composition.\<close>

definition bookless :: "chain \<Rightarrow> chain \<Rightarrow> bool" where
  "bookless c c' \<longleftrightarrow> booked (\<lambda>_. 0) 0 c c' \<and> ledger_frame c c'"

lemma bookless_refl: "tables_ok c \<Longrightarrow> bookless c c"
  by (simp add: bookless_def booked_refl)

lemma bookless_trans: "bookless c c' \<Longrightarrow> bookless c' c'' \<Longrightarrow> bookless c c''"
  by (auto simp: bookless_def booked_def intro: ledger_frame_trans)

lemma bookless_tables: "bookless c c' \<Longrightarrow> tables_ok c'"
  by (simp add: bookless_def booked_def)

lemma fold_res_bookless:
  assumes "\<And>x c c'. f x c = Inr c' \<Longrightarrow> tables_ok c \<Longrightarrow> bookless c c'"
  shows "fold_res f xs c = Inr c' \<Longrightarrow> tables_ok c \<Longrightarrow> bookless c c'"
  by (induction xs arbitrary: c)
    (auto simp: bookless_refl intro: bookless_trans assms bookless_tables)

lemma adjust_witness_vote_bookless:
  "adjust_witness_vote L i delta c = Inr c' \<Longrightarrow> tables_ok c \<Longrightarrow> bookless c c'"
  by (auto simp: adjust_witness_vote_def modify_witness_def Let_def bookless_def books_defs ledger_frame_def
      head_block_time_def head_block_num_def)

lemma adjust_witness_votes_bookless:
  assumes "adjust_witness_votes L i delta c = Inr c'" and "tables_ok c"
  shows "bookless c c'"
  using assms fold_res_bookless [of "\<lambda>v. adjust_witness_vote L (wv_witness v) delta"] adjust_witness_vote_bookless
  unfolding adjust_witness_votes_def by blast

lemma modify_account_bookless:
  assumes "modify_account i f c = Inr c'" and "tables_ok c"
    and "\<And>a a'. f a = Inr a' \<Longrightarrow> (\<forall>s. account_holds s a' = account_holds s a) \<and>
      a_reward_vesting_steem a' = a_reward_vesting_steem a"
  shows "bookless c c'"
  using modify_account_books [OF assms(1,2), of "\<lambda>_. 0" 0] assms(3) by (simp add: bookless_def)

lemma add_proxied_vote_bookless:
  assumes "modify_account i (add_proxied_vote L depth delta) c = Inr c'" and "tables_ok c"
  shows "bookless c c'"
  using assms by (rule modify_account_bookless) (auto simp: add_proxied_vote_def account_holds_def)

lemma adjust_proxied_witness_votes_bookless:
  "adjust_proxied_witness_votes L i delta depth c = Inr c' \<Longrightarrow> tables_ok c \<Longrightarrow> bookless c c'"
proof (induction L i delta depth c arbitrary: c' rule: adjust_proxied_witness_votes.induct)
  case (1 L i delta depth c)
  note step = 1(2) [unfolded adjust_proxied_witness_votes.simps [of L i delta depth c]]
  obtain a where a: "account i c = Inr a" using step by auto
  show ?case
  proof (cases "a_proxy a \<noteq> STEEMIT_PROXY_TO_SELF_ACCOUNT \<and> \<not> STEEMIT_MAX_PROXY_RECURSION_DEPTH \<le> depth")
    case True
    then obtain p c1 where p: "get_account (a_proxy a) c = Inr p"
      "modify_account p (add_proxied_vote L depth delta) c = Inr c1"
      "adjust_proxied_witness_votes L p delta (depth + 1) c1 = Inr c'"
      using step a by auto
    have "bookless c c1" using p(2) 1(3) by (rule add_proxied_vote_bookless)
    with 1(1) [OF _ _ p(3), of a] True show ?thesis by (blast intro: bookless_trans bookless_tables)
  next
    case False
    then have "c' = c \<or> adjust_witness_votes L i delta c = Inr c'" using step a by (auto split: if_splits)
    then show ?thesis using 1(3) by (auto intro: bookless_refl adjust_witness_votes_bookless)
  qed
qed

lemma create_vesting_booked:
  assumes "safe_laws L" and "create_vesting L i steem r c = Inr (v, c')" and "tables_ok c"
  shows "booked (\<lambda>s. - val s steem) 0 c c' \<and> ledger_frame c c'"
proof -
  define p where "p = (if r then val STEEM_SYMBOL steem else 0)"
  obtain f g c1 c2 where f: "modify_account i f c = Inr c1"
    and f': "\<And>a a'. f a = Inr a' \<Longrightarrow> (\<forall>s. account_holds s a' = account_holds s a + val s v) \<and>
      val STEEM_SYMBOL (a_reward_vesting_steem a') = val STEEM_SYMBOL (a_reward_vesting_steem a) + p"
    and g: "modify_gpo g c1 = Inr c2"
    and g': "\<And>x x'. g x = Inr x' \<Longrightarrow> (\<forall>s. gpo_issued s x' - gpo_holds s x' = gpo_issued s x - gpo_holds s x + (val s v - val s steem)) \<and>
      val STEEM_SYMBOL (g_pending_rewarded_vesting_steem x') = val STEEM_SYMBOL (g_pending_rewarded_vesting_steem x) + p \<and>
      g_time x' = g_time x \<and> g_head_block_number x' = g_head_block_number x"
    and h: "c' = c2 \<or> adjust_proxied_witness_votes L i (amount v) 0 c2 = Inr c'"
    using assms(2)
    by (fastforce simp: create_vesting_def p_def asset_arith_iffs [OF assms(1)] account_holds_def gpo_issued_def gpo_holds_def
        split: if_splits)
  have 1: "booked (\<lambda>s. - val s v) (- p) c c1 \<and> ledger_frame c c1"
    using f assms(3) by (rule modify_account_books) (use f' in auto)
  have 2: "booked (\<lambda>s. val s v - val s steem) p c1 c2 \<and> ledger_frame c1 c2"
    using g booked_tables [OF conjunct1 [OF 1]] by (rule modify_gpo_books) (use g' in auto)
  have "bookless c2 c'"
    using h 2 by (auto intro: bookless_refl adjust_proxied_witness_votes_bookless booked_tables)
  with 1 2 show ?thesis by (auto simp: bookless_def booked_def intro: ledger_frame_trans)
qed

lemma booked_then:
  assumes "booked d p c c1 \<and> ledger_frame c c1" and "tables_ok c1 \<Longrightarrow> booked e q c1 c2 \<and> ledger_frame c1 c2"
  shows "booked (\<lambda>s. d s + e s) (p + q) c c2 \<and> ledger_frame c c2"
  using assms by (auto intro: booked_trans ledger_frame_trans booked_tables)

lemmas booked_moves = adjust_balance_booked adjust_savings_balance_booked adjust_reward_balance_booked
  adjust_supply_booked create_vesting_booked

lemma create_sbd_booked:
  assumes "safe_laws L" and "create_sbd L i steem r c = Inr (v, c')" and "tables_ok c" and "symbol steem = STEEM_SYMBOL"
  shows "booked (\<lambda>s. - val s steem) 0 c c' \<and> ledger_frame c c'"
proof -
  note give = booked_moves [OF assms(1)]
  consider "amount steem = 0" "c' = c" | "adjust_balance L i steem c = Inr c'"
    | "amount steem \<noteq> 0" "\<not> is_null L (median_history c)"
    using assms(2) by (auto simp: create_sbd_def split: if_splits)
  then show ?thesis
  proof cases
    case 1
    then show ?thesis using assms(3) by (auto simp: booked_refl val_def cong: if_cong)
  next
    case 2
    then show ?thesis using give(1) assms(3) by blast
  next
    case 3
    define give where "give = (if r then adjust_reward_balance L i else adjust_balance L i)"
    have g: "booked (\<lambda>s. - val s x) 0 c c' \<and> ledger_frame c c'" if "give x c = Inr c'" "tables_ok c" for x c c'
      using that booked_moves [OF assms(1)] by (auto simp: give_def split: if_splits)
    obtain to_sbd to_steem sbd c1 c2 c3 where m: "give sbd c = Inr c1" "give (mk_asset to_steem STEEM_SYMBOL) c1 = Inr c2"
      "adjust_supply L (mk_asset (- to_sbd) STEEM_SYMBOL) False c2 = Inr c3" "adjust_supply L sbd False c3 = Inr c'"
      "to_steem = amount steem - to_sbd"
      using assms(2) 3 by (fastforce simp: create_sbd_def Let_def give_def [symmetric] safe_iffs [OF assms(1)])
    have st: "val s steem = val s (mk_asset to_sbd STEEM_SYMBOL) + val s (mk_asset to_steem STEEM_SYMBOL)" for s
      using m(5) assms(4) by (simp add: val_def)
    from booked_then [OF booked_then [OF booked_then [OF g [OF m(1) assms(3)] g [OF m(2)]]
      adjust_supply_booked [OF assms(1) m(3)]] adjust_supply_booked [OF assms(1) m(4)]]
    show ?thesis by (auto simp: st elim!: booked_eq)
  qed
qed

section \<open>Loops over an index\<close>

text \<open>The loops of the block processing take the first object of an index until it is not yet due.
  They end because every turn removes the object.\<close>

lemma rbind_cong [fundef_cong]: "x = y \<Longrightarrow> (\<And>v. y = Inr v \<Longrightarrow> f v = g v) \<Longrightarrow> rbind x f = rbind y g"
  by (cases y) auto

lemma issue_interest_frame: "issue_interest L n interest paid c = Inr c' \<Longrightarrow> ledger_frame c c'"
  by (auto simp: issue_interest_def modify_gpo_def Let_def push_virtual_operation_def ledger_frame_def
      head_block_time_def head_block_num_def split: if_splits)

lemma modify_account_frame: "modify_account i f c = Inr c' \<Longrightarrow> ledger_frame c c'"
  by (auto simp: modify_account_def)

lemma adjust_balance_frame: "adjust_balance L i x c = Inr c' \<Longrightarrow> ledger_frame c c'"
  by (fastforce simp: adjust_balance_def accrue_sbd_def Let_def split: if_splits
      dest: issue_interest_frame modify_account_frame intro: ledger_frame_trans)

lemma adjust_savings_balance_frame: "adjust_savings_balance L i x c = Inr c' \<Longrightarrow> ledger_frame c c'"
  by (fastforce simp: adjust_savings_balance_def accrue_savings_sbd_def Let_def split: if_splits
      dest: issue_interest_frame modify_account_frame intro: ledger_frame_trans)

lemma db_remove_length:
  assumes "db_remove i t = Inr t'"
  shows "length (gi_indices t') < length (gi_indices t)"
proof -
  have "remove_obj i t = (Inr (), t')" using assms by (auto simp: db_remove_def)
  then obtain v where v: "fm_find (gi_indices t) i = Some v" and t': "gi_indices t' = fm_erase i (gi_indices t)"
    by (auto simp: remove_obj_def find_obj_def Let_def split: option.splits)
  have "length (fm_erase k m) < length m" if "fm_find m k = Some v" for k and m :: "(oid \<times> 'a) list"
    using that fm_find_None [of m k] length_filter_less [of _ m "\<lambda>e. fst e \<noteq> k"] by (force simp: fm_erase_def)
  with v t' show ?thesis by simp
qed

text \<open>The contract of such a loop: \<open>due\<close> names the object to handle next, and handling it makes the
  index smaller.  What every turn keeps holds at the end, and nothing is due then.\<close>

locale worklist =
  fixes due :: "'s \<Rightarrow> 'i option" and handle :: "'i \<Rightarrow> 's \<Rightarrow> 's res" and loop :: "'s \<Rightarrow> 's res" and size_of :: "'s \<Rightarrow> nat"
  assumes unfold: "loop s = (case due s of None \<Rightarrow> Inr s | Some i \<Rightarrow> rbind (handle i s) loop)"
    and shrinks: "due s = Some i \<Longrightarrow> handle i s = Inr t \<Longrightarrow> size_of t < size_of s"
begin

lemma loop_keeps:
  assumes "loop s = Inr t" and "P s"
    and "\<And>i s t. due s = Some i \<Longrightarrow> handle i s = Inr t \<Longrightarrow> P s \<Longrightarrow> P t"
  shows "P t \<and> due t = None"
  using assms(1,2)
proof (induction "size_of s" arbitrary: s rule: less_induct)
  case less
  show ?case
  proof (cases "due s")
    case None
    then show ?thesis using less.prems unfold [of s] by simp
  next
    case (Some i)
    then obtain u where u: "handle i s = Inr u" "loop u = Inr t" using less.prems(1) unfold [of s] by auto
    from less.hyps [OF shrinks [OF Some u(1)] u(2)] assms(3) [OF Some u(1) less.prems(2)] show ?thesis .
  qed
qed

lemma loop_throws:
  assumes "loop s = Inl e"
  shows "\<exists>i u. due u = Some i \<and> handle i u = Inl e"
  using assms
proof (induction "size_of s" arbitrary: s rule: less_induct)
  case less
  then obtain i where i: "due s = Some i" "rbind (handle i s) loop = Inl e"
    using unfold [of s] by (auto split: option.splits)
  show ?case
  proof (cases "handle i s")
    case (Inr u)
    then show ?thesis using less.hyps [OF shrinks [OF i(1) Inr]] i(2) by simp
  qed (use i in auto)
qed

end

section \<open>A small chain\<close>

text \<open>Three accounts; the one of \<open>alice\<close> holds all the STEEM, SBD and vesting shares.\<close>

definition demo_account :: "oid \<Rightarrow> account_name_type \<Rightarrow> int \<Rightarrow> int \<Rightarrow> int \<Rightarrow> account_object" where
  "demo_account i n steem sbd vests =
     \<lparr>a_id = i, a_name = n, a_memo_key = 0, a_json_metadata = '''', a_proxy = '''', a_last_account_update = 0,
      a_created = 0, a_mined = False, a_owner_challenged = False, a_active_challenged = False,
      a_last_owner_proved = 0, a_last_active_proved = 0, a_recovery_account = '''',
      a_reset_account = STEEMIT_NULL_ACCOUNT, a_last_account_recovery = 0, a_comment_count = 0,
      a_lifetime_vote_count = 0, a_post_count = 0, a_can_vote = True, a_voting_power = 10000, a_last_vote_time = 0,
      a_balance = mk_asset steem STEEM_SYMBOL, a_savings_balance = mk_asset 0 STEEM_SYMBOL,
      a_sbd_balance = mk_asset sbd SBD_SYMBOL, a_sbd_seconds = \<lparr>hi = 0, lo = 0\<rparr>, a_sbd_seconds_last_update = 1000,
      a_sbd_last_interest_payment = 1000, a_savings_sbd_balance = mk_asset 0 SBD_SYMBOL,
      a_savings_sbd_seconds = \<lparr>hi = 0, lo = 0\<rparr>, a_savings_sbd_seconds_last_update = 1000,
      a_savings_sbd_last_interest_payment = 1000, a_savings_withdraw_requests = 0,
      a_reward_sbd_balance = mk_asset 0 SBD_SYMBOL, a_reward_steem_balance = mk_asset 0 STEEM_SYMBOL,
      a_reward_vesting_balance = mk_asset 0 VESTS_SYMBOL, a_reward_vesting_steem = mk_asset 0 STEEM_SYMBOL,
      a_curation_rewards = 0, a_posting_rewards = 0,
      a_vesting_shares = mk_asset vests VESTS_SYMBOL, a_delegated_vesting_shares = mk_asset 0 VESTS_SYMBOL,
      a_received_vesting_shares = mk_asset 0 VESTS_SYMBOL, a_vesting_withdraw_rate = mk_asset 0 VESTS_SYMBOL,
      a_next_vesting_withdrawal = time_maximum, a_withdrawn = 0, a_to_withdraw = 0, a_withdraw_routes = 0,
      a_proxied_vsf_votes = [0, 0, 0, 0], a_witnesses_voted_for = 0, a_last_post = 0, a_last_root_post = 0,
      a_post_bandwidth = 0\<rparr>"

definition demo_gpo :: dynamic_global_property_object where
  "demo_gpo =
     \<lparr>g_head_block_number = 10, g_head_block_id = [], g_time = 1000, g_current_witness = ''alice'',
      g_total_pow = - 1, g_num_pow_witnesses = 0,
      g_virtual_supply = mk_asset 2500 STEEM_SYMBOL, g_current_supply = mk_asset 2000 STEEM_SYMBOL,
      g_confidential_supply = mk_asset 0 STEEM_SYMBOL,
      g_current_sbd_supply = mk_asset 500 SBD_SYMBOL, g_confidential_sbd_supply = mk_asset 0 SBD_SYMBOL, g_total_vesting_fund_steem = mk_asset 1000 STEEM_SYMBOL,
      g_total_vesting_shares = mk_asset 3000000 VESTS_SYMBOL, g_total_reward_fund_steem = mk_asset 0 STEEM_SYMBOL,
      g_total_reward_shares2 = \<lparr>hi = 0, lo = 0\<rparr>,
      g_pending_rewarded_vesting_shares = mk_asset 0 VESTS_SYMBOL, g_pending_rewarded_vesting_steem = mk_asset 0 STEEM_SYMBOL,
      g_sbd_interest_rate = 1000, g_sbd_print_rate = 10000, g_maximum_block_size = 131072, g_current_aslot = 10,
      g_recent_slots_filled = \<lparr>hi = - 1, lo = - 1\<rparr>, g_participation_count = 128, g_last_irreversible_block_num = 0,
      g_vote_power_reserve_rate = 40\<rparr>"

definition demo_schedule :: witness_schedule_object where
  "demo_schedule =
     \<lparr>ws_current_virtual_time = \<lparr>hi = 0, lo = 0\<rparr>, ws_next_shuffle_block_num = 1,
      ws_current_shuffled_witnesses = [''alice''], ws_num_scheduled_witnesses = 1,
      ws_top19_weight = 1, ws_timeshare_weight = 5, ws_miner_weight = 1, ws_witness_pay_normalization_factor = 25,
      ws_median_props = \<lparr>cp_account_creation_fee = mk_asset 1 STEEM_SYMBOL, cp_maximum_block_size = 131072,
                         cp_sbd_interest_rate = 1000\<rparr>,
      ws_majority_version = new_version 0 0 0, ws_max_voted_witnesses = 19, ws_max_miner_witnesses = 1, ws_max_runner_witnesses = 1,
      ws_hardfork_required_witnesses = 17\<rparr>"

definition demo_hardforks :: hardfork_property_object where
  "demo_hardforks = \<lparr>h_processed_hardforks = replicate 20 0, h_last_hardfork = 19, h_current_hardfork_version = new_hardfork_version 0 19,
     h_next_hardfork = new_hardfork_version 0 19, h_next_hardfork_time = 0\<rparr>"

definition demo_index :: "'v list \<Rightarrow> 'v generic_index" where
  "demo_index vs = \<lparr>gi_stack = [], gi_revision = 0, gi_next_id = length vs, gi_indices = zip [0..<length vs] vs\<rparr>"

definition demo_chain :: chain where
  "demo_chain =
     \<lparr>ch_accounts = demo_index [demo_account 0 ''alice'' 1000 500 3000000, demo_account 1 ''bob'' 0 0 0,
        demo_account 2 ''carol'' 0 0 0],
      ch_witnesses = demo_index [], ch_witness_votes = demo_index [], ch_converts = demo_index [],
      ch_escrows = demo_index [], ch_savings = demo_index [], ch_liquidity = demo_index [],
      ch_orders = demo_index [], ch_routes = demo_index [], ch_declines = demo_index [],
      ch_delegations = demo_index [], ch_expirations = demo_index [], ch_reward_funds = demo_index [],
      ch_gpo = demo_gpo, ch_feed = \<lparr>fh_current_median_history = mk_price (mk_asset 1000 SBD_SYMBOL) (mk_asset 1000 STEEM_SYMBOL),
        fh_price_history = []\<rparr>,
      ch_wso = demo_schedule, ch_hpo = demo_hardforks, ch_virtual_ops = []\<rparr>"

lemmas demo_defs = demo_chain_def demo_gpo_def demo_account_def demo_index_def demo_schedule_def demo_hardforks_def

text \<open>What the simplifier needs to run an operation on this chain.\<close>

lemmas demo_eval = demo_defs upt_rec Let_def fc_assert_def checked_op_def in_i64_def
  get_account_def get_by_def find_by_def account_def get_obj_def find_obj_def
  db_modify_def db_create_def db_remove_def returned_def modify_def emplace_def remove_obj_def idx_modify_def idx_emplace_def
  fm_erase_def on_head_def account_clash_def modify_account_def modify_gpo_def
  has_funds_def get_balance_def take_balance_def adjust_balance_def accrue_sbd_def head_block_time_def
  asset_uminus_def asset_plus_assign_def asset_plus_def asset_minus_def asset_minus_assign_def
  asset_ge_def asset_less_def asset_le_def asset_greater_def asset_eq_def

lemma fc_ref_safe [simp]:
  "safe_add fc_ref a b = checked_op (a + b)" "safe_sub fc_ref a b = checked_op (a - b)" "safe_neg fc_ref a = checked_op (- a)"
  by (simp_all add: fc_ref_def)

lemma returns: "\<not> isl r \<Longrightarrow> \<exists>x. r = Inr x"
  by (cases r) auto

lemma demo_balanced: "balanced demo_chain"
  by (simp add: demo_defs balanced_def tables_ok_def tbl_ok_def fm_ok_def gap_def pending_gap_def holdings_def
      gpo_issued_def gpo_holds_def tsum_def account_holds_def val_def symbol_values upt_rec)

end
