(* ===== verification/Market.thy ===== *)
theory Market
  imports Balances Operations_Validate
begin

text \<open>
  The internal market of \<open>chain/database.cpp\<close>: \<open>apply_order\<close>, \<open>match\<close>, \<open>adjust_liquidity_reward\<close>,
  \<open>fill_order\<close>, \<open>cancel_order\<close> and \<open>clear_expired_orders\<close>, and the evaluators of the limit order
  operations in \<open>chain/steem_evaluator.cpp\<close>.

  An order is named by its id.  The \<open>assert\<close>s of \<open>match\<close> are compiled out of a release build and are
  not part of the definitions; what they claim of the result is a theorem.  The matching loop walks a
  range of the price index while it changes the orders of that range; no order is created and no
  price changes meanwhile, and an order is only removed after the iterator has passed it, so the walk
  is over the range as it is at the start.
\<close>

section \<open>The price index\<close>

primrec insert_by :: "('a \<Rightarrow> 'a \<Rightarrow> bool) \<Rightarrow> 'a \<Rightarrow> 'a list \<Rightarrow> 'a list" where
  "insert_by before x [] = [x]"
| "insert_by before x (y # ys) = (if before y x then y # insert_by before x ys else x # y # ys)"

definition sort_by :: "('a \<Rightarrow> 'a \<Rightarrow> bool) \<Rightarrow> 'a list \<Rightarrow> 'a list" where
  "sort_by before xs = foldr (insert_by before) xs []"

text \<open>Highest price first; orders of the same price in the order of their ids.\<close>

definition by_price :: "fc_lib \<Rightarrow> limit_order_object generic_index \<Rightarrow> (oid \<times> limit_order_object) list" where
  "by_price L t = sort_by (\<lambda>x y. price_greater L (o_sell_price (snd x)) (o_sell_price (snd y))) (gi_indices t)"

text \<open>The elements from \<open>lower_bound highest\<close> up to \<open>upper_bound lowest\<close>.  The two are in this order
  unless an order of the book is priced between them with \<open>lowest\<close> above \<open>highest\<close>; its seller would have to own more
  than \<open>STEEMIT_MAX_SHARE_SUPPLY\<close> of an asset.\<close>

definition price_range :: "fc_lib \<Rightarrow> price \<Rightarrow> price \<Rightarrow> (oid \<times> limit_order_object) list \<Rightarrow> (oid \<times> limit_order_object) list" where
  "price_range L highest lowest xs =
     takeWhile (\<lambda>x. \<not> price_greater L lowest (o_sell_price (snd x)))
       (dropWhile (\<lambda>x. price_greater L (o_sell_price (snd x)) highest) xs)"

section \<open>Filling and cancelling\<close>

definition limit_order :: "oid \<Rightarrow> chain \<Rightarrow> limit_order_object res" where
  "limit_order i c = get_obj i (ch_orders c)"

definition cancel_order :: "fc_lib \<Rightarrow> oid \<Rightarrow> chain \<Rightarrow> chain res" where
  "cancel_order L i c =
     rbind (limit_order i c) (\<lambda>ord.
     rbind (get_account (o_seller ord) c) (\<lambda>a.
     rbind (adjust_balance L a (amount_for_sale ord) c) (\<lambda>c.
     remove_order i c)))"

definition fill_order :: "fc_lib \<Rightarrow> oid \<Rightarrow> asset \<Rightarrow> asset \<Rightarrow> chain \<Rightarrow> (bool \<times> chain) res" where
  "fill_order L i pays receives c =
     rbind (limit_order i c) (\<lambda>ord.
     rbind (fc_assert (symbol (amount_for_sale ord) = symbol pays) ''order.amount_for_sale().symbol == pays.symbol'') (\<lambda>_.
     rbind (fc_assert (symbol pays \<noteq> symbol receives) ''pays.symbol != receives.symbol'') (\<lambda>_.
     rbind (get_account (o_seller ord) c) (\<lambda>seller.
     rbind (adjust_balance L seller receives c) (\<lambda>c.
     if asset_eq pays (amount_for_sale ord)
     then rbind (remove_order i c) (\<lambda>c. Inr (True, c))
     else rbind (modify_order i (\<lambda>b.
            rbind (safe_sub L (o_for_sale b) (amount pays)) (\<lambda>x. Inr (b\<lparr>o_for_sale := x\<rparr>))) c) (\<lambda>c.
          rbind (limit_order i c) (\<lambda>ord.
          rbind (amount_to_receive L ord) (\<lambda>r.
          if amount r = 0
          then rbind (cancel_order L i c) (\<lambda>c. Inr (True, c))
          else Inr (False, c)))))))))"

section \<open>Liquidity rewards\<close>

definition add_volume :: "bool \<Rightarrow> asset \<Rightarrow> liquidity_reward_balance_object \<Rightarrow> liquidity_reward_balance_object" where
  "add_volume is_sdb volume r =
     (if is_sdb then r\<lparr>lr_sbd_volume := wrap64 (lr_sbd_volume r + amount volume)\<rparr>
      else r\<lparr>lr_steem_volume := wrap64 (lr_steem_volume r + amount volume)\<rparr>)"

definition adjust_liquidity_reward :: "fc_lib \<Rightarrow> oid \<Rightarrow> asset \<Rightarrow> bool \<Rightarrow> chain \<Rightarrow> chain res" where
  "adjust_liquidity_reward L owner volume is_sdb c =
     (let now = head_block_time c in
      case find_by (\<lambda>r. lr_owner r = owner) (ch_liquidity c) of
        Some i \<Rightarrow>
          rbind (db_modify liquidity_clash i (\<lambda>r.
            let r = (if time_minus L now (lr_last_update r) \<ge> STEEMIT_LIQUIDITY_TIMEOUT_SEC
                     then r\<lparr>lr_sbd_volume := 0, lr_steem_volume := 0, lr_weight := u128_of_int L 0\<rparr> else r);
                r = update_weight L (has_hardfork 10 c) (add_volume is_sdb volume r)
            in Inr (r\<lparr>lr_last_update := now\<rparr>)) (ch_liquidity c)) (\<lambda>t. Inr (c\<lparr>ch_liquidity := t\<rparr>))
      | None \<Rightarrow>
          rbind (db_create liquidity_clash (\<lambda>i.
            let r = \<lparr>lr_id = i, lr_owner = owner, lr_steem_volume = (if is_sdb then 0 else amount volume),
                     lr_sbd_volume = (if is_sdb then amount volume else 0), lr_weight = u128_of_int L 0,
                     lr_last_update = 0\<rparr>
            in (update_weight L (has_hardfork 9 c) r)\<lparr>lr_last_update := now\<rparr>) (ch_liquidity c))
            (\<lambda>(_, t). Inr (c\<lparr>ch_liquidity := t\<rparr>)))"

text \<open>The part of \<open>match\<close> that rewards the maker of the market; it is off since hard fork 12.\<close>

definition reward_maker ::
  "fc_lib \<Rightarrow> limit_order_object \<Rightarrow> limit_order_object \<Rightarrow> asset \<Rightarrow> asset \<Rightarrow> chain \<Rightarrow> chain res" where
  "reward_maker L new_order old_order new_order_receives old_order_receives c =
     (let age = time_minus L (head_block_time c) (o_created old_order)
      in if \<not> has_hardfork 12 c \<and>
            ((age \<ge> STEEMIT_MIN_LIQUIDITY_REWARD_PERIOD_SEC \<and> \<not> has_hardfork 10 c) \<or>
             (age \<ge> STEEMIT_MIN_LIQUIDITY_REWARD_PERIOD_SEC_HF10 \<and> has_hardfork 10 c))
         then (let is_sdb = (symbol old_order_receives \<noteq> STEEM_SYMBOL);
                   volume = (if is_sdb then new_order_receives else old_order_receives)
               in rbind (get_account (o_seller old_order) c) (\<lambda>a.
                  rbind (adjust_liquidity_reward L a volume is_sdb c) (\<lambda>c.
                  rbind (get_account (o_seller new_order) c) (\<lambda>b.
                  rbind (asset_uminus L volume) (\<lambda>v.
                  adjust_liquidity_reward L b v is_sdb c)))))
         else Inr c)"

section \<open>Matching\<close>

text \<open>What the old and the new order receive at a price.\<close>

definition trade :: "fc_lib \<Rightarrow> asset \<Rightarrow> asset \<Rightarrow> price \<Rightarrow> (asset \<times> asset) res" where
  "trade L new_order_for_sale old_order_for_sale match_price =
     rbind (asset_times_price L old_order_for_sale match_price) (\<lambda>x.
     rbind (asset_le new_order_for_sale x) (\<lambda>le.
     if le
     then rbind (asset_times_price L new_order_for_sale match_price) (\<lambda>r. Inr (new_order_for_sale, r))
     else rbind (asset_times_price L old_order_for_sale match_price) (\<lambda>r. Inr (r, old_order_for_sale))))"

definition match :: "fc_lib \<Rightarrow> oid \<Rightarrow> oid \<Rightarrow> price \<Rightarrow> chain \<Rightarrow> (nat \<times> chain) res" where
  "match L new old match_price c =
     rbind (limit_order new c) (\<lambda>new_order.
     rbind (limit_order old c) (\<lambda>old_order.
     rbind (trade L (amount_for_sale new_order) (amount_for_sale old_order) match_price)
       (\<lambda>(old_order_receives, new_order_receives).
     let old_order_pays = new_order_receives; new_order_pays = old_order_receives
     in rbind (reward_maker L new_order old_order new_order_receives old_order_receives c) (\<lambda>c.
        let c = push_virtual_operation (Op_fill_order
              \<lparr>vfo_current_owner = o_seller new_order, vfo_current_orderid = o_orderid new_order,
               vfo_current_pays = new_order_pays, vfo_open_owner = o_seller old_order,
               vfo_open_orderid = o_orderid old_order, vfo_open_pays = old_order_pays\<rparr>) c
        in rbind (fill_order L new new_order_pays new_order_receives c) (\<lambda>(n, c).
           rbind (fill_order L old old_order_pays old_order_receives c) (\<lambda>(m, c).
           Inr (or (of_bool n) (push_bit 1 (of_bool m)), c)))))))"

primrec match_all :: "fc_lib \<Rightarrow> oid \<Rightarrow> oid list \<Rightarrow> chain \<Rightarrow> chain res" where
  "match_all L new [] c = Inr c"
| "match_all L new (old # olds) c =
     rbind (limit_order old c) (\<lambda>old_order.
     rbind (match L new old (o_sell_price old_order) c) (\<lambda>(result, c).
     if and result 1 \<noteq> 0 then Inr c else match_all L new olds c))"

definition apply_order :: "fc_lib \<Rightarrow> oid \<Rightarrow> chain \<Rightarrow> (bool \<times> chain) res" where
  "apply_order L i c =
     rbind (limit_order i c) (\<lambda>new_order.
     let lowest = price_inv (o_sell_price new_order)
     in rbind (price_max (symbol (base lowest)) (symbol (quote lowest))) (\<lambda>highest.
        rbind (match_all L i (map fst (price_range L highest lowest (by_price L (ch_orders c)))) c) (\<lambda>c.
        Inr (find_obj i (ch_orders c) = None, c))))"

section \<open>Expired orders\<close>

lemma cancel_order_length:
  assumes "cancel_order L i c = Inr c'"
  shows "length (gi_indices (ch_orders c')) < length (gi_indices (ch_orders c))"
proof -
  obtain a ord c1 where c1: "adjust_balance L a (amount_for_sale ord) c = Inr c1" "remove_order i c1 = Inr c'"
    using assms by (auto simp: cancel_order_def)
  from adjust_balance_frame [OF c1(1)] have "ch_orders c1 = ch_orders c" by (simp add: ledger_frame_def)
  with c1(2) show ?thesis by (auto simp: remove_order_def dest: db_remove_length)
qed

definition expired_order :: "chain \<Rightarrow> oid option" where
  "expired_order c =
     (case ordered_by o_expiration (ch_orders c) of
        [] \<Rightarrow> None
      | (i, ord) # _ \<Rightarrow> if o_expiration ord < head_block_time c then Some i else None)"

function clear_expired_orders :: "fc_lib \<Rightarrow> chain \<Rightarrow> chain res" where
  "clear_expired_orders L c =
     (case expired_order c of
        None \<Rightarrow> Inr c
      | Some i \<Rightarrow> rbind (cancel_order L i c) (\<lambda>c'. clear_expired_orders L c'))"
  by pat_completeness auto

termination
  by (relation "measure (\<lambda>(L, c). length (gi_indices (ch_orders c)))") (auto dest: cancel_order_length)

declare clear_expired_orders.simps [simp del]

interpretation expired: worklist expired_order "cancel_order L" "clear_expired_orders L"
  "\<lambda>c. length (gi_indices (ch_orders c))" for L
  by unfold_locales (auto simp: clear_expired_orders.simps [of L] dest: cancel_order_length)

section \<open>Evaluators\<close>

text \<open>The common part of the two operations that create an order; the price may throw.\<close>

definition place_order ::
  "fc_lib \<Rightarrow> oid \<Rightarrow> asset \<Rightarrow> price res \<Rightarrow> (price \<Rightarrow> oid \<Rightarrow> limit_order_object) \<Rightarrow> bool \<Rightarrow> chain \<Rightarrow> chain res" where
  "place_order L owner amount_to_sell sell_price obj fill_or_kill c =
     rbind (has_funds owner amount_to_sell ''Account does not have sufficient funds for limit order.'' c) (\<lambda>_.
     rbind (take_balance L owner amount_to_sell c) (\<lambda>c.
     rbind sell_price (\<lambda>p.
     rbind (db_create order_clash (obj p) (ch_orders c)) (\<lambda>(i, t).
     rbind (apply_order L i (c\<lparr>ch_orders := t\<rparr>)) (\<lambda>(filled, c).
     rbind (fc_assert (fill_or_kill \<longrightarrow> filled) ''Cancelling order because it was not filled.'') (\<lambda>_.
     Inr c))))))"

definition apply_limit_order_create :: "fc_lib \<Rightarrow> limit_order_create_operation \<Rightarrow> chain \<Rightarrow> chain res" where
  "apply_limit_order_create L op c =
     rbind (fc_assert (lo_expiration op > head_block_time c) ''Limit order has to expire after head block time.'') (\<lambda>_.
     rbind (get_account (lo_owner op) c) (\<lambda>owner.
     place_order L owner (lo_amount_to_sell op) (lo_get_price op)
       (\<lambda>p i. \<lparr>o_id = i, o_created = head_block_time c, o_expiration = lo_expiration op, o_seller = lo_owner op,
             o_orderid = lo_orderid op, o_for_sale = amount (lo_amount_to_sell op), o_sell_price = p\<rparr>)
       (lo_fill_or_kill op) c))"

definition apply_limit_order_create2 :: "fc_lib \<Rightarrow> limit_order_create2_operation \<Rightarrow> chain \<Rightarrow> chain res" where
  "apply_limit_order_create2 L op c =
     rbind (fc_assert (lo2_expiration op > head_block_time c) ''Limit order has to expire after head block time.'') (\<lambda>_.
     rbind (get_account (lo2_owner op) c) (\<lambda>owner.
     place_order L owner (lo2_amount_to_sell op) (Inr (lo2_exchange_rate op))
       (\<lambda>p i. \<lparr>o_id = i, o_created = head_block_time c, o_expiration = lo2_expiration op, o_seller = lo2_owner op,
             o_orderid = lo2_orderid op, o_for_sale = amount (lo2_amount_to_sell op), o_sell_price = p\<rparr>)
       (lo2_fill_or_kill op) c))"

definition apply_limit_order_cancel :: "fc_lib \<Rightarrow> limit_order_cancel_operation \<Rightarrow> chain \<Rightarrow> chain res" where
  "apply_limit_order_cancel L op c =
     rbind (get_limit_order (lc_owner op) (lc_orderid op) c) (\<lambda>i. cancel_order L i c)"

section \<open>The books\<close>

lemma limit_order_iff: "limit_order i c = Inr ord \<longleftrightarrow> find_obj i (ch_orders c) = Some ord"
  by (simp add: limit_order_def find_obj_get)

lemma cancel_order_booked:
  assumes "safe_laws L" and "cancel_order L i c = Inr c'" and "tables_ok c"
  shows "booked (\<lambda>_. 0) 0 c c'"
proof -
  obtain ord a c1 where c1: "find_obj i (ch_orders c) = Some ord" "adjust_balance L a (amount_for_sale ord) c = Inr c1"
    "remove_order i c1 = Inr c'"
    using assms(2) by (auto simp: cancel_order_def limit_order_iff)
  note b = adjust_balance_booked [OF assms(1) c1(2) assms(3)]
  from b have f: "ch_orders c1 = ch_orders c" "tables_ok c1" by (auto simp: ledger_frame_def booked_def)
  have "booked (\<lambda>s. val s (amount_for_sale ord)) 0 c1 c'"
    using c1(3) f(2) by (rule remove_order_booked) (use c1(1) f(1) in auto)
  with b show ?thesis by (auto simp: booked_def)
qed

lemma fill_order_booked:
  assumes "safe_laws L" and "fill_order L i pays receives c = Inr (full, c')" and "tables_ok c"
  shows "booked (\<lambda>s. val s pays - val s receives) 0 c c'"
proof -
  obtain ord a c1 where ord: "find_obj i (ch_orders c) = Some ord" "symbol (amount_for_sale ord) = symbol pays"
    and c1: "adjust_balance L a receives c = Inr c1"
    and rest: "if asset_eq pays (amount_for_sale ord) then full \<and> remove_order i c1 = Inr c'
      else \<exists>c2 ord. modify_order i (\<lambda>b. rbind (safe_sub L (o_for_sale b) (amount pays)) (\<lambda>x. Inr (b\<lparr>o_for_sale := x\<rparr>))) c1 = Inr c2 \<and>
        (c' = c2 \<or> cancel_order L i c2 = Inr c')"
    using assms(2) by (fastforce simp: fill_order_def limit_order_iff split: if_splits)
  note b = adjust_balance_booked [OF assms(1) c1 assms(3)]
  from b have f: "ch_orders c1 = ch_orders c" "tables_ok c1" by (auto simp: ledger_frame_def booked_def)
  have "booked (\<lambda>s. val s pays) 0 c1 c'"
  proof (cases "asset_eq pays (amount_for_sale ord)")
    case True
    then have "val s pays = val s (amount_for_sale ord)" for s by (simp add: asset_eq_def val_def)
    moreover have "remove_order i c1 = Inr c'" using True rest by simp
    ultimately show ?thesis by (rule_tac remove_order_booked [OF _ f(2)]) (use ord f(1) in auto)
  next
    case False
    then obtain c2 where c2: "modify_order i (\<lambda>b. rbind (safe_sub L (o_for_sale b) (amount pays)) (\<lambda>x. Inr (b\<lparr>o_for_sale := x\<rparr>))) c1 = Inr c2"
      "c' = c2 \<or> cancel_order L i c2 = Inr c'" using rest by auto
    have 1: "booked (\<lambda>s. val s pays) 0 c1 c2"
      using c2(1) f(2) by (rule modify_order_booked)
        (use ord f(1) in \<open>auto simp: safe_iffs [OF assms(1)] amount_for_sale_def elim!: booked_eq\<close>)
    then have "booked (\<lambda>_. 0) 0 c2 c'"
      using c2(2) cancel_order_booked [OF assms(1)] by (auto intro: booked_refl booked_tables)
    with 1 show ?thesis by (auto simp: booked_def)
  qed
  with b show ?thesis by (auto simp: booked_def)
qed

lemma adjust_liquidity_reward_booked:
  assumes "adjust_liquidity_reward L i v b c = Inr c'" and "tables_ok c"
  shows "booked (\<lambda>_. 0) 0 c c' \<and> ch_orders c' = ch_orders c"
  using assms by (auto simp: adjust_liquidity_reward_def Let_def books_defs split: option.splits)

lemma reward_maker_booked:
  assumes "reward_maker L x y v w c = Inr c'" and "tables_ok c"
  shows "booked (\<lambda>_. 0) 0 c c' \<and> ch_orders c' = ch_orders c"
proof -
  consider "c' = c" | a b v' w' f c1 where "adjust_liquidity_reward L a v' f c = Inr c1"
    "adjust_liquidity_reward L b w' f c1 = Inr c'"
    using assms(1) by (auto simp: reward_maker_def Let_def split: if_splits)
  then show ?thesis
  proof cases
    case 2
    with adjust_liquidity_reward_booked [OF 2(1) assms(2)] adjust_liquidity_reward_booked [OF 2(2)]
    show ?thesis by (simp add: booked_def)
  qed (use assms(2) in \<open>simp add: booked_refl\<close>)
qed

text \<open>The steps of \<open>match\<close>.\<close>

lemma match_steps:
  assumes "match L new old p c = Inr (r, c')" and "tables_ok c"
  obtains x y pays receives c1 c2 n m where "limit_order new c = Inr x" "limit_order old c = Inr y"
    "trade L (amount_for_sale x) (amount_for_sale y) p = Inr (pays, receives)"
    "booked (\<lambda>_. 0) 0 c c1" "ch_orders c1 = ch_orders c"
    "fill_order L new pays receives c1 = Inr (n, c2)" "fill_order L old receives pays c2 = Inr (m, c')"
    "r = or (of_bool n) (push_bit 1 (of_bool m))"
proof -
  obtain x y pays receives d op c2 n m where s: "limit_order new c = Inr x" "limit_order old c = Inr y"
    "trade L (amount_for_sale x) (amount_for_sale y) p = Inr (pays, receives)"
    "reward_maker L x y receives pays c = Inr d"
    "fill_order L new pays receives (push_virtual_operation op d) = Inr (n, c2)"
    "fill_order L old receives pays c2 = Inr (m, c')" "r = or (of_bool n) (push_bit 1 (of_bool m))"
    using assms(1) by (auto simp: match_def Let_def)
  from reward_maker_booked [OF s(4) assms(2)] have "booked (\<lambda>_. 0) 0 c (push_virtual_operation op d)"
    "ch_orders (push_virtual_operation op d) = ch_orders c"
    by (simp, simp add: push_virtual_operation_def)
  from that [OF s(1-3) this s(5-)] show thesis .
qed

lemma match_booked:
  assumes "safe_laws L" and "match L new old p c = Inr (r, c')" and "tables_ok c"
  shows "booked (\<lambda>_. 0) 0 c c'"
  using assms(2,3)
proof (rule match_steps)
  fix pays receives c1 c2 n m
  assume 1: "booked (\<lambda>_. 0) 0 c c1" and f: "fill_order L new pays receives c1 = Inr (n, c2)"
    "fill_order L old receives pays c2 = Inr (m, c')"
  note 2 = fill_order_booked [OF assms(1) f(1) booked_tables [OF 1]]
  note 3 = fill_order_booked [OF assms(1) f(2) booked_tables [OF 2]]
  show ?thesis using 1 2 3 by (simp add: booked_def)
qed

lemma match_all_booked:
  assumes "safe_laws L"
  shows "match_all L new olds c = Inr c' \<Longrightarrow> tables_ok c \<Longrightarrow> booked (\<lambda>_. 0) 0 c c'"
proof (induction olds arbitrary: c)
  case (Cons old olds)
  then obtain p r c1 where m: "match L new old p c = Inr (r, c1)" "c' = c1 \<or> match_all L new olds c1 = Inr c'"
    by (auto split: if_splits)
  note b = match_booked [OF assms m(1) Cons.prems(2)]
  from m(2) Cons.IH [OF _ booked_tables [OF b]] b show ?case by (auto simp: booked_def)
qed (simp add: booked_refl)

lemma apply_order_booked:
  assumes "safe_laws L" and "apply_order L i c = Inr (filled, c')" and "tables_ok c"
  shows "booked (\<lambda>_. 0) 0 c c'"
  using assms by (auto simp: apply_order_def Let_def intro: match_all_booked)

lemma create_order_booked:
  assumes "db_create order_clash obj (ch_orders c) = Inr (i, t)" and "tables_ok c"
  shows "booked (\<lambda>s. - val s (amount_for_sale (obj i))) 0 c (c\<lparr>ch_orders := t\<rparr>)"
proof -
  have "tbl_ok (ch_orders c)" using assms(2) by (simp add: tables_ok_def)
  from db_create_spec [OF assms(1) this] assms(2) show ?thesis by (simp add: books_defs)
qed

lemma place_order_booked:
  assumes "safe_laws L" and "place_order L owner x pr obj fk c = Inr c'" and "tables_ok c"
    and "\<And>p i. pr = Inr p \<Longrightarrow> amount_for_sale (obj p i) = x"
  shows "booked (\<lambda>_. 0) 0 c c'"
proof -
  obtain c1 p i t f where s: "take_balance L owner x c = Inr c1" "pr = Inr p"
    "db_create order_clash (obj p) (ch_orders c1) = Inr (i, t)" "apply_order L i (c1\<lparr>ch_orders := t\<rparr>) = Inr (f, c')"
    using assms(2) by (auto simp: place_order_def)
  note 1 = take_balance_booked [OF assms(1) s(1) assms(3), THEN conjunct1]
  note 2 = create_order_booked [OF s(3) booked_tables [OF 1]]
  note 3 = apply_order_booked [OF assms(1) s(4) booked_tables [OF 2]]
  show ?thesis using 1 2 3 assms(4) [OF s(2)] by (simp add: booked_def)
qed

lemma clear_expired_orders_booked:
  assumes "safe_laws L" and "clear_expired_orders L c = Inr c'" and "tables_ok c"
  shows "booked (\<lambda>_. 0) 0 c c'"
  using expired.loop_keeps [OF assms(2), of "\<lambda>d. booked (\<lambda>_. 0) 0 c d"] booked_refl [OF assms(3)]
    cancel_order_booked [OF assms(1)] by (fastforce simp: booked_def)

lemma apply_limit_order_create_booked:
  assumes "safe_laws L" and "apply_limit_order_create L op c = Inr c'" and "tables_ok c"
  shows "booked (\<lambda>_. 0) 0 c c'"
  using assms(2,3)
  by (auto simp: apply_limit_order_create_def amount_for_sale_def lo_get_price_def asset_divide_def
      intro!: place_order_booked [OF assms(1)])

text \<open>Here the operation has to be a valid one: the evaluator takes the symbol sold from the price.\<close>

lemma apply_limit_order_create2_booked:
  assumes "safe_laws L" and "apply_limit_order_create2 L op c = Inr c'" and "tables_ok c"
    and "validate_limit_order_create2 L op = Inr ()"
  shows "booked (\<lambda>_. 0) 0 c c'"
proof -
  have "symbol (base (lo2_exchange_rate op)) = symbol (lo2_amount_to_sell op)"
    using assms(4) by (auto simp: validate_limit_order_create2_def run_checks_ok lo2_get_price_def)
  then show ?thesis
    using assms(2,3) by (auto simp: apply_limit_order_create2_def amount_for_sale_def intro!: place_order_booked [OF assms(1)])
qed

lemma apply_limit_order_cancel_booked:
  assumes "safe_laws L" and "apply_limit_order_cancel L op c = Inr c'" and "tables_ok c"
  shows "booked (\<lambda>_. 0) 0 c c'"
  using assms(2,3) cancel_order_booked [OF assms(1)] by (auto simp: apply_limit_order_cancel_def)

section \<open>What matching leaves in the book\<close>

lemma remove_order_orders:
  assumes "remove_order i c = Inr c'" and "tables_ok c"
  shows "find_obj j (ch_orders c') = (if j = i then None else find_obj j (ch_orders c))"
  using assms by (rule remove_order_booked) auto

lemma modify_order_orders:
  assumes "modify_order i g c = Inr c'" and "tables_ok c"
  shows "tables_ok c' \<and> (\<exists>ord. \<forall>j. find_obj j (ch_orders c') = (if j = i then Some ord else find_obj j (ch_orders c)))"
  using assms by (rule modify_order_booked) (auto intro: booked_tables)

lemma cancel_order_orders:
  assumes "cancel_order L i c = Inr c'" and "safe_laws L" and "tables_ok c"
  shows "find_obj j (ch_orders c') = (if j = i then None else find_obj j (ch_orders c))"
proof -
  obtain a x c1 where c1: "adjust_balance L a x c = Inr c1" "remove_order i c1 = Inr c'"
    using assms(1) by (auto simp: cancel_order_def)
  from adjust_balance_booked [OF assms(2) c1(1) assms(3)] have "ch_orders c1 = ch_orders c" "tables_ok c1"
    by (auto simp: ledger_frame_def booked_def)
  with remove_order_orders [OF c1(2)] show ?thesis by simp
qed

text \<open>\<open>fill_order\<close> says whether the order is gone; a fill for the whole of it always removes it.\<close>

lemma fill_order_orders:
  assumes "fill_order L i pays receives c = Inr (full, c')" and "safe_laws L" and "tables_ok c"
  shows "(full \<longleftrightarrow> find_obj i (ch_orders c') = None) \<and>
    (\<forall>j. j \<noteq> i \<longrightarrow> find_obj j (ch_orders c') = find_obj j (ch_orders c)) \<and>
    (\<forall>ord. find_obj i (ch_orders c) = Some ord \<longrightarrow> asset_eq pays (amount_for_sale ord) \<longrightarrow> full)"
proof -
  obtain ord a c1 where ord: "find_obj i (ch_orders c) = Some ord"
    and c1: "adjust_balance L a receives c = Inr c1"
    and rest: "if asset_eq pays (amount_for_sale ord) then full \<and> remove_order i c1 = Inr c'
      else \<exists>g c2. modify_order i g c1 = Inr c2 \<and> (if full then cancel_order L i c2 = Inr c' else c' = c2)"
    using assms(1) by (fastforce simp: fill_order_def limit_order_iff split: if_splits)
  from adjust_balance_booked [OF assms(2) c1 assms(3)] have f: "ch_orders c1 = ch_orders c" "tables_ok c1"
    by (auto simp: ledger_frame_def booked_def)
  show ?thesis
  proof (cases "asset_eq pays (amount_for_sale ord)")
    case True
    then show ?thesis using rest remove_order_orders [OF _ f(2)] f(1) by auto
  next
    case False
    then obtain g c2 where c2: "modify_order i g c1 = Inr c2" "if full then cancel_order L i c2 = Inr c' else c' = c2"
      using rest by auto
    from modify_order_orders [OF c2(1) f(2)] obtain ord' where "tables_ok c2"
      "\<forall>j. find_obj j (ch_orders c2) = (if j = i then Some ord' else find_obj j (ch_orders c))"
      unfolding f(1) by blast
    then show ?thesis using c2(2) cancel_order_orders [OF _ assms(2)] False ord by (auto split: if_splits)
  qed
qed

lemma match_orders:
  assumes "match L new old p c = Inr (r, c')" and "safe_laws L" and "tables_ok c" and "new \<noteq> old"
  shows "r \<noteq> 0 \<and> (and r 1 \<noteq> 0 \<longleftrightarrow> find_obj new (ch_orders c') = None) \<and>
    (and r 2 \<noteq> 0 \<longleftrightarrow> find_obj old (ch_orders c') = None) \<and>
    (\<forall>j. j \<noteq> new \<longrightarrow> j \<noteq> old \<longrightarrow> find_obj j (ch_orders c') = find_obj j (ch_orders c))"
  using assms(1,3)
proof (rule match_steps)
  fix x y pays receives c1 c2 n m
  assume s: "limit_order new c = Inr x" "limit_order old c = Inr y"
    "trade L (amount_for_sale x) (amount_for_sale y) p = Inr (pays, receives)"
    "booked (\<lambda>_. 0) 0 c c1" "ch_orders c1 = ch_orders c"
    "fill_order L new pays receives c1 = Inr (n, c2)" "fill_order L old receives pays c2 = Inr (m, c')"
    "r = or (of_bool n) (push_bit 1 (of_bool m))"
  note n = fill_order_orders [OF s(6) assms(2) booked_tables [OF s(4)]]
  have "tables_ok c2" using fill_order_booked [OF assms(2) s(6) booked_tables [OF s(4)]] by (rule booked_tables)
  note m = fill_order_orders [OF s(7) assms(2) this]
  have "pays = amount_for_sale x \<or> receives = amount_for_sale y"
    using s(3) by (auto simp: trade_def split: if_splits)
  then have nm: "n \<or> m" using n m s(1,2,5) assms(4) by (auto simp: limit_order_iff asset_eq_def)
  have r: "r \<noteq> 0 \<longleftrightarrow> n \<or> m" "and r 1 \<noteq> 0 \<longleftrightarrow> n" "and r 2 \<noteq> 0 \<longleftrightarrow> m"
    using s(8) by (cases n; cases m; simp)+
  show ?thesis using r nm n m s(5) assms(4) by auto
qed

section \<open>The range of the price index\<close>

lemma cross_le_trans:
  fixes a b c p q r :: int
  assumes "0 < q" "0 < p" "0 < r" and "a * q \<le> b * p" and "b * r \<le> c * q"
  shows "a * r \<le> c * p"
proof -
  have "(a * q) * r \<le> (b * p) * r" using assms by simp
  also have "\<dots> = (b * r) * p" by simp
  also have "\<dots> \<le> (c * q) * p" using assms by simp
  finally have "(a * r) * q \<le> (c * p) * q" by (simp add: ac_simps)
  then show ?thesis using assms(1) by simp
qed

lemma price_not_less_trans:
  assumes "uint128_laws L" "pos_price a" "pos_price b" "pos_price c"
    and "\<not> price_less L a b" "\<not> price_less L b c"
  shows "\<not> price_less L a c"
proof (cases "symbol (base a) = symbol (base b) \<and> symbol (base b) = symbol (base c) \<and>
    symbol (quote a) = symbol (quote b) \<and> symbol (quote b) = symbol (quote c)")
  case True
  then show ?thesis
    using assms cross_le_trans [of "amount (quote b)" "amount (quote c)" "amount (quote a)"
        "amount (base c)" "amount (base b)" "amount (base a)"]
    by (auto simp: price_less_same_iff pos_nonneg_price not_less) (auto simp: pos_price_def)
next
  case False
  then show ?thesis
    using assms(5,6) by (auto simp: price_less_def split: if_splits)
qed

text \<open>Price-time priority: the better price first, then the older order.\<close>

definition priority :: "fc_lib \<Rightarrow> oid \<times> limit_order_object \<Rightarrow> oid \<times> limit_order_object \<Rightarrow> bool" where
  "priority L x y \<longleftrightarrow> price_greater L (o_sell_price (snd x)) (o_sell_price (snd y)) \<or>
     price_eq L (o_sell_price (snd x)) (o_sell_price (snd y)) \<and> fst x < fst y"

definition priced :: "fc_lib \<Rightarrow> (oid \<times> limit_order_object) list \<Rightarrow> bool" where
  "priced L xs \<longleftrightarrow> uint128_laws L \<and> (\<forall>e \<in> set xs. pos_price (o_sell_price (snd e)))"

lemma set_insert_by [simp]: "set (insert_by before x xs) = insert x (set xs)"
  by (induction xs) auto

lemma insert_by_priority:
  assumes "priced L (x # xs)" and "sorted_wrt (priority L) xs" and "\<forall>e \<in> set xs. fst x < fst e"
  shows "sorted_wrt (priority L)
    (insert_by (\<lambda>x y. price_greater L (o_sell_price (snd x)) (o_sell_price (snd y))) x xs)"
  using assms
proof (induction xs)
  case (Cons y ys)
  let ?p = "\<lambda>e. o_sell_price (snd e)"
  have ok: "uint128_laws L" "pos_price (?p x)" "pos_price (?p y)" "\<forall>z \<in> set ys. pos_price (?p z)"
    using Cons.prems(1) by (auto simp: priced_def)
  show ?case
  proof (cases "price_greater L (?p y) (?p x)")
    case True
    then show ?thesis using Cons by (auto simp: priced_def priority_def)
  next
    case False
    have "priority L x z" if "z \<in> set (y # ys)" for z
    proof -
      have z: "pos_price (?p z)" using that ok by auto
      have "\<not> price_less L (?p y) (?p z)"
        using that Cons.prems(2) ok z price_cmp.trichotomy [of L "?p y" "?p z"] price_cmp.greater_flip [of L "?p y" "?p z"]
          price_cmp.less_asym [of L "?p y" "?p y"]
        by (auto simp: priority_def)
      moreover have "\<not> price_less L (?p x) (?p y)"
        using False ok price_cmp.greater_flip [of L "?p y" "?p x"] by simp
      ultimately have "\<not> price_less L (?p x) (?p z)"
        using ok z by (metis price_not_less_trans)
      then show ?thesis
        using Cons.prems(3) that ok z price_cmp.total [of L "?p x" "?p z"] price_cmp.greater_flip [of L "?p x" "?p z"]
        by (auto simp: priority_def)
    qed
    then show ?thesis using False Cons.prems(2) by simp
  qed
qed simp

lemma sort_by_priority:
  assumes "priced L xs" and "fm_ok xs"
  shows "sorted_wrt (priority L)
      (sort_by (\<lambda>x y. price_greater L (o_sell_price (snd x)) (o_sell_price (snd y))) xs) \<and>
    set (sort_by (\<lambda>x y. price_greater L (o_sell_price (snd x)) (o_sell_price (snd y))) xs) = set xs"
  using assms
proof (induction xs)
  case (Cons x xs)
  obtain i ord where x: "x = (i, ord)" by (cases x)
  have "fm_ok xs" "\<forall>e \<in> set xs. fst x < fst e" using Cons.prems(2) x by (auto simp: fm_ok_Cons)
  moreover have "priced L xs" using Cons.prems(1) by (simp add: priced_def)
  ultimately show ?case
    using Cons.IH Cons.prems(1) by (auto simp: sort_by_def priced_def intro!: insert_by_priority)
qed (simp add: sort_by_def)

lemma while_filter:
  assumes "sorted_wrt R xs" and "\<And>x y. x \<in> set xs \<Longrightarrow> y \<in> set xs \<Longrightarrow> R x y \<Longrightarrow> P y \<Longrightarrow> P x"
  shows "takeWhile P xs = filter P xs \<and> dropWhile P xs = filter (\<lambda>x. \<not> P x) xs"
  using assms
proof (induction xs)
  case (Cons x xs)
  have "\<not> P x \<Longrightarrow> \<forall>y \<in> set xs. \<not> P y" using Cons.prems by auto
  then show ?case using Cons by (auto simp: filter_empty_conv filter_id_conv intro: filter_False [symmetric] filter_True [symmetric])
qed simp

lemma price_range_filter:
  assumes "priced L xs" and "fm_ok xs" and "pos_price highest" and "pos_price lowest"
    and "ys = sort_by (\<lambda>x y. price_greater L (o_sell_price (snd x)) (o_sell_price (snd y))) xs"
  shows "price_range L highest lowest ys =
    filter (\<lambda>e. \<not> price_less L (o_sell_price (snd e)) lowest)
      (filter (\<lambda>e. \<not> price_less L highest (o_sell_price (snd e))) ys)"
proof -
  let ?p = "\<lambda>e. o_sell_price (snd e)"
  have ys: "sorted_wrt (priority L) ys" "set ys = set xs"
    using sort_by_priority [OF assms(1,2)] assms(5) by auto
  have ok: "uint128_laws L" "\<forall>e \<in> set ys. pos_price (?p e)" using assms(1) ys(2) by (auto simp: priced_def)
  have pr: "\<not> price_less L (?p x) (?p y)" if "priority L x y" "x \<in> set ys" "y \<in> set ys" for x y
    using that ok price_cmp.trichotomy [of L "?p x" "?p y"] price_cmp.greater_flip [of L "?p x" "?p y"]
    by (auto simp: priority_def)
  have g: "price_greater L (?p x) highest = price_less L highest (?p x)"
    "price_greater L lowest (?p x) = price_less L (?p x) lowest" if "x \<in> set ys" for x
    using that ok assms(3,4) price_cmp.greater_flip by auto
  have 1: "dropWhile (\<lambda>e. price_greater L (?p e) highest) ys = filter (\<lambda>e. \<not> price_less L highest (?p e)) ys"
  proof -
    have "price_greater L (?p x) highest" if "x \<in> set ys" "y \<in> set ys" "priority L x y" "price_greater L (?p y) highest" for x y
      using that g(1) pr [of x y] ok assms(3) price_not_less_trans [of L highest "?p x" "?p y"] by blast
    from while_filter [where P = "\<lambda>e. price_greater L (?p e) highest", OF ys(1) this] g(1) show ?thesis by (auto cong: filter_cong)
  qed
  have 2: "sorted_wrt (priority L) (filter (\<lambda>e. \<not> price_less L highest (?p e)) ys)"
    using ys(1) by (rule sorted_wrt_filter)
  have 3: "takeWhile (\<lambda>e. \<not> price_greater L lowest (?p e)) (filter (\<lambda>e. \<not> price_less L highest (?p e)) ys) =
    filter (\<lambda>e. \<not> price_less L (?p e) lowest) (filter (\<lambda>e. \<not> price_less L highest (?p e)) ys)"
  proof -
    have "\<not> price_greater L lowest (?p x)" if "x \<in> set (filter (\<lambda>e. \<not> price_less L highest (?p e)) ys)"
      "y \<in> set (filter (\<lambda>e. \<not> price_less L highest (?p e)) ys)" "priority L x y" "\<not> price_greater L lowest (?p y)" for x y
      using that g(2) pr [of x y] ok assms(4) price_not_less_trans [of L "?p x" "?p y" lowest] by auto
    from while_filter [where P = "\<lambda>e. \<not> price_greater L lowest (?p e)", OF 2 this] g(2) show ?thesis by (auto cong: filter_cong)
  qed
  with 1 show ?thesis by (simp add: price_range_def)
qed

section \<open>Properties\<close>

definition demo_order :: "oid \<Rightarrow> account_name_type \<Rightarrow> u32 \<Rightarrow> int \<Rightarrow> price \<Rightarrow> limit_order_object" where
  "demo_order i n k x p = \<lparr>o_id = i, o_created = 900, o_expiration = 2000, o_seller = n, o_orderid = k, o_for_sale = x, o_sell_price = p\<rparr>"

text \<open>The range of the price index that \<open>apply_order\<close> walks holds exactly the orders of the opposite
  side of the market whose price is at least the limit and at most \<open>price::max\<close> of the pair, best price
  first and the older order first among equal prices, as long as all prices are positive.\<close>

theorem apply_order_walks_the_book:
  assumes "uint128_laws L" and "tbl_ok t" and "pos_price limit"
    and "price_max (symbol (base limit)) (symbol (quote limit)) = Inr highest"
    and "\<forall>e \<in> set (gi_indices t). pos_price (o_sell_price (snd e))"
  shows "sorted_wrt (\<lambda>x y. price_greater L (o_sell_price (snd x)) (o_sell_price (snd y)) \<or>
        price_eq L (o_sell_price (snd x)) (o_sell_price (snd y)) \<and> fst x < fst y)
      (price_range L highest limit (by_price L t)) \<and>
    (\<forall>e. e \<in> set (price_range L highest limit (by_price L t)) \<longleftrightarrow>
      e \<in> set (gi_indices t) \<and> symbol (base (o_sell_price (snd e))) = symbol (base limit) \<and>
      symbol (quote (o_sell_price (snd e))) = symbol (quote limit) \<and>
      amount (base (o_sell_price (snd e))) \<le> STEEMIT_MAX_SHARE_SUPPLY * amount (quote (o_sell_price (snd e))) \<and>
      amount (base limit) * amount (quote (o_sell_price (snd e))) \<le>
        amount (base (o_sell_price (snd e))) * amount (quote limit))"
proof -
  let ?p = "\<lambda>e. o_sell_price (snd e)"
  have pr: "priced L (gi_indices t)" and ok: "fm_ok (gi_indices t)" using assms by (auto simp: priced_def tbl_ok_def)
  have h: "highest = mk_price (mk_asset STEEMIT_MAX_SHARE_SUPPLY (symbol (base limit))) (mk_asset 1 (symbol (quote limit)))"
    using assms(4) by (auto simp: price_max_def asset_divide_def)
  then have ph: "pos_price highest" by (simp add: pos_price_def STEEMIT_MAX_SHARE_SUPPLY_def)
  note r = price_range_filter [OF pr ok ph assms(3) refl]
  note s = sort_by_priority [OF pr ok]
  have in_range: "\<not> price_less L highest (?p e) \<and> \<not> price_less L (?p e) limit \<longleftrightarrow>
      symbol (base (?p e)) = symbol (base limit) \<and> symbol (quote (?p e)) = symbol (quote limit) \<and>
      amount (base (?p e)) \<le> STEEMIT_MAX_SHARE_SUPPLY * amount (quote (?p e)) \<and>
      amount (base limit) * amount (quote (?p e)) \<le> amount (base (?p e)) * amount (quote limit)"
    if e: "e \<in> set (gi_indices t)" for e
  proof (cases "symbol (base (?p e)) = symbol (base limit) \<and> symbol (quote (?p e)) = symbol (quote limit)")
    case True
    have b: "pos_price (?p e)" using assms(5) e by auto
    have "\<not> price_less L highest (?p e) \<longleftrightarrow> amount (base (?p e)) \<le> STEEMIT_MAX_SHARE_SUPPLY * amount (quote (?p e))"
      using True h price_less_same_iff [OF assms(1) pos_nonneg_price [OF ph] pos_nonneg_price [OF b]] by (simp add: not_less)
    then show ?thesis
      using True price_less_same_iff [OF assms(1) pos_nonneg_price [OF b] pos_nonneg_price [OF assms(3)]] by (simp add: not_less)
  next
    case False
    then show ?thesis using h by (auto simp: price_less_def)
  qed
  have "sorted_wrt (priority L) (price_range L highest limit (by_price L t))"
    unfolding by_price_def r using s by (simp add: sorted_wrt_filter)
  moreover have "e \<in> set (price_range L highest limit (by_price L t)) \<longleftrightarrow>
      e \<in> set (gi_indices t) \<and> \<not> price_less L highest (?p e) \<and> \<not> price_less L (?p e) limit" for e
    unfolding by_price_def r using s by auto
  ultimately show ?thesis unfolding priority_def using in_range by blast
qed

theorem apply_order_walks_the_book_witness:
  "let limit = mk_price (mk_asset 1 SBD_SYMBOL) (mk_asset 2 STEEM_SYMBOL);
       highest = mk_price (mk_asset STEEMIT_MAX_SHARE_SUPPLY SBD_SYMBOL) (mk_asset 1 STEEM_SYMBOL);
       t = demo_index [demo_order 0 ''bob'' 1 10 (mk_price (mk_asset 1 SBD_SYMBOL) (mk_asset 1 STEEM_SYMBOL))]
   in (0, demo_order 0 ''bob'' 1 10 (mk_price (mk_asset 1 SBD_SYMBOL) (mk_asset 1 STEEM_SYMBOL)))
        \<in> set (price_range fc_ref highest limit (by_price fc_ref t))"
proof -
  let ?limit = "mk_price (mk_asset 1 SBD_SYMBOL) (mk_asset 2 STEEM_SYMBOL)"
  let ?t = "demo_index [demo_order 0 ''bob'' 1 10 (mk_price (mk_asset 1 SBD_SYMBOL) (mk_asset 1 STEEM_SYMBOL))]"
  have 1: "tbl_ok ?t" by (simp add: demo_index_def tbl_ok_def fm_ok_def)
  have 2: "price_max (symbol (base ?limit)) (symbol (quote ?limit)) =
      Inr (mk_price (mk_asset STEEMIT_MAX_SHARE_SUPPLY SBD_SYMBOL) (mk_asset 1 STEEM_SYMBOL))"
    by (simp add: price_max_def asset_divide_def)
  have 3: "\<forall>e \<in> set (gi_indices ?t). pos_price (o_sell_price (snd e))"
    by (simp add: demo_index_def demo_order_def pos_price_def)
  have 4: "pos_price ?limit" by (simp add: pos_price_def)
  show ?thesis
    using apply_order_walks_the_book [OF uint128_laws_ref 1 4 2 3]
    by (simp add: Let_def demo_index_def demo_order_def STEEMIT_MAX_SHARE_SUPPLY_def)
qed

text \<open>C28: \<open>match\<close> of two different orders always fills at least one of them, and its result says which: bit 0
  is set exactly when the new order is gone, bit 1 exactly when the old one is.  No other order
  changes.\<close>

theorem match_reports_filled_orders:
  assumes "safe_laws L" and "tables_ok c" and "new \<noteq> old" and "match L new old p c = Inr (r, c')"
  shows "r \<noteq> 0 \<and> (and r 1 \<noteq> 0 \<longleftrightarrow> find_obj new (ch_orders c') = None) \<and>
    (and r 2 \<noteq> 0 \<longleftrightarrow> find_obj old (ch_orders c') = None) \<and>
    (\<forall>j. j \<noteq> new \<longrightarrow> j \<noteq> old \<longrightarrow> find_obj j (ch_orders c') = find_obj j (ch_orders c))"
  using match_orders [OF assms(4,1,2,3)] .

definition demo_market :: chain where
  "demo_market = demo_chain\<lparr>ch_orders := demo_index
     [demo_order 0 ''bob'' 1 10 (mk_price (mk_asset 10 SBD_SYMBOL) (mk_asset 10 STEEM_SYMBOL)),
      demo_order 1 ''alice'' 0x10001 10 (mk_price (mk_asset 10 STEEM_SYMBOL) (mk_asset 10 SBD_SYMBOL)),
      demo_order 2 ''alice'' 1 10 (mk_price (mk_asset 10 STEEM_SYMBOL) (mk_asset 10 SBD_SYMBOL))]\<rparr>"

lemma demo_market_tables: "tables_ok demo_market"
  by (simp add: demo_market_def demo_defs tables_ok_def tbl_ok_def fm_ok_def upt_rec)

lemma demo_exchange:
  "asset_times_price fc_ref (mk_asset 10 SBD_SYMBOL) (mk_price (mk_asset 10 SBD_SYMBOL) (mk_asset 10 STEEM_SYMBOL)) =
     Inr (mk_asset 10 STEEM_SYMBOL)"
  "asset_times_price fc_ref (mk_asset 10 STEEM_SYMBOL) (mk_price (mk_asset 10 SBD_SYMBOL) (mk_asset 10 STEEM_SYMBOL)) =
     Inr (mk_asset 10 SBD_SYMBOL)"
  using sint_of_quotient [of 10] by (simp_all add: times_price_base times_price_quote exchange_iff price_validate_ok)

lemmas market_eval = match_def trade_def demo_market_def demo_order_def limit_order_def amount_for_sale_def reward_maker_def
  has_hardfork_def push_virtual_operation_def fill_order_def remove_order_def cancel_order_def demo_eval demo_exchange

theorem match_reports_filled_orders_witness:
  "\<exists>r c'. match fc_ref 1 0 (mk_price (mk_asset 10 SBD_SYMBOL) (mk_asset 10 STEEM_SYMBOL)) demo_market = Inr (r, c') \<and> r \<noteq> 0"
proof -
  have "\<not> isl (match fc_ref 1 0 (mk_price (mk_asset 10 SBD_SYMBOL) (mk_asset 10 STEEM_SYMBOL)) demo_market)"
    by (simp add: market_eval)
  then obtain r c' where m: "match fc_ref 1 0 (mk_price (mk_asset 10 SBD_SYMBOL) (mk_asset 10 STEEM_SYMBOL)) demo_market = Inr (r, c')"
    by (auto dest: returns)
  with match_reports_filled_orders [OF safe_laws_ref demo_market_tables _ m] show ?thesis by auto
qed

lemma find_by_Some:
  assumes "find_by P t = Some k" and "tbl_ok t"
  shows "\<exists>v. find_obj k t = Some v \<and> P v"
proof -
  obtain e where "find (\<lambda>e. P (snd e)) (gi_indices t) = Some e" "k = fst e"
    using assms(1) by (auto simp: find_by_def)
  then have "e \<in> set (gi_indices t)" "P (snd e)" "e = (k, snd e)" by (auto simp: find_Some_iff)
  with assms(2) show ?thesis by (metis find_obj_def tbl_ok_def fm_find_iff)
qed

text \<open>C40: A limit order whose id needs more than 16 bits cannot be cancelled by its owner: the cancel
  operation cuts the id down to 16 bits, while the operation that creates orders keeps all 32.  Every
  cancellation that goes through leaves such an order as it was.\<close>

theorem large_orderid_never_cancelled:
  assumes "safe_laws L" and "tables_ok c" and "apply_limit_order_cancel L op c = Inr c'"
    and "find_obj i (ch_orders c) = Some ord" and "0x10000 \<le> o_orderid ord"
  shows "find_obj i (ch_orders c') = Some ord"
proof -
  obtain k where k: "get_limit_order (lc_owner op) (lc_orderid op) c = Inr k" "cancel_order L k c = Inr c'"
    using assms(3) by (auto simp: apply_limit_order_cancel_def)
  have t: "tbl_ok (ch_orders c)" using assms(2) by (simp add: tables_ok_def)
  have "find_by (\<lambda>ord. o_seller ord = lc_owner op \<and> o_orderid ord = and (lc_orderid op) 0xFFFF) (ch_orders c) = Some k"
    using k(1) by (simp add: get_limit_order_def get_by_def Let_def split: option.splits)
  from find_by_Some [OF this t] obtain found where "find_obj k (ch_orders c) = Some found"
    "o_orderid found = and (lc_orderid op) 0xFFFF" by auto
  moreover have "and (lc_orderid op) 0xFFFF < (0x10000 :: u32)" by (rule le_less_trans [OF word_and_le1]) simp
  ultimately have "i \<noteq> k" using assms(4,5) by auto
  with cancel_order_orders [OF k(2) assms(1,2)] assms(4) show ?thesis by simp
qed

text \<open>The wrong order goes: \<open>alice\<close> cancels order 65537 and loses order 1.\<close>

theorem large_orderid_never_cancelled_witness:
  "\<exists>c'. apply_limit_order_cancel fc_ref \<lparr>lc_owner = ''alice'', lc_orderid = 0x10001\<rparr> demo_market = Inr c' \<and>
     find_obj 1 (ch_orders c') = Some (demo_order 1 ''alice'' 0x10001 10 (mk_price (mk_asset 10 STEEM_SYMBOL) (mk_asset 10 SBD_SYMBOL))) \<and>
     find_obj 2 (ch_orders demo_market) \<noteq> None \<and> find_obj 2 (ch_orders c') = None"
proof -
  let ?op = "\<lparr>lc_owner = ''alice'', lc_orderid = 0x10001\<rparr>"
  have k: "get_limit_order ''alice'' 0x10001 demo_market = Inr 2"
    by (simp add: get_limit_order_def market_eval)
  have "\<not> isl (apply_limit_order_cancel fc_ref ?op demo_market)"
    by (simp add: apply_limit_order_cancel_def k) (simp add: market_eval)
  then obtain c' where c': "apply_limit_order_cancel fc_ref ?op demo_market = Inr c'" by (auto dest: returns)
  have f: "find_obj 1 (ch_orders demo_market) = Some (demo_order 1 ''alice'' 0x10001 10 (mk_price (mk_asset 10 STEEM_SYMBOL) (mk_asset 10 SBD_SYMBOL)))"
    "find_obj 2 (ch_orders demo_market) \<noteq> None"
    by (simp_all add: demo_market_def demo_defs find_obj_def upt_rec)
  have "cancel_order fc_ref 2 demo_market = Inr c'" using c' k by (simp add: apply_limit_order_cancel_def)
  from cancel_order_orders [OF this safe_laws_ref demo_market_tables, of 2]
    large_orderid_never_cancelled [OF safe_laws_ref demo_market_tables c' f(1)] c' f(2)
  show ?thesis by (simp add: demo_order_def)
qed

lemma expired_order_None:
  assumes "expired_order c = None" and "find_obj i (ch_orders c) = Some ord"
  shows "head_block_time c \<le> o_expiration ord"
proof -
  have m: "(i, ord) \<in> set (ordered_by o_expiration (ch_orders c))"
    using assms(2) by (auto simp: ordered_by_def find_obj_def dest: fm_find_in)
  obtain e es where es: "ordered_by o_expiration (ch_orders c) = e # es" using m by (cases "ordered_by o_expiration (ch_orders c)") auto
  have "sorted (map (\<lambda>e. o_expiration (snd e)) (e # es))"
    unfolding es [symmetric] ordered_by_def by (rule sorted_sort_key)
  then have "o_expiration (snd e) \<le> o_expiration ord" using m es by force
  moreover have "\<not> o_expiration (snd e) < head_block_time c"
    using assms(1) es by (auto simp: expired_order_def split: if_splits prod.splits)
  ultimately show ?thesis by simp
qed

lemma expired_order_Some:
  assumes "expired_order c = Some i" and "tbl_ok (ch_orders c)"
  shows "\<exists>ord. find_obj i (ch_orders c) = Some ord \<and> o_expiration ord < head_block_time c"
proof -
  obtain ord es where es: "ordered_by o_expiration (ch_orders c) = (i, ord) # es" "o_expiration ord < head_block_time c"
    using assms(1) by (auto simp: expired_order_def split: list.splits if_splits)
  then have "(i, ord) \<in> set (gi_indices (ch_orders c))" by (metis list.set_intros(1) ordered_by_def set_sort)
  with assms(2) es(2) show ?thesis by (auto simp: find_obj_def tbl_ok_def fm_find_iff)
qed

lemma cancel_order_time: "cancel_order L i c = Inr c' \<Longrightarrow> head_block_time c' = head_block_time c"
  by (auto simp: cancel_order_def remove_order_def ledger_frame_def head_block_time_def dest!: adjust_balance_frame)

text \<open>C29: \<open>clear_expired_orders\<close> ends, and when it returns no expired order is left, while every order that
  has not expired is still there, unchanged.\<close>

theorem clear_expired_orders_exact:
  assumes "safe_laws L" and "tables_ok c" and "clear_expired_orders L c = Inr c'"
  shows "\<forall>i. find_obj i (ch_orders c') =
    (case find_obj i (ch_orders c) of
       None \<Rightarrow> None
     | Some ord \<Rightarrow> if o_expiration ord < head_block_time c then None else Some ord)"
proof -
  define P where "P d \<longleftrightarrow> tables_ok d \<and> head_block_time d = head_block_time c \<and>
    (\<forall>i. find_obj i (ch_orders d) = find_obj i (ch_orders c) \<or>
      find_obj i (ch_orders d) = None \<and> (\<exists>ord. find_obj i (ch_orders c) = Some ord \<and> o_expiration ord < head_block_time c))" for d
  have "P t" if d: "expired_order s = Some i" "cancel_order L i s = Inr t" "P s" for i s t
  proof -
    have ok: "tables_ok s" "tables_ok t" using d(3) booked_tables [OF cancel_order_booked [OF assms(1) d(2)]] by (auto simp: P_def)
    obtain ord where "find_obj i (ch_orders s) = Some ord" "o_expiration ord < head_block_time s"
      using expired_order_Some [OF d(1)] ok(1) by (auto simp: tables_ok_def)
    moreover from this d(3) have "find_obj i (ch_orders c) = Some ord" "o_expiration ord < head_block_time c"
      by (auto simp: P_def dest: spec [of _ i])
    ultimately show ?thesis
      using d(3) cancel_order_orders [OF d(2) assms(1) ok(1)] cancel_order_time [OF d(2)] ok(2) by (auto simp: P_def)
  qed
  moreover have "P c" using assms(2) by (simp add: P_def)
  ultimately have c': "P c'" "expired_order c' = None" using expired.loop_keeps [OF assms(3), of P] by blast+
  show ?thesis
  proof
    fix i
    have "\<not> o_expiration ord < head_block_time c" if "find_obj i (ch_orders c') = Some ord" for ord
      using c'(1) expired_order_None [OF c'(2) that] by (simp add: P_def)
    moreover have "find_obj i (ch_orders c') = find_obj i (ch_orders c) \<or> find_obj i (ch_orders c') = None \<and>
        (\<exists>ord. find_obj i (ch_orders c) = Some ord \<and> o_expiration ord < head_block_time c)"
      using c'(1) by (simp add: P_def)
    ultimately show "find_obj i (ch_orders c') = (case find_obj i (ch_orders c) of None \<Rightarrow> None
      | Some ord \<Rightarrow> if o_expiration ord < head_block_time c then None else Some ord)"
      by (cases "find_obj i (ch_orders c)") auto
  qed
qed

definition demo_late :: chain where
  "demo_late = demo_market\<lparr>ch_gpo := (ch_gpo demo_market)\<lparr>g_time := 3000\<rparr>,
     ch_orders := demo_index [demo_order 0 ''alice'' 1 10 (mk_price (mk_asset 10 STEEM_SYMBOL) (mk_asset 10 SBD_SYMBOL))]\<rparr>"

theorem clear_expired_orders_exact_witness:
  "\<exists>c'. clear_expired_orders fc_ref demo_late = Inr c' \<and> find_obj 0 (ch_orders c') = None"
proof -
  have t: "tables_ok demo_late"
    by (simp add: demo_late_def demo_market_def demo_defs tables_ok_def tbl_ok_def fm_ok_def upt_rec)
  have e: "expired_order demo_late = Some 0"
    by (simp add: expired_order_def ordered_by_def demo_late_def market_eval)
  have "\<not> isl (cancel_order fc_ref 0 demo_late)" by (simp add: demo_late_def market_eval)
  then obtain d where d: "cancel_order fc_ref 0 demo_late = Inr d" by (auto dest: returns)
  have "\<forall>i. find_obj i (ch_orders d) = None"
    using cancel_order_orders [OF d safe_laws_ref t] by (simp add: demo_late_def demo_defs find_obj_def upt_rec)
  then have "gi_indices (ch_orders d) = []"
    using fm_find_None by (metis empty_iff find_obj_def image_is_empty list.set(1) list.set_cases equals0I image_eqI list.set_intros(1) neq_Nil_conv)
  then have "expired_order d = None" by (simp add: expired_order_def ordered_by_def)
  then have c: "clear_expired_orders fc_ref demo_late = Inr d"
    using e d clear_expired_orders.simps [of fc_ref demo_late] clear_expired_orders.simps [of fc_ref d] by simp
  with clear_expired_orders_exact [OF safe_laws_ref t c] show ?thesis
    by (simp add: demo_late_def demo_market_def demo_defs demo_order_def find_obj_def head_block_time_def upt_rec)
qed

end
