(* ===== verification/Witness_Votes.thy ===== *)
theory Witness_Votes
  imports Balances "HOL-Library.Product_Lexorder"
begin

text \<open>
  Votes for witnesses: the evaluators \<open>account_witness_vote\<close> and \<open>account_witness_proxy\<close> of
  \<open>chain/steem_evaluator.cpp\<close>, and from \<open>chain/database.cpp\<close> the overload of
  \<open>adjust_proxied_witness_votes\<close> that moves a whole row of votes, \<open>clear_witness_votes\<close> and
  \<open>process_decline_voting_rights\<close>.

  An account with a proxy does not vote: its shares, and the shares that others proxied to it, count
  for the proxy, along at most four links.  \<open>a_proxied_vsf_votes ! k\<close> is what reaches an account over
  \<open>k + 1\<close> links.
\<close>

section \<open>Moving a row of votes\<close>

definition add_proxied_votes :: "fc_lib \<Rightarrow> nat \<Rightarrow> int list \<Rightarrow> account_object \<Rightarrow> account_object res" where
  "add_proxied_votes L depth delta a =
     fold_res (\<lambda>i. add_proxied_vote L (i + depth) (delta ! i)) (rev [0..<STEEMIT_MAX_PROXY_RECURSION_DEPTH - depth]) a"

definition sum_delta :: "fc_lib \<Rightarrow> nat \<Rightarrow> int list \<Rightarrow> int res" where
  "sum_delta L depth delta =
     fold_res (\<lambda>i t. safe_add L t (delta ! i)) (rev [0..<Suc (STEEMIT_MAX_PROXY_RECURSION_DEPTH - depth)]) 0"

function adjust_proxied_witness_votes_row :: "fc_lib \<Rightarrow> oid \<Rightarrow> int list \<Rightarrow> nat \<Rightarrow> chain \<Rightarrow> chain res" where
  "adjust_proxied_witness_votes_row L i delta depth c =
     rbind (account i c) (\<lambda>a.
     if a_proxy a \<noteq> STEEMIT_PROXY_TO_SELF_ACCOUNT
     then (if depth \<ge> STEEMIT_MAX_PROXY_RECURSION_DEPTH then Inr c
           else rbind (get_account (a_proxy a) c) (\<lambda>p.
                rbind (modify_account p (add_proxied_votes L depth delta) c) (\<lambda>c'.
                adjust_proxied_witness_votes_row L p delta (depth + 1) c')))
     else rbind (sum_delta L depth delta) (\<lambda>total_delta. adjust_witness_votes L i total_delta c))"
  by pat_completeness auto

termination
  by (relation "measure (\<lambda>(L, i, d, depth, c). STEEMIT_MAX_PROXY_RECURSION_DEPTH - depth)") auto

declare adjust_proxied_witness_votes_row.simps [simp del]

text \<open>The ids of the votes of an account, in the order of the witnesses.\<close>

definition votes_of :: "oid \<Rightarrow> chain \<Rightarrow> oid list" where
  "votes_of i c = map fst (sort_key (\<lambda>e. wv_witness (snd e)) (filter (\<lambda>e. wv_account (snd e) = i) (gi_indices (ch_witness_votes c))))"

definition remove_witness_vote :: "oid \<Rightarrow> chain \<Rightarrow> chain res" where
  "remove_witness_vote v c = rbind (db_remove v (ch_witness_votes c)) (\<lambda>t. Inr (c\<lparr>ch_witness_votes := t\<rparr>))"

definition clear_witness_votes :: "oid \<Rightarrow> chain \<Rightarrow> chain res" where
  "clear_witness_votes i c =
     rbind (fold_res remove_witness_vote (votes_of i c) c) (\<lambda>c.
     if has_hardfork 6 c then modify_account i (\<lambda>a. Inr (a\<lparr>a_witnesses_voted_for := 0\<rparr>)) c else Inr c)"

text \<open>What an account passes on: its own shares and all that was proxied to it, negated.\<close>

definition negate_all :: "fc_lib \<Rightarrow> int list \<Rightarrow> int list res" where
  "negate_all L xs = fold_res (\<lambda>x ys. rbind (safe_neg L x) (\<lambda>y. Inr (ys @ [y]))) xs []"

definition passed_on :: "account_object \<Rightarrow> int list" where
  "passed_on a = amount (a_vesting_shares a) # a_proxied_vsf_votes a"

section \<open>Evaluators\<close>

definition apply_account_witness_vote :: "fc_lib \<Rightarrow> account_witness_vote_operation \<Rightarrow> chain \<Rightarrow> chain res" where
  "apply_account_witness_vote L op c =
     rbind (get_account (awv_account op) c) (\<lambda>voter.
     rbind (account voter c) (\<lambda>a.
     rbind (fc_assert (a_proxy a = [])
       ''A proxy is currently set, please clear the proxy before voting for a witness.'') (\<lambda>_.
     rbind (if awv_approve op then fc_assert (a_can_vote a) ''Account has declined its voting rights.'' else Inr ()) (\<lambda>_.
     rbind (get_witness (awv_witness op) c) (\<lambda>w.
     case find_by (\<lambda>v. wv_account v = voter \<and> wv_witness v = w) (ch_witness_votes c) of
       None \<Rightarrow>
         rbind (fc_assert (awv_approve op) ''Vote doesn't exist, user must indicate a desire to approve witness.'') (\<lambda>_.
         rbind (fc_assert (a_witnesses_voted_for a < STEEMIT_MAX_ACCOUNT_WITNESS_VOTES)
           ''Account has voted for too many witnesses.'') (\<lambda>_.
         rbind (db_create witness_vote_clash (\<lambda>i. \<lparr>wv_id = i, wv_witness = w, wv_account = voter\<rparr>) (ch_witness_votes c)) (\<lambda>(_, t).
         rbind (witness_vote_weight L a) (\<lambda>weight.
         rbind (adjust_witness_vote L w weight (c\<lparr>ch_witness_votes := t\<rparr>)) (\<lambda>c.
         modify_account voter (\<lambda>a. Inr (a\<lparr>a_witnesses_voted_for := a_witnesses_voted_for a + 1\<rparr>)) c)))))
     | Some v \<Rightarrow>
         rbind (fc_assert (\<not> awv_approve op) ''Vote currently exists, user must indicate a desire to reject witness.'') (\<lambda>_.
         rbind (witness_vote_weight L a) (\<lambda>weight.
         rbind (safe_neg L weight) (\<lambda>m.
         rbind (adjust_witness_vote L w m c) (\<lambda>c.
         rbind (modify_account voter (\<lambda>a. Inr (a\<lparr>a_witnesses_voted_for := a_witnesses_voted_for a - 1\<rparr>)) c) (\<lambda>c.
         remove_witness_vote v c)))))))))) "

text \<open>The walk from the new proxy to the account that votes at the end of the chain.\<close>

function check_proxy_chain :: "account_object \<Rightarrow> oid list \<Rightarrow> chain \<Rightarrow> unit res" where
  "check_proxy_chain cprox proxy_chain c =
     (if a_proxy cprox = [] then Inr ()
      else rbind (get_account (a_proxy cprox) c) (\<lambda>n.
           rbind (account n c) (\<lambda>next_proxy.
           if n \<in> set proxy_chain then Inl (assert_exception ''This proxy would create a proxy loop.'')
           else if length (n # proxy_chain) > STEEMIT_MAX_PROXY_RECURSION_DEPTH
           then Inl (assert_exception ''Proxy chain is too long.'')
           else check_proxy_chain next_proxy (n # proxy_chain) c)))"
  by pat_completeness auto

termination
  by (relation "measure (\<lambda>(a, ids, c). STEEMIT_MAX_PROXY_RECURSION_DEPTH - length ids)") auto

declare check_proxy_chain.simps [simp del]

definition apply_account_witness_proxy :: "fc_lib \<Rightarrow> account_witness_proxy_operation \<Rightarrow> chain \<Rightarrow> chain res" where
  "apply_account_witness_proxy L op c =
     rbind (get_account (awp_account op) c) (\<lambda>i.
     rbind (account i c) (\<lambda>a.
     rbind (fc_assert (a_proxy a \<noteq> awp_proxy op) ''Proxy must change.'') (\<lambda>_.
     rbind (fc_assert (a_can_vote a) ''Account has declined the ability to vote and cannot proxy votes.'') (\<lambda>_.
     rbind (negate_all L (passed_on a)) (\<lambda>delta.
     rbind (adjust_proxied_witness_votes_row L i delta 0 c) (\<lambda>c.
     if awp_proxy op \<noteq> []
     then rbind (get_account (awp_proxy op) c) (\<lambda>p.
          rbind (account p c) (\<lambda>new_proxy.
          rbind (check_proxy_chain new_proxy (remdups [i, p]) c) (\<lambda>_.
          rbind (clear_witness_votes i c) (\<lambda>c.
          rbind (modify_account i (\<lambda>a. Inr (a\<lparr>a_proxy := awp_proxy op\<rparr>)) c) (\<lambda>c.
          rbind (negate_all L delta) (\<lambda>delta.
          adjust_proxied_witness_votes_row L i delta 0 c))))))
     else modify_account i (\<lambda>a. Inr (a\<lparr>a_proxy := awp_proxy op\<rparr>)) c))))))"

section \<open>Declined voting rights\<close>

definition due_decline :: "chain \<Rightarrow> oid option" where
  "due_decline c =
     (case sort_key (\<lambda>e. (dr_effective_date (snd e), dr_account (snd e))) (gi_indices (ch_declines c)) of
        [] \<Rightarrow> None
      | (i, r) # _ \<Rightarrow> if dr_effective_date r \<le> head_block_time c then Some i else None)"

definition decline_votes :: "fc_lib \<Rightarrow> oid \<Rightarrow> chain \<Rightarrow> chain res" where
  "decline_votes L r c =
     rbind (get_obj r (ch_declines c)) (\<lambda>req.
     let i = dr_account req in
     rbind (account i c) (\<lambda>a.
     rbind (negate_all L (passed_on a)) (\<lambda>delta.
     rbind (adjust_proxied_witness_votes_row L i delta 0 c) (\<lambda>c.
     rbind (clear_witness_votes i c) (\<lambda>c.
     rbind (modify_account i (\<lambda>a. Inr (a\<lparr>a_can_vote := False, a_proxy := STEEMIT_PROXY_TO_SELF_ACCOUNT\<rparr>)) c) (\<lambda>c.
     rbind (db_remove r (ch_declines c)) (\<lambda>t. Inr (c\<lparr>ch_declines := t\<rparr>))))))))"

lemma adjust_witness_vote_frame: "adjust_witness_vote L i delta c = Inr c' \<Longrightarrow> ledger_frame c c'"
  by (auto simp: adjust_witness_vote_def modify_witness_def Let_def ledger_frame_def head_block_time_def head_block_num_def)

lemma adjust_witness_votes_frame: "adjust_witness_votes L i delta c = Inr c' \<Longrightarrow> ledger_frame c c'"
  unfolding adjust_witness_votes_def
  by (rule fold_res_invariant [where P = "ledger_frame c"]) (auto intro: ledger_frame_trans dest: adjust_witness_vote_frame)

lemma row_frame: "adjust_proxied_witness_votes_row L i delta depth c = Inr c' \<Longrightarrow> ledger_frame c c'"
proof (induction L i delta depth c arbitrary: c' rule: adjust_proxied_witness_votes_row.induct)
  case (1 L i delta depth c)
  note step = 1(2) [unfolded adjust_proxied_witness_votes_row.simps [of L i delta depth c]]
  then obtain a where a: "account i c = Inr a" by auto
  show ?case
  proof (cases "a_proxy a \<noteq> STEEMIT_PROXY_TO_SELF_ACCOUNT \<and> \<not> STEEMIT_MAX_PROXY_RECURSION_DEPTH \<le> depth")
    case True
    then obtain p c1 where p: "get_account (a_proxy a) c = Inr p" "modify_account p (add_proxied_votes L depth delta) c = Inr c1"
      "adjust_proxied_witness_votes_row L p delta (depth + 1) c1 = Inr c'"
      using step a by auto
    from 1(1) [OF a _ _ p(1,2,3)] True modify_account_frame [OF p(2)] show ?thesis by (blast intro: ledger_frame_trans)
  next
    case False
    then have "c' = c \<or> (\<exists>t. adjust_witness_votes L i t c = Inr c')" using step a by (auto split: if_splits)
    then show ?thesis by (auto dest: adjust_witness_votes_frame)
  qed
qed

lemma clear_witness_votes_declines:
  assumes "clear_witness_votes i c = Inr c'"
  shows "ch_declines c' = ch_declines c \<and> head_block_time c' = head_block_time c"
proof -
  obtain d where d: "fold_res remove_witness_vote (votes_of i c) c = Inr d"
    and c': "c' = d \<or> modify_account i (\<lambda>a. Inr (a\<lparr>a_witnesses_voted_for := 0\<rparr>)) d = Inr c'"
    using assms by (auto simp: clear_witness_votes_def split: if_splits)
  have "ch_declines d = ch_declines c \<and> head_block_time d = head_block_time c"
    using d by (rule fold_res_invariant) (auto simp: remove_witness_vote_def head_block_time_def)
  with c' show ?thesis by (auto simp: ledger_frame_def dest!: modify_account_frame)
qed

lemma decline_votes_length:
  assumes "decline_votes L r c = Inr c'"
  shows "length (gi_indices (ch_declines c')) < length (gi_indices (ch_declines c))"
proof -
  obtain i delta f c1 c2 c3 t where "adjust_proxied_witness_votes_row L i delta 0 c = Inr c1" "clear_witness_votes i c1 = Inr c2"
    "modify_account i f c2 = Inr c3" and t: "db_remove r (ch_declines c3) = Inr t" "c' = c3\<lparr>ch_declines := t\<rparr>"
    using assms by (auto simp: decline_votes_def Let_def)
  then have "ch_declines c3 = ch_declines c"
    using row_frame clear_witness_votes_declines modify_account_frame by (fastforce simp: ledger_frame_def)
  with t db_remove_length [OF t(1)] show ?thesis by simp
qed

function process_decline_voting_rights :: "fc_lib \<Rightarrow> chain \<Rightarrow> chain res" where
  "process_decline_voting_rights L c =
     (case due_decline c of
        None \<Rightarrow> Inr c
      | Some r \<Rightarrow> rbind (decline_votes L r c) (\<lambda>c'. process_decline_voting_rights L c'))"
  by pat_completeness auto

termination
  by (relation "measure (\<lambda>(L, c). length (gi_indices (ch_declines c)))") (auto dest: decline_votes_length)

declare process_decline_voting_rights.simps [simp del]

interpretation declines: worklist due_decline "decline_votes L" "process_decline_voting_rights L"
  "\<lambda>c. length (gi_indices (ch_declines c))" for L
  by unfold_locales (auto simp: process_decline_voting_rights.simps [of L] dest: decline_votes_length)

end
