(* ===== verification/Evaluators.thy ===== *)
theory Evaluators
  imports Market Witness_Votes
begin

text \<open>
  Evaluators of \<open>chain/steem_evaluator.cpp\<close> that move or hold assets: transfers, escrow, vesting,
  conversion, savings, rewards and delegation, with the small ones beside them (feed, withdraw
  routes, declined voting rights, the disabled operations).  One definition is one \<open>do_apply\<close>, with
  the checks in the order of the code.  Last comes \<open>apply_operation\<close> for these and the market
  operations.
\<close>

section \<open>Transfer\<close>

definition apply_transfer :: "fc_lib \<Rightarrow> transfer_operation \<Rightarrow> chain \<Rightarrow> chain res" where
  "apply_transfer L op c =
     rbind (get_account (tr_from op) c) (\<lambda>from_account.
     rbind (get_account (tr_to op) c) (\<lambda>to_account.
     rbind (account from_account c) (\<lambda>a.
     rbind (if a_active_challenged a
            then modify_account from_account (\<lambda>a.
                   Inr (a\<lparr>a_active_challenged := False, a_last_active_proved := head_block_time c\<rparr>)) c
            else Inr c) (\<lambda>c.
     rbind (has_funds from_account (tr_amount op) ''Account does not have sufficient funds for transfer.'' c) (\<lambda>_.
     rbind (take_balance L from_account (tr_amount op) c) (\<lambda>c.
     adjust_balance L to_account (tr_amount op) c))))))"

section \<open>Escrow\<close>

definition escrow :: "oid \<Rightarrow> chain \<Rightarrow> escrow_object res" where
  "escrow i c = get_obj i (ch_escrows c)"

definition apply_escrow_transfer :: "fc_lib \<Rightarrow> escrow_transfer_operation \<Rightarrow> chain \<Rightarrow> chain res" where
  "apply_escrow_transfer L op c =
     rbind (get_account (et_from op) c) (\<lambda>from_account.
     rbind (get_account (et_to op) c) (\<lambda>_.
     rbind (get_account (et_agent op) c) (\<lambda>_.
     rbind (fc_assert (et_ratification_deadline op > head_block_time c)
       ''The escorw ratification deadline must be after head block time.'') (\<lambda>_.
     rbind (fc_assert (et_escrow_expiration op > head_block_time c)
       ''The escrow expiration must be after head block time.'') (\<lambda>_.
     rbind (if symbol (et_fee op) = STEEM_SYMBOL
            then rbind (asset_plus_assign L (et_steem_amount op) (et_fee op)) (\<lambda>x. Inr (x, et_sbd_amount op))
            else rbind (asset_plus_assign L (et_sbd_amount op) (et_fee op)) (\<lambda>x. Inr (et_steem_amount op, x)))
       (\<lambda>(steem_spent, sbd_spent).
     rbind (account from_account c) (\<lambda>a.
     rbind (asset_ge (a_balance a) steem_spent) (\<lambda>enough.
     rbind (fc_assert enough ''Account cannot cover STEEM costs of escrow.'') (\<lambda>_.
     rbind (asset_ge (a_sbd_balance a) sbd_spent) (\<lambda>enough.
     rbind (fc_assert enough ''Account cannot cover SBD costs of escrow.'') (\<lambda>_.
     rbind (take_balance L from_account steem_spent c) (\<lambda>c.
     rbind (take_balance L from_account sbd_spent c) (\<lambda>c.
     rbind (db_create escrow_clash (\<lambda>i.
       \<lparr>e_id = i, e_escrow_id = et_escrow_id op, e_from = et_from op, e_to = et_to op, e_agent = et_agent op,
        e_ratification_deadline = et_ratification_deadline op, e_escrow_expiration = et_escrow_expiration op,
        e_sbd_balance = et_sbd_amount op, e_steem_balance = et_steem_amount op, e_pending_fee = et_fee op,
        e_to_approved = False, e_agent_approved = False, e_disputed = False\<rparr>) (ch_escrows c)) (\<lambda>(_, t).
     Inr (c\<lparr>ch_escrows := t\<rparr>)))))))))))))))"

text \<open>Give all that an escrow holds back to the account and remove it; also the body of
  \<open>expire_escrow_ratification\<close>.\<close>

definition refund_escrow :: "fc_lib \<Rightarrow> oid \<Rightarrow> oid \<Rightarrow> chain \<Rightarrow> chain res" where
  "refund_escrow L from_account i c =
     rbind (escrow i c) (\<lambda>e.
     rbind (adjust_balance L from_account (e_steem_balance e) c) (\<lambda>c.
     rbind (adjust_balance L from_account (e_sbd_balance e) c) (\<lambda>c.
     rbind (adjust_balance L from_account (e_pending_fee e) c) (\<lambda>c.
     remove_escrow i c))))"

text \<open>The vote of one party, if it is the one that signs.\<close>

definition ratify ::
  "bool \<Rightarrow> bool \<Rightarrow> (escrow_object \<Rightarrow> bool) \<Rightarrow> (escrow_object \<Rightarrow> escrow_object) \<Rightarrow> string \<Rightarrow> oid \<Rightarrow> chain \<Rightarrow> chain res" where
  "ratify is_party reject approved mark msg i c =
     (if is_party
      then rbind (escrow i c) (\<lambda>e.
           rbind (fc_assert (\<not> approved e) msg) (\<lambda>_.
           if \<not> reject then modify_escrow i (\<lambda>e. Inr (mark e)) c else Inr c))
      else Inr c)"

definition pay_agent :: "fc_lib \<Rightarrow> account_name_type \<Rightarrow> oid \<Rightarrow> chain \<Rightarrow> chain res" where
  "pay_agent L agent i c =
     rbind (escrow i c) (\<lambda>e.
     if e_to_approved e \<and> e_agent_approved e
     then rbind (get_account agent c) (\<lambda>agent_account.
          rbind (adjust_balance L agent_account (e_pending_fee e) c) (\<lambda>c.
          modify_escrow i (\<lambda>e. Inr (e\<lparr>e_pending_fee := mk_asset 0 (symbol (e_pending_fee e))\<rparr>)) c))
     else Inr c)"

definition apply_escrow_approve :: "fc_lib \<Rightarrow> escrow_approve_operation \<Rightarrow> chain \<Rightarrow> chain res" where
  "apply_escrow_approve L op c =
     rbind (get_escrow (ea_from op) (ea_escrow_id op) c) (\<lambda>i.
     rbind (escrow i c) (\<lambda>e.
     rbind (fc_assert (e_to e = ea_to op) ''Operation 'to' does not match escrow 'to'.'') (\<lambda>_.
     rbind (fc_assert (e_agent e = ea_agent op) ''Operation 'agent' does not match escrow 'agent'.'') (\<lambda>_.
     rbind (fc_assert (e_ratification_deadline e \<ge> head_block_time c)
       ''The escrow ratification deadline has passed. Escrow can no longer be ratified.'') (\<lambda>_.
     let reject_escrow = \<not> ea_approve op
     in rbind (ratify (ea_who op = ea_to op) reject_escrow e_to_approved (\<lambda>e. e\<lparr>e_to_approved := True\<rparr>)
          ''Account 'to' has already approved the escrow.'' i c) (\<lambda>c.
        rbind (ratify (ea_who op = ea_agent op) reject_escrow e_agent_approved (\<lambda>e. e\<lparr>e_agent_approved := True\<rparr>)
          ''Account 'agent' has already approved the escrow.'' i c) (\<lambda>c.
        if reject_escrow
        then rbind (get_account (ea_from op) c) (\<lambda>from_account. refund_escrow L from_account i c)
        else pay_agent L (ea_agent op) i c)))))))"

definition apply_escrow_dispute :: "escrow_dispute_operation \<Rightarrow> chain \<Rightarrow> chain res" where
  "apply_escrow_dispute op c =
     rbind (get_account (ed_from op) c) (\<lambda>_.
     rbind (get_escrow (ed_from op) (ed_escrow_id op) c) (\<lambda>i.
     rbind (escrow i c) (\<lambda>e.
     rbind (fc_assert (head_block_time c < e_escrow_expiration e) ''Disputing the escrow must happen before expiration.'') (\<lambda>_.
     rbind (fc_assert (e_to_approved e \<and> e_agent_approved e)
       ''The escrow must be approved by all parties before a dispute can be raised.'') (\<lambda>_.
     rbind (fc_assert (\<not> e_disputed e) ''The escrow is already under dispute.'') (\<lambda>_.
     rbind (fc_assert (e_to e = ed_to op) ''Operation 'to' does not match escrow 'to'.'') (\<lambda>_.
     rbind (fc_assert (e_agent e = ed_agent op) ''Operation 'agent' does not match escrow 'agent'.'') (\<lambda>_.
     modify_escrow i (\<lambda>e. Inr (e\<lparr>e_disputed := True\<rparr>)) c))))))))"

text \<open>Who may release to whom.\<close>

definition release_allowed :: "escrow_release_operation \<Rightarrow> time_point_sec \<Rightarrow> escrow_object \<Rightarrow> unit res" where
  "release_allowed op now e =
     (if e_disputed e
      then fc_assert (er_who op = e_agent e) ''Only 'agent' can release funds in a disputed escrow.''
      else rbind (fc_assert (er_who op = e_from e \<or> er_who op = e_to e)
             ''Only 'from' and 'to' can release funds from a non-disputed escrow'') (\<lambda>_.
           if e_escrow_expiration e > now
           then (if er_who op = e_from e
                 then fc_assert (er_receiver op = e_to e) ''Only 'from' can release funds to 'to'.''
                 else if er_who op = e_to e
                 then fc_assert (er_receiver op = e_from e) ''Only 'to' can release funds to 'from'.''
                 else Inr ())
           else Inr ()))"

definition release_funds :: "fc_lib \<Rightarrow> oid \<Rightarrow> asset \<Rightarrow> asset \<Rightarrow> oid \<Rightarrow> chain \<Rightarrow> chain res" where
  "release_funds L receiver_account steem sbd i c =
     rbind (adjust_balance L receiver_account steem c) (\<lambda>c.
     rbind (adjust_balance L receiver_account sbd c) (\<lambda>c.
     rbind (modify_escrow i (\<lambda>e.
       rbind (asset_minus_assign L (e_steem_balance e) steem) (\<lambda>x.
       rbind (asset_minus_assign L (e_sbd_balance e) sbd) (\<lambda>y.
       Inr (e\<lparr>e_steem_balance := x, e_sbd_balance := y\<rparr>)))) c) (\<lambda>c.
     rbind (escrow i c) (\<lambda>e.
     if amount (e_steem_balance e) = 0 \<and> amount (e_sbd_balance e) = 0 then remove_escrow i c
     else Inr c))))"

definition apply_escrow_release :: "fc_lib \<Rightarrow> escrow_release_operation \<Rightarrow> chain \<Rightarrow> chain res" where
  "apply_escrow_release L op c =
     rbind (get_account (er_from op) c) (\<lambda>_.
     rbind (get_account (er_receiver op) c) (\<lambda>receiver_account.
     rbind (get_escrow (er_from op) (er_escrow_id op) c) (\<lambda>i.
     rbind (escrow i c) (\<lambda>e.
     rbind (asset_ge (e_steem_balance e) (er_steem_amount op)) (\<lambda>enough.
     rbind (fc_assert enough ''Release amount exceeds escrow balance.'') (\<lambda>_.
     rbind (asset_ge (e_sbd_balance e) (er_sbd_amount op)) (\<lambda>enough.
     rbind (fc_assert enough ''Release amount exceeds escrow balance.'') (\<lambda>_.
     rbind (fc_assert (e_to e = er_to op) ''Operation 'to' does not match escrow 'to'.'') (\<lambda>_.
     rbind (fc_assert (e_agent e = er_agent op) ''Operation 'agent' does not match escrow 'agent'.'') (\<lambda>_.
     rbind (fc_assert (er_receiver op = e_from e \<or> er_receiver op = e_to e)
       ''Funds must be released to 'from' or 'to' '') (\<lambda>_.
     rbind (fc_assert (e_to_approved e \<and> e_agent_approved e) ''Funds cannot be released prior to escrow approval.'') (\<lambda>_.
     rbind (release_allowed op (head_block_time c) e) (\<lambda>_.
     release_funds L receiver_account (er_steem_amount op) (er_sbd_amount op) i c)))))))))))))"

section \<open>Vesting\<close>

definition apply_transfer_to_vesting :: "fc_lib \<Rightarrow> transfer_to_vesting_operation \<Rightarrow> chain \<Rightarrow> chain res" where
  "apply_transfer_to_vesting L op c =
     rbind (get_account (tv_from op) c) (\<lambda>from_account.
     rbind (if tv_to op \<noteq> [] then get_account (tv_to op) c else Inr from_account) (\<lambda>to_account.
     rbind (account from_account c) (\<lambda>a.
     rbind (get_balance a STEEM_SYMBOL) (\<lambda>b.
     rbind (asset_ge b (tv_amount op)) (\<lambda>enough.
     rbind (fc_assert enough ''Account does not have sufficient STEEM for transfer.'') (\<lambda>_.
     rbind (take_balance L from_account (tv_amount op) c) (\<lambda>c.
     rbind (create_vesting L to_account (tv_amount op) False c) (\<lambda>(_, c). Inr c))))))))"

definition apply_withdraw_vesting :: "fc_lib \<Rightarrow> withdraw_vesting_operation \<Rightarrow> chain \<Rightarrow> chain res" where
  "apply_withdraw_vesting L op c =
     rbind (get_account (withdraw_vesting_operation.wv_account op) c) (\<lambda>i.
     rbind (account i c) (\<lambda>a.
     rbind (asset_ge (a_vesting_shares a) (mk_asset 0 VESTS_SYMBOL)) (\<lambda>enough.
     rbind (fc_assert enough ''Account does not have sufficient Steem Power for withdraw.'') (\<lambda>_.
     rbind (asset_minus L (a_vesting_shares a) (a_delegated_vesting_shares a)) (\<lambda>own.
     rbind (asset_ge own (wv_vesting_shares op)) (\<lambda>enough.
     rbind (fc_assert enough ''Account does not have sufficient Steem Power for withdraw.'') (\<lambda>_.
     rbind (asset_times_price L (cp_account_creation_fee (ws_median_props (ch_wso c)))
       (get_vesting_share_price (ch_gpo c))) (\<lambda>fee.
     let min_vests = mk_asset (wrap64 (amount fee * 10)) (symbol fee)
     in rbind (asset_greater (a_vesting_shares a) min_vests) (\<lambda>above.
        rbind (fc_assert (above \<or> amount (wv_vesting_shares op) = 0)
          ''Account registered by another account requires 10x account creation fee worth of Steem Power before it can be powered down.'') (\<lambda>_.
        if amount (wv_vesting_shares op) = 0
        then rbind (fc_assert (amount (a_vesting_withdraw_rate a) \<noteq> 0)
               ''This operation would not change the vesting withdraw rate.'') (\<lambda>_.
             modify_account i (\<lambda>a. Inr (a\<lparr>a_vesting_withdraw_rate := mk_asset 0 VESTS_SYMBOL,
               a_next_vesting_withdrawal := time_maximum, a_to_withdraw := 0, a_withdrawn := 0\<rparr>)) c)
        else modify_account i (\<lambda>a.
               rbind (safe_div L (amount (wv_vesting_shares op)) STEEMIT_VESTING_WITHDRAW_INTERVALS) (\<lambda>r.
               let rate = mk_asset (if r = 0 then 1 else r) VESTS_SYMBOL
               in rbind (fc_assert (\<not> asset_eq (a_vesting_withdraw_rate a) rate)
                    ''This operation would not change the vesting withdraw rate.'') (\<lambda>_.
                  Inr (a\<lparr>a_vesting_withdraw_rate := rate,
                         a_next_vesting_withdrawal :=
                           time_plus L (head_block_time c) (seconds STEEMIT_VESTING_WITHDRAW_INTERVAL_SECONDS),
                         a_to_withdraw := amount (wv_vesting_shares op), a_withdrawn := 0\<rparr>)))) c))))))))))"

text \<open>The sum over the routes of an account starts at \<open>upper_bound\<close> of the account and id 0, so a route to
  the account with id 0 is not in it.\<close>

definition routes_of :: "oid \<Rightarrow> chain \<Rightarrow> withdraw_vesting_route_object list" where
  "routes_of i c = sort_key wr_to_account
     (filter (\<lambda>r. wr_from_account r = i \<and> wr_to_account r > 0) (map snd (gi_indices (ch_routes c))))"

definition apply_set_withdraw_vesting_route :: "set_withdraw_vesting_route_operation \<Rightarrow> chain \<Rightarrow> chain res" where
  "apply_set_withdraw_vesting_route op c =
     rbind (get_account (sr_from_account op) c) (\<lambda>f.
     rbind (get_account (sr_to_account op) c) (\<lambda>t.
     rbind (case find_by (\<lambda>r. wr_from_account r = f \<and> wr_to_account r = t) (ch_routes c) of
         None \<Rightarrow>
           rbind (fc_assert (sr_percent op \<noteq> 0) ''Cannot create a 0% destination.'') (\<lambda>_.
           rbind (account f c) (\<lambda>a.
           rbind (fc_assert (a_withdraw_routes a < STEEMIT_MAX_WITHDRAW_ROUTES)
             ''Account already has the maximum number of routes.'') (\<lambda>_.
           rbind (db_create route_clash (\<lambda>i.
             \<lparr>wr_id = i, wr_from_account = f, wr_to_account = t, wr_percent = sr_percent op,
              wr_auto_vest = sr_auto_vest op\<rparr>) (ch_routes c)) (\<lambda>(_, tbl).
           modify_account f (\<lambda>a. Inr (a\<lparr>a_withdraw_routes := a_withdraw_routes a + 1\<rparr>)) (c\<lparr>ch_routes := tbl\<rparr>)))))
       | Some i \<Rightarrow>
           if sr_percent op = 0
           then rbind (db_remove i (ch_routes c)) (\<lambda>tbl.
                modify_account f (\<lambda>a. Inr (a\<lparr>a_withdraw_routes := a_withdraw_routes a - 1\<rparr>)) (c\<lparr>ch_routes := tbl\<rparr>))
           else rbind (db_modify route_clash i (\<lambda>r. Inr (r\<lparr>wr_from_account := f, wr_to_account := t,
                  wr_percent := sr_percent op, wr_auto_vest := sr_auto_vest op\<rparr>)) (ch_routes c)) (\<lambda>tbl.
                Inr (c\<lparr>ch_routes := tbl\<rparr>))) (\<lambda>c.
     rbind (fc_assert (unat (sum_list (map wr_percent (routes_of f c))) \<le> STEEMIT_100_PERCENT)
       ''More than 100% of vesting withdrawals allocated to destinations.'') (\<lambda>_.
     Inr c))))"

section \<open>Price feed and conversion\<close>

definition apply_feed_publish :: "feed_publish_operation \<Rightarrow> chain \<Rightarrow> chain res" where
  "apply_feed_publish op c =
     rbind (get_witness (fp_publisher op) c) (\<lambda>w.
     modify_witness w (\<lambda>w. Inr (w\<lparr>w_sbd_exchange_rate := fp_exchange_rate op,
       w_last_sbd_exchange_update := head_block_time c\<rparr>)) c)"

definition apply_convert :: "fc_lib \<Rightarrow> convert_operation \<Rightarrow> chain \<Rightarrow> chain res" where
  "apply_convert L op c =
     rbind (get_account (cv_owner op) c) (\<lambda>owner.
     rbind (has_funds owner (cv_amount op) ''Account does not have sufficient balance for conversion.'' c) (\<lambda>_.
     rbind (take_balance L owner (cv_amount op) c) (\<lambda>c.
     rbind (fc_assert (\<not> is_null L (median_history c)) ''Cannot convert SBD because there is no price feed.'') (\<lambda>_.
     rbind (db_create convert_clash (\<lambda>i.
       \<lparr>cr_id = i, cr_owner = cv_owner op, cr_requestid = cv_requestid op, cr_amount = cv_amount op,
        cr_conversion_date = time_plus L (head_block_time c) STEEMIT_CONVERSION_DELAY\<rparr>) (ch_converts c)) (\<lambda>(_, t).
     Inr (c\<lparr>ch_converts := t\<rparr>))))))"

section \<open>Savings\<close>

definition apply_transfer_to_savings :: "fc_lib \<Rightarrow> transfer_to_savings_operation \<Rightarrow> chain \<Rightarrow> chain res" where
  "apply_transfer_to_savings L op c =
     rbind (get_account (ts_from op) c) (\<lambda>from_account.
     rbind (get_account (ts_to op) c) (\<lambda>to_account.
     rbind (has_funds from_account (ts_amount op) ''Account does not have sufficient funds to transfer to savings.'' c) (\<lambda>_.
     rbind (take_balance L from_account (ts_amount op) c) (\<lambda>c.
     adjust_savings_balance L to_account (ts_amount op) c))))"

definition apply_transfer_from_savings :: "fc_lib \<Rightarrow> transfer_from_savings_operation \<Rightarrow> chain \<Rightarrow> chain res" where
  "apply_transfer_from_savings L op c =
     rbind (get_account (tfs_from op) c) (\<lambda>from_account.
     rbind (get_account (tfs_to op) c) (\<lambda>_.
     rbind (account from_account c) (\<lambda>a.
     rbind (fc_assert (a_savings_withdraw_requests a < STEEMIT_SAVINGS_WITHDRAW_REQUEST_LIMIT)
       ''Account has reached limit for pending withdraw requests.'') (\<lambda>_.
     rbind (get_savings_balance a (symbol (tfs_amount op))) (\<lambda>b.
     rbind (asset_ge b (tfs_amount op)) (\<lambda>enough.
     rbind (fc_assert enough ''get_savings_balance >= amount'') (\<lambda>_.
     rbind (asset_uminus L (tfs_amount op)) (\<lambda>m.
     rbind (adjust_savings_balance L from_account m c) (\<lambda>c.
     rbind (db_create savings_clash (\<lambda>i.
       \<lparr>sw_id = i, sw_from = tfs_from op, sw_to = tfs_to op, sw_memo = tfs_memo op, sw_request_id = tfs_request_id op,
        sw_amount = tfs_amount op, sw_complete = time_plus L (head_block_time c) STEEMIT_SAVINGS_WITHDRAW_TIME\<rparr>)
       (ch_savings c)) (\<lambda>(_, t).
     modify_account from_account
       (\<lambda>a. Inr (a\<lparr>a_savings_withdraw_requests := a_savings_withdraw_requests a + 1\<rparr>)) (c\<lparr>ch_savings := t\<rparr>)))))))))))"

definition apply_cancel_transfer_from_savings ::
  "fc_lib \<Rightarrow> cancel_transfer_from_savings_operation \<Rightarrow> chain \<Rightarrow> chain res" where
  "apply_cancel_transfer_from_savings L op c =
     rbind (get_savings_withdraw (cts_from op) (cts_request_id op) c) (\<lambda>i.
     rbind (get_obj i (ch_savings c)) (\<lambda>swo.
     rbind (get_account (sw_from swo) c) (\<lambda>a.
     rbind (adjust_savings_balance L a (sw_amount swo) c) (\<lambda>c.
     rbind (remove_savings i c) (\<lambda>c.
     rbind (get_account (cts_from op) c) (\<lambda>from_account.
     modify_account from_account
       (\<lambda>a. Inr (a\<lparr>a_savings_withdraw_requests := a_savings_withdraw_requests a - 1\<rparr>)) c))))))"

section \<open>Voting rights and disabled operations\<close>

definition apply_decline_voting_rights :: "fc_lib \<Rightarrow> decline_voting_rights_operation \<Rightarrow> chain \<Rightarrow> chain res" where
  "apply_decline_voting_rights L op c =
     rbind (get_account (dv_account op) c) (\<lambda>a.
     let itr = find_by (\<lambda>r. dr_account r = a) (ch_declines c)
     in if dv_decline op
        then rbind (fc_assert (itr = None) ''Cannot create new request because one already exists.'') (\<lambda>_.
             rbind (db_create decline_clash (\<lambda>i.
               \<lparr>dr_id = i, dr_account = a,
                dr_effective_date = time_plus L (head_block_time c) STEEMIT_OWNER_AUTH_RECOVERY_PERIOD\<rparr>) (ch_declines c)) (\<lambda>(_, t).
             Inr (c\<lparr>ch_declines := t\<rparr>)))
        else (case itr of
                None \<Rightarrow> Inl (assert_exception ''Cannot cancel the request because it does not exist.'')
              | Some i \<Rightarrow> rbind (db_remove i (ch_declines c)) (\<lambda>t. Inr (c\<lparr>ch_declines := t\<rparr>))))"

definition apply_report_over_production :: "report_over_production_operation \<Rightarrow> chain \<Rightarrow> chain res" where
  "apply_report_over_production op c = Inr c"

definition apply_reset_account :: "reset_account_operation \<Rightarrow> chain \<Rightarrow> chain res" where
  "apply_reset_account op c = Inl (assert_exception ''Reset Account Operation is currently disabled.'')"

definition apply_set_reset_account :: "set_reset_account_operation \<Rightarrow> chain \<Rightarrow> chain res" where
  "apply_set_reset_account op c = Inl (assert_exception ''Set Reset Account Operation is currently disabled.'')"

section \<open>Rewards\<close>

text \<open>The STEEM behind the claimed vesting shares.\<close>

definition reward_steem_to_move :: "fc_lib \<Rightarrow> claim_reward_balance_operation \<Rightarrow> account_object \<Rightarrow> asset res" where
  "reward_steem_to_move L op a =
     (if asset_eq (cl_reward_vests op) (a_reward_vesting_balance a) then Inr (a_reward_vesting_steem a)
      else rbind (u128_div L
             (u128_mul L (u128_of_int L (amount (cl_reward_vests op))) (u128_of_int L (amount (a_reward_vesting_steem a))))
             (u128_of_int L (amount (a_reward_vesting_balance a)))) (\<lambda>q.
           rbind (to_uint64 L q) (\<lambda>v. Inr (mk_asset (sint v) STEEM_SYMBOL))))"

definition apply_claim_reward_balance :: "fc_lib \<Rightarrow> claim_reward_balance_operation \<Rightarrow> chain \<Rightarrow> chain res" where
  "apply_claim_reward_balance L op c =
     rbind (get_account (cl_account op) c) (\<lambda>i.
     rbind (account i c) (\<lambda>a.
     rbind (asset_le (cl_reward_steem op) (a_reward_steem_balance a)) (\<lambda>b.
     rbind (fc_assert b ''Cannot claim that much STEEM.'') (\<lambda>_.
     rbind (asset_le (cl_reward_sbd op) (a_reward_sbd_balance a)) (\<lambda>b.
     rbind (fc_assert b ''Cannot claim that much SBD.'') (\<lambda>_.
     rbind (asset_le (cl_reward_vests op) (a_reward_vesting_balance a)) (\<lambda>b.
     rbind (fc_assert b ''Cannot claim that much VESTS.'') (\<lambda>_.
     rbind (reward_steem_to_move L op a) (\<lambda>moved.
     rbind (asset_uminus L (cl_reward_steem op)) (\<lambda>m.
     rbind (adjust_reward_balance L i m c) (\<lambda>c.
     rbind (asset_uminus L (cl_reward_sbd op)) (\<lambda>m.
     rbind (adjust_reward_balance L i m c) (\<lambda>c.
     rbind (adjust_balance L i (cl_reward_steem op) c) (\<lambda>c.
     rbind (adjust_balance L i (cl_reward_sbd op) c) (\<lambda>c.
     rbind (modify_account i (\<lambda>a.
       rbind (asset_plus_assign L (a_vesting_shares a) (cl_reward_vests op)) (\<lambda>v.
       rbind (asset_minus_assign L (a_reward_vesting_balance a) (cl_reward_vests op)) (\<lambda>b.
       rbind (asset_minus_assign L (a_reward_vesting_steem a) moved) (\<lambda>s.
       Inr (a\<lparr>a_vesting_shares := v, a_reward_vesting_balance := b, a_reward_vesting_steem := s\<rparr>))))) c) (\<lambda>c.
     rbind (modify_gpo (\<lambda>g.
       rbind (asset_plus_assign L (g_total_vesting_shares g) (cl_reward_vests op)) (\<lambda>t.
       rbind (asset_plus_assign L (g_total_vesting_fund_steem g) moved) (\<lambda>f.
       rbind (asset_minus_assign L (g_pending_rewarded_vesting_shares g) (cl_reward_vests op)) (\<lambda>p.
       rbind (asset_minus_assign L (g_pending_rewarded_vesting_steem g) moved) (\<lambda>q.
       Inr (g\<lparr>g_total_vesting_shares := t, g_total_vesting_fund_steem := f,
              g_pending_rewarded_vesting_shares := p, g_pending_rewarded_vesting_steem := q\<rparr>)))))) c) (\<lambda>c.
     adjust_proxied_witness_votes L i (amount (cl_reward_vests op)) 0 c)))))))))))))))))"

section \<open>Delegation\<close>

definition add_delegated :: "fc_lib \<Rightarrow> asset \<Rightarrow> account_object \<Rightarrow> account_object res" where
  "add_delegated L x a =
     rbind (asset_plus_assign L (a_delegated_vesting_shares a) x) (\<lambda>s. Inr (a\<lparr>a_delegated_vesting_shares := s\<rparr>))"

definition add_received :: "fc_lib \<Rightarrow> asset \<Rightarrow> account_object \<Rightarrow> account_object res" where
  "add_received L x a =
     rbind (asset_plus_assign L (a_received_vesting_shares a) x) (\<lambda>s. Inr (a\<lparr>a_received_vesting_shares := s\<rparr>))"

definition sub_received :: "fc_lib \<Rightarrow> asset \<Rightarrow> account_object \<Rightarrow> account_object res" where
  "sub_received L x a =
     rbind (asset_minus_assign L (a_received_vesting_shares a) x) (\<lambda>s. Inr (a\<lparr>a_received_vesting_shares := s\<rparr>))"

definition available_shares :: "fc_lib \<Rightarrow> account_object \<Rightarrow> asset res" where
  "available_shares L a =
     rbind (asset_minus L (a_vesting_shares a) (a_delegated_vesting_shares a)) (\<lambda>x.
     rbind (safe_sub L (a_to_withdraw a) (a_withdrawn a)) (\<lambda>w.
     asset_minus L x (mk_asset w VESTS_SYMBOL)))"

text \<open>The three cases: a new delegation, one that grows (or stays), one that shrinks.\<close>

definition new_delegation ::
  "fc_lib \<Rightarrow> delegate_vesting_shares_operation \<Rightarrow> oid \<Rightarrow> oid \<Rightarrow> asset \<Rightarrow> asset \<Rightarrow> chain \<Rightarrow> chain res" where
  "new_delegation L op delegator delegatee available min_delegation c =
     rbind (asset_ge available (dl_vesting_shares op)) (\<lambda>b.
     rbind (fc_assert b ''Account does not have enough vesting shares to delegate.'') (\<lambda>_.
     rbind (asset_ge (dl_vesting_shares op) min_delegation) (\<lambda>b.
     rbind (fc_assert b ''Account must delegate a minimum'') (\<lambda>_.
     rbind (db_create delegation_clash (\<lambda>i.
       \<lparr>vd_id = i, vd_delegator = dl_delegator op, vd_delegatee = dl_delegatee op,
        vd_vesting_shares = dl_vesting_shares op, vd_min_delegation_time = head_block_time c\<rparr>) (ch_delegations c)) (\<lambda>(_, t).
     rbind (modify_account delegator (add_delegated L (dl_vesting_shares op)) (c\<lparr>ch_delegations := t\<rparr>)) (\<lambda>c.
     modify_account delegatee (add_received L (dl_vesting_shares op)) c))))))"

definition increase_delegation ::
  "fc_lib \<Rightarrow> delegate_vesting_shares_operation \<Rightarrow> oid \<Rightarrow> oid \<Rightarrow> asset \<Rightarrow> asset \<Rightarrow> oid \<Rightarrow> vesting_delegation_object \<Rightarrow>
     chain \<Rightarrow> chain res" where
  "increase_delegation L op delegator delegatee available min_update i d c =
     rbind (asset_minus L (dl_vesting_shares op) (vd_vesting_shares d)) (\<lambda>delta.
     rbind (asset_ge delta min_update) (\<lambda>b.
     rbind (fc_assert b ''Steem Power increase is not enough of a difference.'') (\<lambda>_.
     rbind (asset_minus L (dl_vesting_shares op) (vd_vesting_shares d)) (\<lambda>more.
     rbind (asset_ge available more) (\<lambda>b.
     rbind (fc_assert b ''Account does not have enough vesting shares to delegate.'') (\<lambda>_.
     rbind (modify_account delegator (add_delegated L delta) c) (\<lambda>c.
     rbind (modify_account delegatee (add_received L delta) c) (\<lambda>c.
     modify_delegation i (\<lambda>d. Inr (d\<lparr>vd_vesting_shares := dl_vesting_shares op\<rparr>)) c))))))))"

definition decrease_delegation ::
  "fc_lib \<Rightarrow> delegate_vesting_shares_operation \<Rightarrow> oid \<Rightarrow> asset \<Rightarrow> asset \<Rightarrow> oid \<Rightarrow> vesting_delegation_object \<Rightarrow>
     chain \<Rightarrow> chain res" where
  "decrease_delegation L op delegatee min_delegation min_update i d c =
     rbind (asset_minus L (vd_vesting_shares d) (dl_vesting_shares op)) (\<lambda>delta.
     rbind (if amount (dl_vesting_shares op) > 0
            then rbind (asset_ge delta min_update) (\<lambda>b.
                 rbind (fc_assert b ''Steem Power decrease is not enough of a difference.'') (\<lambda>_.
                 rbind (asset_ge (dl_vesting_shares op) min_delegation) (\<lambda>b.
                 fc_assert b ''Delegation must be removed or leave minimum delegation amount'')))
            else fc_assert (amount (vd_vesting_shares d) > 0)
                   ''Delegation would set vesting_shares to zero, but it is already zero'') (\<lambda>_.
     rbind (db_create no_clash (\<lambda>j.
       \<lparr>vde_id = j, vde_delegator = dl_delegator op, vde_vesting_shares = delta,
        vde_expiration = max (time_plus L (head_block_time c) (seconds STEEMIT_CASHOUT_WINDOW_SECONDS))
          (vd_min_delegation_time d)\<rparr>) (ch_expirations c)) (\<lambda>(_, t).
     rbind (modify_account delegatee (sub_received L delta) (c\<lparr>ch_expirations := t\<rparr>)) (\<lambda>c.
     if amount (dl_vesting_shares op) > 0
     then modify_delegation i (\<lambda>d. Inr (d\<lparr>vd_vesting_shares := dl_vesting_shares op\<rparr>)) c
     else rbind (db_remove i (ch_delegations c)) (\<lambda>t. Inr (c\<lparr>ch_delegations := t\<rparr>))))))"

definition update_delegation ::
  "fc_lib \<Rightarrow> delegate_vesting_shares_operation \<Rightarrow> oid \<Rightarrow> oid \<Rightarrow> asset \<Rightarrow> asset \<Rightarrow> asset \<Rightarrow> chain \<Rightarrow> chain res" where
  "update_delegation L op delegator delegatee available min_delegation min_update c =
     (case find_by (\<lambda>d. vd_delegator d = dl_delegator op \<and> vd_delegatee d = dl_delegatee op) (ch_delegations c) of
        None \<Rightarrow> new_delegation L op delegator delegatee available min_delegation c
      | Some i \<Rightarrow>
          rbind (get_obj i (ch_delegations c)) (\<lambda>d.
          rbind (asset_ge (dl_vesting_shares op) (vd_vesting_shares d)) (\<lambda>grows.
          if grows then increase_delegation L op delegator delegatee available min_update i d c
          else decrease_delegation L op delegatee min_delegation min_update i d c)))"

definition apply_delegate_vesting_shares :: "fc_lib \<Rightarrow> delegate_vesting_shares_operation \<Rightarrow> chain \<Rightarrow> chain res" where
  "apply_delegate_vesting_shares L op c =
     rbind (get_account (dl_delegator op) c) (\<lambda>delegator.
     rbind (get_account (dl_delegatee op) c) (\<lambda>delegatee.
     rbind (account delegator c) (\<lambda>a.
     rbind (available_shares L a) (\<lambda>available.
     let fee = cp_account_creation_fee (ws_median_props (ch_wso c)); p = get_vesting_share_price (ch_gpo c)
     in rbind (safe_mul L (amount fee) 10) (\<lambda>fee10.
        rbind (asset_times_price L (mk_asset fee10 STEEM_SYMBOL) p) (\<lambda>min_delegation.
        rbind (asset_times_price L fee p) (\<lambda>min_update.
        update_delegation L op delegator delegatee available min_delegation min_update c)))))))"

section \<open>The evaluators by operation\<close>

text \<open>\<open>apply_operation\<close> looks up the evaluator of the operation.  \<open>None\<close>: an evaluator that is not
  part of this theory.\<close>

definition evaluate :: "fc_lib \<Rightarrow> operation \<Rightarrow> (chain \<Rightarrow> chain res) option" where
  "evaluate L op = (case op of
       Op_transfer x \<Rightarrow> Some (apply_transfer L x)
     | Op_transfer_to_vesting x \<Rightarrow> Some (apply_transfer_to_vesting L x)
     | Op_withdraw_vesting x \<Rightarrow> Some (apply_withdraw_vesting L x)
     | Op_limit_order_create x \<Rightarrow> Some (apply_limit_order_create L x)
     | Op_limit_order_create2 x \<Rightarrow> Some (apply_limit_order_create2 L x)
     | Op_limit_order_cancel x \<Rightarrow> Some (apply_limit_order_cancel L x)
     | Op_account_witness_vote x \<Rightarrow> Some (apply_account_witness_vote L x)
     | Op_account_witness_proxy x \<Rightarrow> Some (apply_account_witness_proxy L x)
     | Op_feed_publish x \<Rightarrow> Some (apply_feed_publish x)
     | Op_convert x \<Rightarrow> Some (apply_convert L x)
     | Op_set_withdraw_vesting_route x \<Rightarrow> Some (apply_set_withdraw_vesting_route x)
     | Op_escrow_transfer x \<Rightarrow> Some (apply_escrow_transfer L x)
     | Op_escrow_approve x \<Rightarrow> Some (apply_escrow_approve L x)
     | Op_escrow_dispute x \<Rightarrow> Some (apply_escrow_dispute x)
     | Op_escrow_release x \<Rightarrow> Some (apply_escrow_release L x)
     | Op_transfer_to_savings x \<Rightarrow> Some (apply_transfer_to_savings L x)
     | Op_transfer_from_savings x \<Rightarrow> Some (apply_transfer_from_savings L x)
     | Op_cancel_transfer_from_savings x \<Rightarrow> Some (apply_cancel_transfer_from_savings L x)
     | Op_decline_voting_rights x \<Rightarrow> Some (apply_decline_voting_rights L x)
     | Op_report_over_production x \<Rightarrow> Some (apply_report_over_production x)
     | Op_reset_account x \<Rightarrow> Some (apply_reset_account x)
     | Op_set_reset_account x \<Rightarrow> Some (apply_set_reset_account x)
     | Op_claim_reward_balance x \<Rightarrow> Some (apply_claim_reward_balance L x)
     | Op_delegate_vesting_shares x \<Rightarrow> Some (apply_delegate_vesting_shares L x)
     | _ \<Rightarrow> None)"

end
