(* ===== verification/Block_Processing.thy ===== *)
theory Block_Processing
  imports Evaluators "HOL-Library.Product_Lexorder" "HOL-Library.Multiset"
begin

text \<open>
  What \<open>chain/database.cpp\<close> does to the ledger at every block: due savings withdrawals
  (\<open>process_savings_withdraws\<close>), due conversions (\<open>process_conversions\<close>), escrows that were not ratified
  in time (\<open>expire_escrow_ratification\<close>), returned delegations (\<open>clear_expired_delegations\<close>), and the
  check \<open>validate_invariants\<close> of the supply.

  Each loop takes the first object of an index while it is due; the loops are interpretations of the
  locale \<open>worklist\<close>, which shows that they end, that nothing is due at the end, and that what every
  turn keeps is kept.
\<close>

section \<open>Savings\<close>

text \<open>The index is ordered by completion, then by owner and request id.\<close>

definition due_savings :: "chain \<Rightarrow> oid option" where
  "due_savings c =
     (case sort_key (\<lambda>e. (sw_complete (snd e), sw_from (snd e), sw_request_id (snd e))) (gi_indices (ch_savings c)) of
        [] \<Rightarrow> None
      | (i, s) # _ \<Rightarrow> if sw_complete s > head_block_time c then None else Some i)"

definition fill_savings :: "fc_lib \<Rightarrow> oid \<Rightarrow> chain \<Rightarrow> chain res" where
  "fill_savings L i c =
     rbind (get_obj i (ch_savings c)) (\<lambda>s.
     rbind (get_account (sw_to s) c) (\<lambda>a.
     rbind (adjust_balance L a (sw_amount s) c) (\<lambda>c.
     rbind (get_account (sw_from s) c) (\<lambda>f.
     rbind (modify_account f
       (\<lambda>a. Inr (a\<lparr>a_savings_withdraw_requests := a_savings_withdraw_requests a - 1\<rparr>)) c) (\<lambda>c.
     remove_savings i (push_virtual_operation (Op_fill_transfer_from_savings
       \<lparr>vfs_from = sw_from s, vfs_to = sw_to s, vfs_amount = sw_amount s, vfs_request_id = sw_request_id s,
        vfs_memo = sw_memo s\<rparr>) c))))))"

lemma fill_savings_length:
  assumes "fill_savings L i c = Inr c'"
  shows "length (gi_indices (ch_savings c')) < length (gi_indices (ch_savings c))"
proof -
  obtain a x f g op c1 c2 where c1: "adjust_balance L a x c = Inr c1" "modify_account f g c1 = Inr c2"
    "remove_savings i (push_virtual_operation op c2) = Inr c'"
    using assms unfolding fill_savings_def by (auto simp: Let_def)
  have "ch_savings c2 = ch_savings c"
    using adjust_balance_frame [OF c1(1)] modify_account_frame [OF c1(2)] by (simp add: ledger_frame_def)
  with c1(3) show ?thesis by (auto simp: remove_savings_def push_virtual_operation_def dest: db_remove_length)
qed

function process_savings_withdraws :: "fc_lib \<Rightarrow> chain \<Rightarrow> chain res" where
  "process_savings_withdraws L c =
     (case due_savings c of
        None \<Rightarrow> Inr c
      | Some i \<Rightarrow> rbind (fill_savings L i c) (\<lambda>c'. process_savings_withdraws L c'))"
  by pat_completeness auto

termination
  by (relation "measure (\<lambda>(L, c). length (gi_indices (ch_savings c)))") (auto dest: fill_savings_length)

declare process_savings_withdraws.simps [simp del]

interpretation savings: worklist due_savings "fill_savings L" "process_savings_withdraws L"
  "\<lambda>c. length (gi_indices (ch_savings c))" for L
  by unfold_locales (auto simp: process_savings_withdraws.simps [of L] dest: fill_savings_length)

section \<open>Conversions\<close>

definition due_convert :: "chain \<times> asset \<times> asset \<Rightarrow> oid option" where
  "due_convert = (\<lambda>(c, _).
     case ordered_by cr_conversion_date (ch_converts c) of
       [] \<Rightarrow> None
     | (i, r) # _ \<Rightarrow> if cr_conversion_date r \<le> head_block_time c then Some i else None)"

text \<open>The state of the loop has the two totals \<open>net_sbd\<close> and \<open>net_steem\<close>.\<close>

definition fill_convert :: "fc_lib \<Rightarrow> oid \<Rightarrow> chain \<times> asset \<times> asset \<Rightarrow> (chain \<times> asset \<times> asset) res" where
  "fill_convert L i = (\<lambda>(c, net_sbd, net_steem).
     rbind (get_obj i (ch_converts c)) (\<lambda>r.
     rbind (get_account (cr_owner r) c) (\<lambda>user.
     rbind (account user c) (\<lambda>u.
     rbind (asset_times_price L (cr_amount r) (median_history c)) (\<lambda>amount_to_issue.
     rbind (adjust_balance L user amount_to_issue c) (\<lambda>c.
     rbind (asset_plus_assign L net_sbd (cr_amount r)) (\<lambda>net_sbd.
     rbind (asset_plus_assign L net_steem amount_to_issue) (\<lambda>net_steem.
     rbind (remove_convert i (push_virtual_operation (Op_fill_convert_request
       \<lparr>vfc_owner = a_name u, vfc_requestid = cr_requestid r, vfc_amount_in = cr_amount r,
        vfc_amount_out = amount_to_issue\<rparr>) c)) (\<lambda>c.
     Inr (c, net_sbd, net_steem))))))))))"

lemma fill_convert_length:
  assumes "fill_convert L i s = Inr s'"
  shows "length (gi_indices (ch_converts (fst s'))) < length (gi_indices (ch_converts (fst s)))"
proof -
  obtain u x op c1 where c1: "adjust_balance L u x (fst s) = Inr c1"
    "remove_convert i (push_virtual_operation op c1) = Inr (fst s')"
    using assms unfolding fill_convert_def by (auto split: prod.splits)
  have "ch_converts c1 = ch_converts (fst s)" using adjust_balance_frame [OF c1(1)] by (simp add: ledger_frame_def)
  moreover obtain t where "db_remove i (ch_converts c1) = Inr t" "ch_converts (fst s') = t"
    using c1(2) by (auto simp: remove_convert_def push_virtual_operation_def) (metis chain.select_convs(4) chain.surjective chain.update_convs(4))
  ultimately show ?thesis by (auto dest: db_remove_length)
qed

function fill_converts :: "fc_lib \<Rightarrow> chain \<times> asset \<times> asset \<Rightarrow> (chain \<times> asset \<times> asset) res" where
  "fill_converts L s =
     (case due_convert s of
        None \<Rightarrow> Inr s
      | Some i \<Rightarrow> rbind (fill_convert L i s) (\<lambda>s'. fill_converts L s'))"
  by pat_completeness auto

termination
  by (relation "measure (\<lambda>(L, s). length (gi_indices (ch_converts (fst s))))") (force dest: fill_convert_length)+

declare fill_converts.simps [simp del]

interpretation converts: worklist due_convert "fill_convert L" "fill_converts L"
  "\<lambda>s. length (gi_indices (ch_converts (fst s)))" for L
  by unfold_locales (auto simp: fill_converts.simps [of L] dest: fill_convert_length)

definition process_conversions :: "fc_lib \<Rightarrow> chain \<Rightarrow> chain res" where
  "process_conversions L c =
     (if is_null L (median_history c) then Inr c
      else rbind (fill_converts L (c, mk_asset 0 SBD_SYMBOL, mk_asset 0 STEEM_SYMBOL)) (\<lambda>(c, net_sbd, net_steem).
           modify_gpo (\<lambda>p.
             rbind (asset_plus_assign L (g_current_supply p) net_steem) (\<lambda>cs.
             rbind (asset_minus_assign L (g_current_sbd_supply p) net_sbd) (\<lambda>cd.
             rbind (asset_plus_assign L (g_virtual_supply p) net_steem) (\<lambda>v.
             rbind (asset_times_price L net_sbd (median_history c)) (\<lambda>x.
             rbind (asset_minus_assign L v x) (\<lambda>v.
             Inr (p\<lparr>g_current_supply := cs, g_current_sbd_supply := cd, g_virtual_supply := v\<rparr>))))))) c))"

section \<open>Escrows\<close>

text \<open>The index is ordered by approval, deadline and id.\<close>

definition unratified_escrow :: "chain \<Rightarrow> oid option" where
  "unratified_escrow c =
     (case sort_key (\<lambda>e. (is_approved (snd e), e_ratification_deadline (snd e), fst e)) (gi_indices (ch_escrows c)) of
        [] \<Rightarrow> None
      | (i, e) # _ \<Rightarrow>
          if \<not> is_approved e \<and> e_ratification_deadline e \<le> head_block_time c then Some i else None)"

definition expire_escrow :: "fc_lib \<Rightarrow> oid \<Rightarrow> chain \<Rightarrow> chain res" where
  "expire_escrow L i c =
     rbind (escrow i c) (\<lambda>e.
     rbind (get_account (e_from e) c) (\<lambda>from_account. refund_escrow L from_account i c))"

lemma expire_escrow_length:
  assumes "expire_escrow L i c = Inr c'"
  shows "length (gi_indices (ch_escrows c')) < length (gi_indices (ch_escrows c))"
proof -
  obtain f e c1 c2 c3 where e: "escrow i c = Inr e" and c1: "adjust_balance L f (e_steem_balance e) c = Inr c1"
    "adjust_balance L f (e_sbd_balance e) c1 = Inr c2"
    "adjust_balance L f (e_pending_fee e) c2 = Inr c3" "remove_escrow i c3 = Inr c'"
    using assms unfolding expire_escrow_def refund_escrow_def by auto
  have "ch_escrows c3 = ch_escrows c"
    using adjust_balance_frame [OF c1(1)] adjust_balance_frame [OF c1(2)] adjust_balance_frame [OF c1(3)]
    by (simp add: ledger_frame_def)
  with c1(4) show ?thesis by (auto simp: remove_escrow_def dest: db_remove_length)
qed

function expire_escrow_ratification :: "fc_lib \<Rightarrow> chain \<Rightarrow> chain res" where
  "expire_escrow_ratification L c =
     (case unratified_escrow c of
        None \<Rightarrow> Inr c
      | Some i \<Rightarrow> rbind (expire_escrow L i c) (\<lambda>c'. expire_escrow_ratification L c'))"
  by pat_completeness auto

termination
  by (relation "measure (\<lambda>(L, c). length (gi_indices (ch_escrows c)))") (auto dest: expire_escrow_length)

declare expire_escrow_ratification.simps [simp del]

interpretation escrows: worklist unratified_escrow "expire_escrow L" "expire_escrow_ratification L"
  "\<lambda>c. length (gi_indices (ch_escrows c))" for L
  by unfold_locales (auto simp: expire_escrow_ratification.simps [of L] dest: expire_escrow_length)

section \<open>Delegations\<close>

definition expired_delegation :: "chain \<Rightarrow> oid option" where
  "expired_delegation c =
     (case ordered_by vde_expiration (ch_expirations c) of
        [] \<Rightarrow> None
      | (i, d) # _ \<Rightarrow> if vde_expiration d < head_block_time c then Some i else None)"

definition return_delegation :: "fc_lib \<Rightarrow> oid \<Rightarrow> chain \<Rightarrow> chain res" where
  "return_delegation L i c =
     rbind (get_obj i (ch_expirations c)) (\<lambda>d.
     rbind (get_account (vde_delegator d) c) (\<lambda>a.
     rbind (modify_account a (\<lambda>a.
       rbind (asset_minus_assign L (a_delegated_vesting_shares a) (vde_vesting_shares d)) (\<lambda>s.
       Inr (a\<lparr>a_delegated_vesting_shares := s\<rparr>))) c) (\<lambda>c.
     let c = push_virtual_operation (Op_return_vesting_delegation
           \<lparr>vrd_account = vde_delegator d, vrd_vesting_shares = vde_vesting_shares d\<rparr>) c
     in rbind (db_remove i (ch_expirations c)) (\<lambda>t. Inr (c\<lparr>ch_expirations := t\<rparr>)))))"

lemma return_delegation_length:
  assumes "return_delegation L i c = Inr c'"
  shows "length (gi_indices (ch_expirations c')) < length (gi_indices (ch_expirations c))"
  using assms
  by (auto simp: return_delegation_def Let_def modify_account_def push_virtual_operation_def dest!: db_remove_length)

function clear_expired_delegations :: "fc_lib \<Rightarrow> chain \<Rightarrow> chain res" where
  "clear_expired_delegations L c =
     (case expired_delegation c of
        None \<Rightarrow> Inr c
      | Some i \<Rightarrow> rbind (return_delegation L i c) (\<lambda>c'. clear_expired_delegations L c'))"
  by pat_completeness auto

termination
  by (relation "measure (\<lambda>(L, c). length (gi_indices (ch_expirations c)))") (auto dest: return_delegation_length)

declare clear_expired_delegations.simps [simp del]

interpretation delegations: worklist expired_delegation "return_delegation L" "clear_expired_delegations L"
  "\<lambda>c. length (gi_indices (ch_expirations c))" for L
  by unfold_locales (auto simp: clear_expired_delegations.simps [of L] dest: return_delegation_length)

section \<open>The check of the supply\<close>

text \<open>The loop over the comments computes a total that nothing reads; it is left out.\<close>

record totals =
  t_supply :: asset
  t_sbd :: asset
  t_vesting :: asset
  t_pending :: asset
  t_votes :: int

definition add_assets :: "fc_lib \<Rightarrow> asset list \<Rightarrow> asset \<Rightarrow> asset res" where
  "add_assets L = fold_res (\<lambda>x t. asset_plus_assign L t x)"

definition total_account :: "fc_lib \<Rightarrow> account_object \<Rightarrow> totals \<Rightarrow> totals res" where
  "total_account L a t =
     rbind (add_assets L [a_balance a, a_savings_balance a, a_reward_steem_balance a] (t_supply t)) (\<lambda>supply.
     rbind (add_assets L [a_sbd_balance a, a_savings_sbd_balance a, a_reward_sbd_balance a] (t_sbd t)) (\<lambda>sbd.
     rbind (add_assets L [a_vesting_shares a, a_reward_vesting_balance a] (t_vesting t)) (\<lambda>vesting.
     rbind (asset_plus_assign L (t_pending t) (a_reward_vesting_steem a)) (\<lambda>pending.
     rbind (if a_proxy a = STEEMIT_PROXY_TO_SELF_ACCOUNT then witness_vote_weight L a
            else Inr (a_proxied_vsf_votes a ! (STEEMIT_MAX_PROXY_RECURSION_DEPTH - 1))) (\<lambda>v.
     rbind (safe_add L (t_votes t) v) (\<lambda>votes.
     Inr \<lparr>t_supply = supply, t_sbd = sbd, t_vesting = vesting, t_pending = pending, t_votes = votes\<rparr>))))))"

text \<open>An amount of STEEM or SBD in a request, a withdrawal or a fee.\<close>

definition total_liquid :: "fc_lib \<Rightarrow> string \<Rightarrow> asset \<Rightarrow> totals \<Rightarrow> totals res" where
  "total_liquid L msg x t =
     (if symbol x = STEEM_SYMBOL
      then rbind (asset_plus_assign L (t_supply t) x) (\<lambda>s. Inr (t\<lparr>t_supply := s\<rparr>))
      else if symbol x = SBD_SYMBOL
      then rbind (asset_plus_assign L (t_sbd t) x) (\<lambda>s. Inr (t\<lparr>t_sbd := s\<rparr>))
      else Inl (assert_exception msg))"

definition total_order :: "fc_lib \<Rightarrow> limit_order_object \<Rightarrow> totals \<Rightarrow> totals res" where
  "total_order L ord t =
     (if symbol (base (o_sell_price ord)) = STEEM_SYMBOL
      then rbind (asset_plus_assign L (t_supply t) (mk_asset (o_for_sale ord) STEEM_SYMBOL)) (\<lambda>s. Inr (t\<lparr>t_supply := s\<rparr>))
      else if symbol (base (o_sell_price ord)) = SBD_SYMBOL
      then rbind (asset_plus_assign L (t_sbd t) (mk_asset (o_for_sale ord) SBD_SYMBOL)) (\<lambda>s. Inr (t\<lparr>t_sbd := s\<rparr>))
      else Inr t)"

definition total_escrow :: "fc_lib \<Rightarrow> escrow_object \<Rightarrow> totals \<Rightarrow> totals res" where
  "total_escrow L e t =
     rbind (asset_plus_assign L (t_supply t) (e_steem_balance e)) (\<lambda>s.
     rbind (asset_plus_assign L (t_sbd t) (e_sbd_balance e)) (\<lambda>d.
     total_liquid L ''found escrow pending fee that is not SBD or STEEM'' (e_pending_fee e) (t\<lparr>t_supply := s, t_sbd := d\<rparr>)))"

definition objects :: "'v generic_index \<Rightarrow> 'v list" where
  "objects t = map snd (gi_indices t)"

definition sum_totals :: "fc_lib \<Rightarrow> chain \<Rightarrow> totals res" where
  "sum_totals L c =
     rbind (fold_res (total_account L) (sort_key a_name (objects (ch_accounts c)))
       \<lparr>t_supply = mk_asset 0 STEEM_SYMBOL, t_sbd = mk_asset 0 SBD_SYMBOL, t_vesting = mk_asset 0 VESTS_SYMBOL,
        t_pending = mk_asset 0 STEEM_SYMBOL, t_votes = 0\<rparr>) (\<lambda>t.
     rbind (fold_res (\<lambda>r. total_liquid L ''Encountered illegal symbol in convert_request_object'' (cr_amount r))
       (objects (ch_converts c)) t) (\<lambda>t.
     rbind (fold_res (total_order L) (objects (ch_orders c)) t) (\<lambda>t.
     rbind (fold_res (total_escrow L) (objects (ch_escrows c)) t) (\<lambda>t.
     rbind (fold_res (\<lambda>s. total_liquid L ''found savings withdraw that is not SBD or STEEM'' (sw_amount s))
       (objects (ch_savings c)) t) (\<lambda>t.
     rbind (add_assets L (map rf_reward_balance (objects (ch_reward_funds c))) (t_supply t)) (\<lambda>s.
     rbind (asset_plus L (g_total_vesting_fund_steem (ch_gpo c)) (g_total_reward_fund_steem (ch_gpo c))) (\<lambda>f.
     rbind (asset_plus L f (g_pending_rewarded_vesting_steem (ch_gpo c))) (\<lambda>f.
     rbind (asset_plus_assign L s f) (\<lambda>s. Inr (t\<lparr>t_supply := s\<rparr>))))))))))"

definition validate_invariants :: "fc_lib \<Rightarrow> chain \<Rightarrow> unit res" where
  "validate_invariants L c =
     (let g = ch_gpo c in
      rbind (run_checks (map (\<lambda>w. fc_assert (w_votes w \<le> amount (g_total_vesting_shares g)) ''itr->votes'')
        (objects (ch_witnesses c)))) (\<lambda>_.
      rbind (sum_totals L c) (\<lambda>t.
      rbind (fc_assert (asset_eq (g_current_supply g) (t_supply t)) ''gpo.current_supply == total_supply'') (\<lambda>_.
      rbind (fc_assert (asset_eq (g_current_sbd_supply g) (t_sbd t)) ''gpo.current_sbd_supply == total_sbd'') (\<lambda>_.
      rbind (asset_plus L (g_total_vesting_shares g) (g_pending_rewarded_vesting_shares g)) (\<lambda>v.
      rbind (fc_assert (asset_eq v (t_vesting t)) ''total_vesting_shares + pending == total_vesting'') (\<lambda>_.
      rbind (fc_assert (amount (g_total_vesting_shares g) = t_votes t) ''total_vesting_shares.amount == total_vsf_votes'') (\<lambda>_.
      rbind (fc_assert (asset_eq (g_pending_rewarded_vesting_steem g) (t_pending t)) ''pending_rewarded_vesting_steem == pending_vesting_steem'') (\<lambda>_.
      rbind (asset_ge (g_virtual_supply g) (g_current_supply g)) (\<lambda>b.
      rbind (fc_assert b ''gpo.virtual_supply >= gpo.current_supply'') (\<lambda>_.
      if \<not> is_null L (median_history c)
      then rbind (asset_times_price L (g_current_sbd_supply g) (median_history c)) (\<lambda>x.
           rbind (asset_plus L x (g_current_supply g)) (\<lambda>y.
           fc_assert (asset_eq y (g_virtual_supply g)) ''virtual_supply''))
      else Inr ())))))))))))"

section \<open>What the check shows\<close>

text \<open>How the totals grow, per symbol.\<close>

definition grown :: "(asset_symbol_type \<Rightarrow> int) \<Rightarrow> int \<Rightarrow> totals \<Rightarrow> totals \<Rightarrow> bool" where
  "grown d p t t' \<longleftrightarrow>
     symbol (t_supply t') = symbol (t_supply t) \<and> symbol (t_sbd t') = symbol (t_sbd t) \<and>
     symbol (t_vesting t') = symbol (t_vesting t) \<and> symbol (t_pending t') = symbol (t_pending t) \<and>
     amount (t_supply t') = amount (t_supply t) + d STEEM_SYMBOL \<and> amount (t_sbd t') = amount (t_sbd t) + d SBD_SYMBOL \<and>
     amount (t_vesting t') = amount (t_vesting t) + d VESTS_SYMBOL \<and> amount (t_pending t') = amount (t_pending t) + p"

definition typed :: "totals \<Rightarrow> bool" where
  "typed t \<longleftrightarrow> symbol (t_supply t) = STEEM_SYMBOL \<and> symbol (t_sbd t) = SBD_SYMBOL \<and>
     symbol (t_vesting t) = VESTS_SYMBOL \<and> symbol (t_pending t) = STEEM_SYMBOL"

lemma grown_typed: "grown d p t t' \<Longrightarrow> typed t \<Longrightarrow> typed t'"
  by (simp add: grown_def typed_def)

lemma add_assets_sum:
  assumes "safe_laws L" and "add_assets L xs t = Inr u"
  shows "symbol u = symbol t \<and> (\<forall>x \<in> set xs. symbol x = symbol t) \<and> amount u = amount t + sum_list (map amount xs)"
  using assms(2)
proof (induction xs arbitrary: t)
  case (Cons x xs)
  then show ?case by (fastforce simp: add_assets_def asset_arith_iffs [OF assms(1)])
qed (simp add: add_assets_def)

lemma total_account_grown:
  assumes "safe_laws L" and "total_account L a t = Inr t'" and "typed t"
  shows "grown (\<lambda>s. account_holds s a) (val STEEM_SYMBOL (a_reward_vesting_steem a)) t t'"
proof -
  obtain x y z p v where x: "add_assets L [a_balance a, a_savings_balance a, a_reward_steem_balance a] (t_supply t) = Inr x"
    and y: "add_assets L [a_sbd_balance a, a_savings_sbd_balance a, a_reward_sbd_balance a] (t_sbd t) = Inr y"
    and z: "add_assets L [a_vesting_shares a, a_reward_vesting_balance a] (t_vesting t) = Inr z"
    and p: "asset_plus_assign L (t_pending t) (a_reward_vesting_steem a) = Inr p"
    and t': "t' = \<lparr>t_supply = x, t_sbd = y, t_vesting = z, t_pending = p, t_votes = v\<rparr>"
    using assms(2) unfolding total_account_def by (auto simp del: if_split)
  from add_assets_sum [OF assms(1) x] add_assets_sum [OF assms(1) y] add_assets_sum [OF assms(1) z] p assms(3)
  show ?thesis by (simp add: t' grown_def typed_def account_holds_def val_def asset_arith_iffs [OF assms(1)])
qed

lemma total_liquid_grown:
  assumes "safe_laws L" and "total_liquid L m x t = Inr t'" and "typed t"
  shows "grown (\<lambda>s. val s x) 0 t t'"
  using assms(2,3)
  by (auto simp: total_liquid_def asset_arith_iffs [OF assms(1)] grown_def typed_def val_def split: if_splits)

lemma total_order_grown:
  assumes "safe_laws L" and "total_order L ord t = Inr t'" and "typed t" and "symbol (base (o_sell_price ord)) \<noteq> VESTS_SYMBOL"
  shows "grown (\<lambda>s. val s (amount_for_sale ord)) 0 t t'"
  using assms(2-4)
  by (auto simp: total_order_def asset_arith_iffs [OF assms(1)] grown_def typed_def val_def amount_for_sale_def split: if_splits)

lemma total_escrow_grown:
  assumes "safe_laws L" and "total_escrow L e t = Inr t'" and "typed t"
  shows "grown (\<lambda>s. escrow_holds s e) 0 t t'"
  using assms(2,3)
  by (auto simp: total_escrow_def total_liquid_def asset_arith_iffs [OF assms(1)] grown_def typed_def val_def escrow_holds_def
      split: if_splits)

lemma fold_grown:
  assumes "fold_res f xs t = Inr t'" and "typed t"
    and "\<And>x t t'. x \<in> set xs \<Longrightarrow> f x t = Inr t' \<Longrightarrow> typed t \<Longrightarrow> grown (d x) (p x) t t'"
  shows "grown (\<lambda>s. sum_list (map (\<lambda>x. d x s) xs)) (sum_list (map p xs)) t t'"
  using assms
proof (induction xs arbitrary: t)
  case (Cons x xs)
  then obtain u where u: "f x t = Inr u" "fold_res f xs u = Inr t'" by auto
  have 1: "grown (d x) (p x) t u" using Cons.prems u(1) by auto
  then have "grown (\<lambda>s. sum_list (map (\<lambda>x. d x s) xs)) (sum_list (map p xs)) u t'"
    using Cons.IH [OF u(2)] Cons.prems(3) grown_typed [OF 1 Cons.prems(2)] by auto
  with 1 show ?case by (simp add: grown_def)
qed (simp add: grown_def)

lemma sum_objects_sorted: "sum_list (map f (sort_key k (objects t))) = tsum f t"
proof -
  have "sum_list (map f (sort_key k (objects t))) = sum_mset (image_mset f (mset (objects t)))"
    by (metis mset_map mset_sort sum_mset_sum_list)
  also have "\<dots> = sum_list (map f (objects t))" by (metis mset_map sum_mset_sum_list)
  finally show ?thesis by (simp add: tsum_def objects_def comp_def)
qed

lemma sum_objects: "sum_list (map f (objects t)) = tsum f t"
  by (simp add: tsum_def objects_def comp_def)

lemma grown_trans: "grown d p t u \<Longrightarrow> grown e q u v \<Longrightarrow> grown (\<lambda>s. d s + e s) (p + q) t v"
  by (simp add: grown_def)

lemma sum_vals:
  "(\<forall>x \<in> set xs. symbol x = t) \<Longrightarrow> sum_list (map (val s) xs) = (if s = t then sum_list (map amount xs) else 0)"
  by (induction xs) (auto simp: val_def)

lemma sum_totals_holdings:
  assumes "safe_laws L" and "sum_totals L c = Inr t"
    and "\<forall>ord \<in> set (objects (ch_orders c)). symbol (base (o_sell_price ord)) \<noteq> VESTS_SYMBOL"
  shows "typed t \<and> amount (t_supply t) = holdings STEEM_SYMBOL c \<and> amount (t_sbd t) = holdings SBD_SYMBOL c \<and>
    amount (t_vesting t) = holdings VESTS_SYMBOL c \<and>
    amount (t_pending t) = tsum (\<lambda>a. val STEEM_SYMBOL (a_reward_vesting_steem a)) (ch_accounts c)"
proof -
  let ?z = "\<lparr>t_supply = mk_asset 0 STEEM_SYMBOL, t_sbd = mk_asset 0 SBD_SYMBOL, t_vesting = mk_asset 0 VESTS_SYMBOL,
        t_pending = mk_asset 0 STEEM_SYMBOL, t_votes = 0\<rparr>"
  let ?g = "ch_gpo c" and ?funds = "map rf_reward_balance (objects (ch_reward_funds c))"
  have z: "typed ?z" by (simp add: typed_def)
  obtain t1 t2 t3 t4 t5 s f f' s' m m' where
    t1: "fold_res (total_account L) (sort_key a_name (objects (ch_accounts c))) ?z = Inr t1"
    and t2: "fold_res (\<lambda>r. total_liquid L m (cr_amount r)) (objects (ch_converts c)) t1 = Inr t2"
    and t3: "fold_res (total_order L) (objects (ch_orders c)) t2 = Inr t3"
    and t4: "fold_res (total_escrow L) (objects (ch_escrows c)) t3 = Inr t4"
    and t5: "fold_res (\<lambda>s. total_liquid L m' (sw_amount s)) (objects (ch_savings c)) t4 = Inr t5"
    and s: "add_assets L ?funds (t_supply t5) = Inr s"
    and f: "asset_plus L (g_total_vesting_fund_steem ?g) (g_total_reward_fund_steem ?g) = Inr f"
    and f': "asset_plus L f (g_pending_rewarded_vesting_steem ?g) = Inr f'"
    and s': "asset_plus_assign L s f' = Inr s'" and t: "t = t5\<lparr>t_supply := s'\<rparr>"
    using assms(2) unfolding sum_totals_def by auto
  note 1 = fold_grown [OF t1 z total_account_grown [OF assms(1)]]
  note ty1 = grown_typed [OF 1 z]
  note 2 = fold_grown [OF t2 ty1 total_liquid_grown [OF assms(1)]]
  note ty2 = grown_typed [OF 2 ty1]
  have 3: "grown (\<lambda>s. sum_list (map (\<lambda>x. val s (amount_for_sale x)) (objects (ch_orders c)))) (sum_list (map (\<lambda>_. 0) (objects (ch_orders c)))) t2 t3"
    using t3 ty2 by (rule fold_grown) (use assms(3) total_order_grown [OF assms(1)] in auto)
  note ty3 = grown_typed [OF 3 ty2]
  note 4 = fold_grown [OF t4 ty3 total_escrow_grown [OF assms(1)]]
  note ty4 = grown_typed [OF 4 ty3]
  note 5 = fold_grown [OF t5 ty4 total_liquid_grown [OF assms(1)]]
  note ty5 = grown_typed [OF 5 ty4]
  note all = grown_trans [OF grown_trans [OF grown_trans [OF grown_trans [OF 1 2] 3] 4] 5]
  from add_assets_sum [OF assms(1) s] have fs: "symbol s = symbol (t_supply t5)" "\<forall>x \<in> set ?funds. symbol x = symbol (t_supply t5)"
    "amount s = amount (t_supply t5) + sum_list (map amount ?funds)" by auto
  have funds: "tsum (\<lambda>x. val u (rf_reward_balance x)) (ch_reward_funds c) = (if u = STEEM_SYMBOL then sum_list (map amount ?funds) else 0)" for u
    using sum_vals [OF fs(2), of u] ty5 by (simp add: typed_def sum_objects [symmetric] comp_def)
  have gpo: "gpo_holds u ?g = (if u = STEEM_SYMBOL then amount f' else 0)" for u
    using f f' s' fs(1) ty5 by (auto simp: asset_arith_iffs [OF assms(1)] gpo_holds_def val_def typed_def)
  show ?thesis
    using all ty5 t s' fs gpo funds
    by (simp add: grown_def typed_def holdings_def sum_objects sum_objects_sorted asset_arith_iffs [OF assms(1)] algebra_simps)
qed

text \<open>The check accepts only balanced books.\<close>

lemma validate_invariants_balanced:
  assumes "safe_laws L" and "validate_invariants L c = Inr ()" and "tables_ok c"
    and "\<forall>ord \<in> set (objects (ch_orders c)). symbol (base (o_sell_price ord)) \<noteq> VESTS_SYMBOL"
  shows "balanced c"
proof -
  let ?g = "ch_gpo c"
  obtain t v where t: "sum_totals L c = Inr t" and e: "asset_eq (g_current_supply ?g) (t_supply t)"
    "asset_eq (g_current_sbd_supply ?g) (t_sbd t)" "asset_plus L (g_total_vesting_shares ?g) (g_pending_rewarded_vesting_shares ?g) = Inr v"
    "asset_eq v (t_vesting t)" "asset_eq (g_pending_rewarded_vesting_steem ?g) (t_pending t)"
    using assms(2) unfolding validate_invariants_def by (auto simp: Let_def split: if_splits)
  from sum_totals_holdings [OF assms(1) t assms(4)] e show ?thesis
    by (auto simp: balanced_def assms(3) gap_def pending_gap_def gpo_issued_def asset_eq_def typed_def val_def
        asset_arith_iffs [OF assms(1)])
qed

end
