(* ===== verification/Conservation.thy ===== *)
theory Conservation
  imports Block_Processing
begin

text \<open>
  Conservation of assets: no evaluator and no block processing step of the model creates or destroys
  STEEM, SBD or vesting shares; what the global properties say was issued is what the accounts,
  orders, escrows, savings, conversions and funds hold.  The invariant needs a second one, that an
  approved escrow has paid its fee: \<open>escrow_release\<close> removes an escrow without looking at the fee.
\<close>

section \<open>How the evaluators change the books\<close>

text \<open>Tables that hold no assets.\<close>

lemma booked_other [simp]:
  "booked d p c (c'\<lparr>ch_routes := r\<rparr>) \<longleftrightarrow> booked d p c c'"
  "booked d p c (c'\<lparr>ch_declines := q\<rparr>) \<longleftrightarrow> booked d p c c'"
  "booked d p c (c'\<lparr>ch_delegations := v\<rparr>) \<longleftrightarrow> booked d p c c'"
  "booked d p c (c'\<lparr>ch_expirations := x\<rparr>) \<longleftrightarrow> booked d p c c'"
  "booked d p c (c'\<lparr>ch_witnesses := w\<rparr>) \<longleftrightarrow> booked d p c c'"
  "booked d p (c\<lparr>ch_routes := r\<rparr>) c' \<longleftrightarrow> booked d p c c'"
  "booked d p (c\<lparr>ch_delegations := v\<rparr>) c' \<longleftrightarrow> booked d p c c'"
  "booked d p (c\<lparr>ch_expirations := x\<rparr>) c' \<longleftrightarrow> booked d p c c'"
  "tables_ok (c\<lparr>ch_routes := r\<rparr>) \<longleftrightarrow> tables_ok c"
  "tables_ok (c\<lparr>ch_delegations := v\<rparr>) \<longleftrightarrow> tables_ok c"
  "tables_ok (c\<lparr>ch_expirations := x\<rparr>) \<longleftrightarrow> tables_ok c"
  by (simp_all add: books_defs)

lemma create_escrow_booked:
  assumes "db_create escrow_clash obj (ch_escrows c) = Inr (i, t)" and "tables_ok c"
  shows "booked (\<lambda>s. - escrow_holds s (obj i)) 0 c (c\<lparr>ch_escrows := t\<rparr>)"
proof -
  have "tbl_ok (ch_escrows c)" using assms(2) by (simp add: tables_ok_def)
  from db_create_spec [OF assms(1) this] assms(2) show ?thesis by (simp add: books_defs)
qed

lemma create_convert_booked:
  assumes "db_create convert_clash obj (ch_converts c) = Inr (i, t)" and "tables_ok c"
  shows "booked (\<lambda>s. - val s (cr_amount (obj i))) 0 c (c\<lparr>ch_converts := t\<rparr>)"
proof -
  have "tbl_ok (ch_converts c)" using assms(2) by (simp add: tables_ok_def)
  from db_create_spec [OF assms(1) this] assms(2) show ?thesis by (simp add: books_defs)
qed

lemma create_savings_booked:
  assumes "db_create savings_clash obj (ch_savings c) = Inr (i, t)" and "tables_ok c"
  shows "booked (\<lambda>s. - val s (sw_amount (obj i))) 0 c (c\<lparr>ch_savings := t\<rparr>)"
proof -
  have "tbl_ok (ch_savings c)" using assms(2) by (simp add: tables_ok_def)
  from db_create_spec [OF assms(1) this] assms(2) show ?thesis by (simp add: books_defs)
qed

text \<open>A change of an account that does not touch its holdings.\<close>

lemma modify_account_same:
  assumes "modify_account i f c = Inr c'" and "tables_ok c"
    and "\<And>a a'. f a = Inr a' \<Longrightarrow> (\<forall>s. account_holds s a' = account_holds s a) \<and>
      a_reward_vesting_steem a' = a_reward_vesting_steem a"
  shows "booked (\<lambda>_. 0) 0 c c'"
  using modify_account_bookless [OF assms] by (simp add: bookless_def)

lemma apply_transfer_booked:
  assumes "safe_laws L" and "apply_transfer L op c = Inr c'" and "tables_ok c"
  shows "booked (\<lambda>_. 0) 0 c c'"
proof -
  obtain f t a c1 c2 where c1: "c1 = c \<or> modify_account f (\<lambda>a.
      Inr (a\<lparr>a_active_challenged := False, a_last_active_proved := head_block_time c\<rparr>)) c = Inr c1"
    and c2: "take_balance L f (tr_amount op) c1 = Inr c2" and c3: "adjust_balance L t (tr_amount op) c2 = Inr c'"
    using assms(2) by (fastforce simp: apply_transfer_def split: if_splits)
  have 1: "booked (\<lambda>_. 0) 0 c c1"
    using c1 by (auto intro: booked_refl [OF assms(3)] elim!: modify_account_same [OF _ assms(3)] simp: account_holds_def)
  note 2 = take_balance_booked [OF assms(1) c2 booked_tables [OF 1], THEN conjunct1]
  note 3 = adjust_balance_booked [OF assms(1) c3 booked_tables [OF 2], THEN conjunct1]
  show ?thesis using 1 2 3 by (simp add: booked_def)
qed

lemma apply_escrow_transfer_booked:
  assumes "safe_laws L" and "apply_escrow_transfer L op c = Inr c'" and "tables_ok c"
  shows "booked (\<lambda>_. 0) 0 c c'"
proof -
  let ?obj = "\<lambda>i. \<lparr>e_id = i, e_escrow_id = et_escrow_id op, e_from = et_from op, e_to = et_to op, e_agent = et_agent op,
        e_ratification_deadline = et_ratification_deadline op, e_escrow_expiration = et_escrow_expiration op,
        e_sbd_balance = et_sbd_amount op, e_steem_balance = et_steem_amount op, e_pending_fee = et_fee op,
        e_to_approved = False, e_agent_approved = False, e_disputed = False\<rparr>"
  obtain x y f c1 c2 i t where spent: "(if symbol (et_fee op) = STEEM_SYMBOL
      then rbind (asset_plus_assign L (et_steem_amount op) (et_fee op)) (\<lambda>x. Inr (x, et_sbd_amount op))
      else rbind (asset_plus_assign L (et_sbd_amount op) (et_fee op)) (\<lambda>x. Inr (et_steem_amount op, x))) = Inr (x, y)"
    and c1: "take_balance L f x c = Inr c1" and c2: "take_balance L f y c1 = Inr c2"
    and t: "db_create escrow_clash ?obj (ch_escrows c2) = Inr (i, t)" "c' = c2\<lparr>ch_escrows := t\<rparr>"
    using assms(2) unfolding apply_escrow_transfer_def by (auto simp del: asset_compare_iffs)
  have xy: "val s y = val s (et_steem_amount op) + val s (et_sbd_amount op) + val s (et_fee op) - val s x" for s
    using spent by (auto simp: asset_arith_iffs [OF assms(1)] split: if_splits)
  note 1 = take_balance_booked [OF assms(1) c1 assms(3), THEN conjunct1]
  note 2 = take_balance_booked [OF assms(1) c2 booked_tables [OF 1], THEN conjunct1]
  note 3 = create_escrow_booked [OF t(1) booked_tables [OF 2]]
  show ?thesis using 1 2 3 xy t(2) by (simp add: booked_def escrow_holds_def)
qed

lemma refund_escrow_booked:
  assumes "safe_laws L" and "refund_escrow L f i c = Inr c'" and "tables_ok c"
  shows "booked (\<lambda>_. 0) 0 c c'"
proof -
  obtain e c1 c2 c3 where e: "find_obj i (ch_escrows c) = Some e"
    and c1: "adjust_balance L f (e_steem_balance e) c = Inr c1" and c2: "adjust_balance L f (e_sbd_balance e) c1 = Inr c2"
    and c3: "adjust_balance L f (e_pending_fee e) c2 = Inr c3" and c4: "remove_escrow i c3 = Inr c'"
    using assms(2) by (auto simp: refund_escrow_def escrow_def find_obj_get)
  note 1 = adjust_balance_booked [OF assms(1) c1 assms(3)]
  note 2 = adjust_balance_booked [OF assms(1) c2 booked_tables [OF conjunct1 [OF 1]]]
  note 3 = adjust_balance_booked [OF assms(1) c3 booked_tables [OF conjunct1 [OF 2]]]
  have f: "ch_escrows c3 = ch_escrows c" using 1 2 3 by (simp add: ledger_frame_def)
  have "booked (\<lambda>s. escrow_holds s e) 0 c3 c'"
    using c4 booked_tables [OF conjunct1 [OF 3]] by (rule remove_escrow_booked) (use e f in auto)
  with 1 2 3 show ?thesis by (simp add: booked_def escrow_holds_def)
qed

lemma modify_escrow_books:
  assumes "modify_escrow i f c = Inr c'" and "tables_ok c"
    and "\<And>e e'. find_obj i (ch_escrows c) = Some e \<Longrightarrow> f e = Inr e' \<Longrightarrow> \<forall>s. escrow_holds s e' = escrow_holds s e - d s"
  shows "booked d 0 c c'"
  using assms(1,2)
proof (rule modify_escrow_booked)
  fix e e'
  assume e: "find_obj i (ch_escrows c) = Some e" "f e = Inr e'"
    "booked (\<lambda>s. escrow_holds s e - escrow_holds s e') 0 c c'"
  from e(3) show ?thesis by (rule booked_eq) (use assms(3) [OF e(1,2)] in auto)
qed

lemma ratify_booked:
  assumes "ratify b r approved mark m i c = Inr c'" and "tables_ok c" and "\<And>s e. escrow_holds s (mark e) = escrow_holds s e"
  shows "booked (\<lambda>_. 0) 0 c c'"
proof -
  have "c' = c \<or> modify_escrow i (\<lambda>e. Inr (mark e)) c = Inr c'" using assms(1) by (auto simp: ratify_def split: if_splits)
  then show ?thesis using assms(2,3) by (auto intro: booked_refl modify_escrow_books)
qed

lemma pay_agent_booked:
  assumes "safe_laws L" and "pay_agent L agent i c = Inr c'" and "tables_ok c"
  shows "booked (\<lambda>_. 0) 0 c c'"
proof -
  obtain e where e: "find_obj i (ch_escrows c) = Some e" using assms(2) by (auto simp: pay_agent_def escrow_def find_obj_get)
  consider "c' = c" | a c1 where "adjust_balance L a (e_pending_fee e) c = Inr c1"
    "modify_escrow i (\<lambda>e. Inr (e\<lparr>e_pending_fee := mk_asset 0 (symbol (e_pending_fee e))\<rparr>)) c1 = Inr c'"
    using assms(2) e by (auto simp: pay_agent_def escrow_def find_obj_get split: if_splits)
  then show ?thesis
  proof cases
    case 2
    note 1 = adjust_balance_booked [OF assms(1) 2(1) assms(3)]
    have "booked (\<lambda>s. val s (e_pending_fee e)) 0 c1 c'"
      using 2(2) booked_tables [OF conjunct1 [OF 1]]
      by (rule modify_escrow_books) (use 1 e in \<open>auto simp: escrow_holds_def ledger_frame_def\<close>)
    with 1 show ?thesis by (simp add: booked_def)
  qed (use assms(3) in \<open>simp add: booked_refl\<close>)
qed

lemma apply_escrow_approve_booked:
  assumes "safe_laws L" and "apply_escrow_approve L op c = Inr c'" and "tables_ok c"
  shows "booked (\<lambda>_. 0) 0 c c'"
proof -
  obtain i c1 c2 r m m' where
    c1: "ratify (ea_who op = ea_to op) r e_to_approved (\<lambda>e. e\<lparr>e_to_approved := True\<rparr>) m i c = Inr c1"
    and c2: "ratify (ea_who op = ea_agent op) r e_agent_approved (\<lambda>e. e\<lparr>e_agent_approved := True\<rparr>) m' i c1 = Inr c2"
    and c3: "(\<exists>f. refund_escrow L f i c2 = Inr c') \<or> pay_agent L (ea_agent op) i c2 = Inr c'"
    using assms(2) unfolding apply_escrow_approve_def Let_def by (fastforce split: if_splits)
  have 1: "booked (\<lambda>_. 0) 0 c c1" using ratify_booked [OF c1 assms(3)] by (simp add: escrow_holds_def)
  have 2: "booked (\<lambda>_. 0) 0 c1 c2" using ratify_booked [OF c2 booked_tables [OF 1]] by (simp add: escrow_holds_def)
  have "booked (\<lambda>_. 0) 0 c2 c'"
    using c3 refund_escrow_booked [OF assms(1) _ booked_tables [OF 2]] pay_agent_booked [OF assms(1) _ booked_tables [OF 2]]
    by blast
  with 1 2 show ?thesis by (simp add: booked_def)
qed

lemma apply_escrow_dispute_booked:
  assumes "apply_escrow_dispute op c = Inr c'" and "tables_ok c"
  shows "booked (\<lambda>_. 0) 0 c c'"
proof -
  obtain i where "modify_escrow i (\<lambda>e. Inr (e\<lparr>e_disputed := True\<rparr>)) c = Inr c'"
    using assms(1) by (auto simp: apply_escrow_dispute_def)
  then show ?thesis using assms(2) by (rule modify_escrow_books) (auto simp: escrow_holds_def)
qed

text \<open>An approved escrow has paid its fee, so it holds nothing else than what is released.\<close>

definition fees_paid :: "chain \<Rightarrow> bool" where
  "fees_paid c \<longleftrightarrow> (\<forall>i e. find_obj i (ch_escrows c) = Some e \<longrightarrow> is_approved e \<longrightarrow> amount (e_pending_fee e) = 0)"

lemma release_funds_booked:
  assumes "safe_laws L" and "release_funds L a steem sbd i c = Inr c'" and "tables_ok c"
    and "find_obj i (ch_escrows c) = Some e" and "amount (e_pending_fee e) = 0"
  shows "booked (\<lambda>_. 0) 0 c c'"
proof -
  let ?f = "\<lambda>e. rbind (asset_minus_assign L (e_steem_balance e) steem) (\<lambda>x.
       rbind (asset_minus_assign L (e_sbd_balance e) sbd) (\<lambda>y. Inr (e\<lparr>e_steem_balance := x, e_sbd_balance := y\<rparr>)))"
  obtain c1 c2 c3 x where c1: "adjust_balance L a steem c = Inr c1" and c2: "adjust_balance L a sbd c1 = Inr c2"
    and c3: "modify_escrow i ?f c2 = Inr c3"
    and c4: "escrow i c3 = Inr x" "(if amount (e_steem_balance x) = 0 \<and> amount (e_sbd_balance x) = 0
      then remove_escrow i c3 else Inr c3) = Inr c'"
    using assms(2) unfolding release_funds_def by auto
  note 1 = adjust_balance_booked [OF assms(1) c1 assms(3)]
  note 2 = adjust_balance_booked [OF assms(1) c2 booked_tables [OF conjunct1 [OF 1]]]
  have e: "find_obj i (ch_escrows c2) = Some e" using 1 2 assms(4) by (simp add: ledger_frame_def)
  from c3 booked_tables [OF conjunct1 [OF 2]] obtain e' where e': "find_obj i (ch_escrows c3) = Some e'" "?f e = Inr e'"
    and 3: "booked (\<lambda>s. escrow_holds s e - escrow_holds s e') 0 c2 c3"
    by (rule modify_escrow_booked) (use e in auto)
  have h: "escrow_holds s e' = escrow_holds s e - val s steem - val s sbd" "amount (e_pending_fee e') = 0" for s
    using e'(2) assms(5) by (auto simp: asset_arith_iffs [OF assms(1)] escrow_holds_def)
  have "booked (\<lambda>_. 0) 0 c3 c'"
  proof (cases "amount (e_steem_balance e') = 0 \<and> amount (e_sbd_balance e') = 0")
    case True
    then have z: "escrow_holds s e' = 0" for s using h(2) by (simp add: escrow_holds_def val_def)
    have "remove_escrow i c3 = Inr c'" using c4 e'(1) True by (auto simp: escrow_def find_obj_get)
    then show ?thesis using booked_tables [OF 3] by (rule remove_escrow_booked) (use e'(1) z in auto)
  qed (use c4 e'(1) booked_refl [OF booked_tables [OF 3]] in \<open>auto simp: escrow_def find_obj_get\<close>)
  with 1 2 3 h(1) show ?thesis by (simp add: booked_def)
qed

lemma apply_escrow_release_booked:
  assumes "safe_laws L" and "apply_escrow_release L op c = Inr c'" and "tables_ok c" and "fees_paid c"
  shows "booked (\<lambda>_. 0) 0 c c'"
proof -
  obtain a i e where r: "release_funds L a (er_steem_amount op) (er_sbd_amount op) i c = Inr c'"
    and e: "find_obj i (ch_escrows c) = Some e" "is_approved e"
    using assms(2) by (auto simp: apply_escrow_release_def escrow_def find_obj_get is_approved_def)
  then have "amount (e_pending_fee e) = 0" using assms(4) by (auto simp: fees_paid_def)
  with release_funds_booked [OF assms(1) r assms(3) e(1)] show ?thesis by blast
qed

lemma apply_transfer_to_vesting_booked:
  assumes "safe_laws L" and "apply_transfer_to_vesting L op c = Inr c'" and "tables_ok c"
  shows "booked (\<lambda>_. 0) 0 c c'"
proof -
  obtain f t v c1 where c1: "take_balance L f (tv_amount op) c = Inr c1"
    and c2: "create_vesting L t (tv_amount op) False c1 = Inr (v, c')"
    using assms(2) unfolding apply_transfer_to_vesting_def by auto
  note 1 = take_balance_booked [OF assms(1) c1 assms(3), THEN conjunct1]
  note 2 = create_vesting_booked [OF assms(1) c2 booked_tables [OF 1], THEN conjunct1]
  show ?thesis using 1 2 by (simp add: booked_def)
qed

lemma apply_withdraw_vesting_booked:
  assumes "apply_withdraw_vesting L op c = Inr c'" and "tables_ok c"
  shows "booked (\<lambda>_. 0) 0 c c'"
proof -
  obtain i f where f: "modify_account i f c = Inr c'"
    and "\<And>a a'. f a = Inr a' \<Longrightarrow> (\<forall>s. account_holds s a' = account_holds s a) \<and> a_reward_vesting_steem a' = a_reward_vesting_steem a"
    using assms(1) by (fastforce simp: apply_withdraw_vesting_def Let_def account_holds_def split: if_splits)
  then show ?thesis using assms(2) by (blast intro: modify_account_same)
qed

lemma apply_set_withdraw_vesting_route_booked:
  assumes "apply_set_withdraw_vesting_route op c = Inr c'" and "tables_ok c"
  shows "booked (\<lambda>_. 0) 0 c c'"
proof -
  have "booked (\<lambda>_. 0) 0 c d" if "modify_account f (\<lambda>a. Inr (a\<lparr>a_withdraw_routes := g a\<rparr>)) (c\<lparr>ch_routes := t\<rparr>) = Inr d" for f g t d
    using modify_account_same [OF that] assms(2) by (simp add: account_holds_def)
  then show ?thesis
    using assms booked_refl [OF assms(2)] by (auto simp: apply_set_withdraw_vesting_route_def split: option.splits if_splits)
qed

lemma apply_feed_publish_booked:
  "apply_feed_publish op c = Inr c' \<Longrightarrow> tables_ok c \<Longrightarrow> booked (\<lambda>_. 0) 0 c c'"
  by (auto simp: apply_feed_publish_def modify_witness_def booked_refl)

lemma apply_decline_voting_rights_booked:
  "apply_decline_voting_rights L op c = Inr c' \<Longrightarrow> tables_ok c \<Longrightarrow> booked (\<lambda>_. 0) 0 c c'"
  by (auto simp: apply_decline_voting_rights_def Let_def booked_refl split: if_splits option.splits)

lemma apply_convert_booked:
  assumes "safe_laws L" and "apply_convert L op c = Inr c'" and "tables_ok c"
  shows "booked (\<lambda>_. 0) 0 c c'"
proof -
  obtain f c1 obj i t where c1: "take_balance L f (cv_amount op) c = Inr c1"
    and t: "db_create convert_clash obj (ch_converts c1) = Inr (i, t)" "c' = c1\<lparr>ch_converts := t\<rparr>" "cr_amount (obj i) = cv_amount op"
    using assms(2) by (fastforce simp: apply_convert_def)
  note 1 = take_balance_booked [OF assms(1) c1 assms(3), THEN conjunct1]
  note 2 = create_convert_booked [OF t(1) booked_tables [OF 1]]
  show ?thesis using 1 2 t(2,3) by (simp add: booked_def)
qed

lemma apply_transfer_to_savings_booked:
  assumes "safe_laws L" and "apply_transfer_to_savings L op c = Inr c'" and "tables_ok c"
  shows "booked (\<lambda>_. 0) 0 c c'"
proof -
  obtain f t c1 where c1: "take_balance L f (ts_amount op) c = Inr c1"
    and c2: "adjust_savings_balance L t (ts_amount op) c1 = Inr c'"
    using assms(2) unfolding apply_transfer_to_savings_def by auto
  note 1 = take_balance_booked [OF assms(1) c1 assms(3), THEN conjunct1]
  note 2 = adjust_savings_balance_booked [OF assms(1) c2 booked_tables [OF 1], THEN conjunct1]
  show ?thesis using 1 2 by (simp add: booked_def)
qed

lemma apply_transfer_from_savings_booked:
  assumes "safe_laws L" and "apply_transfer_from_savings L op c = Inr c'" and "tables_ok c"
  shows "booked (\<lambda>_. 0) 0 c c'"
proof -
  let ?count = "\<lambda>a. Inr (a\<lparr>a_savings_withdraw_requests := a_savings_withdraw_requests a + 1\<rparr>) :: account_object res"
  obtain f m c1 obj i t where m: "asset_uminus L (tfs_amount op) = Inr m" and c1: "adjust_savings_balance L f m c = Inr c1"
    and t: "db_create savings_clash obj (ch_savings c1) = Inr (i, t)" "sw_amount (obj i) = tfs_amount op"
    and c2: "modify_account f ?count (c1\<lparr>ch_savings := t\<rparr>) = Inr c'"
    using assms(2) by (fastforce simp: apply_transfer_from_savings_def)
  note 1 = adjust_savings_balance_booked [OF assms(1) c1 assms(3), THEN conjunct1]
  note 2 = create_savings_booked [OF t(1) booked_tables [OF 1]]
  have 3: "booked (\<lambda>_. 0) 0 (c1\<lparr>ch_savings := t\<rparr>) c'"
    using c2 booked_tables [OF 2] by (rule modify_account_same) (auto simp: account_holds_def)
  show ?thesis using 1 2 3 m t(2) by (simp add: booked_def asset_arith_iffs [OF assms(1)])
qed

lemma apply_cancel_transfer_from_savings_booked:
  assumes "safe_laws L" and "apply_cancel_transfer_from_savings L op c = Inr c'" and "tables_ok c"
  shows "booked (\<lambda>_. 0) 0 c c'"
proof -
  let ?count = "\<lambda>a. Inr (a\<lparr>a_savings_withdraw_requests := a_savings_withdraw_requests a - 1\<rparr>) :: account_object res"
  obtain i a f x c1 c2 where x: "find_obj i (ch_savings c) = Some x" and c1: "adjust_savings_balance L a (sw_amount x) c = Inr c1"
    and c2: "remove_savings i c1 = Inr c2" and c3: "modify_account f ?count c2 = Inr c'"
    using assms(2) by (auto simp: apply_cancel_transfer_from_savings_def find_obj_get)
  note 1 = adjust_savings_balance_booked [OF assms(1) c1 assms(3)]
  have 2: "booked (\<lambda>s. val s (sw_amount x)) 0 c1 c2"
    using c2 booked_tables [OF conjunct1 [OF 1]] by (rule remove_savings_booked) (use x 1 in \<open>auto simp: ledger_frame_def\<close>)
  have 3: "booked (\<lambda>_. 0) 0 c2 c'"
    using c3 booked_tables [OF 2] by (rule modify_account_same) (auto simp: account_holds_def)
  show ?thesis using 1 2 3 by (simp add: booked_def)
qed

text \<open>The last part of a claim moves the vesting shares and the STEEM behind them from pending to
  paid, in the account and in the global properties alike.\<close>

lemma claim_vests_booked:
  assumes "safe_laws L" and "modify_account i (\<lambda>a.
       rbind (asset_plus_assign L (a_vesting_shares a) vests) (\<lambda>v.
       rbind (asset_minus_assign L (a_reward_vesting_balance a) vests) (\<lambda>b.
       rbind (asset_minus_assign L (a_reward_vesting_steem a) moved) (\<lambda>s.
       Inr (a\<lparr>a_vesting_shares := v, a_reward_vesting_balance := b, a_reward_vesting_steem := s\<rparr>))))) c = Inr c1"
    and "modify_gpo (\<lambda>g.
       rbind (asset_plus_assign L (g_total_vesting_shares g) vests) (\<lambda>t.
       rbind (asset_plus_assign L (g_total_vesting_fund_steem g) moved) (\<lambda>f.
       rbind (asset_minus_assign L (g_pending_rewarded_vesting_shares g) vests) (\<lambda>p.
       rbind (asset_minus_assign L (g_pending_rewarded_vesting_steem g) moved) (\<lambda>q.
       Inr (g\<lparr>g_total_vesting_shares := t, g_total_vesting_fund_steem := f,
              g_pending_rewarded_vesting_shares := p, g_pending_rewarded_vesting_steem := q\<rparr>)))))) c1 = Inr c2"
    and "tables_ok c"
  shows "booked (\<lambda>_. 0) 0 c c2"
proof -
  have 1: "booked (\<lambda>s. - 0) (- (- val STEEM_SYMBOL moved)) c c1"
    using assms(2,4) by (rule modify_account_books [THEN conjunct1])
      (auto simp: asset_arith_iffs [OF assms(1)] account_holds_def)
  have 2: "booked (\<lambda>_. 0) (- val STEEM_SYMBOL moved) c1 c2"
    using assms(3) booked_tables [OF 1] by (rule modify_gpo_books [THEN conjunct1])
      (auto simp: asset_arith_iffs [OF assms(1)] gpo_issued_def gpo_holds_def)
  show ?thesis using 1 2 by (simp add: booked_def)
qed

lemma apply_claim_reward_balance_booked:
  assumes "safe_laws L" and "apply_claim_reward_balance L op c = Inr c'" and "tables_ok c"
  shows "booked (\<lambda>_. 0) 0 c c'"
proof -
  let ?st = "cl_reward_steem op" and ?sb = "cl_reward_sbd op" and ?v = "cl_reward_vests op"
  obtain i moved m n c1 c2 c3 c4 c5 c6 where m: "asset_uminus L ?st = Inr m" and c1: "adjust_reward_balance L i m c = Inr c1"
    and n: "asset_uminus L ?sb = Inr n" and c2: "adjust_reward_balance L i n c1 = Inr c2"
    and c3: "adjust_balance L i ?st c2 = Inr c3" and c4: "adjust_balance L i ?sb c3 = Inr c4"
    and c5: "modify_account i (\<lambda>a.
       rbind (asset_plus_assign L (a_vesting_shares a) ?v) (\<lambda>v.
       rbind (asset_minus_assign L (a_reward_vesting_balance a) ?v) (\<lambda>b.
       rbind (asset_minus_assign L (a_reward_vesting_steem a) moved) (\<lambda>s.
       Inr (a\<lparr>a_vesting_shares := v, a_reward_vesting_balance := b, a_reward_vesting_steem := s\<rparr>))))) c4 = Inr c5"
    and c6: "modify_gpo (\<lambda>g.
       rbind (asset_plus_assign L (g_total_vesting_shares g) ?v) (\<lambda>t.
       rbind (asset_plus_assign L (g_total_vesting_fund_steem g) moved) (\<lambda>f.
       rbind (asset_minus_assign L (g_pending_rewarded_vesting_shares g) ?v) (\<lambda>p.
       rbind (asset_minus_assign L (g_pending_rewarded_vesting_steem g) moved) (\<lambda>q.
       Inr (g\<lparr>g_total_vesting_shares := t, g_total_vesting_fund_steem := f,
              g_pending_rewarded_vesting_shares := p, g_pending_rewarded_vesting_steem := q\<rparr>)))))) c5 = Inr c6"
    and c7: "adjust_proxied_witness_votes L i (amount ?v) 0 c6 = Inr c'"
    using assms(2) unfolding apply_claim_reward_balance_def by auto
  note 1 = adjust_reward_balance_booked [OF assms(1) c1 assms(3), THEN conjunct1]
  note 2 = adjust_reward_balance_booked [OF assms(1) c2 booked_tables [OF 1], THEN conjunct1]
  note 3 = adjust_balance_booked [OF assms(1) c3 booked_tables [OF 2], THEN conjunct1]
  note 4 = adjust_balance_booked [OF assms(1) c4 booked_tables [OF 3], THEN conjunct1]
  note 5 = claim_vests_booked [OF assms(1) c5 c6 booked_tables [OF 4]]
  have 6: "booked (\<lambda>_. 0) 0 c6 c'"
    using adjust_proxied_witness_votes_bookless [OF c7 booked_tables [OF 5]] by (simp add: bookless_def)
  show ?thesis using 1 2 3 4 5 6 m n by (simp add: booked_def asset_arith_iffs [OF assms(1)])
qed

lemmas delegation_defs = add_delegated_def add_received_def sub_received_def

lemma delegated_booked:
  "modify_account i (add_delegated L x) c = Inr c' \<Longrightarrow> tables_ok c \<Longrightarrow> booked (\<lambda>_. 0) 0 c c'"
  "modify_account i (add_received L x) c = Inr c' \<Longrightarrow> tables_ok c \<Longrightarrow> booked (\<lambda>_. 0) 0 c c'"
  "modify_account i (sub_received L x) c = Inr c' \<Longrightarrow> tables_ok c \<Longrightarrow> booked (\<lambda>_. 0) 0 c c'"
  by (erule (1) modify_account_same, auto simp: delegation_defs account_holds_def)+

lemma modify_delegation_booked:
  "modify_delegation i f c = Inr c' \<Longrightarrow> tables_ok c \<Longrightarrow> booked (\<lambda>_. 0) 0 c c'"
  by (auto simp: modify_delegation_def booked_refl)

lemma new_delegation_booked:
  assumes "new_delegation L op i j x y c = Inr c'" and "tables_ok c"
  shows "booked (\<lambda>_. 0) 0 c c'"
proof -
  obtain t c1 where c1: "modify_account i (add_delegated L (dl_vesting_shares op)) (c\<lparr>ch_delegations := t\<rparr>) = Inr c1"
    and c2: "modify_account j (add_received L (dl_vesting_shares op)) c1 = Inr c'"
    using assms(1) unfolding new_delegation_def by auto
  have 1: "booked (\<lambda>_. 0) 0 c c1" using delegated_booked(1) [OF c1] assms(2) by simp
  show ?thesis using 1 delegated_booked(2) [OF c2 booked_tables [OF 1]] by (simp add: booked_def)
qed

lemma increase_delegation_booked:
  assumes "increase_delegation L op i j x y k d c = Inr c'" and "tables_ok c"
  shows "booked (\<lambda>_. 0) 0 c c'"
proof -
  obtain delta f c1 c2 where c1: "modify_account i (add_delegated L delta) c = Inr c1"
    and c2: "modify_account j (add_received L delta) c1 = Inr c2" and c3: "modify_delegation k f c2 = Inr c'"
    using assms(1) unfolding increase_delegation_def by auto
  note 1 = delegated_booked(1) [OF c1 assms(2)]
  note 2 = delegated_booked(2) [OF c2 booked_tables [OF 1]]
  show ?thesis using 1 2 modify_delegation_booked [OF c3 booked_tables [OF 2]] by (simp add: booked_def)
qed

lemma decrease_delegation_booked:
  assumes "decrease_delegation L op j x y k d c = Inr c'" and "tables_ok c"
  shows "booked (\<lambda>_. 0) 0 c c'"
proof -
  obtain delta t c1 where c1: "modify_account j (sub_received L delta) (c\<lparr>ch_expirations := t\<rparr>) = Inr c1"
    and last: "(if amount (dl_vesting_shares op) > 0
      then modify_delegation k (\<lambda>d. Inr (d\<lparr>vd_vesting_shares := dl_vesting_shares op\<rparr>)) c1
      else rbind (db_remove k (ch_delegations c1)) (\<lambda>t. Inr (c1\<lparr>ch_delegations := t\<rparr>))) = Inr c'"
    using assms(1) unfolding decrease_delegation_def by auto
  have c2: "(\<exists>f. modify_delegation k f c1 = Inr c') \<or> (\<exists>t. c' = c1\<lparr>ch_delegations := t\<rparr>)"
    using last by (auto split: if_splits)
  have 1: "booked (\<lambda>_. 0) 0 c c1" using delegated_booked(3) [OF c1] assms(2) by simp
  have "booked (\<lambda>_. 0) 0 c1 c'"
    using c2 modify_delegation_booked [OF _ booked_tables [OF 1]] booked_refl [OF booked_tables [OF 1]] by auto
  with 1 show ?thesis by (simp add: booked_def)
qed

lemma update_delegation_booked:
  assumes "update_delegation L op i j x y z c = Inr c'" and "tables_ok c"
  shows "booked (\<lambda>_. 0) 0 c c'"
proof (cases "find_by (\<lambda>d. vd_delegator d = dl_delegator op \<and> vd_delegatee d = dl_delegatee op) (ch_delegations c)")
  case None
  then have "new_delegation L op i j x y c = Inr c'" using assms(1) by (simp add: update_delegation_def)
  then show ?thesis using assms(2) by (rule new_delegation_booked)
next
  case (Some k)
  then obtain d where "increase_delegation L op i j x z k d c = Inr c' \<or> decrease_delegation L op j y z k d c = Inr c'"
    using assms(1) by (auto simp: update_delegation_def split: if_splits)
  then show ?thesis using increase_delegation_booked decrease_delegation_booked assms(2) by blast
qed

lemma apply_delegate_vesting_shares_booked:
  assumes "apply_delegate_vesting_shares L op c = Inr c'" and "tables_ok c"
  shows "booked (\<lambda>_. 0) 0 c c'"
  using assms update_delegation_booked by (auto simp: apply_delegate_vesting_shares_def Let_def)

section \<open>The fees of escrows\<close>

text \<open>Only the escrow operations touch the escrows; the collection has one rule per function.\<close>

named_theorems escrows_kept

lemma primitives_escrows [escrows_kept]:
  "modify_account i f c = Inr c' \<Longrightarrow> ch_escrows c' = ch_escrows c"
  "modify_gpo g c = Inr c' \<Longrightarrow> ch_escrows c' = ch_escrows c"
  "modify_witness i w c = Inr c' \<Longrightarrow> ch_escrows c' = ch_escrows c"
  "modify_order i h c = Inr c' \<Longrightarrow> ch_escrows c' = ch_escrows c"
  "modify_delegation i d c = Inr c' \<Longrightarrow> ch_escrows c' = ch_escrows c"
  "remove_order i c = Inr c' \<Longrightarrow> ch_escrows c' = ch_escrows c"
  "remove_savings i c = Inr c' \<Longrightarrow> ch_escrows c' = ch_escrows c"
  by (auto simp: modify_account_def modify_gpo_def modify_witness_def modify_order_def modify_delegation_def
      remove_order_def remove_savings_def)

lemma balances_escrows [escrows_kept]:
  "adjust_balance L i x c = Inr c' \<Longrightarrow> ch_escrows c' = ch_escrows c"
  "adjust_savings_balance L i x c = Inr c' \<Longrightarrow> ch_escrows c' = ch_escrows c"
  "adjust_reward_balance L i x c = Inr c' \<Longrightarrow> ch_escrows c' = ch_escrows c"
  "take_balance L i x c = Inr c' \<Longrightarrow> ch_escrows c' = ch_escrows c"
  by (auto simp: adjust_reward_balance_def take_balance_def ledger_frame_def split: if_splits
      dest: adjust_balance_frame adjust_savings_balance_frame primitives_escrows)

lemma witness_votes_escrows:
  assumes "adjust_witness_votes L i delta c = Inr c'"
  shows "ch_escrows c' = ch_escrows c"
proof (rule fold_res_invariant [OF assms [unfolded adjust_witness_votes_def]])
  fix v s t
  assume "ch_escrows s = ch_escrows c" "adjust_witness_vote L (wv_witness v) delta s = Inr t"
  moreover obtain f where "modify_witness (wv_witness v) f s = Inr t"
    using calculation(2) unfolding adjust_witness_vote_def Let_def ..
  ultimately show "ch_escrows t = ch_escrows c" using primitives_escrows(3) by simp
qed simp

lemma votes_escrows:
  "adjust_proxied_witness_votes L i delta n c = Inr c' \<Longrightarrow> ch_escrows c' = ch_escrows c"
proof (induction L i delta n c arbitrary: c' rule: adjust_proxied_witness_votes.induct)
  case (1 L i delta depth c)
  note step = 1(2) [unfolded adjust_proxied_witness_votes.simps [of L i delta depth c]]
  obtain a where a: "account i c = Inr a" using step by auto
  show ?case
  proof (cases "a_proxy a \<noteq> STEEMIT_PROXY_TO_SELF_ACCOUNT \<and> \<not> STEEMIT_MAX_PROXY_RECURSION_DEPTH \<le> depth")
    case True
    then obtain p c1 where p: "get_account (a_proxy a) c = Inr p"
      "modify_account p (add_proxied_vote L depth delta) c = Inr c1"
      "adjust_proxied_witness_votes L p delta (depth + 1) c1 = Inr c'"
      using step a by auto
    with 1(1) [OF _ _ p(3), of a] True primitives_escrows(1) [OF p(2)] show ?thesis by simp
  next
    case False
    then have "c' = c \<or> adjust_witness_votes L i delta c = Inr c'" using step a by (auto split: if_splits)
    then show ?thesis using witness_votes_escrows by blast
  qed
qed

lemma create_vesting_escrows:
  "safe_laws L \<Longrightarrow> create_vesting L i x r c = Inr (v, c') \<Longrightarrow> tables_ok c \<Longrightarrow> ch_escrows c' = ch_escrows c"
  by (drule (2) create_vesting_booked) (simp add: ledger_frame_def)

lemma cancel_order_escrows [escrows_kept]:
  "cancel_order L i c = Inr c' \<Longrightarrow> ch_escrows c' = ch_escrows c"
  by (auto simp: cancel_order_def escrows_kept)

lemma fill_order_escrows [escrows_kept]:
  "fill_order L i x y c = Inr (b, c') \<Longrightarrow> ch_escrows c' = ch_escrows c"
  by (auto simp: fill_order_def escrows_kept split: if_splits)

lemma reward_maker_escrows [escrows_kept]:
  "reward_maker L x y v w c = Inr c' \<Longrightarrow> ch_escrows c' = ch_escrows c"
  by (auto simp: reward_maker_def adjust_liquidity_reward_def Let_def split: if_splits option.splits)

lemma match_escrows [escrows_kept]:
  "match L new old p c = Inr (r, c') \<Longrightarrow> ch_escrows c' = ch_escrows c"
  by (auto simp: match_def Let_def push_virtual_operation_def escrows_kept)

lemma match_all_escrows [escrows_kept]:
  "match_all L new olds c = Inr c' \<Longrightarrow> ch_escrows c' = ch_escrows c"
proof (induction olds arbitrary: c)
  case (Cons old olds)
  then obtain p r c1 where "match L new old p c = Inr (r, c1)" "c' = c1 \<or> match_all L new olds c1 = Inr c'"
    by (auto split: if_splits)
  then show ?case using Cons.IH match_escrows by metis
qed simp

lemma place_order_escrows [escrows_kept]:
  "place_order L owner x pr obj fk c = Inr c' \<Longrightarrow> ch_escrows c' = ch_escrows c"
  by (auto simp: place_order_def apply_order_def Let_def escrows_kept)

text \<open>The state but for one escrow.\<close>

definition fees_paid_but :: "oid \<Rightarrow> chain \<Rightarrow> bool" where
  "fees_paid_but i c \<longleftrightarrow> (\<forall>j e. j \<noteq> i \<longrightarrow> find_obj j (ch_escrows c) = Some e \<longrightarrow> is_approved e \<longrightarrow> amount (e_pending_fee e) = 0)"

lemma fees_paid_kept: "ch_escrows c' = ch_escrows c \<Longrightarrow> fees_paid c \<Longrightarrow> fees_paid c'"
  by (simp add: fees_paid_def)

lemma fees_paid_but_kept: "ch_escrows c' = ch_escrows c \<Longrightarrow> fees_paid_but i c \<Longrightarrow> fees_paid_but i c'"
  by (simp add: fees_paid_but_def)

lemma modify_escrow_fees:
  assumes "modify_escrow i f c = Inr c'" and "tables_ok c" and "fees_paid_but i c"
  shows "fees_paid_but i c' \<and> (\<exists>e e'. find_obj i (ch_escrows c) = Some e \<and> f e = Inr e' \<and> find_obj i (ch_escrows c') = Some e')"
  using assms(1,2) by (rule modify_escrow_booked) (use assms(3) in \<open>auto simp: fees_paid_but_def\<close>)

lemma remove_escrow_fees:
  assumes "remove_escrow i c = Inr c'" and "tables_ok c" and "fees_paid_but i c"
  shows "fees_paid c'"
  using assms(1,2) by (rule remove_escrow_booked) (use assms(3) in \<open>auto simp: fees_paid_but_def fees_paid_def split: if_splits\<close>)

lemma fees_paid_join:
  "fees_paid_but i c \<Longrightarrow> find_obj i (ch_escrows c) = Some e \<Longrightarrow> (is_approved e \<Longrightarrow> amount (e_pending_fee e) = 0) \<Longrightarrow> fees_paid c"
  unfolding fees_paid_but_def fees_paid_def by (metis option.inject)

lemma fees_paid_weaken: "fees_paid c \<Longrightarrow> fees_paid_but i c"
  by (simp add: fees_paid_but_def fees_paid_def)

lemma modify_escrow_keeps_fees:
  assumes "modify_escrow i f c = Inr c'" and "tables_ok c" and "fees_paid c"
    and "\<And>e e'. f e = Inr e' \<Longrightarrow> (is_approved e' \<longrightarrow> is_approved e) \<and> amount (e_pending_fee e') = amount (e_pending_fee e)"
  shows "fees_paid c'"
proof -
  from modify_escrow_fees [OF assms(1,2) fees_paid_weaken [OF assms(3)]] obtain e e' where
    e: "fees_paid_but i c'" "find_obj i (ch_escrows c) = Some e" "f e = Inr e'" "find_obj i (ch_escrows c') = Some e'"
    by blast
  from e(1,4) show ?thesis
    by (rule fees_paid_join) (use assms(3) assms(4) [OF e(3)] e(2) in \<open>auto simp: fees_paid_def\<close>)
qed

lemma refund_escrow_fees:
  assumes "safe_laws L" and "refund_escrow L f i c = Inr c'" and "tables_ok c" and "fees_paid_but i c"
  shows "fees_paid c'"
proof -
  obtain e c1 c2 c3 where "escrow i c = Inr e" and c1: "adjust_balance L f (e_steem_balance e) c = Inr c1"
    and c2: "adjust_balance L f (e_sbd_balance e) c1 = Inr c2"
    and c3: "adjust_balance L f (e_pending_fee e) c2 = Inr c3" and c4: "remove_escrow i c3 = Inr c'"
    using assms(2) by (auto simp: refund_escrow_def)
  note 1 = adjust_balance_booked [OF assms(1) c1 assms(3)]
  note 2 = adjust_balance_booked [OF assms(1) c2 booked_tables [OF conjunct1 [OF 1]]]
  note 3 = adjust_balance_booked [OF assms(1) c3 booked_tables [OF conjunct1 [OF 2]]]
  have "ch_escrows c3 = ch_escrows c" "tables_ok c3" using 1 2 3 by (simp_all add: ledger_frame_def booked_def)
  then show ?thesis using remove_escrow_fees [OF c4] fees_paid_but_kept assms(4) by blast
qed

lemma ratify_fees:
  assumes "ratify b r approved mark m i c = Inr c'" and "tables_ok c" and "fees_paid_but i c"
  shows "fees_paid_but i c'"
proof -
  have "c' = c \<or> modify_escrow i (\<lambda>e. Inr (mark e)) c = Inr c'" using assms(1) by (auto simp: ratify_def split: if_splits)
  then show ?thesis using assms(2,3) modify_escrow_fees by blast
qed

lemma pay_agent_fees:
  assumes "safe_laws L" and "pay_agent L agent i c = Inr c'" and "tables_ok c" and "fees_paid_but i c"
  shows "fees_paid c'"
proof -
  obtain e where e: "find_obj i (ch_escrows c) = Some e" using assms(2) by (auto simp: pay_agent_def escrow_def find_obj_get)
  show ?thesis
  proof (cases "e_to_approved e \<and> e_agent_approved e")
    case True
    then obtain a c1 where c1: "adjust_balance L a (e_pending_fee e) c = Inr c1"
      "modify_escrow i (\<lambda>e. Inr (e\<lparr>e_pending_fee := mk_asset 0 (symbol (e_pending_fee e))\<rparr>)) c1 = Inr c'"
      using assms(2) e by (auto simp: pay_agent_def escrow_def find_obj_get)
    from adjust_balance_booked [OF assms(1) c1(1) assms(3)] have k: "ch_escrows c1 = ch_escrows c" "tables_ok c1"
      by (auto simp: ledger_frame_def booked_def)
    from modify_escrow_fees [OF c1(2) k(2) fees_paid_but_kept [OF k(1) assms(4)]] show ?thesis
      by (auto elim: fees_paid_join)
  next
    case False
    then have "c' = c" using assms(2) e by (auto simp: pay_agent_def escrow_def find_obj_get)
    then show ?thesis using fees_paid_join [OF assms(4) e] False by (simp add: is_approved_def)
  qed
qed

lemma apply_escrow_approve_fees:
  assumes "safe_laws L" and "apply_escrow_approve L op c = Inr c'" and "tables_ok c" and "fees_paid c"
  shows "fees_paid c'"
proof -
  obtain i c1 c2 r m m' where
    c1: "ratify (ea_who op = ea_to op) r e_to_approved (\<lambda>e. e\<lparr>e_to_approved := True\<rparr>) m i c = Inr c1"
    and c2: "ratify (ea_who op = ea_agent op) r e_agent_approved (\<lambda>e. e\<lparr>e_agent_approved := True\<rparr>) m' i c1 = Inr c2"
    and c3: "(\<exists>f. refund_escrow L f i c2 = Inr c') \<or> pay_agent L (ea_agent op) i c2 = Inr c'"
    using assms(2) unfolding apply_escrow_approve_def Let_def by (fastforce split: if_splits)
  have 1: "booked (\<lambda>_. 0) 0 c c1" using ratify_booked [OF c1 assms(3)] by (simp add: escrow_holds_def)
  have 2: "booked (\<lambda>_. 0) 0 c1 c2" using ratify_booked [OF c2 booked_tables [OF 1]] by (simp add: escrow_holds_def)
  have "fees_paid_but i c2"
    using ratify_fees [OF c2 booked_tables [OF 1]] ratify_fees [OF c1 assms(3) fees_paid_weaken [OF assms(4)]] by blast
  with c3 refund_escrow_fees [OF assms(1) _ booked_tables [OF 2]] pay_agent_fees [OF assms(1) _ booked_tables [OF 2]]
  show ?thesis by blast
qed

lemma apply_escrow_transfer_fees:
  assumes "safe_laws L" and "apply_escrow_transfer L op c = Inr c'" and "tables_ok c" and "fees_paid c"
  shows "fees_paid c'"
proof -
  obtain f x y c1 c2 obj i t where c1: "take_balance L f x c = Inr c1" and c2: "take_balance L f y c1 = Inr c2"
    and t: "db_create escrow_clash obj (ch_escrows c2) = Inr (i, t)" "c' = c2\<lparr>ch_escrows := t\<rparr>" "\<not> e_to_approved (obj i)"
    using assms(2) unfolding apply_escrow_transfer_def by (fastforce simp del: asset_compare_iffs)
  note 1 = take_balance_booked [OF assms(1) c1 assms(3), THEN conjunct1]
  note 2 = take_balance_booked [OF assms(1) c2 booked_tables [OF 1], THEN conjunct1]
  have "ch_escrows c2 = ch_escrows c" "tbl_ok (ch_escrows c2)"
    using balances_escrows(4) c1 c2 booked_tables [OF 2] by (auto simp: tables_ok_def)
  with db_create_spec [OF t(1)] t(2,3) assms(4) show ?thesis
    by (auto simp: fees_paid_def is_approved_def)
qed

lemma apply_escrow_dispute_fees:
  assumes "apply_escrow_dispute op c = Inr c'" and "tables_ok c" and "fees_paid c"
  shows "fees_paid c'"
proof -
  obtain i where m: "modify_escrow i (\<lambda>e. Inr (e\<lparr>e_disputed := True\<rparr>)) c = Inr c'"
    using assms(1) by (auto simp: apply_escrow_dispute_def)
  from m assms(2,3) show ?thesis by (rule modify_escrow_keeps_fees) (auto simp: is_approved_def)
qed

lemma release_funds_fees:
  assumes "safe_laws L" and "release_funds L a steem sbd i c = Inr c'" and "tables_ok c" and "fees_paid c"
  shows "fees_paid c'"
proof -
  let ?f = "\<lambda>e. rbind (asset_minus_assign L (e_steem_balance e) steem) (\<lambda>x.
       rbind (asset_minus_assign L (e_sbd_balance e) sbd) (\<lambda>y. Inr (e\<lparr>e_steem_balance := x, e_sbd_balance := y\<rparr>)))"
  obtain c1 c2 c3 x where c1: "adjust_balance L a steem c = Inr c1" and c2: "adjust_balance L a sbd c1 = Inr c2"
    and c3: "modify_escrow i ?f c2 = Inr c3"
    and c4: "escrow i c3 = Inr x" "(if amount (e_steem_balance x) = 0 \<and> amount (e_sbd_balance x) = 0
      then remove_escrow i c3 else Inr c3) = Inr c'"
    using assms(2) unfolding release_funds_def by auto
  note 1 = adjust_balance_booked [OF assms(1) c1 assms(3)]
  note 2 = adjust_balance_booked [OF assms(1) c2 booked_tables [OF conjunct1 [OF 1]]]
  have k: "tables_ok c2" "fees_paid c2"
    using 1 2 assms(4) fees_paid_kept [of c2 c] by (auto simp: booked_def ledger_frame_def)
  from c3 k have 3: "fees_paid c3"
    by (rule modify_escrow_keeps_fees) (auto simp: is_approved_def)
  have "tables_ok c3" using c3 k(1) by (rule modify_escrow_booked) (rule booked_tables)
  with remove_escrow_fees fees_paid_weaken [OF 3] 3 c4(2) show ?thesis by (auto split: if_splits)
qed

lemma apply_escrow_release_fees:
  assumes "safe_laws L" and "apply_escrow_release L op c = Inr c'" and "tables_ok c" and "fees_paid c"
  shows "fees_paid c'"
  using assms release_funds_fees by (auto simp: apply_escrow_release_def)

section \<open>How the block processing changes the books\<close>

lemma fill_savings_booked:
  assumes "safe_laws L" and "fill_savings L i c = Inr c'" and "tables_ok c"
  shows "booked (\<lambda>_. 0) 0 c c'"
proof -
  let ?count = "\<lambda>a. Inr (a\<lparr>a_savings_withdraw_requests := a_savings_withdraw_requests a - 1\<rparr>) :: account_object res"
  obtain x a f op c1 c2 where x: "find_obj i (ch_savings c) = Some x" and c1: "adjust_balance L a (sw_amount x) c = Inr c1"
    and c2: "modify_account f ?count c1 = Inr c2" and c3: "remove_savings i (push_virtual_operation op c2) = Inr c'"
    using assms(2) unfolding fill_savings_def by (auto simp: find_obj_get)
  note 1 = adjust_balance_booked [OF assms(1) c1 assms(3)]
  have 2: "booked (\<lambda>_. 0) 0 c1 c2"
    using c2 booked_tables [OF conjunct1 [OF 1]] by (rule modify_account_same) (auto simp: account_holds_def)
  have s: "ch_savings (push_virtual_operation op c2) = ch_savings c"
    using 1 modify_account_frame [OF c2] by (simp add: ledger_frame_def push_virtual_operation_def)
  have "tables_ok (push_virtual_operation op c2)" using booked_tables [OF 2] by simp
  with c3 have "booked (\<lambda>s. val s (sw_amount x)) 0 (push_virtual_operation op c2) c'"
    by (rule remove_savings_booked) (use x s in auto)
  then have 3: "booked (\<lambda>s. val s (sw_amount x)) 0 c2 c'" by simp
  show ?thesis using 1 2 3 by (simp add: booked_def)
qed

lemma process_savings_withdraws_booked:
  assumes "safe_laws L" and "process_savings_withdraws L c = Inr c'" and "tables_ok c"
  shows "booked (\<lambda>_. 0) 0 c c' \<and> due_savings c' = None"
proof -
  have "booked (\<lambda>_. 0) 0 c t" if "fill_savings L i s = Inr t" "booked (\<lambda>_. 0) 0 c s" for i s t
    using fill_savings_booked [OF assms(1) that(1) booked_tables [OF that(2)]] that(2) by (simp add: booked_def)
  with savings.loop_keeps [OF assms(2), of "booked (\<lambda>_. 0) 0 c"] booked_refl [OF assms(3)] show ?thesis by blast
qed

text \<open>While the conversions run, the books are off by the two totals.\<close>

definition converting :: "chain \<Rightarrow> chain \<times> asset \<times> asset \<Rightarrow> bool" where
  "converting c = (\<lambda>(d, net_sbd, net_steem). booked (\<lambda>s. val s net_sbd - val s net_steem) 0 c d)"

lemma fill_convert_converting:
  assumes "safe_laws L" and "fill_convert L i s = Inr t" and "converting c s"
  shows "converting c t"
proof -
  obtain d ns nt where s: "s = (d, ns, nt)" by (cases s)
  obtain x u y op c1 c2 ns' nt' where x: "find_obj i (ch_converts d) = Some x" and c1: "adjust_balance L u y d = Inr c1"
    and n: "asset_plus_assign L ns (cr_amount x) = Inr ns'" "asset_plus_assign L nt y = Inr nt'"
    and c2: "remove_convert i (push_virtual_operation op c1) = Inr c2" and t: "t = (c2, ns', nt')"
    using assms(2) unfolding fill_convert_def s by (auto simp: find_obj_get)
  have 0: "booked (\<lambda>u. val u ns - val u nt) 0 c d" using assms(3) by (simp add: converting_def s)
  note 1 = adjust_balance_booked [OF assms(1) c1 booked_tables [OF 0]]
  have k: "ch_converts (push_virtual_operation op c1) = ch_converts d"
    using 1 by (simp add: ledger_frame_def push_virtual_operation_def)
  have "tables_ok (push_virtual_operation op c1)" using booked_tables [OF conjunct1 [OF 1]] by simp
  with c2 have "booked (\<lambda>s. val s (cr_amount x)) 0 (push_virtual_operation op c1) c2"
    by (rule remove_convert_booked) (use x k in auto)
  then have 2: "booked (\<lambda>s. val s (cr_amount x)) 0 c1 c2" by simp
  show ?thesis using 0 1 2 n by (simp add: converting_def t booked_def asset_arith_iffs [OF assms(1)])
qed

lemma process_conversions_booked:
  assumes "safe_laws L" and "process_conversions L c = Inr c'" and "tables_ok c"
  shows "booked (\<lambda>_. 0) 0 c c'"
proof (cases "is_null L (median_history c)")
  case True
  then show ?thesis using assms(2,3) by (simp add: process_conversions_def booked_refl)
next
  case False
  then obtain d ns nt g where f: "fill_converts L (c, mk_asset 0 SBD_SYMBOL, mk_asset 0 STEEM_SYMBOL) = Inr (d, ns, nt)"
    and g: "modify_gpo g d = Inr c'" "\<And>p p'. g p = Inr p' \<Longrightarrow>
      (\<forall>s. gpo_issued s p' - gpo_holds s p' = gpo_issued s p - gpo_holds s p + (val s nt - val s ns)) \<and>
      val STEEM_SYMBOL (g_pending_rewarded_vesting_steem p') = val STEEM_SYMBOL (g_pending_rewarded_vesting_steem p) + 0 \<and>
      g_time p' = g_time p \<and> g_head_block_number p' = g_head_block_number p"
    using assms(2) unfolding process_conversions_def
    by (fastforce simp: asset_arith_iffs [OF assms(1)] gpo_issued_def gpo_holds_def)
  have "converting c (c, mk_asset 0 SBD_SYMBOL, mk_asset 0 STEEM_SYMBOL)"
    using booked_refl [OF assms(3)] by (simp add: converting_def)
  with converts.loop_keeps [OF f, of "converting c"] fill_convert_converting [OF assms(1)]
  have 1: "booked (\<lambda>s. val s ns - val s nt) 0 c d" by (auto simp: converting_def)
  have "booked (\<lambda>s. val s nt - val s ns) 0 d c'"
    using g(1) booked_tables [OF 1] by (rule modify_gpo_books [THEN conjunct1]) (use g(2) in blast)
  with 1 show ?thesis by (simp add: booked_def)
qed

lemma expire_escrow_ratification_booked:
  assumes "safe_laws L" and "expire_escrow_ratification L c = Inr c'" and "tables_ok c" and "fees_paid c"
  shows "booked (\<lambda>_. 0) 0 c c' \<and> fees_paid c'"
proof -
  have "booked (\<lambda>_. 0) 0 c t \<and> fees_paid t" if e: "expire_escrow L i s = Inr t" and s: "booked (\<lambda>_. 0) 0 c s \<and> fees_paid s" for i s t
  proof -
    obtain f where f: "refund_escrow L f i s = Inr t" using e by (auto simp: expire_escrow_def)
    have ok: "tables_ok s" using s booked_tables by blast
    from refund_escrow_booked [OF assms(1) f ok] refund_escrow_fees [OF assms(1) f ok] s fees_paid_weaken
    show ?thesis by (auto simp: booked_def)
  qed
  with escrows.loop_keeps [OF assms(2), of "\<lambda>d. booked (\<lambda>_. 0) 0 c d \<and> fees_paid d"] booked_refl [OF assms(3)] assms(4)
  show ?thesis by blast
qed

lemma return_delegation_booked:
  assumes "return_delegation L i c = Inr c'" and "tables_ok c"
  shows "booked (\<lambda>_. 0) 0 c c'"
proof -
  obtain a f op t c1 where c1: "modify_account a f c = Inr c1" "c' = (push_virtual_operation op c1)\<lparr>ch_expirations := t\<rparr>"
    and "\<And>a a'. f a = Inr a' \<Longrightarrow> (\<forall>s. account_holds s a' = account_holds s a) \<and> a_reward_vesting_steem a' = a_reward_vesting_steem a"
    using assms(1) unfolding return_delegation_def Let_def by (fastforce simp: account_holds_def)
  with modify_account_same [OF c1(1) assms(2)] show ?thesis by auto
qed

lemma clear_expired_delegations_booked:
  assumes "clear_expired_delegations L c = Inr c'" and "tables_ok c"
  shows "booked (\<lambda>_. 0) 0 c c'"
proof -
  have "booked (\<lambda>_. 0) 0 c t" if "return_delegation L i s = Inr t" "booked (\<lambda>_. 0) 0 c s" for i s t
    using return_delegation_booked [OF that(1) booked_tables [OF that(2)]] that(2) by (simp add: booked_def)
  with delegations.loop_keeps [OF assms(1), of "booked (\<lambda>_. 0) 0 c"] booked_refl [OF assms(2)] show ?thesis by blast
qed

section \<open>The other operations keep the escrows\<close>

lemma apply_transfer_escrows: "apply_transfer L op c = Inr c' \<Longrightarrow> ch_escrows c' = ch_escrows c"
  by (auto simp: apply_transfer_def escrows_kept split: if_splits)

lemma apply_transfer_to_vesting_escrows:
  assumes "safe_laws L" and "apply_transfer_to_vesting L op c = Inr c'" and "tables_ok c"
  shows "ch_escrows c' = ch_escrows c"
proof -
  obtain f t v c1 where c1: "take_balance L f (tv_amount op) c = Inr c1"
    and c2: "create_vesting L t (tv_amount op) False c1 = Inr (v, c')"
    using assms(2) unfolding apply_transfer_to_vesting_def by auto
  note 1 = take_balance_booked [OF assms(1) c1 assms(3), THEN conjunct1]
  show ?thesis using create_vesting_escrows [OF assms(1) c2 booked_tables [OF 1]] balances_escrows(4) [OF c1] by simp
qed

lemma vesting_escrows:
  "apply_withdraw_vesting L w c = Inr c' \<Longrightarrow> ch_escrows c' = ch_escrows c"
  "apply_set_withdraw_vesting_route r c = Inr c' \<Longrightarrow> ch_escrows c' = ch_escrows c"
  by (auto simp: apply_withdraw_vesting_def apply_set_withdraw_vesting_route_def Let_def escrows_kept
      split: if_splits option.splits)

lemma market_escrows:
  "apply_limit_order_create L x c = Inr c' \<Longrightarrow> ch_escrows c' = ch_escrows c"
  "apply_limit_order_create2 L y c = Inr c' \<Longrightarrow> ch_escrows c' = ch_escrows c"
  "apply_limit_order_cancel L z c = Inr c' \<Longrightarrow> ch_escrows c' = ch_escrows c"
  by (auto simp: apply_limit_order_create_def apply_limit_order_create2_def apply_limit_order_cancel_def escrows_kept)

lemma feed_escrows:
  "apply_feed_publish x c = Inr c' \<Longrightarrow> ch_escrows c' = ch_escrows c"
  "apply_convert L y c = Inr c' \<Longrightarrow> ch_escrows c' = ch_escrows c"
  "apply_decline_voting_rights L z c = Inr c' \<Longrightarrow> ch_escrows c' = ch_escrows c"
  by (auto simp: apply_feed_publish_def apply_convert_def apply_decline_voting_rights_def Let_def escrows_kept
      split: if_splits option.splits)

lemma savings_escrows:
  "apply_transfer_to_savings L x c = Inr c' \<Longrightarrow> ch_escrows c' = ch_escrows c"
  "apply_transfer_from_savings L y c = Inr c' \<Longrightarrow> ch_escrows c' = ch_escrows c"
  "apply_cancel_transfer_from_savings L z c = Inr c' \<Longrightarrow> ch_escrows c' = ch_escrows c"
  by (auto simp: apply_transfer_to_savings_def apply_transfer_from_savings_def apply_cancel_transfer_from_savings_def escrows_kept)

lemma update_delegation_escrows:
  "update_delegation L op i j x y z c = Inr c' \<Longrightarrow> ch_escrows c' = ch_escrows c"
  by (auto simp: update_delegation_def new_delegation_def increase_delegation_def decrease_delegation_def escrows_kept
      split: option.splits if_splits)

lemma apply_delegate_vesting_shares_escrows:
  "apply_delegate_vesting_shares L op c = Inr c' \<Longrightarrow> ch_escrows c' = ch_escrows c"
  by (auto simp: apply_delegate_vesting_shares_def Let_def update_delegation_escrows)

lemma apply_claim_reward_balance_escrows:
  "apply_claim_reward_balance L op c = Inr c' \<Longrightarrow> ch_escrows c' = ch_escrows c"
  by (auto simp: apply_claim_reward_balance_def escrows_kept votes_escrows)

end
