(* ===== verification/Funds.thy ===== *)
theory Funds
  imports Block_Processing Witness_Votes
begin

text \<open>
  The money that a block creates and pays out: \<open>process_funds\<close> and the rewards it is made of,
  \<open>pay_liquidity_reward\<close>, \<open>update_virtual_supply\<close> and \<open>clear_null_account_balance\<close> of
  \<open>chain/database.cpp\<close>, with the fixed point arithmetic of
  \<open>chain/compound.hpp\<close>.
\<close>

section \<open>Constants\<close>

definition STEEMIT_START_VESTING_BLOCK :: nat where "STEEMIT_START_VESTING_BLOCK = STEEMIT_BLOCKS_PER_DAY * 7"
definition STEEMIT_INFLATION_RATE_START_PERCENT :: int where "STEEMIT_INFLATION_RATE_START_PERCENT = 978"
definition STEEMIT_INFLATION_RATE_STOP_PERCENT :: int where "STEEMIT_INFLATION_RATE_STOP_PERCENT = 95"
definition STEEMIT_INFLATION_NARROWING_PERIOD :: nat where "STEEMIT_INFLATION_NARROWING_PERIOD = 250000"
definition STEEMIT_CONTENT_REWARD_PERCENT :: nat where "STEEMIT_CONTENT_REWARD_PERCENT = 75 * STEEMIT_1_PERCENT"
definition STEEMIT_VESTING_FUND_PERCENT :: nat where "STEEMIT_VESTING_FUND_PERCENT = 15 * STEEMIT_1_PERCENT"
definition STEEMIT_MINING_REWARD :: asset where "STEEMIT_MINING_REWARD = mk_asset 1000 STEEM_SYMBOL"
definition STEEMIT_LIQUIDITY_REWARD_PERIOD_SEC :: nat where "STEEMIT_LIQUIDITY_REWARD_PERIOD_SEC = 60 * 60"
definition STEEMIT_LIQUIDITY_REWARD_BLOCKS :: nat where
  "STEEMIT_LIQUIDITY_REWARD_BLOCKS = STEEMIT_LIQUIDITY_REWARD_PERIOD_SEC div STEEMIT_BLOCK_INTERVAL"
definition STEEMIT_MIN_LIQUIDITY_REWARD :: asset where
  "STEEMIT_MIN_LIQUIDITY_REWARD = mk_asset (1000 * int STEEMIT_LIQUIDITY_REWARD_BLOCKS) STEEM_SYMBOL"
definition STEEMIT_MIN_CONTENT_REWARD :: asset where "STEEMIT_MIN_CONTENT_REWARD = STEEMIT_MINING_REWARD"
definition STEEMIT_MIN_CURATE_REWARD :: asset where "STEEMIT_MIN_CURATE_REWARD = STEEMIT_MINING_REWARD"
definition STEEMIT_MIN_PRODUCER_REWARD :: asset where "STEEMIT_MIN_PRODUCER_REWARD = STEEMIT_MINING_REWARD"
definition STEEMIT_MIN_POW_REWARD :: asset where "STEEMIT_MIN_POW_REWARD = STEEMIT_MINING_REWARD"
definition STEEMIT_APR_PERCENT_MULTIPLY_PER_BLOCK :: int where "STEEMIT_APR_PERCENT_MULTIPLY_PER_BLOCK = 0x5ccce802de5f"
definition STEEMIT_APR_PERCENT_SHIFT_PER_BLOCK :: nat where "STEEMIT_APR_PERCENT_SHIFT_PER_BLOCK = 87"
definition STEEMIT_APR_PERCENT_MULTIPLY_PER_ROUND :: int where "STEEMIT_APR_PERCENT_MULTIPLY_PER_ROUND = 0x79ccf5c73480"
definition STEEMIT_APR_PERCENT_SHIFT_PER_ROUND :: nat where "STEEMIT_APR_PERCENT_SHIFT_PER_ROUND = 83"
definition STEEMIT_APR_PERCENT_MULTIPLY_PER_HOUR :: int where "STEEMIT_APR_PERCENT_MULTIPLY_PER_HOUR = 0x6cc139a15cbd"
definition STEEMIT_APR_PERCENT_SHIFT_PER_HOUR :: nat where "STEEMIT_APR_PERCENT_SHIFT_PER_HOUR = 77"
definition STEEMIT_CURATE_APR_PERCENT :: int where "STEEMIT_CURATE_APR_PERCENT = 3875"
definition STEEMIT_CONTENT_APR_PERCENT :: int where "STEEMIT_CONTENT_APR_PERCENT = 3875"
definition STEEMIT_LIQUIDITY_APR_PERCENT :: int where "STEEMIT_LIQUIDITY_APR_PERCENT = 750"
definition STEEMIT_PRODUCER_APR_PERCENT :: int where "STEEMIT_PRODUCER_APR_PERCENT = 750"
definition STEEMIT_POW_APR_PERCENT :: int where "STEEMIT_POW_APR_PERCENT = 750"
definition STEEMIT_SBD_STOP_PERCENT :: int where "STEEMIT_SBD_STOP_PERCENT = 5 * int STEEMIT_1_PERCENT"
definition STEEMIT_SBD_START_PERCENT :: int where "STEEMIT_SBD_START_PERCENT = 2 * int STEEMIT_1_PERCENT"

section \<open>Rewards per block, round and hour\<close>

definition calc_percent_reward :: "fc_lib \<Rightarrow> int \<Rightarrow> int \<Rightarrow> nat \<Rightarrow> int \<Rightarrow> int res" where
  "calc_percent_reward L percent multiply_constant shift_constant current_supply =
     (let half = u128_shl L (u128_of_int L 1) (shift_constant - 1);
          reward = u128_of_int L current_supply;
          reward = u128_mul L reward (u128_of_int L (percent * multiply_constant));
          reward = u128_add L reward half;
          reward = u128_shr L reward shift_constant
      in rbind (to_uint64 L reward) (\<lambda>v. Inr (sint v)))"

definition calc_percent_reward_per_hour :: "fc_lib \<Rightarrow> int \<Rightarrow> int \<Rightarrow> int res" where
  "calc_percent_reward_per_hour L percent =
     calc_percent_reward L percent STEEMIT_APR_PERCENT_MULTIPLY_PER_HOUR STEEMIT_APR_PERCENT_SHIFT_PER_HOUR"

definition calc_percent_reward_per_block :: "fc_lib \<Rightarrow> int \<Rightarrow> int \<Rightarrow> int res" where
  "calc_percent_reward_per_block L percent =
     calc_percent_reward L percent STEEMIT_APR_PERCENT_MULTIPLY_PER_BLOCK STEEMIT_APR_PERCENT_SHIFT_PER_BLOCK"

definition calc_percent_reward_per_round :: "fc_lib \<Rightarrow> int \<Rightarrow> int \<Rightarrow> int res" where
  "calc_percent_reward_per_round L percent =
     calc_percent_reward L percent STEEMIT_APR_PERCENT_MULTIPLY_PER_ROUND STEEMIT_APR_PERCENT_SHIFT_PER_ROUND"

text \<open>\<open>std::max\<close> of a computed amount of STEEM and a minimum.\<close>

definition at_least :: "asset \<Rightarrow> int res \<Rightarrow> asset res" where
  "at_least minimum r =
     rbind r (\<lambda>x. rbind (asset_less (mk_asset x STEEM_SYMBOL) minimum)
       (\<lambda>less. Inr (if less then minimum else mk_asset x STEEM_SYMBOL)))"

definition get_liquidity_reward :: "fc_lib \<Rightarrow> chain \<Rightarrow> asset res" where
  "get_liquidity_reward L c =
     (if has_hardfork 12 c then Inr (mk_asset 0 STEEM_SYMBOL)
      else at_least STEEMIT_MIN_LIQUIDITY_REWARD
        (calc_percent_reward_per_hour L STEEMIT_LIQUIDITY_APR_PERCENT (amount (g_virtual_supply (ch_gpo c)))))"

definition get_content_reward :: "fc_lib \<Rightarrow> chain \<Rightarrow> asset res" where
  "get_content_reward L c = at_least STEEMIT_MIN_CONTENT_REWARD
     (calc_percent_reward_per_block L STEEMIT_CONTENT_APR_PERCENT (amount (g_virtual_supply (ch_gpo c))))"

definition get_curation_reward :: "fc_lib \<Rightarrow> chain \<Rightarrow> asset res" where
  "get_curation_reward L c = at_least STEEMIT_MIN_CURATE_REWARD
     (calc_percent_reward_per_block L STEEMIT_CURATE_APR_PERCENT (amount (g_virtual_supply (ch_gpo c))))"

definition get_producer_reward :: "fc_lib \<Rightarrow> chain \<Rightarrow> (asset \<times> chain) res" where
  "get_producer_reward L c =
     rbind (at_least STEEMIT_MIN_PRODUCER_REWARD
       (calc_percent_reward_per_block L STEEMIT_PRODUCER_APR_PERCENT (amount (g_virtual_supply (ch_gpo c))))) (\<lambda>pay.
     rbind (get_account (g_current_witness (ch_gpo c)) c) (\<lambda>w.
     rbind (account w c) (\<lambda>a.
     if unat (g_head_block_number (ch_gpo c)) \<ge> STEEMIT_START_MINER_VOTING_BLOCK \<or> amount (a_vesting_shares a) = 0
     then rbind (create_vesting L w pay False c) (\<lambda>(reward, c).
          Inr (pay, push_virtual_operation (Op_producer_reward \<lparr>vpr_producer = a_name a, vpr_vesting_shares = reward\<rparr>) c))
     else rbind (get_account (a_name a) c) (\<lambda>w.
          rbind (modify_account w (\<lambda>a. rbind (asset_plus_assign L (a_balance a) pay) (\<lambda>b. Inr (a\<lparr>a_balance := b\<rparr>))) c) (\<lambda>c.
          Inr (pay, c))))))"

definition get_pow_reward :: "fc_lib \<Rightarrow> chain \<Rightarrow> asset res" where
  "get_pow_reward L c =
     (if unat (g_num_pow_witnesses (ch_gpo c)) < STEEMIT_MAX_WITNESSES \<and>
         unat (g_head_block_number (ch_gpo c)) < STEEMIT_START_VESTING_BLOCK
      then Inr (mk_asset 0 STEEM_SYMBOL)
      else at_least STEEMIT_MIN_POW_REWARD
        (calc_percent_reward_per_round L STEEMIT_POW_APR_PERCENT (amount (g_virtual_supply (ch_gpo c)))))"

section \<open>Process funds\<close>

definition modify_reward_fund :: "oid \<Rightarrow> (reward_fund_object \<Rightarrow> reward_fund_object res) \<Rightarrow> chain \<Rightarrow> chain res" where
  "modify_reward_fund i f c =
     rbind (db_modify reward_fund_clash i f (ch_reward_funds c)) (\<lambda>t. Inr (c\<lparr>ch_reward_funds := t\<rparr>))"

definition pay_reward_fund :: "fc_lib \<Rightarrow> int \<Rightarrow> oid \<Rightarrow> int \<times> chain \<Rightarrow> (int \<times> chain) res" where
  "pay_reward_fund L reward i = (\<lambda>(used_rewards, c).
     rbind (get_obj i (ch_reward_funds c)) (\<lambda>rf.
     rbind (safe_mul L reward (uint (rf_percent_content_rewards rf))) (\<lambda>x.
     rbind (safe_div L x (int STEEMIT_100_PERCENT)) (\<lambda>r.
     rbind (modify_reward_fund i (\<lambda>rfo.
       rbind (asset_plus_assign L (rf_reward_balance rfo) (mk_asset r STEEM_SYMBOL)) (\<lambda>b. Inr (rfo\<lparr>rf_reward_balance := b\<rparr>))) c) (\<lambda>c.
     rbind (safe_add L used_rewards r) (\<lambda>used_rewards.
     rbind (fc_assert (used_rewards \<le> reward) ''used_rewards <= reward'') (\<lambda>_.
     Inr (used_rewards, c))))))))"

definition pay_reward_funds :: "fc_lib \<Rightarrow> int \<Rightarrow> chain \<Rightarrow> (int \<times> chain) res" where
  "pay_reward_funds L reward c = fold_res (pay_reward_fund L reward) (map fst (gi_indices (ch_reward_funds c))) (0, c)"

definition current_inflation_rate :: "chain \<Rightarrow> int" where
  "current_inflation_rate c =
     max (STEEMIT_INFLATION_RATE_START_PERCENT - int (unat (head_block_num c) div STEEMIT_INFLATION_NARROWING_PERIOD))
       STEEMIT_INFLATION_RATE_STOP_PERCENT"

definition percent_of :: "fc_lib \<Rightarrow> int \<Rightarrow> nat \<Rightarrow> int res" where
  "percent_of L x percent = rbind (safe_mul L x (int percent)) (\<lambda>y. safe_div L y (int STEEMIT_100_PERCENT))"

text \<open>The pay of the witness depends on how it was scheduled.\<close>

definition schedule_weight :: "witness_schedule_object \<Rightarrow> witness_schedule_type \<Rightarrow> int option" where
  "schedule_weight wso s = (case s of
       timeshare \<Rightarrow> Some (uint (ws_timeshare_weight wso))
     | miner \<Rightarrow> Some (uint (ws_miner_weight wso))
     | top19 \<Rightarrow> Some (uint (ws_top19_weight wso))
     | none \<Rightarrow> None)"

definition witness_pay :: "fc_lib \<Rightarrow> witness_schedule_object \<Rightarrow> witness_schedule_type \<Rightarrow> int \<Rightarrow> int res" where
  "witness_pay L wso s r =
     rbind (safe_mul L r (int STEEMIT_MAX_WITNESSES)) (\<lambda>r.
     rbind (case schedule_weight wso s of None \<Rightarrow> Inr r | Some w \<Rightarrow> safe_mul L r w) (\<lambda>r.
     safe_div L r (int (unat (ws_witness_pay_normalization_factor wso)))))"

definition process_funds_hf16 :: "fc_lib \<Rightarrow> chain \<Rightarrow> chain res" where
  "process_funds_hf16 L c =
     rbind (safe_mul L (amount (g_virtual_supply (ch_gpo c))) (current_inflation_rate c)) (\<lambda>x.
     rbind (safe_div L x (int STEEMIT_100_PERCENT * int STEEMIT_BLOCKS_PER_YEAR)) (\<lambda>new_steem.
     rbind (percent_of L new_steem STEEMIT_CONTENT_REWARD_PERCENT) (\<lambda>content_reward.
     rbind (if has_hardfork 17 c then pay_reward_funds L content_reward c else Inr (content_reward, c)) (\<lambda>(content_reward, c).
     rbind (percent_of L new_steem STEEMIT_VESTING_FUND_PERCENT) (\<lambda>vesting_reward.
     rbind (safe_sub L new_steem content_reward) (\<lambda>x.
     rbind (safe_sub L x vesting_reward) (\<lambda>witness_reward.
     rbind (get_witness (g_current_witness (ch_gpo c)) c) (\<lambda>w.
     rbind (get_obj w (ch_witnesses c)) (\<lambda>cwit.
     rbind (witness_pay L (ch_wso c) (w_schedule cwit) witness_reward) (\<lambda>witness_reward.
     rbind (safe_add L content_reward vesting_reward) (\<lambda>x.
     rbind (safe_add L x witness_reward) (\<lambda>new_steem.
     rbind (modify_gpo (\<lambda>p.
       rbind (asset_plus_assign L (g_total_vesting_fund_steem p) (mk_asset vesting_reward STEEM_SYMBOL)) (\<lambda>f.
       rbind (if \<not> has_hardfork 17 c then asset_plus_assign L (g_total_reward_fund_steem p) (mk_asset content_reward STEEM_SYMBOL)
              else Inr (g_total_reward_fund_steem p)) (\<lambda>r.
       rbind (asset_plus_assign L (g_current_supply p) (mk_asset new_steem STEEM_SYMBOL)) (\<lambda>s.
       rbind (asset_plus_assign L (g_virtual_supply p) (mk_asset new_steem STEEM_SYMBOL)) (\<lambda>v.
       Inr (p\<lparr>g_total_vesting_fund_steem := f, g_total_reward_fund_steem := r, g_current_supply := s, g_virtual_supply := v\<rparr>)))))) c) (\<lambda>c.
     rbind (get_account (w_owner cwit) c) (\<lambda>a.
     rbind (create_vesting L a (mk_asset witness_reward STEEM_SYMBOL) False c) (\<lambda>(producer_reward, c).
     Inr (push_virtual_operation (Op_producer_reward
       \<lparr>vpr_producer = w_owner cwit, vpr_vesting_shares = producer_reward\<rparr>) c))))))))))))))))"

definition process_funds_old :: "fc_lib \<Rightarrow> chain \<Rightarrow> chain res" where
  "process_funds_old L c =
     rbind (get_content_reward L c) (\<lambda>content_reward.
     rbind (get_curation_reward L c) (\<lambda>curate_reward.
     rbind (get_producer_reward L c) (\<lambda>(witness_pay, c).
     rbind (asset_plus L content_reward curate_reward) (\<lambda>x.
     rbind (asset_plus L x witness_pay) (\<lambda>vesting_reward.
     rbind (asset_plus L content_reward curate_reward) (\<lambda>content_reward.
     let vesting_reward =
       (if unat (g_head_block_number (ch_gpo c)) < STEEMIT_START_VESTING_BLOCK then mk_asset 0 (symbol vesting_reward)
        else mk_asset (wrap64 (amount vesting_reward * 9)) (symbol vesting_reward))
     in modify_gpo (\<lambda>p.
       rbind (asset_plus_assign L (g_total_vesting_fund_steem p) vesting_reward) (\<lambda>f.
       rbind (asset_plus_assign L (g_total_reward_fund_steem p) content_reward) (\<lambda>r.
       rbind (asset_plus L content_reward witness_pay) (\<lambda>x.
       rbind (asset_plus L x vesting_reward) (\<lambda>total.
       rbind (asset_plus_assign L (g_current_supply p) total) (\<lambda>s.
       rbind (asset_plus_assign L (g_virtual_supply p) total) (\<lambda>v.
       Inr (p\<lparr>g_total_vesting_fund_steem := f, g_total_reward_fund_steem := r, g_current_supply := s, g_virtual_supply := v\<rparr>)))))))) c))))))"

definition process_funds :: "fc_lib \<Rightarrow> chain \<Rightarrow> chain res" where
  "process_funds L c = (if has_hardfork 16 c then process_funds_hf16 L c else process_funds_old L c)"

section \<open>Liquidity rewards\<close>

text \<open>The index is ordered by weight, the largest first, then by owner.\<close>

definition best_volume :: "chain \<Rightarrow> (oid \<times> liquidity_reward_balance_object) option" where
  "best_volume c =
     (case sort_key (\<lambda>e. (- int (u128_val (lr_weight (snd e))), lr_owner (snd e))) (gi_indices (ch_liquidity c)) of
        [] \<Rightarrow> None
      | e # _ \<Rightarrow> Some e)"

definition pay_liquidity_reward :: "fc_lib \<Rightarrow> chain \<Rightarrow> chain res" where
  "pay_liquidity_reward L c =
     (if unat (head_block_num c) mod STEEMIT_LIQUIDITY_REWARD_BLOCKS = 0
      then rbind (get_liquidity_reward L c) (\<lambda>reward.
           if amount reward = 0 then Inr c
           else (case best_volume c of
               None \<Rightarrow> Inr c
             | Some (i, r) \<Rightarrow>
                 if u128_less L (u128_of_int L 0) (volume_weight L r)
                 then rbind (adjust_supply L reward True c) (\<lambda>c.
                      rbind (adjust_balance L (lr_owner r) reward c) (\<lambda>c.
                      rbind (db_modify liquidity_clash i (\<lambda>r. Inr (r\<lparr>lr_steem_volume := 0, lr_sbd_volume := 0,
                        lr_last_update := head_block_time c, lr_weight := u128_of_int L 0\<rparr>)) (ch_liquidity c)) (\<lambda>t.
                      rbind (account (lr_owner r) (c\<lparr>ch_liquidity := t\<rparr>)) (\<lambda>a.
                      Inr (push_virtual_operation (Op_liquidity_reward
                        \<lparr>vlr_owner = a_name a, vlr_payout = reward\<rparr>) (c\<lparr>ch_liquidity := t\<rparr>))))))
                 else Inr c))
      else Inr c)"

section \<open>Virtual supply\<close>

text \<open>The share of the SBD in the market capitalisation, in basis points, sets how much of a reward is
  paid in SBD: all of it up to two percent, nothing from five percent on.\<close>

definition print_rate :: "u16 \<Rightarrow> u16" where
  "print_rate percent_sbd =
     (if uint percent_sbd \<le> STEEMIT_SBD_START_PERCENT then of_nat STEEMIT_100_PERCENT
      else if uint percent_sbd \<ge> STEEMIT_SBD_STOP_PERCENT then 0
      else of_int (cdiv ((STEEMIT_SBD_STOP_PERCENT - uint percent_sbd) * int STEEMIT_100_PERCENT)
             (STEEMIT_SBD_STOP_PERCENT - STEEMIT_SBD_START_PERCENT)))"

definition update_virtual_supply :: "fc_lib \<Rightarrow> chain \<Rightarrow> chain res" where
  "update_virtual_supply L c =
     (let median_price = median_history c in
      modify_gpo (\<lambda>dgp.
        rbind (if is_null L median_price then Inr (mk_asset 0 STEEM_SYMBOL)
               else asset_times_price L (g_current_sbd_supply dgp) median_price) (\<lambda>x.
        rbind (asset_plus L (g_current_supply dgp) x) (\<lambda>v.
        let dgp = dgp\<lparr>g_virtual_supply := v\<rparr> in
        if \<not> is_null L median_price \<and> has_hardfork 14 c
        then rbind (asset_times_price L (g_current_sbd_supply dgp) median_price) (\<lambda>s.
             rbind (u128_div L (u128_mul L (u128_of_int L (amount s)) (u128_of_int L (int STEEMIT_100_PERCENT)))
               (u128_of_int L (amount (g_virtual_supply dgp)))) (\<lambda>q.
             rbind (to_uint64 L q) (\<lambda>p.
             Inr (dgp\<lparr>g_sbd_print_rate := print_rate (ucast p)\<rparr>))))
        else Inr dgp))) c)"

section \<open>The null account\<close>

text \<open>What is sent to \<open>null\<close> is destroyed.  \<open>drain\<close> is one of the blocks that empty a balance and add it
  to a total.\<close>

definition drain ::
  "fc_lib \<Rightarrow> (account_object \<Rightarrow> asset) \<Rightarrow> (oid \<Rightarrow> asset \<Rightarrow> chain \<Rightarrow> chain res) \<Rightarrow> oid \<Rightarrow> asset \<times> chain \<Rightarrow> (asset \<times> chain) res" where
  "drain L field adjust i = (\<lambda>(total, c).
     rbind (account i c) (\<lambda>a.
     if amount (field a) > 0
     then rbind (asset_plus_assign L total (field a)) (\<lambda>total.
          rbind (asset_uminus L (field a)) (\<lambda>m.
          rbind (adjust i m c) (\<lambda>c. Inr (total, c))))
     else Inr (total, c)))"

definition drain_vesting :: "fc_lib \<Rightarrow> oid \<Rightarrow> asset \<times> chain \<Rightarrow> (asset \<times> chain) res" where
  "drain_vesting L i = (\<lambda>(total, c).
     rbind (account i c) (\<lambda>a.
     if amount (a_vesting_shares a) > 0
     then rbind (asset_times_price L (a_vesting_shares a) (get_vesting_share_price (ch_gpo c))) (\<lambda>converted_steem.
          rbind (modify_gpo (\<lambda>g.
            rbind (asset_minus_assign L (g_total_vesting_shares g) (a_vesting_shares a)) (\<lambda>s.
            rbind (asset_minus_assign L (g_total_vesting_fund_steem g) converted_steem) (\<lambda>f.
            Inr (g\<lparr>g_total_vesting_shares := s, g_total_vesting_fund_steem := f\<rparr>)))) c) (\<lambda>c.
          rbind (modify_account i (\<lambda>a. Inr (a\<lparr>a_vesting_shares := mk_asset 0 (symbol (a_vesting_shares a))\<rparr>)) c) (\<lambda>c.
          rbind (asset_plus_assign L total converted_steem) (\<lambda>total. Inr (total, c)))))
     else Inr (total, c)))"

definition drain_reward_vesting :: "fc_lib \<Rightarrow> oid \<Rightarrow> asset \<times> chain \<Rightarrow> (asset \<times> chain) res" where
  "drain_reward_vesting L i = (\<lambda>(total, c).
     rbind (account i c) (\<lambda>a.
     if amount (a_reward_vesting_balance a) > 0
     then rbind (asset_plus_assign L total (a_reward_vesting_steem a)) (\<lambda>total.
          rbind (modify_gpo (\<lambda>g.
            rbind (asset_minus_assign L (g_pending_rewarded_vesting_shares g) (a_reward_vesting_balance a)) (\<lambda>s.
            rbind (asset_minus_assign L (g_pending_rewarded_vesting_steem g) (a_reward_vesting_steem a)) (\<lambda>f.
            Inr (g\<lparr>g_pending_rewarded_vesting_shares := s, g_pending_rewarded_vesting_steem := f\<rparr>)))) c) (\<lambda>c.
          rbind (modify_account i (\<lambda>a.
            Inr (a\<lparr>a_reward_vesting_steem := mk_asset 0 (symbol (a_reward_vesting_steem a)),
                   a_reward_vesting_balance := mk_asset 0 (symbol (a_reward_vesting_balance a))\<rparr>)) c) (\<lambda>c.
          Inr (total, c))))
     else Inr (total, c)))"

definition burn :: "fc_lib \<Rightarrow> asset \<Rightarrow> chain \<Rightarrow> chain res" where
  "burn L x c =
     (if amount x > 0 then rbind (asset_uminus L x) (\<lambda>m. adjust_supply L m False c) else Inr c)"

definition clear_null_account_balance :: "fc_lib \<Rightarrow> chain \<Rightarrow> chain res" where
  "clear_null_account_balance L c =
     (if \<not> has_hardfork 14 c then Inr c
      else rbind (get_account STEEMIT_NULL_ACCOUNT c) (\<lambda>n.
        let total_steem = mk_asset 0 STEEM_SYMBOL; total_sbd = mk_asset 0 SBD_SYMBOL in
        rbind (drain L a_balance (adjust_balance L) n (total_steem, c)) (\<lambda>(total_steem, c).
        rbind (drain L a_savings_balance (adjust_savings_balance L) n (total_steem, c)) (\<lambda>(total_steem, c).
        rbind (drain L a_sbd_balance (adjust_balance L) n (total_sbd, c)) (\<lambda>(total_sbd, c).
        rbind (drain L a_savings_sbd_balance (adjust_savings_balance L) n (total_sbd, c)) (\<lambda>(total_sbd, c).
        rbind (drain_vesting L n (total_steem, c)) (\<lambda>(total_steem, c).
        rbind (drain L a_reward_steem_balance (adjust_reward_balance L) n (total_steem, c)) (\<lambda>(total_steem, c).
        rbind (drain L a_reward_sbd_balance (adjust_reward_balance L) n (total_sbd, c)) (\<lambda>(total_sbd, c).
        rbind (drain_reward_vesting L n (total_steem, c)) (\<lambda>(total_steem, c).
        rbind (burn L total_steem c) (\<lambda>c.
        burn L total_sbd c)))))))))))"

section \<open>How the functions change the books\<close>

lemma modify_reward_fund_booked:
  assumes "modify_reward_fund i f c = Inr c'" and "tables_ok c"
    and "\<And>x x'. f x = Inr x' \<Longrightarrow> (\<forall>s. val s (rf_reward_balance x') = val s (rf_reward_balance x) + d s)"
  shows "booked (\<lambda>s. - d s) 0 c c'"
proof -
  obtain t where t: "db_modify reward_fund_clash i f (ch_reward_funds c) = Inr t" "c' = c\<lparr>ch_reward_funds := t\<rparr>"
    using assms(1) by (auto simp: modify_reward_fund_def)
  have "tbl_ok (ch_reward_funds c)" using assms(2) by (simp add: tables_ok_def)
  from t(1) this show ?thesis
    by (rule db_modify_spec) (use assms(2,3) t(2) in \<open>auto simp: books_defs\<close>)
qed

lemma pay_reward_fund_booked:
  assumes "safe_laws L" and "pay_reward_fund L reward i (u, c) = Inr (u', c')" and "tables_ok c"
  shows "booked (\<lambda>s. val s (mk_asset u STEEM_SYMBOL) - val s (mk_asset u' STEEM_SYMBOL)) 0 c c'"
proof -
  obtain r f where f: "modify_reward_fund i f c = Inr c'" "u' = u + r"
    and "\<And>x x'. f x = Inr x' \<Longrightarrow> (\<forall>s. val s (rf_reward_balance x') = val s (rf_reward_balance x) + val s (mk_asset r STEEM_SYMBOL))"
    using assms(2) by (fastforce simp: pay_reward_fund_def safe_iffs [OF assms(1)] asset_arith_iffs [OF assms(1)])
  with modify_reward_fund_booked [OF f(1) assms(3), of "\<lambda>s. val s (mk_asset r STEEM_SYMBOL)"] show ?thesis
    by (auto elim!: booked_eq)
qed

lemma pay_reward_funds_booked:
  assumes "safe_laws L" and "pay_reward_funds L reward c = Inr (u, c')" and "tables_ok c"
  shows "booked (\<lambda>s. - val s (mk_asset u STEEM_SYMBOL)) 0 c c'"
proof -
  have "booked (\<lambda>s. - val s (mk_asset (fst (u, c')) STEEM_SYMBOL)) 0 c (snd (u, c'))"
  proof (rule fold_res_invariant [OF assms(2) [unfolded pay_reward_funds_def]])
    fix i s t
    assume s: "booked (\<lambda>x. - val x (mk_asset (fst s) STEEM_SYMBOL)) 0 c (snd s)" "pay_reward_fund L reward i s = Inr t"
    with pay_reward_fund_booked [OF assms(1), of reward i "fst s" "snd s" "fst t" "snd t"] booked_tables [OF s(1)]
    have "booked (\<lambda>x. val x (mk_asset (fst s) STEEM_SYMBOL) - val x (mk_asset (fst t) STEEM_SYMBOL)) 0 (snd s) (snd t)" by simp
    from booked_trans [OF s(1) this] show "booked (\<lambda>x. - val x (mk_asset (fst t) STEEM_SYMBOL)) 0 c (snd t)"
      by (rule booked_eq) auto
  qed (simp add: booked_refl [OF assms(3)])
  then show ?thesis by simp
qed

lemma pay_reward_fund_frame:
  "pay_reward_fund L reward i s = Inr s' \<Longrightarrow> \<exists>t. snd s' = (snd s)\<lparr>ch_reward_funds := t\<rparr>"
  by (auto simp: pay_reward_fund_def modify_reward_fund_def split: prod.splits)

lemma pay_reward_funds_frame:
  assumes "pay_reward_funds L reward c = Inr (u, c')"
  shows "\<exists>t. c' = c\<lparr>ch_reward_funds := t\<rparr>"
proof -
  have "\<exists>t. snd (u, c') = c\<lparr>ch_reward_funds := t\<rparr>"
    by (rule fold_res_invariant [OF assms [unfolded pay_reward_funds_def]])
      (force intro: exI [of _ "ch_reward_funds c"] dest: pay_reward_fund_frame)+
  then show ?thesis by simp
qed

lemma fund_gpo_booked:
  assumes "safe_laws L" and "tables_ok c"
    and "modify_gpo (\<lambda>p.
       rbind (asset_plus_assign L (g_total_vesting_fund_steem p) vr) (\<lambda>f.
       rbind (rf p) (\<lambda>r.
       rbind (st p) (\<lambda>n.
       rbind (asset_plus_assign L (g_current_supply p) n) (\<lambda>s.
       rbind (asset_plus_assign L (g_virtual_supply p) n) (\<lambda>v.
       Inr (p\<lparr>g_total_vesting_fund_steem := f, g_total_reward_fund_steem := r, g_current_supply := s, g_virtual_supply := v\<rparr>))))))) c = Inr c'"
    and "\<And>p r s. rf p = Inr r \<Longrightarrow> val s r = val s (g_total_reward_fund_steem p) + d s"
    and "\<And>p n s. st p = Inr n \<Longrightarrow> val s n = e s"
  shows "booked (\<lambda>s. e s - val s vr - d s) 0 c c' \<and> ledger_frame c c'"
  using assms(3,2)
  by (rule modify_gpo_books)
    (use assms(4,5) in \<open>auto simp: asset_arith_iffs [OF assms(1)] gpo_issued_def gpo_holds_def\<close>)

lemma process_funds_hf16_booked:
  assumes "safe_laws L" and "process_funds_hf16 L c = Inr c'" and "tables_ok c"
  shows "booked (\<lambda>_. 0) 0 c c'"
proof -
  obtain cr c1 vr wr c2 a pr c3 cont where
    cr: "(if has_hardfork 17 c then pay_reward_funds L cont c else Inr (cont, c)) = Inr (cr, c1)"
    and g: "modify_gpo (\<lambda>p.
       rbind (asset_plus_assign L (g_total_vesting_fund_steem p) (mk_asset vr STEEM_SYMBOL)) (\<lambda>f.
       rbind (if \<not> has_hardfork 17 c1 then asset_plus_assign L (g_total_reward_fund_steem p) (mk_asset cr STEEM_SYMBOL)
              else Inr (g_total_reward_fund_steem p)) (\<lambda>r.
       rbind (Inr (mk_asset (cr + vr + wr) STEEM_SYMBOL)) (\<lambda>n.
       rbind (asset_plus_assign L (g_current_supply p) n) (\<lambda>s.
       rbind (asset_plus_assign L (g_virtual_supply p) n) (\<lambda>v.
       Inr (p\<lparr>g_total_vesting_fund_steem := f, g_total_reward_fund_steem := r, g_current_supply := s, g_virtual_supply := v\<rparr>))))))) c1 = Inr c2"
    and v: "create_vesting L a (mk_asset wr STEEM_SYMBOL) False c2 = Inr (pr, c3)" "booked (\<lambda>_. 0) 0 c c' = booked (\<lambda>_. 0) 0 c c3"
    using assms(2) by (auto simp: process_funds_hf16_def safe_iffs [OF assms(1)] split: prod.splits)
  have hf: "has_hardfork 17 c1 = has_hardfork 17 c"
    using cr by (auto simp: has_hardfork_def split: if_splits dest!: pay_reward_funds_frame)
  define d where "d s = (if has_hardfork 17 c then 0 else val s (mk_asset cr STEEM_SYMBOL))" for s
  have 1: "booked (\<lambda>s. d s - val s (mk_asset cr STEEM_SYMBOL)) 0 c c1"
    using cr pay_reward_funds_booked [OF assms(1) _ assms(3)] booked_refl [OF assms(3)]
    by (auto simp: d_def split: if_splits)
  have 2: "booked (\<lambda>s. val s (mk_asset (cr + vr + wr) STEEM_SYMBOL) - val s (mk_asset vr STEEM_SYMBOL) - d s) 0 c1 c2"
    by (rule conjunct1 [OF fund_gpo_booked [OF assms(1) booked_tables [OF 1] g]])
      (auto simp: d_def hf asset_arith_iffs [OF assms(1)])
  have 3: "booked (\<lambda>s. - val s (mk_asset wr STEEM_SYMBOL)) 0 c2 c3"
    using create_vesting_booked [OF assms(1) v(1) booked_tables [OF 2]] by simp
  show ?thesis unfolding v(2) using booked_trans [OF booked_trans [OF 1 2] 3] by (auto elim!: booked_eq)
qed

lemma get_producer_reward_booked:
  assumes "safe_laws L" and "get_producer_reward L c = Inr (pay, c')" and "tables_ok c"
  shows "booked (\<lambda>s. - val s pay) 0 c c'"
proof -
  consider w reward d where "create_vesting L w pay False c = Inr (reward, d)" "booked (\<lambda>s. - val s pay) 0 c c' = booked (\<lambda>s. - val s pay) 0 c d"
    | w where "modify_account w (\<lambda>a. rbind (asset_plus_assign L (a_balance a) pay) (\<lambda>b. Inr (a\<lparr>a_balance := b\<rparr>))) c = Inr c'"
    using assms(2) by (auto simp: get_producer_reward_def split: if_splits prod.splits)
  then show ?thesis
  proof cases
    case 1
    then show ?thesis using create_vesting_booked [OF assms(1) _ assms(3)] by blast
  next
    case 2
    from modify_account_books [OF this assms(3), of "\<lambda>s. val s pay" 0] show ?thesis
      by (auto simp: asset_arith_iffs [OF assms(1)] account_holds_def)
  qed
qed

lemma process_funds_old_booked:
  assumes "safe_laws L" and "process_funds_old L c = Inr c'" and "tables_ok c"
  shows "booked (\<lambda>_. 0) 0 c c'"
proof -
  obtain pay c1 cr vr where p: "get_producer_reward L c = Inr (pay, c1)"
    and g: "modify_gpo (\<lambda>p.
       rbind (asset_plus_assign L (g_total_vesting_fund_steem p) vr) (\<lambda>f.
       rbind (asset_plus_assign L (g_total_reward_fund_steem p) cr) (\<lambda>r.
       rbind (rbind (asset_plus L cr pay) (\<lambda>x. asset_plus L x vr)) (\<lambda>n.
       rbind (asset_plus_assign L (g_current_supply p) n) (\<lambda>s.
       rbind (asset_plus_assign L (g_virtual_supply p) n) (\<lambda>v.
       Inr (p\<lparr>g_total_vesting_fund_steem := f, g_total_reward_fund_steem := r, g_current_supply := s, g_virtual_supply := v\<rparr>))))))) c1 = Inr c'"
    using assms(2) by (fastforce simp: process_funds_old_def Let_def rbind_assoc)
  note 1 = get_producer_reward_booked [OF assms(1) p assms(3)]
  have 2: "booked (\<lambda>s. (val s cr + val s pay + val s vr) - val s vr - val s cr) 0 c1 c'"
    by (rule conjunct1 [OF fund_gpo_booked [OF assms(1) booked_tables [OF 1] g]])
      (auto simp: asset_arith_iffs [OF assms(1)])
  from booked_trans [OF 1 2] show ?thesis by (rule booked_eq) auto
qed

lemma process_funds_booked:
  "safe_laws L \<Longrightarrow> process_funds L c = Inr c' \<Longrightarrow> tables_ok c \<Longrightarrow> booked (\<lambda>_. 0) 0 c c'"
  by (auto simp: process_funds_def intro: process_funds_hf16_booked process_funds_old_booked split: if_splits)

lemma update_virtual_supply_gpo:
  assumes "update_virtual_supply L c = Inr c'"
  shows "\<exists>v r. c' = c\<lparr>ch_gpo := (ch_gpo c)\<lparr>g_virtual_supply := v, g_sbd_print_rate := r\<rparr>\<rparr>"
proof (cases "\<not> is_null L (median_history c) \<and> has_hardfork 14 c")
  case True
  then show ?thesis using assms by (simp add: update_virtual_supply_def modify_gpo_def Let_def) blast
next
  case False
  then obtain v where "c' = c\<lparr>ch_gpo := (ch_gpo c)\<lparr>g_virtual_supply := v\<rparr>\<rparr>"
    using assms by (auto simp: update_virtual_supply_def modify_gpo_def Let_def simp del: de_Morgan_conj)
  moreover have "g\<lparr>g_virtual_supply := v\<rparr> = g\<lparr>g_virtual_supply := v, g_sbd_print_rate := g_sbd_print_rate g\<rparr>"
    for g :: dynamic_global_property_object by simp
  ultimately show ?thesis by metis
qed

lemma update_virtual_supply_booked:
  "update_virtual_supply L c = Inr c' \<Longrightarrow> tables_ok c \<Longrightarrow> booked (\<lambda>_. 0) 0 c c' \<and> ledger_frame c c'"
  by (auto simp: books_defs gpo_issued_def gpo_holds_def ledger_frame_def head_block_time_def head_block_num_def
      dest!: update_virtual_supply_gpo)

lemma pay_liquidity_reward_booked:
  assumes "safe_laws L" and "pay_liquidity_reward L c = Inr c'" and "tables_ok c"
  shows "booked (\<lambda>_. 0) 0 c c'"
proof -
  consider "c' = c" | x i c1 c2 t op where "adjust_supply L x True c = Inr c1" "adjust_balance L i x c1 = Inr c2"
    "c' = push_virtual_operation op (c2\<lparr>ch_liquidity := t\<rparr>)"
    using assms(2) by (auto simp: pay_liquidity_reward_def Let_def split: if_splits option.splits prod.splits)
  then show ?thesis
  proof cases
    case 2
    from booked_then [OF adjust_supply_booked [OF assms(1) 2(1) assms(3)] adjust_balance_booked [OF assms(1) 2(2)]]
    have "booked (\<lambda>_. 0) 0 c c2" by simp
    then show ?thesis using 2(3) by (simp add: books_defs push_virtual_operation_def)
  qed (simp add: booked_refl [OF assms(3)])
qed

end
