(* ===== verification/Account_Views.thy ===== *)
theory Account_Views
  imports Balances
begin

text \<open>
  What the functions of the ledger keep of every account.  A relation \<open>R\<close> between an account before and
  after is a contract; the locales say which members a function may change for the contract to hold, and
  each function is shown once to respect every contract of its locale.  Instances are the symbols of the
  balances, the schedule of the vesting withdrawals and the names of the accounts.
\<close>

section \<open>Relations between the accounts of two states\<close>

lemma db_modify_find:
  assumes "db_modify clash i g t = Inr t'"
  obtains v v' where "find_obj i t = Some v" "g v = Inr v'" "\<And>j. find_obj j t' = (if j = i then Some v' else find_obj j t)"
proof -
  obtain v v' where v: "find_obj i t = Some v" "g v = Inr v'" and m: "modify clash i (\<lambda>_. v') t = (Inr (), t')"
    using assms(1) by (auto simp: db_modify_def get_obj_def split: option.splits)
  then have "gi_indices t' = fm_put i v' (gi_indices t)"
    by (auto simp: modify_def find_obj_def idx_modify_def Let_def split: option.splits if_splits prod.splits)
  with that v show thesis by (simp add: find_obj_def)
qed

definition accounts_rel :: "(account_object \<Rightarrow> account_object \<Rightarrow> bool) \<Rightarrow> chain \<Rightarrow> chain \<Rightarrow> bool" where
  "accounts_rel R c c' \<longleftrightarrow> (\<forall>j. rel_option R (find_obj j (ch_accounts c)) (find_obj j (ch_accounts c')))"

lemma accounts_relD:
  "accounts_rel R c c' \<Longrightarrow> account i c = Inr a \<Longrightarrow> \<exists>a'. account i c' = Inr a' \<and> R a a'"
  unfolding accounts_rel_def account_def find_obj_get by (metis option_rel_Some1)

lemma accounts_relD2:
  "accounts_rel R c c' \<Longrightarrow> account i c' = Inr a' \<Longrightarrow> \<exists>a. account i c = Inr a \<and> R a a'"
  unfolding accounts_rel_def account_def find_obj_get by (metis option_rel_Some2)

lemma accounts_rel_ids:
  assumes "accounts_rel R c c'"
  shows "fst ` set (gi_indices (ch_accounts c')) = fst ` set (gi_indices (ch_accounts c))"
proof -
  have "find_obj j (ch_accounts c') = None \<longleftrightarrow> find_obj j (ch_accounts c) = None" for j
    using assms unfolding accounts_rel_def by (metis option.rel_distinct(1) option.rel_distinct(2) option.exhaust)
  then show ?thesis unfolding find_obj_def fm_find_None by auto
qed

section \<open>Proxied votes\<close>

locale account_relation =
  fixes R :: "account_object \<Rightarrow> account_object \<Rightarrow> bool"
  assumes R_refl: "R a a"
    and R_trans: "R a b \<Longrightarrow> R b d \<Longrightarrow> R a d"
    and R_votes: "R a (a\<lparr>a_proxied_vsf_votes := v\<rparr>)"
begin

lemma rel_same: "ch_accounts c' = ch_accounts c \<Longrightarrow> accounts_rel R c c'"
  by (auto simp: accounts_rel_def option.rel_refl R_refl)

lemma rel_trans:
  assumes "accounts_rel R c c'" and "accounts_rel R c' c''"
  shows "accounts_rel R c c''"
  unfolding accounts_rel_def
proof
  fix j
  from assms have "rel_option R (find_obj j (ch_accounts c)) (find_obj j (ch_accounts c'))"
    "rel_option R (find_obj j (ch_accounts c')) (find_obj j (ch_accounts c''))"
    by (simp_all add: accounts_rel_def)
  then show "rel_option R (find_obj j (ch_accounts c)) (find_obj j (ch_accounts c''))"
    by (auto simp: option.rel_sel intro: R_trans)
qed

lemma rel_tables [simp]:
  "accounts_rel R c (push_virtual_operation op c') \<longleftrightarrow> accounts_rel R c c'"
  "accounts_rel R c (c'\<lparr>ch_gpo := g\<rparr>) \<longleftrightarrow> accounts_rel R c c'"
  "accounts_rel R c (c'\<lparr>ch_witnesses := w\<rparr>) \<longleftrightarrow> accounts_rel R c c'"
  by (simp_all add: accounts_rel_def)

lemma modify_rel:
  assumes "modify_account i f c = Inr c'" and "\<And>a a'. account i c = Inr a \<Longrightarrow> f a = Inr a' \<Longrightarrow> R a a'"
  shows "accounts_rel R c c'"
proof -
  obtain t where t: "db_modify account_clash i f (ch_accounts c) = Inr t" "c' = c\<lparr>ch_accounts := t\<rparr>"
    using assms(1) by (auto simp: modify_account_def)
  from t(1) obtain v v' where "find_obj i (ch_accounts c) = Some v" "f v = Inr v'"
    "\<And>j. find_obj j t = (if j = i then Some v' else find_obj j (ch_accounts c))"
    by (rule db_modify_find) blast
  with t(2) assms(2) show ?thesis by (auto simp: accounts_rel_def account_def find_obj_get option.rel_refl R_refl)
qed

lemma modify_gpo_rel: "modify_gpo f c = Inr c' \<Longrightarrow> accounts_rel R c c'"
  by (rule rel_same) (auto simp: modify_gpo_def)

lemma adjust_witness_vote_rel: "adjust_witness_vote L i delta c = Inr c' \<Longrightarrow> accounts_rel R c c'"
  by (rule rel_same) (auto simp: adjust_witness_vote_def modify_witness_def Let_def)

lemma adjust_witness_votes_rel: "adjust_witness_votes L i delta c = Inr c' \<Longrightarrow> accounts_rel R c c'"
  unfolding adjust_witness_votes_def
  by (rule fold_res_invariant [where P = "accounts_rel R c"])
    (auto intro: rel_same rel_trans adjust_witness_vote_rel)

lemma adjust_proxied_witness_votes_rel:
  "adjust_proxied_witness_votes L i delta depth c = Inr c' \<Longrightarrow> accounts_rel R c c'"
proof (induction L i delta depth c arbitrary: c' rule: adjust_proxied_witness_votes.induct)
  case (1 L i delta depth c)
  note step = 1(2) [unfolded adjust_proxied_witness_votes.simps [of L i delta depth c]]
  then obtain a where a: "account i c = Inr a" by auto
  show ?case
  proof (cases "a_proxy a \<noteq> STEEMIT_PROXY_TO_SELF_ACCOUNT \<and> \<not> STEEMIT_MAX_PROXY_RECURSION_DEPTH \<le> depth")
    case True
    then obtain p c1 where p: "get_account (a_proxy a) c = Inr p" "modify_account p (add_proxied_vote L depth delta) c = Inr c1"
      "adjust_proxied_witness_votes L p delta (depth + 1) c1 = Inr c'"
      using step a by auto
    have "accounts_rel R c c1" using p(2) by (rule modify_rel) (auto simp: add_proxied_vote_def R_votes)
    with 1(1) [OF _ _ p(3), of a] True show ?thesis by (blast intro: rel_trans)
  next
    case False
    then have "c' = c \<or> adjust_witness_votes L i delta c = Inr c'" using step a by (auto split: if_splits)
    then show ?thesis by (auto intro: rel_same adjust_witness_votes_rel)
  qed
qed

end

section \<open>Balances\<close>

text \<open>A balance may change its amount, not its symbol.\<close>

definition balance_symbols :: "account_object \<Rightarrow> asset_symbol_type list" where
  "balance_symbols a = map symbol [a_balance a, a_sbd_balance a, a_savings_balance a, a_savings_sbd_balance a,
     a_reward_steem_balance a, a_reward_sbd_balance a]"

definition without_balances :: "account_object \<Rightarrow> account_object" where
  "without_balances a = a\<lparr>a_balance := default_asset, a_sbd_balance := default_asset,
     a_savings_balance := default_asset, a_savings_sbd_balance := default_asset,
     a_reward_steem_balance := default_asset, a_reward_sbd_balance := default_asset,
     a_sbd_seconds := \<lparr>hi = 0, lo = 0\<rparr>, a_sbd_seconds_last_update := 0, a_sbd_last_interest_payment := 0,
     a_savings_sbd_seconds := \<lparr>hi = 0, lo = 0\<rparr>, a_savings_sbd_seconds_last_update := 0,
     a_savings_sbd_last_interest_payment := 0\<rparr>"

definition same_but_balances :: "account_object \<Rightarrow> account_object \<Rightarrow> bool" where
  "same_but_balances a b \<longleftrightarrow> without_balances a = without_balances b \<and> balance_symbols a = balance_symbols b"

lemmas same_but_balances_defs = same_but_balances_def without_balances_def balance_symbols_def

lemma same_but_balances_keeps:
  assumes "same_but_balances a b" and "\<And>a. h (without_balances a) = h a"
  shows "h b = h a"
  using assms by (metis same_but_balances_def)

lemmas asset_assign_defs = asset_plus_assign_def asset_minus_assign_def

lemma issue_interest_accounts: "issue_interest L n interest paid c = Inr c' \<Longrightarrow> ch_accounts c' = ch_accounts c"
  by (auto simp: issue_interest_def modify_gpo_def Let_def split: if_splits)

lemma accrue_sbd_same:
  "accrue_sbd L a c = Inr (a', c') \<Longrightarrow> same_but_balances a a' \<and> ch_accounts c' = ch_accounts c"
  "accrue_savings_sbd L a c = Inr (a', c') \<Longrightarrow> same_but_balances a a' \<and> ch_accounts c' = ch_accounts c"
  by (auto simp: accrue_sbd_def accrue_savings_sbd_def Let_def asset_assign_defs issue_interest_accounts
      same_but_balances_defs split: if_splits)

locale balance_relation = account_relation +
  assumes R_balances: "same_but_balances a b \<Longrightarrow> R a b"
begin

lemma adjust_balance_rel:
  assumes "adjust_balance L i x c = Inr c'"
  shows "accounts_rel R c c'"
proof (cases "symbol x = STEEM_SYMBOL")
  case True
  then have "modify_account i (\<lambda>a. rbind (asset_plus_assign L (a_balance a) x) (\<lambda>b. Inr (a\<lparr>a_balance := b\<rparr>))) c = Inr c'"
    using assms(1) by (simp add: adjust_balance_def)
  then show ?thesis
    by (rule modify_rel) (auto simp: asset_assign_defs same_but_balances_defs intro!: R_balances)
next
  case False
  then obtain a a' c1 b where a: "account i c = Inr a" "accrue_sbd L a c = Inr (a', c1)"
    "asset_plus_assign L (a_sbd_balance a') x = Inr b"
    "modify_account i (\<lambda>_. Inr (a'\<lparr>a_sbd_balance := b\<rparr>)) c1 = Inr c'"
    using assms(1) by (auto simp: adjust_balance_def split: if_splits)
  note same = accrue_sbd_same(1) [OF a(2)]
  have "R a (a'\<lparr>a_sbd_balance := b\<rparr>)"
    using same a(3) by (intro R_balances) (auto simp: asset_assign_defs same_but_balances_defs)
  then have "accounts_rel R c1 c'" using a(1) same by (intro modify_rel [OF a(4)]) (auto simp: account_def)
  with same show ?thesis by (simp add: accounts_rel_def)
qed

lemma adjust_savings_balance_rel:
  assumes "adjust_savings_balance L i x c = Inr c'"
  shows "accounts_rel R c c'"
proof (cases "symbol x = STEEM_SYMBOL")
  case True
  then have "modify_account i (\<lambda>a. rbind (asset_plus_assign L (a_savings_balance a) x)
      (\<lambda>b. Inr (a\<lparr>a_savings_balance := b\<rparr>))) c = Inr c'"
    using assms(1) by (simp add: adjust_savings_balance_def)
  then show ?thesis
    by (rule modify_rel) (auto simp: asset_assign_defs same_but_balances_defs intro!: R_balances)
next
  case False
  then obtain a a' c1 b where a: "account i c = Inr a" "accrue_savings_sbd L a c = Inr (a', c1)"
    "asset_plus_assign L (a_savings_sbd_balance a') x = Inr b"
    "modify_account i (\<lambda>_. Inr (a'\<lparr>a_savings_sbd_balance := b\<rparr>)) c1 = Inr c'"
    using assms(1) by (auto simp: adjust_savings_balance_def split: if_splits)
  note same = accrue_sbd_same(2) [OF a(2)]
  have "R a (a'\<lparr>a_savings_sbd_balance := b\<rparr>)"
    using same a(3) by (intro R_balances) (auto simp: asset_assign_defs same_but_balances_defs)
  then have "accounts_rel R c1 c'" using a(1) same by (intro modify_rel [OF a(4)]) (auto simp: account_def)
  with same show ?thesis by (simp add: accounts_rel_def)
qed

lemma adjust_reward_balance_rel:
  assumes "adjust_reward_balance L i x c = Inr c'"
  shows "accounts_rel R c c'"
proof -
  obtain f where f: "modify_account i f c = Inr c'" and "\<And>a a'. f a = Inr a' \<Longrightarrow> same_but_balances a a'"
    using assms(1)
    by (fastforce simp: adjust_reward_balance_def asset_assign_defs same_but_balances_defs split: if_splits)
  with modify_rel [OF f] R_balances show ?thesis by blast
qed

lemma take_balance_rel: "take_balance L i x c = Inr c' \<Longrightarrow> accounts_rel R c c'"
  by (auto simp: take_balance_def intro: adjust_balance_rel)

lemma adjust_supply_rel: "adjust_supply L x b c = Inr c' \<Longrightarrow> accounts_rel R c c'"
  by (auto simp: adjust_supply_def Let_def intro: modify_gpo_rel)

lemma pay_fee_rel: "pay_fee L i x c = Inr c' \<Longrightarrow> accounts_rel R c c'"
  by (auto simp: pay_fee_def split: if_splits intro: rel_same rel_trans adjust_balance_rel adjust_supply_rel)

lemma create_sbd_rel:
  assumes "create_sbd L i x r c = Inr (v, c')"
  shows "accounts_rel R c c'"
  using assms(1)
  by (auto simp: create_sbd_def Let_def rel_same split: if_splits
      dest!: adjust_balance_rel adjust_reward_balance_rel adjust_supply_rel)
    (meson rel_trans)+

end

section \<open>Vesting\<close>

definition vesting_symbols :: "account_object \<Rightarrow> asset_symbol_type list" where
  "vesting_symbols a = map symbol [a_vesting_shares a, a_reward_vesting_balance a, a_reward_vesting_steem a]"

definition without_vesting :: "account_object \<Rightarrow> account_object" where
  "without_vesting a = a\<lparr>a_vesting_shares := default_asset, a_reward_vesting_balance := default_asset,
     a_reward_vesting_steem := default_asset\<rparr>"

definition same_but_vesting :: "account_object \<Rightarrow> account_object \<Rightarrow> bool" where
  "same_but_vesting a b \<longleftrightarrow> without_vesting a = without_vesting b \<and> vesting_symbols a = vesting_symbols b"

lemmas same_but_vesting_defs = same_but_vesting_def without_vesting_def vesting_symbols_def

lemma same_but_vesting_keeps:
  assumes "same_but_vesting a b" and "\<And>a. h (without_vesting a) = h a"
  shows "h b = h a"
  using assms by (metis same_but_vesting_def)

locale vesting_relation = balance_relation +
  assumes R_vesting: "same_but_vesting a b \<Longrightarrow> R a b"
begin

lemma create_vesting_rel:
  assumes "create_vesting L i steem r c = Inr (v, c')"
  shows "accounts_rel R c c'"
proof -
  obtain f g c1 c2 where f: "modify_account i f c = Inr c1" "\<And>a a'. f a = Inr a' \<Longrightarrow> same_but_vesting a a'"
    and g: "modify_gpo g c1 = Inr c2" and h: "c' = c2 \<or> adjust_proxied_witness_votes L i (amount v) 0 c2 = Inr c'"
    using assms(1)
    by (fastforce simp: create_vesting_def asset_assign_defs same_but_vesting_defs split: if_splits)
  have "accounts_rel R c c1" using f(1) by (rule modify_rel) (blast intro: R_vesting f(2))
  with modify_gpo_rel [OF g] h show ?thesis by (blast intro: rel_trans adjust_proxied_witness_votes_rel)
qed

end

end
