(* ===== verification/Null_Account.thy ===== *)
theory Null_Account
  imports Funds Account_Views
begin

text \<open>
  \<open>clear_null_account_balance\<close> destroys what the account \<open>null\<close> holds, and the supply shrinks by exactly
  that.  The totals that are taken off the supply are only taken off when they are positive, so the books
  need that no addend is negative: the vesting shares must convert to a non-negative amount of STEEM, and
  the STEEM behind unclaimed vesting rewards must not be negative.
\<close>

definition null_convertible :: "fc_lib \<Rightarrow> chain \<Rightarrow> bool" where
  "null_convertible L c \<longleftrightarrow>
     (case get_account STEEMIT_NULL_ACCOUNT c of Inl _ \<Rightarrow> True
      | Inr n \<Rightarrow> (case account n c of Inl _ \<Rightarrow> True
        | Inr a \<Rightarrow> 0 \<le> amount (a_reward_vesting_steem a) \<and>
            (case asset_times_price L (a_vesting_shares a) (get_vesting_share_price (ch_gpo c)) of
               Inl _ \<Rightarrow> True | Inr x \<Rightarrow> 0 \<le> amount x)))"

definition same_vests :: "account_object \<Rightarrow> account_object \<Rightarrow> bool" where
  "same_vests a b \<longleftrightarrow> a_vesting_shares b = a_vesting_shares a \<and> a_reward_vesting_steem b = a_reward_vesting_steem a"

interpretation vests_kept: balance_relation same_vests
proof unfold_locales
  fix a b assume s: "same_but_balances a b"
  have "a_vesting_shares b = a_vesting_shares a" "a_reward_vesting_steem b = a_reward_vesting_steem a"
    using s by (rule same_but_balances_keeps, simp add: without_balances_def)+
  then show "same_vests a b" by (simp add: same_vests_def)
qed (auto simp: same_vests_def)

text \<open>The totals of a turn are not negative and are what the books are short of.\<close>

definition drained :: "asset \<Rightarrow> asset \<Rightarrow> chain \<Rightarrow> chain \<Rightarrow> bool" where
  "drained t t' c c' \<longleftrightarrow> booked (\<lambda>s. val s t' - val s t) 0 c c' \<and> ledger_frame c c' \<and> symbol t' = symbol t \<and>
     (0 \<le> amount t \<longrightarrow> 0 \<le> amount t')"

definition vest_price_kept :: "chain \<Rightarrow> chain \<Rightarrow> bool" where
  "vest_price_kept c c' \<longleftrightarrow> get_vesting_share_price (ch_gpo c') = get_vesting_share_price (ch_gpo c) \<and> accounts_rel same_vests c c'"

lemma vest_price_kept_trans: "vest_price_kept c c' \<Longrightarrow> vest_price_kept c' c'' \<Longrightarrow> vest_price_kept c c''"
  by (auto simp: vest_price_kept_def intro: vests_kept.rel_trans)

lemma accrue_price:
  "accrue_sbd L a c = Inr (a', c') \<Longrightarrow> get_vesting_share_price (ch_gpo c') = get_vesting_share_price (ch_gpo c)"
  "accrue_savings_sbd L a c = Inr (a', c') \<Longrightarrow> get_vesting_share_price (ch_gpo c') = get_vesting_share_price (ch_gpo c)"
  by (auto simp: accrue_sbd_def accrue_savings_sbd_def issue_interest_def modify_gpo_def get_vesting_share_price_def Let_def
      split: if_splits)

lemma adjust_price:
  "adjust_balance L i x c = Inr c' \<Longrightarrow> vest_price_kept c c'"
  "adjust_savings_balance L i x c = Inr c' \<Longrightarrow> vest_price_kept c c'"
  "adjust_reward_balance L i x c = Inr c' \<Longrightarrow> vest_price_kept c c'"
proof -
  show "adjust_balance L i x c = Inr c' \<Longrightarrow> vest_price_kept c c'"
    using vests_kept.adjust_balance_rel
    by (auto simp: vest_price_kept_def adjust_balance_def modify_account_def split: if_splits dest!: accrue_price)
  show "adjust_savings_balance L i x c = Inr c' \<Longrightarrow> vest_price_kept c c'"
    using vests_kept.adjust_savings_balance_rel
    by (auto simp: vest_price_kept_def adjust_savings_balance_def modify_account_def split: if_splits dest!: accrue_price)
  show "adjust_reward_balance L i x c = Inr c' \<Longrightarrow> vest_price_kept c c'"
    using vests_kept.adjust_reward_balance_rel
    by (auto simp: vest_price_kept_def adjust_reward_balance_def modify_account_def split: if_splits)
qed

text \<open>\<open>drain\<close> with any of the three functions that adjust a balance.\<close>

lemma drain_keeps:
  assumes "safe_laws L" and "adjust \<in> {adjust_balance L, adjust_savings_balance L, adjust_reward_balance L}"
    and "drain L field adjust i (t, c) = Inr (t', c')" and "tables_ok c"
  shows "drained t t' c c' \<and> vest_price_kept c c'"
proof -
  consider "t' = t" "c' = c" | a where "0 < amount (field a)" "symbol t = symbol (field a)"
      "t' = mk_asset (amount t + amount (field a)) (symbol t)"
      "adjust i (mk_asset (- amount (field a)) (symbol (field a))) c = Inr c'"
    using assms(3) by (auto simp: drain_def asset_arith_iffs [OF assms(1)] split: if_splits)
  then show ?thesis
  proof cases
    case 1
    then show ?thesis using assms(4) by (simp add: drained_def vest_price_kept_def booked_refl vests_kept.rel_same)
  next
    case 2
    have "booked (\<lambda>s. - val s (mk_asset (- amount (field a)) (symbol (field a)))) 0 c c' \<and> ledger_frame c c'"
      using assms(1,2,4) 2(4) booked_moves by blast
    moreover have "vest_price_kept c c'" using assms(2) 2(4) adjust_price by blast
    ultimately show ?thesis using 2 by (auto simp: drained_def elim!: booked_eq)
  qed
qed

lemma drain_vesting_keeps:
  assumes "safe_laws L" and "drain_vesting L i (t, c) = Inr (t', c')" and "tables_ok c"
    and "\<And>a x. account i c = Inr a \<Longrightarrow> asset_times_price L (a_vesting_shares a) (get_vesting_share_price (ch_gpo c)) = Inr x \<Longrightarrow> 0 \<le> amount x"
  shows "drained t t' c c' \<and> (\<forall>a. account i c' = Inr a \<longrightarrow> (\<exists>b. account i c = Inr b \<and> a_reward_vesting_steem a = a_reward_vesting_steem b))"
proof -
  obtain a where a: "account i c = Inr a" using assms(2) by (auto simp: drain_vesting_def)
  show ?thesis
  proof (cases "amount (a_vesting_shares a) > 0")
    case False
    then show ?thesis using assms(2,3) a by (simp add: drain_vesting_def drained_def booked_refl)
  next
    case True
    then obtain x f c1 where x: "asset_times_price L (a_vesting_shares a) (get_vesting_share_price (ch_gpo c)) = Inr x"
      and g: "modify_gpo f c = Inr c1"
      and m: "modify_account i (\<lambda>a. Inr (a\<lparr>a_vesting_shares := mk_asset 0 (symbol (a_vesting_shares a))\<rparr>)) c1 = Inr c'"
      and t: "asset_plus_assign L t x = Inr t'"
      and f: "\<And>g g'. f g = Inr g' \<Longrightarrow> (\<forall>s. gpo_issued s g' - gpo_holds s g' = gpo_issued s g - gpo_holds s g + (val s x - val s (a_vesting_shares a))) \<and>
        g_pending_rewarded_vesting_steem g' = g_pending_rewarded_vesting_steem g \<and> g_time g' = g_time g \<and> g_head_block_number g' = g_head_block_number g"
      using assms(2) a by (fastforce simp: drain_vesting_def asset_arith_iffs [OF assms(1)] gpo_issued_def gpo_holds_def)
    have 1: "booked (\<lambda>s. val s x - val s (a_vesting_shares a)) 0 c c1 \<and> ledger_frame c c1"
      using g assms(3) by (rule modify_gpo_books) (use f in auto)
    have a1: "account j c1 = account j c" for j using g by (auto simp: modify_gpo_def account_def)
    from m booked_tables [OF conjunct1 [OF 1]] obtain a' where
      c': "\<And>j. account j c' = (if j = i then Inr (a\<lparr>a_vesting_shares := mk_asset 0 (symbol (a_vesting_shares a))\<rparr>) else account j c1)"
      by (rule modify_account_booked) (use a a1 in auto)
    have 2: "booked (\<lambda>s. - (- val s (a_vesting_shares a))) (- 0) c1 c' \<and> ledger_frame c1 c'"
      using m booked_tables [OF conjunct1 [OF 1]] by (rule modify_account_books) (use a a1 in \<open>auto simp: account_holds_def\<close>)
    have "drained t t' c c'"
      using 1 2 booked_trans [OF conjunct1 [OF 1] conjunct1 [OF 2]] t assms(4) [OF a x]
      by (auto simp: drained_def asset_arith_iffs [OF assms(1)] intro: ledger_frame_trans elim!: booked_eq)
    then show ?thesis using c' a by auto
  qed
qed

lemma drain_reward_vesting_keeps:
  assumes "safe_laws L" and "drain_reward_vesting L i (t, c) = Inr (t', c')" and "tables_ok c"
    and "\<And>a. account i c = Inr a \<Longrightarrow> 0 \<le> amount (a_reward_vesting_steem a)"
  shows "drained t t' c c'"
proof -
  obtain a where a: "account i c = Inr a" using assms(2) by (auto simp: drain_reward_vesting_def)
  show ?thesis
  proof (cases "amount (a_reward_vesting_balance a) > 0")
    case False
    then show ?thesis using assms(2,3) a by (simp add: drain_reward_vesting_def drained_def booked_refl)
  next
    case True
    let ?x = "a_reward_vesting_steem a" and ?v = "a_reward_vesting_balance a"
    obtain f c1 where g: "modify_gpo f c = Inr c1"
      and m: "modify_account i (\<lambda>a. Inr (a\<lparr>a_reward_vesting_steem := mk_asset 0 (symbol (a_reward_vesting_steem a)),
            a_reward_vesting_balance := mk_asset 0 (symbol (a_reward_vesting_balance a))\<rparr>)) c1 = Inr c'"
      and t: "asset_plus_assign L t ?x = Inr t'"
      and f: "\<And>g g'. f g = Inr g' \<Longrightarrow> (\<forall>s. gpo_issued s g' - gpo_holds s g' = gpo_issued s g - gpo_holds s g + (val s ?x - val s ?v)) \<and>
        val STEEM_SYMBOL (g_pending_rewarded_vesting_steem g') = val STEEM_SYMBOL (g_pending_rewarded_vesting_steem g) - val STEEM_SYMBOL ?x \<and>
        g_time g' = g_time g \<and> g_head_block_number g' = g_head_block_number g"
      using assms(2) a True by (fastforce simp: drain_reward_vesting_def asset_arith_iffs [OF assms(1)] gpo_issued_def gpo_holds_def)
    have 1: "booked (\<lambda>s. val s ?x - val s ?v) (- val STEEM_SYMBOL ?x) c c1 \<and> ledger_frame c c1"
      using g assms(3) by (rule modify_gpo_books) (use f in auto)
    have a1: "account i c1 = Inr a" using g a by (auto simp: modify_gpo_def account_def)
    have 2: "booked (\<lambda>s. - (- val s ?v)) (- (- val STEEM_SYMBOL ?x)) c1 c' \<and> ledger_frame c1 c'"
      using m booked_tables [OF conjunct1 [OF 1]] by (rule modify_account_books) (use a1 in \<open>auto simp: account_holds_def\<close>)
    show ?thesis
      using 1 2 booked_trans [OF conjunct1 [OF 1] conjunct1 [OF 2]] t assms(4) [OF a]
      by (auto simp: drained_def asset_arith_iffs [OF assms(1)] intro: ledger_frame_trans elim!: booked_eq)
  qed
qed

lemma burn_keeps:
  assumes "safe_laws L" and "burn L t c = Inr c'" and "tables_ok c" and "0 \<le> amount t"
  shows "booked (\<lambda>s. - val s t) 0 c c' \<and> ledger_frame c c'"
proof (cases "amount t = 0")
  case True
  then show ?thesis using assms(2,3) by (simp add: burn_def booked_refl val_def cong: if_cong)
next
  case False
  then have "adjust_supply L (mk_asset (- amount t) (symbol t)) False c = Inr c'"
    using assms(2,4) by (auto simp: burn_def asset_arith_iffs [OF assms(1)])
  from adjust_supply_booked [OF assms(1) this assms(3)] show ?thesis by simp
qed

lemma drained_tables: "drained t t' c c' \<Longrightarrow> tables_ok c'"
  by (auto simp: drained_def dest: booked_tables)

lemma vest_price_keptD:
  "vest_price_kept c c' \<Longrightarrow> account i c' = Inr a' \<Longrightarrow>
    \<exists>a. account i c = Inr a \<and> a_vesting_shares a' = a_vesting_shares a \<and> a_reward_vesting_steem a' = a_reward_vesting_steem a"
  using accounts_relD2 by (fastforce simp: vest_price_kept_def same_vests_def)

lemma null_convertibleD:
  assumes "null_convertible L c" and "get_account STEEMIT_NULL_ACCOUNT c = Inr n" and "account n c = Inr a"
  shows "0 \<le> amount (a_reward_vesting_steem a)"
    and "asset_times_price L (a_vesting_shares a) (get_vesting_share_price (ch_gpo c)) = Inr x \<Longrightarrow> 0 \<le> amount x"
  using assms by (simp_all add: null_convertible_def)

lemma clear_null_account_balance_booked:
  assumes "safe_laws L" and "clear_null_account_balance L c = Inr c'" and "tables_ok c" and "null_convertible L c"
  shows "booked (\<lambda>_. 0) 0 c c' \<and> ledger_frame c c'"
proof (cases "has_hardfork 14 c")
  case False
  then show ?thesis using assms(2,3) by (simp add: clear_null_account_balance_def booked_refl)
next
  case True
  define st sd where "st = mk_asset 0 STEEM_SYMBOL" and "sd = mk_asset 0 SBD_SYMBOL"
  obtain n s1 s2 s5 s6 s8 d3 d4 d7 c1 c2 c3 c4 c5 c6 c7 c8 c9 where n: "get_account STEEMIT_NULL_ACCOUNT c = Inr n"
    and 1: "drain L a_balance (adjust_balance L) n (st, c) = Inr (s1, c1)"
    and 2: "drain L a_savings_balance (adjust_savings_balance L) n (s1, c1) = Inr (s2, c2)"
    and 3: "drain L a_sbd_balance (adjust_balance L) n (sd, c2) = Inr (d3, c3)"
    and 4: "drain L a_savings_sbd_balance (adjust_savings_balance L) n (d3, c3) = Inr (d4, c4)"
    and 5: "drain_vesting L n (s2, c4) = Inr (s5, c5)"
    and 6: "drain L a_reward_steem_balance (adjust_reward_balance L) n (s5, c5) = Inr (s6, c6)"
    and 7: "drain L a_reward_sbd_balance (adjust_reward_balance L) n (d4, c6) = Inr (d7, c7)"
    and 8: "drain_reward_vesting L n (s6, c7) = Inr (s8, c8)"
    and 9: "burn L s8 c8 = Inr c9" "burn L d7 c9 = Inr c'"
    using assms(2) True by (auto simp: clear_null_account_balance_def Let_def st_def sd_def split: prod.splits)
  note drain = drain_keeps [OF assms(1)]
  have k1: "drained st s1 c c1 \<and> vest_price_kept c c1" using drain [OF _ 1 assms(3)] by simp
  have k2: "drained s1 s2 c1 c2 \<and> vest_price_kept c1 c2" using drain [OF _ 2] k1 drained_tables by blast
  have k3: "drained sd d3 c2 c3 \<and> vest_price_kept c2 c3" using drain [OF _ 3] k2 drained_tables by blast
  have k4: "drained d3 d4 c3 c4 \<and> vest_price_kept c3 c4" using drain [OF _ 4] k3 drained_tables by blast
  have kept: "vest_price_kept c c4" using k1 k2 k3 k4 by (blast intro: vest_price_kept_trans)
  have k5: "drained s2 s5 c4 c5 \<and>
      (\<forall>a. account n c5 = Inr a \<longrightarrow> (\<exists>b. account n c4 = Inr b \<and> a_reward_vesting_steem a = a_reward_vesting_steem b))"
  proof (rule drain_vesting_keeps [OF assms(1) 5])
    show "tables_ok c4" using k4 drained_tables by blast
    fix a x
    assume a: "account n c4 = Inr a" "asset_times_price L (a_vesting_shares a) (get_vesting_share_price (ch_gpo c4)) = Inr x"
    from vest_price_keptD [OF kept a(1)] obtain b where b: "account n c = Inr b" "a_vesting_shares a = a_vesting_shares b"
      by blast
    have "asset_times_price L (a_vesting_shares b) (get_vesting_share_price (ch_gpo c)) = Inr x"
      using a(2) b(2) conjunct1 [OF kept [unfolded vest_price_kept_def]] by argo
    with null_convertibleD(2) [OF assms(4) n b(1)] show "0 \<le> amount x" .
  qed
  have k6: "drained s5 s6 c5 c6 \<and> vest_price_kept c5 c6" using drain [OF _ 6] k5 drained_tables by blast
  have k7: "drained d4 d7 c6 c7 \<and> vest_price_kept c6 c7" using drain [OF _ 7] k6 drained_tables by blast
  have k8: "drained s6 s8 c7 c8"
  proof (rule drain_reward_vesting_keeps [OF assms(1) 8])
    show "tables_ok c7" using k7 drained_tables by blast
    fix a assume "account n c7 = Inr a"
    then show "0 \<le> amount (a_reward_vesting_steem a)"
      using vest_price_keptD [OF vest_price_kept_trans [OF conjunct2 [OF k6] conjunct2 [OF k7]]] k5
        vest_price_keptD [OF kept] null_convertibleD(1) [OF assms(4) n] by metis
  qed
  have pos: "0 \<le> amount s8" "0 \<le> amount d7"
    using k1 k2 k3 k4 k5 k6 k7 k8 by (auto simp: drained_def st_def sd_def)
  note b9 = burn_keeps [OF assms(1) 9(1) drained_tables [OF k8] pos(1)]
  note b10 = burn_keeps [OF assms(1) 9(2) booked_tables [OF conjunct1 [OF b9]] pos(2)]
  note ks = k1 [THEN conjunct1] k2 [THEN conjunct1] k3 [THEN conjunct1] k4 [THEN conjunct1] k5 [THEN conjunct1]
    k6 [THEN conjunct1] k7 [THEN conjunct1] k8
  have "ledger_frame c c'"
    using ks b9 b10 by (simp add: drained_def ledger_frame_def)
  moreover have "booked (\<lambda>_. 0) 0 c c'"
    using ks b9 b10 by (simp add: drained_def booked_def st_def sd_def)
  ultimately show ?thesis by blast
qed

end
