(* ===== verification/Vote_Invariant.thy ===== *)
theory Vote_Invariant
  imports Witness_Votes Account_Views "HOL-Library.Multiset"
begin

text \<open>
  The votes of the witnesses are exact.  Two statements describe the state between operations: what
  an account holds as proxied votes is what the accounts that name it as proxy pass on, level by level,
  and the votes of a witness are the weights of the accounts that vote for it.

  Inside an operation both may be off.  \<open>votes_off c P Q\<close> carries the differences: \<open>P n k\<close> for level \<open>k\<close>
  of the account named \<open>n\<close>, \<open>Q w\<close> for witness \<open>w\<close>.  Each function changes them by a known amount, and
  every operation starts and ends with none.
\<close>

section \<open>The invariant\<close>

definition passes :: "nat \<Rightarrow> account_object \<Rightarrow> int" where
  "passes k a = passed_on a ! k"

definition proxied_to :: "account_name_type \<Rightarrow> nat \<Rightarrow> chain \<Rightarrow> int" where
  "proxied_to n k c = tsum (\<lambda>a. if a_proxy a = n then passes k a else 0) (ch_accounts c)"

definition weight :: "oid \<Rightarrow> chain \<Rightarrow> int" where
  "weight i c = (case find_obj i (ch_accounts c) of None \<Rightarrow> 0 | Some a \<Rightarrow> sum_list (passed_on a))"

definition votes_for :: "oid \<Rightarrow> chain \<Rightarrow> int" where
  "votes_for w c = tsum (\<lambda>v. if wv_witness v = w then weight (wv_account v) c else 0) (ch_witness_votes c)"

definition ballots :: "oid \<Rightarrow> oid \<Rightarrow> chain \<Rightarrow> int" where
  "ballots i w c = tsum (\<lambda>v. if wv_account v = i \<and> wv_witness v = w then 1 else 0) (ch_witness_votes c)"

definition votes_wf :: "chain \<Rightarrow> bool" where
  "votes_wf c \<longleftrightarrow>
     tbl_ok (ch_accounts c) \<and> tbl_ok (ch_witnesses c) \<and> tbl_ok (ch_witness_votes c) \<and>
     (\<forall>i a. find_obj i (ch_accounts c) = Some a \<longrightarrow>
        length (a_proxied_vsf_votes a) = STEEMIT_MAX_PROXY_RECURSION_DEPTH \<and> a_name a \<noteq> []) \<and>
     (\<forall>i j a b. find_obj i (ch_accounts c) = Some a \<longrightarrow> find_obj j (ch_accounts c) = Some b \<longrightarrow>
        a_name a = a_name b \<longrightarrow> i = j) \<and>
     (\<forall>v x. find_obj v (ch_witness_votes c) = Some x \<longrightarrow>
        (\<exists>a. find_obj (wv_account x) (ch_accounts c) = Some a \<and> a_proxy a = []))"

definition votes_off :: "chain \<Rightarrow> (account_name_type \<Rightarrow> nat \<Rightarrow> int) \<Rightarrow> (oid \<Rightarrow> int) \<Rightarrow> bool" where
  "votes_off c P Q \<longleftrightarrow>
     votes_wf c \<and>
     (\<forall>i a k. find_obj i (ch_accounts c) = Some a \<longrightarrow> k < STEEMIT_MAX_PROXY_RECURSION_DEPTH \<longrightarrow>
        a_proxied_vsf_votes a ! k = proxied_to (a_name a) k c + P (a_name a) k) \<and>
     (\<forall>w x. find_obj w (ch_witnesses c) = Some x \<longrightarrow> w_votes x = votes_for w c + Q w)"

abbreviation votes_exact :: "chain \<Rightarrow> bool" where
  "votes_exact c \<equiv> votes_off c (\<lambda>_ _. 0) (\<lambda>_. 0)"

lemma votes_wf_voter:
  assumes "votes_wf c" and "find_obj v (ch_witness_votes c) = Some x"
  obtains a where "find_obj (wv_account x) (ch_accounts c) = Some a" "a_proxy a = []"
  using assms unfolding votes_wf_def by blast

lemma votes_off_eq:
  assumes "votes_off c P Q"
    and "\<And>i a k. find_obj i (ch_accounts c) = Some a \<Longrightarrow> k < STEEMIT_MAX_PROXY_RECURSION_DEPTH \<Longrightarrow> P (a_name a) k = P' (a_name a) k"
    and "\<And>w. Q w = Q' w"
  shows "votes_off c P' Q'"
  using assms by (auto simp: votes_off_def)

section \<open>Totals over the votes\<close>

lemma tsum_add: "tsum (\<lambda>x. f x + g x) t = tsum f t + tsum g t"
  by (simp add: tsum_def sum_list_addf)

lemma tsum_mult: "tsum (\<lambda>x. e * f x) t = (e :: int) * tsum f t"
  by (simp add: tsum_def sum_list_const_mult)

lemma tsum_cong: "(\<And>i x. find_obj i t = Some x \<Longrightarrow> f x = g x) \<Longrightarrow> tbl_ok t \<Longrightarrow> tsum f t = tsum g t"
  unfolding tsum_def tbl_ok_def find_obj_def
  by (intro arg_cong [where f = sum_list] map_cong) (auto simp: fm_find_iff)

lemma votes_for_weights:
  assumes "ch_witness_votes c' = ch_witness_votes c" and "\<And>j. weight j c' = weight j c + (if j = i then e else 0)"
  shows "votes_for w c' = votes_for w c + e * ballots i w c"
  unfolding votes_for_def ballots_def assms(1) tsum_mult [symmetric] tsum_add [symmetric]
  by (rule arg_cong2 [where f = tsum, OF ext refl]) (simp add: assms(2))

lemma no_ballots:
  assumes "votes_wf c" and "find_obj i (ch_accounts c) = Some a" and "a_proxy a \<noteq> []"
  shows "ballots i w c = 0"
proof -
  have "ballots i w c = tsum (\<lambda>_. 0) (ch_witness_votes c)"
    unfolding ballots_def by (rule tsum_cong) (use assms in \<open>fastforce simp: votes_wf_def\<close>)+
  then show ?thesis by (simp add: tsum_def)
qed

section \<open>Changes of an account\<close>

text \<open>A change of an account that keeps its name: what it passes on changes for its proxy, and its
  weight for the witnesses it votes for.\<close>

lemma votes_wf_account:
  assumes "votes_wf c" and "find_obj i (ch_accounts c) = Some a" and "tbl_ok t"
    and "\<And>j. find_obj j t = (if j = i then Some a' else find_obj j (ch_accounts c))"
    and "a_name a' = a_name a" and "length (a_proxied_vsf_votes a') = STEEMIT_MAX_PROXY_RECURSION_DEPTH"
    and "a_proxy a' \<noteq> [] \<longrightarrow> (\<forall>v x. find_obj v (ch_witness_votes c) = Some x \<longrightarrow> wv_account x \<noteq> i)"
  shows "votes_wf (c\<lparr>ch_accounts := t\<rparr>)"
  using assms unfolding votes_wf_def by (auto split: if_splits)

lemma modify_account_votes:
  assumes "modify_account i f c = Inr c'" and "votes_off c P Q"
    and "\<And>a a'. find_obj i (ch_accounts c) = Some a \<Longrightarrow> f a = Inr a' \<Longrightarrow>
      a_name a' = a_name a \<and> length (a_proxied_vsf_votes a') = STEEMIT_MAX_PROXY_RECURSION_DEPTH \<and>
      (a_proxy a' \<noteq> [] \<longrightarrow> (\<forall>v x. find_obj v (ch_witness_votes c) = Some x \<longrightarrow> wv_account x \<noteq> i))"
  obtains a a' where "find_obj i (ch_accounts c) = Some a" "f a = Inr a'"
    "\<And>j. find_obj j (ch_accounts c') = (if j = i then Some a' else find_obj j (ch_accounts c))"
    "ch_witness_votes c' = ch_witness_votes c" "ch_witnesses c' = ch_witnesses c"
    "votes_off c' (\<lambda>n k. P n k + (if n = a_name a then a_proxied_vsf_votes a' ! k - a_proxied_vsf_votes a ! k else 0) +
       (if n = a_proxy a then passes k a else 0) - (if n = a_proxy a' then passes k a' else 0))
     (\<lambda>w. Q w - (sum_list (passed_on a') - sum_list (passed_on a)) * ballots i w c)"
proof -
  have wf: "votes_wf c" using assms(2) by (simp add: votes_off_def)
  obtain t where t: "db_modify account_clash i f (ch_accounts c) = Inr t" "c' = c\<lparr>ch_accounts := t\<rparr>"
    using assms(1) by (auto simp: modify_account_def)
  have "tbl_ok (ch_accounts c)" using wf by (simp add: votes_wf_def)
  from t(1) this obtain a a' where a: "find_obj i (ch_accounts c) = Some a" "f a = Inr a'"
    and sum: "\<And>g. tsum g t = tsum g (ch_accounts c) - g a + g a'" and ok: "tbl_ok t"
    and fnd: "\<And>j. find_obj j t = (if j = i then Some a' else find_obj j (ch_accounts c))"
    by (rule db_modify_spec) blast
  note keeps = assms(3) [OF a]
  have wf': "votes_wf c'"
    using votes_wf_account [OF wf a(1) ok fnd] keeps t(2) by simp
  have w: "weight j c' = weight j c + (if j = i then sum_list (passed_on a') - sum_list (passed_on a) else 0)" for j
    using a(1) fnd t(2) by (simp add: weight_def)
  have v: "votes_for u c' = votes_for u c + (sum_list (passed_on a') - sum_list (passed_on a)) * ballots i u c" for u
    by (rule votes_for_weights) (use w t(2) in simp_all)
  have p: "proxied_to n k c' = proxied_to n k c - (if n = a_proxy a then passes k a else 0) + (if n = a_proxy a' then passes k a' else 0)" for n k
    using sum t(2) by (auto simp: proxied_to_def)
  have names: "j = i" if "find_obj j (ch_accounts c) = Some b" "a_name b = a_name a" for j b
    using wf that a(1) by (auto simp: votes_wf_def)
  have "votes_off c' (\<lambda>n k. P n k + (if n = a_name a then a_proxied_vsf_votes a' ! k - a_proxied_vsf_votes a ! k else 0) +
       (if n = a_proxy a then passes k a else 0) - (if n = a_proxy a' then passes k a' else 0))
     (\<lambda>w. Q w - (sum_list (passed_on a') - sum_list (passed_on a)) * ballots i w c)"
    unfolding votes_off_def
  proof (intro conjI allI impI wf')
    fix j b k assume b: "find_obj j (ch_accounts c') = Some b" "k < STEEMIT_MAX_PROXY_RECURSION_DEPTH"
    show "a_proxied_vsf_votes b ! k = proxied_to (a_name b) k c' + (P (a_name b) k +
       (if a_name b = a_name a then a_proxied_vsf_votes a' ! k - a_proxied_vsf_votes a ! k else 0) +
       (if a_name b = a_proxy a then passes k a else 0) - (if a_name b = a_proxy a' then passes k a' else 0))"
    proof (cases "j = i")
      case True
      then have "b = a'" using b fnd t(2) by simp
      then show ?thesis using assms(2) a(1) b(2) keeps by (auto simp: votes_off_def p)
    next
      case False
      then have "find_obj j (ch_accounts c) = Some b" using b fnd t(2) by simp
      then show ?thesis using assms(2) b(2) names False by (auto simp: votes_off_def p)
    qed
  qed (use assms(2) t(2) v in \<open>auto simp: votes_off_def\<close>)
  with that [OF a] fnd t(2) show thesis by simp
qed

lemma add_proxied_vote_iff:
  assumes "safe_laws L"
  shows "add_proxied_vote L k d a = Inr a' \<longleftrightarrow>
    in_i64 (a_proxied_vsf_votes a ! k + d) \<and> a' = a\<lparr>a_proxied_vsf_votes := (a_proxied_vsf_votes a)[k := a_proxied_vsf_votes a ! k + d]\<rparr>"
  by (auto simp: add_proxied_vote_def safe_iffs [OF assms])

lemma sum_list_passed_on: "length (a_proxied_vsf_votes a) = n \<Longrightarrow>
    sum_list (passed_on a) = amount (a_vesting_shares a) + (\<Sum>k<n. a_proxied_vsf_votes a ! k)"
  using sum_list_sum_nth [of "a_proxied_vsf_votes a"] by (simp add: passed_on_def atLeast0LessThan)

text \<open>Adding the same differences to the levels of an account.\<close>

definition raises :: "(nat \<Rightarrow> int) \<Rightarrow> account_object \<Rightarrow> account_object \<Rightarrow> bool" where
  "raises D a a' \<longleftrightarrow>
     (\<exists>xs. a' = a\<lparr>a_proxied_vsf_votes := xs\<rparr> \<and> length xs = length (a_proxied_vsf_votes a) \<and>
       (\<forall>k < length xs. xs ! k = a_proxied_vsf_votes a ! k + D k))"

lemma raises_refl: "raises (\<lambda>_. 0) a a"
  unfolding raises_def by (rule exI [of _ "a_proxied_vsf_votes a"]) simp

lemma raises_cong: "raises D a a' \<Longrightarrow> (\<And>k. k < length (a_proxied_vsf_votes a) \<Longrightarrow> D k = D' k) \<Longrightarrow> raises D' a a'"
  unfolding raises_def by metis

lemma raise_account:
  assumes "modify_account i f c = Inr c'" and "votes_off c P Q"
    and "\<And>a a'. find_obj i (ch_accounts c) = Some a \<Longrightarrow> f a = Inr a' \<Longrightarrow> raises D a a'"
  shows "\<exists>a a'. find_obj i (ch_accounts c) = Some a \<and> raises D a a' \<and>
    (\<forall>j. find_obj j (ch_accounts c') = (if j = i then Some a' else find_obj j (ch_accounts c))) \<and>
    ch_witness_votes c' = ch_witness_votes c \<and>
    votes_off c' (\<lambda>n k. P n k + (if n = a_name a then D k else 0) - (if n = a_proxy a \<and> 0 < k then D (k - 1) else 0))
      (\<lambda>w. Q w - (\<Sum>k<STEEMIT_MAX_PROXY_RECURSION_DEPTH. D k) * ballots i w c)"
proof -
  have wf: "votes_wf c" using assms(2) by (simp add: votes_off_def)
  have len: "length (a_proxied_vsf_votes a) = STEEMIT_MAX_PROXY_RECURSION_DEPTH" if "find_obj i (ch_accounts c) = Some a" for a
    using wf that by (auto simp: votes_wf_def)
  from assms(1,2) obtain a a' where a: "find_obj i (ch_accounts c) = Some a" "f a = Inr a'"
    and fnd: "\<And>j. find_obj j (ch_accounts c') = (if j = i then Some a' else find_obj j (ch_accounts c))"
    and eq: "ch_witness_votes c' = ch_witness_votes c" "ch_witnesses c' = ch_witnesses c"
    and off: "votes_off c' (\<lambda>n k. P n k + (if n = a_name a then a_proxied_vsf_votes a' ! k - a_proxied_vsf_votes a ! k else 0) +
       (if n = a_proxy a then passes k a else 0) - (if n = a_proxy a' then passes k a' else 0))
     (\<lambda>w. Q w - (sum_list (passed_on a') - sum_list (passed_on a)) * ballots i w c)"
  proof (rule modify_account_votes)
    fix a a' assume x: "find_obj i (ch_accounts c) = Some a" "f a = Inr a'"
    show "a_name a' = a_name a \<and> length (a_proxied_vsf_votes a') = STEEMIT_MAX_PROXY_RECURSION_DEPTH \<and>
      (a_proxy a' \<noteq> [] \<longrightarrow> (\<forall>v x. find_obj v (ch_witness_votes c) = Some x \<longrightarrow> wv_account x \<noteq> i))"
      using assms(3) [OF x] len [OF x(1)] wf x(1) by (fastforce simp: raises_def votes_wf_def)
  qed blast
  have r: "raises D a a'" using assms(3) a by blast
  have n: "length (a_proxied_vsf_votes a') = STEEMIT_MAX_PROXY_RECURSION_DEPTH" "a_proxy a' = a_proxy a"
    "\<And>k. k < STEEMIT_MAX_PROXY_RECURSION_DEPTH \<Longrightarrow> a_proxied_vsf_votes a' ! k = a_proxied_vsf_votes a ! k + D k"
    "a_vesting_shares a' = a_vesting_shares a"
    using r len [OF a(1)] by (auto simp: raises_def)
  have s: "sum_list (passed_on a') - sum_list (passed_on a) = (\<Sum>k<STEEMIT_MAX_PROXY_RECURSION_DEPTH. D k)"
    using n len [OF a(1)] by (simp add: sum_list_passed_on [where n = STEEMIT_MAX_PROXY_RECURSION_DEPTH] sum.distrib)
  have "passes k a' = passes k a + (if 0 < k then D (k - 1) else 0)" if "k < STEEMIT_MAX_PROXY_RECURSION_DEPTH" for k
    using n that by (cases k) (auto simp: passes_def passed_on_def)
  with n s have "votes_off c' (\<lambda>n k. P n k + (if n = a_name a then D k else 0) - (if n = a_proxy a \<and> 0 < k then D (k - 1) else 0))
      (\<lambda>w. Q w - (\<Sum>k<STEEMIT_MAX_PROXY_RECURSION_DEPTH. D k) * ballots i w c)"
    by (intro votes_off_eq [OF off]) auto
  with a(1) r fnd eq show ?thesis by auto
qed

section \<open>The votes of an account\<close>

lemma adjust_witness_vote_votes:
  assumes "safe_laws L" and "adjust_witness_vote L i delta c = Inr c'" and "tbl_ok (ch_witnesses c)"
  shows "tbl_ok (ch_witnesses c') \<and> ch_accounts c' = ch_accounts c \<and> ch_witness_votes c' = ch_witness_votes c \<and>
    (\<forall>w. map_option w_votes (find_obj w (ch_witnesses c')) =
       map_option (\<lambda>x. w_votes x + (if w = i then delta else 0)) (find_obj w (ch_witnesses c)))"
proof -
  obtain f t where t: "db_modify witness_clash i f (ch_witnesses c) = Inr t" "c' = c\<lparr>ch_witnesses := t\<rparr>"
    and f: "\<And>x x'. f x = Inr x' \<Longrightarrow> w_votes x' = w_votes x + delta"
    using assms(2) by (fastforce simp: adjust_witness_vote_def modify_witness_def Let_def safe_iffs [OF assms(1)])
  from t(1) assms(3) obtain x x' where "find_obj i (ch_witnesses c) = Some x" "f x = Inr x'" "tbl_ok t"
    "\<And>j. find_obj j t = (if j = i then Some x' else find_obj j (ch_witnesses c))"
    by (rule db_modify_spec) blast
  with t(2) f show ?thesis by (auto simp: option.map_comp o_def)
qed

definition vote_list :: "oid \<Rightarrow> chain \<Rightarrow> witness_vote_object list" where
  "vote_list i c = sort_key wv_witness (filter (\<lambda>v. wv_account v = i) (map snd (gi_indices (ch_witness_votes c))))"

lemma vote_list_ballots: "(\<Sum>v\<leftarrow>vote_list i c. if wv_witness v = w then 1 else 0) = ballots i w c"
proof -
  let ?f = "\<lambda>v. if wv_witness v = w then 1 else 0 :: int"
  have "sum_list (map ?f (sort_key wv_witness xs)) = sum_list (map ?f xs)" for xs :: "witness_vote_object list"
    by (simp flip: sum_mset_sum_list)
  moreover have "sum_list (map ?f (filter (\<lambda>v. wv_account v = i) (map snd m))) =
      sum_list (map (\<lambda>e. if wv_account (snd e) = i \<and> wv_witness (snd e) = w then 1 else 0) m)" for m :: "(oid \<times> witness_vote_object) list"
    by (induction m) auto
  ultimately show ?thesis by (simp add: vote_list_def ballots_def tsum_def)
qed

lemma adjust_witness_votes_votes:
  assumes "safe_laws L" and "adjust_witness_votes L i delta c = Inr c'" and "tbl_ok (ch_witnesses c)"
  shows "tbl_ok (ch_witnesses c') \<and> ch_accounts c' = ch_accounts c \<and> ch_witness_votes c' = ch_witness_votes c \<and>
    (\<forall>w. map_option w_votes (find_obj w (ch_witnesses c')) =
       map_option (\<lambda>x. w_votes x + delta * ballots i w c) (find_obj w (ch_witnesses c)))"
proof -
  have fold: "tbl_ok (ch_witnesses d') \<and> ch_accounts d' = ch_accounts d \<and> ch_witness_votes d' = ch_witness_votes d \<and>
    (\<forall>w. map_option w_votes (find_obj w (ch_witnesses d')) =
       map_option (\<lambda>x. w_votes x + delta * (\<Sum>v\<leftarrow>vs. if wv_witness v = w then 1 else 0)) (find_obj w (ch_witnesses d)))"
    if "fold_res (\<lambda>v. adjust_witness_vote L (wv_witness v) delta) vs d = Inr d'" "tbl_ok (ch_witnesses d)" for vs d d'
    using that
  proof (induction vs arbitrary: d)
    case (Cons v vs)
    then obtain e where e: "adjust_witness_vote L (wv_witness v) delta d = Inr e"
      "fold_res (\<lambda>v. adjust_witness_vote L (wv_witness v) delta) vs e = Inr d'" by auto
    note 1 = adjust_witness_vote_votes [OF assms(1) e(1) Cons.prems(2)]
    note 2 = Cons.IH [OF e(2) conjunct1 [OF 1]]
    have "map_option w_votes (find_obj w (ch_witnesses d')) = map_option (\<lambda>x. w_votes x +
        delta * (\<Sum>v\<leftarrow>v # vs. if wv_witness v = w then 1 else 0)) (find_obj w (ch_witnesses d))" for w
    proof -
      have "map_option w_votes (find_obj w (ch_witnesses d')) =
        map_option (\<lambda>y. y + delta * (\<Sum>v\<leftarrow>vs. if wv_witness v = w then 1 else 0)) (map_option w_votes (find_obj w (ch_witnesses e)))"
        using 2 by (simp add: option.map_comp o_def)
      also have "\<dots> = map_option (\<lambda>y. y + delta * (\<Sum>v\<leftarrow>vs. if wv_witness v = w then 1 else 0))
          (map_option (\<lambda>x. w_votes x + (if w = wv_witness v then delta else 0)) (find_obj w (ch_witnesses d)))"
        using 1 by simp
      finally show ?thesis by (auto simp: option.map_comp o_def algebra_simps intro: option.map_cong)
    qed
    with 1 2 show ?case by simp
  qed simp
  show ?thesis
    using fold [of "vote_list i c" c c'] assms(2,3) by (simp add: adjust_witness_votes_def vote_list_def [symmetric] vote_list_ballots)
qed

lemma witness_change_off:
  assumes "votes_off c P Q"
    and "tbl_ok (ch_witnesses c') \<and> ch_accounts c' = ch_accounts c \<and> ch_witness_votes c' = ch_witness_votes c \<and>
      (\<forall>w. map_option w_votes (find_obj w (ch_witnesses c')) = map_option (\<lambda>x. w_votes x + d w) (find_obj w (ch_witnesses c)))"
  shows "votes_off c' P (\<lambda>w. Q w + d w)"
proof -
  have "w_votes x' = votes_for w c' + (Q w + d w)" if "find_obj w (ch_witnesses c') = Some x'" for w x'
  proof -
    have "Some (w_votes x') = map_option (\<lambda>x. w_votes x + d w) (find_obj w (ch_witnesses c))"
      using assms(2) that by (metis option.map(2))
    then obtain x where "find_obj w (ch_witnesses c) = Some x" "w_votes x' = w_votes x + d w"
      by (cases "find_obj w (ch_witnesses c)") auto
    moreover have "votes_for w c' = votes_for w c"
      using votes_for_weights [of c' c 0 0 w] assms(2) by (simp add: weight_def)
    ultimately show ?thesis using assms(1) by (simp add: votes_off_def)
  qed
  with assms show ?thesis by (auto simp: votes_off_def votes_wf_def proxied_to_def)
qed

lemma adjust_votes_off:
  assumes "safe_laws L" and "adjust_witness_votes L i delta c = Inr c'" and "votes_off c P Q"
  shows "votes_off c' P (\<lambda>w. Q w + delta * ballots i w c)"
  using witness_change_off [OF assms(3) adjust_witness_votes_votes [OF assms(1,2)]] assms(3) by (simp add: votes_off_def votes_wf_def)

lemma adjust_vote_off:
  assumes "safe_laws L" and "adjust_witness_vote L u delta c = Inr c'" and "votes_off c P Q"
  shows "votes_off c' P (\<lambda>w. Q w + (if w = u then delta else 0))"
  using witness_change_off [OF assms(3) adjust_witness_vote_votes [OF assms(1,2)]] assms(3) by (simp add: votes_off_def votes_wf_def)

section \<open>Along the proxies\<close>

text \<open>Both overloads of \<open>adjust_proxied_witness_votes\<close> walk the same way: \<open>D depth\<close> is added to the next
  proxy, until an account votes itself, for \<open>E depth\<close>.\<close>

inductive carries :: "fc_lib \<Rightarrow> (nat \<Rightarrow> nat \<Rightarrow> int) \<Rightarrow> (nat \<Rightarrow> int) \<Rightarrow> oid \<Rightarrow> nat \<Rightarrow> chain \<Rightarrow> chain \<Rightarrow> bool" for L D E where
  stop: "find_obj i (ch_accounts c) = Some a \<Longrightarrow> a_proxy a \<noteq> [] \<Longrightarrow> STEEMIT_MAX_PROXY_RECURSION_DEPTH \<le> depth \<Longrightarrow>
    carries L D E i depth c c"
| up: "find_obj i (ch_accounts c) = Some a \<Longrightarrow> a_proxy a \<noteq> [] \<Longrightarrow> depth < STEEMIT_MAX_PROXY_RECURSION_DEPTH \<Longrightarrow>
    get_account (a_proxy a) c = Inr p \<Longrightarrow> modify_account p f c = Inr c1 \<Longrightarrow>
    (\<And>b b'. length (a_proxied_vsf_votes b) = STEEMIT_MAX_PROXY_RECURSION_DEPTH \<Longrightarrow> f b = Inr b' \<Longrightarrow> raises (D depth) b b') \<Longrightarrow>
    carries L D E p (depth + 1) c1 c' \<Longrightarrow> carries L D E i depth c c'"
| vote: "find_obj i (ch_accounts c) = Some a \<Longrightarrow> a_proxy a = [] \<Longrightarrow> adjust_witness_votes L i (E depth) c = Inr c' \<Longrightarrow>
    carries L D E i depth c c'"

definition shifts :: "(nat \<Rightarrow> nat \<Rightarrow> int) \<Rightarrow> (nat \<Rightarrow> int) \<Rightarrow> bool" where
  "shifts D E \<longleftrightarrow>
     (\<forall>d k. D (d + 1) k = (if 0 < k then D d (k - 1) else 0)) \<and>
     (\<forall>d < STEEMIT_MAX_PROXY_RECURSION_DEPTH. E (d + 1) = (\<Sum>k<STEEMIT_MAX_PROXY_RECURSION_DEPTH. D d k)) \<and>
     (\<forall>d k. k < d \<longrightarrow> D d k = 0)"

lemma get_account_find:
  assumes "get_account n c = Inr i" and "tbl_ok (ch_accounts c)"
  shows "\<exists>a. find_obj i (ch_accounts c) = Some a \<and> a_name a = n"
proof -
  obtain e where "find (\<lambda>e. a_name (snd e) = n) (gi_indices (ch_accounts c)) = Some e" "i = fst e"
    using assms(1) by (auto simp: get_account_def get_by_def find_by_def split: option.splits)
  then have "e \<in> set (gi_indices (ch_accounts c))" "a_name (snd e) = n" "e = (i, snd e)" by (auto simp: find_Some_iff)
  with assms(2) show ?thesis by (metis find_obj_def fm_find_iff tbl_ok_def)
qed

lemma carries_off:
  assumes "safe_laws L" and "shifts D E" and "carries L D E i depth c c'" and "votes_off c P Q"
    and "find_obj i (ch_accounts c) = Some a"
  shows "votes_off c' (\<lambda>n k. P n k + (if n = a_proxy a then D depth k else 0)) (\<lambda>w. Q w + E depth * ballots i w c)"
  using assms(3-5)
proof (induction arbitrary: P Q a rule: carries.induct)
  case (stop i c b depth)
  then have "ballots i w c = 0" for w using no_ballots by (auto simp: votes_off_def)
  then show ?case using stop assms(2) by (auto simp: shifts_def intro!: votes_off_eq [OF stop.prems(1)])
next
  case (up i c b depth p f c1 c')
  have wf: "votes_wf c" using up.prems(1) by (simp add: votes_off_def)
  have nb: "ballots i w c = 0" for w using no_ballots [OF wf up.hyps(1,2)] .
  have ok: "tbl_ok (ch_accounts c)" using wf by (simp add: votes_wf_def)
  from get_account_find [OF up.hyps(4) ok] obtain q where q: "find_obj p (ch_accounts c) = Some q" "a_name q = a_proxy b" by blast
  have r: "raises (D depth) x x'" if "find_obj p (ch_accounts c) = Some x" "f x = Inr x'" for x x'
    using up.hyps(6) [OF _ that(2)] wf that(1) by (auto simp: votes_wf_def)
  obtain x x' where x: "find_obj p (ch_accounts c) = Some x" "raises (D depth) x x'"
    and fnd: "\<forall>j. find_obj j (ch_accounts c1) = (if j = p then Some x' else find_obj j (ch_accounts c))"
    and v: "ch_witness_votes c1 = ch_witness_votes c"
    and off: "votes_off c1 (\<lambda>n k. P n k + (if n = a_name x then D depth k else 0) - (if n = a_proxy x \<and> 0 < k then D depth (k - 1) else 0))
      (\<lambda>w. Q w - (\<Sum>k<STEEMIT_MAX_PROXY_RECURSION_DEPTH. D depth k) * ballots p w c)"
    using raise_account [OF up.hyps(5) up.prems(1) r] by blast
  have x': "find_obj p (ch_accounts c1) = Some x'" "a_proxy x' = a_proxy x" using fnd x(2) by (auto simp: raises_def)
  have b: "b = a" "x = q" using up.hyps(1) up.prems(2) x(1) q(1) by auto
  have bal: "ballots p w c1 = ballots p w c" for w using v by (simp add: ballots_def)
  show ?case
    using up.IH [OF off x'(1)] up.hyps(3) assms(2) q(2) b nb bal x'(2)
    by (auto simp: shifts_def elim!: votes_off_eq)
next
  case (vote i c b depth c')
  then have b: "b = a" by simp
  note off = adjust_votes_off [OF assms(1) vote.hyps(3) vote.prems(1)]
  have names: "a_name x \<noteq> []" if "find_obj j (ch_accounts c') = Some x" for j x
    using off that by (auto simp: votes_off_def votes_wf_def)
  from off show ?case by (rule votes_off_eq) (use names vote.hyps(2) b in auto)
qed

lemma scalar_carries:
  assumes "safe_laws L"
  shows "adjust_proxied_witness_votes L i delta depth c = Inr c' \<Longrightarrow>
    carries L (\<lambda>d k. if k = d then delta else 0) (\<lambda>_. delta) i depth c c'"
proof (induction "STEEMIT_MAX_PROXY_RECURSION_DEPTH - depth" arbitrary: i depth c)
  case 0
  then show ?case
    by (subst (asm) adjust_proxied_witness_votes.simps)
      (auto simp: account_def find_obj_get STEEMIT_PROXY_TO_SELF_ACCOUNT_def intro: carries.stop carries.vote split: if_splits)
next
  case (Suc n)
  note step = Suc.prems [unfolded adjust_proxied_witness_votes.simps [of L i delta depth c]]
  obtain a where a: "find_obj i (ch_accounts c) = Some a" using step by (auto simp: account_def find_obj_get)
  show ?case
  proof (cases "a_proxy a = []")
    case True
    then show ?thesis using step a by (auto simp: account_def find_obj_get STEEMIT_PROXY_TO_SELF_ACCOUNT_def get_obj_def intro: carries.vote)
  next
    case False
    then obtain p c1 where p: "get_account (a_proxy a) c = Inr p" "modify_account p (add_proxied_vote L depth delta) c = Inr c1"
      "adjust_proxied_witness_votes L p delta (depth + 1) c1 = Inr c'"
      using step a Suc.hyps(2) by (auto simp: account_def get_obj_def STEEMIT_PROXY_TO_SELF_ACCOUNT_def split: if_splits)
    have d: "depth < STEEMIT_MAX_PROXY_RECURSION_DEPTH" using Suc.hyps(2) by simp
    have r: "raises (\<lambda>k. if k = depth then delta else 0) b b'" if "length (a_proxied_vsf_votes b) = STEEMIT_MAX_PROXY_RECURSION_DEPTH"
      "add_proxied_vote L depth delta b = Inr b'" for b b'
      using that d by (auto simp: add_proxied_vote_iff [OF assms] raises_def nth_list_update)
    have "carries L (\<lambda>d k. if k = d then delta else 0) (\<lambda>_. delta) p (depth + 1) c1 c'"
      using Suc.hyps(1) [OF _ p(3)] Suc.hyps(2) by simp
    then show ?thesis
      by (rule carries.up [where D = "\<lambda>d k. if k = d then delta else 0", OF a False d p(1,2), rotated]) (rule r)
  qed
qed

lemma scalar_shifts: "shifts (\<lambda>d k. if k = d then delta else 0) (\<lambda>_. delta)"
  by (auto simp: shifts_def)

text \<open>The row.\<close>

definition row_diff :: "int list \<Rightarrow> nat \<Rightarrow> nat \<Rightarrow> int" where
  "row_diff delta d k = (if d \<le> k then delta ! (k - d) else 0)"

definition row_total :: "int list \<Rightarrow> nat \<Rightarrow> int" where
  "row_total delta d = (\<Sum>i<Suc (STEEMIT_MAX_PROXY_RECURSION_DEPTH - d). delta ! i)"

lemma row_shifts: "shifts (row_diff delta) (row_total delta)"
proof -
  have "row_total delta (d + 1) = (\<Sum>k<STEEMIT_MAX_PROXY_RECURSION_DEPTH. row_diff delta d k)"
    if d: "d < STEEMIT_MAX_PROXY_RECURSION_DEPTH" for d
  proof -
    let ?n = STEEMIT_MAX_PROXY_RECURSION_DEPTH
    have "(\<Sum>k<?n. row_diff delta d k) = (\<Sum>k\<in>{d..<?n}. delta ! (k - d))"
      unfolding row_diff_def by (rule sum.mono_neutral_cong_right) auto
    also have "\<dots> = (\<Sum>i<?n - d. delta ! i)"
      by (rule sum.reindex_bij_witness [of _ "\<lambda>i. i + d" "\<lambda>k. k - d"]) auto
    also have "?n - d = Suc (?n - (d + 1))" using d by simp
    finally show ?thesis by (simp add: row_total_def)
  qed
  then show ?thesis by (auto simp: shifts_def row_diff_def)
qed

lemma sum_delta_row:
  assumes "safe_laws L" and "sum_delta L depth delta = Inr t"
  shows "t = row_total delta depth"
proof -
  have "fold_res (\<lambda>i t. safe_add L t (delta ! i)) is s = Inr t \<Longrightarrow> t = s + (\<Sum>i\<leftarrow>is. delta ! i)" for "is" s
    by (induction "is" arbitrary: s) (fastforce simp: safe_iffs [OF assms(1)])+
  from this [OF assms(2) [unfolded sum_delta_def]] show ?thesis
    by (simp add: row_total_def rev_map [symmetric] sum_list_rev interv_sum_list_conv_sum_set_nat atLeast0LessThan del: upt_Suc)
qed

lemma add_proxied_votes_raises:
  assumes "safe_laws L" and "add_proxied_votes L depth delta a = Inr a'"
    and "length (a_proxied_vsf_votes a) = STEEMIT_MAX_PROXY_RECURSION_DEPTH"
  shows "raises (row_diff delta depth) a a'"
proof -
  have *: "raises (\<lambda>k. if depth \<le> k \<and> k - depth \<in> set is then delta ! (k - depth) else 0) b a'"
    if "fold_res (\<lambda>i. add_proxied_vote L (i + depth) (delta ! i)) is b = Inr a'" "distinct is"
      "\<forall>i \<in> set is. i + depth < length (a_proxied_vsf_votes b)" for "is" b
    using that
  proof (induction "is" arbitrary: b)
    case (Cons i "is")
    let ?b = "b\<lparr>a_proxied_vsf_votes := (a_proxied_vsf_votes b)[i + depth := a_proxied_vsf_votes b ! (i + depth) + delta ! i]\<rparr>"
    have "fold_res (\<lambda>i. add_proxied_vote L (i + depth) (delta ! i)) is ?b = Inr a'"
      using Cons.prems(1) by (auto simp: add_proxied_vote_iff [OF assms(1)])
    from Cons.IH [OF this] Cons.prems(2,3)
    have "raises (\<lambda>k. if depth \<le> k \<and> k - depth \<in> set is then delta ! (k - depth) else 0) ?b a'" by simp
    then obtain xs where xs: "a' = b\<lparr>a_proxied_vsf_votes := xs\<rparr>" "length xs = length (a_proxied_vsf_votes b)"
      "\<forall>k<length xs. xs ! k = (a_proxied_vsf_votes b)[i + depth := a_proxied_vsf_votes b ! (i + depth) + delta ! i] ! k +
        (if depth \<le> k \<and> k - depth \<in> set is then delta ! (k - depth) else 0)"
      by (auto simp: raises_def)
    then have "xs ! k = a_proxied_vsf_votes b ! k + (if depth \<le> k \<and> k - depth \<in> set (i # is) then delta ! (k - depth) else 0)"
      if "k < length xs" for k
      using that Cons.prems(2,3) by (cases "k = i + depth") (auto simp: nth_list_update)
    with xs(1,2) show ?case by (auto simp: raises_def)
  qed (simp add: raises_refl)
  let ?is = "rev [0..<STEEMIT_MAX_PROXY_RECURSION_DEPTH - depth]"
  have "raises (\<lambda>k. if depth \<le> k \<and> k - depth \<in> set ?is then delta ! (k - depth) else 0) a a'"
    by (rule *) (use assms(2,3) in \<open>auto simp: add_proxied_votes_def\<close>)
  then show ?thesis by (rule raises_cong) (use assms(3) in \<open>auto simp: row_diff_def\<close>)
qed

lemma row_carries:
  assumes "safe_laws L"
  shows "adjust_proxied_witness_votes_row L i delta depth c = Inr c' \<Longrightarrow>
    carries L (row_diff delta) (row_total delta) i depth c c'"
proof (induction "STEEMIT_MAX_PROXY_RECURSION_DEPTH - depth" arbitrary: i depth c)
  case 0
  then show ?case
    by (subst (asm) adjust_proxied_witness_votes_row.simps)
      (auto simp: account_def find_obj_get STEEMIT_PROXY_TO_SELF_ACCOUNT_def intro: carries.stop carries.vote
        dest: sum_delta_row [OF assms] split: if_splits)
next
  case (Suc n)
  note step = Suc.prems [unfolded adjust_proxied_witness_votes_row.simps [of L i delta depth c]]
  obtain a where a: "find_obj i (ch_accounts c) = Some a" using step by (auto simp: account_def find_obj_get)
  show ?case
  proof (cases "a_proxy a = []")
    case True
    then show ?thesis using step a
      by (auto simp: account_def STEEMIT_PROXY_TO_SELF_ACCOUNT_def get_obj_def intro: carries.vote dest: sum_delta_row [OF assms])
  next
    case False
    then obtain p c1 where p: "get_account (a_proxy a) c = Inr p" "modify_account p (add_proxied_votes L depth delta) c = Inr c1"
      "adjust_proxied_witness_votes_row L p delta (depth + 1) c1 = Inr c'"
      using step a Suc.hyps(2) by (auto simp: account_def get_obj_def STEEMIT_PROXY_TO_SELF_ACCOUNT_def split: if_splits)
    have d: "depth < STEEMIT_MAX_PROXY_RECURSION_DEPTH" using Suc.hyps(2) by simp
    have "carries L (row_diff delta) (row_total delta) p (depth + 1) c1 c'"
      using Suc.hyps(1) [OF _ p(3)] Suc.hyps(2) by simp
    then show ?thesis
      by (rule carries.up [where D = "row_diff delta", OF a False d p(1,2), rotated]) (rule add_proxied_votes_raises [OF assms])
  qed
qed

text \<open>The walk changes nothing but proxied votes, and those only above its start.\<close>

definition unvoted :: "account_object \<Rightarrow> account_object" where
  "unvoted a = a\<lparr>a_proxied_vsf_votes := []\<rparr>"

definition proxy_rel :: "chain \<Rightarrow> (oid \<times> oid) set" where
  "proxy_rel c = {(i, j). \<exists>a b. find_obj i (ch_accounts c) = Some a \<and> find_obj j (ch_accounts c) = Some b \<and> a_proxy a = a_name b}"

lemma unvoted_eq:
  assumes "\<And>j. map_option unvoted (find_obj j (ch_accounts c')) = map_option unvoted (find_obj j (ch_accounts c))"
    and "find_obj j (ch_accounts c) = Some a"
  obtains xs where "find_obj j (ch_accounts c') = Some (a\<lparr>a_proxied_vsf_votes := xs\<rparr>)"
proof -
  obtain b where b: "find_obj j (ch_accounts c') = Some b" "unvoted b = unvoted a"
    using assms(1) [of j] assms(2) by auto
  have "b = (unvoted b)\<lparr>a_proxied_vsf_votes := a_proxied_vsf_votes b\<rparr>" by (simp add: unvoted_def)
  also have "\<dots> = a\<lparr>a_proxied_vsf_votes := a_proxied_vsf_votes b\<rparr>" using b(2) by (simp add: unvoted_def)
  finally show thesis using that b(1) by simp
qed

definition links :: "account_object \<Rightarrow> account_name_type \<times> account_name_type" where
  "links a = (a_name a, a_proxy a)"

lemma proxy_rel_links:
  assumes "\<And>j. map_option links (find_obj j (ch_accounts c')) = map_option links (find_obj j (ch_accounts c))"
  shows "proxy_rel c' = proxy_rel c"
proof -
  have "proxy_rel d = {(i, j). \<exists>x y. map_option links (find_obj i (ch_accounts d)) = Some x \<and>
      map_option links (find_obj j (ch_accounts d)) = Some y \<and> snd x = fst y}" for d
    by (auto simp: proxy_rel_def links_def)
  then show ?thesis by (simp only: assms)
qed

lemma map_option_view: "(\<And>x. f x = g (h x)) \<Longrightarrow> map_option h u = map_option h v \<Longrightarrow> map_option f u = map_option f v"
  by (cases u; cases v) auto

lemma proxy_rel_unvoted:
  assumes "\<And>j. map_option unvoted (find_obj j (ch_accounts c')) = map_option unvoted (find_obj j (ch_accounts c))"
  shows "proxy_rel c' = proxy_rel c"
  by (rule proxy_rel_links) (rule map_option_view [where g = links, OF _ assms], simp add: links_def unvoted_def)

lemma carries_frame:
  assumes "carries L D E i depth c c'" and "votes_wf c" and "safe_laws L"
  shows "(\<forall>j. map_option unvoted (find_obj j (ch_accounts c')) = map_option unvoted (find_obj j (ch_accounts c))) \<and>
    ch_witness_votes c' = ch_witness_votes c \<and>
    (\<forall>j. (i, j) \<notin> (proxy_rel c)\<^sup>+ \<longrightarrow> find_obj j (ch_accounts c') = find_obj j (ch_accounts c))"
  using assms(1,2)
proof (induction rule: carries.induct)
  case (up i c a depth p f c1 c')
  have "tbl_ok (ch_accounts c)" using up.prems by (simp add: votes_wf_def)
  obtain t where t: "db_modify account_clash p f (ch_accounts c) = Inr t" "c1 = c\<lparr>ch_accounts := t\<rparr>"
    using up.hyps(5) by (auto simp: modify_account_def)
  from t(1) \<open>tbl_ok (ch_accounts c)\<close> obtain b b' where b: "find_obj p (ch_accounts c) = Some b" "f b = Inr b'" and tok: "tbl_ok t"
    and fnd: "\<And>j. find_obj j t = (if j = p then Some b' else find_obj j (ch_accounts c))"
    by (rule db_modify_spec) blast
  have r: "raises (D depth) b b'" using up.hyps(6) b up.prems by (auto simp: votes_wf_def)
  then have b': "unvoted b' = unvoted b" "a_name b' = a_name b" "a_proxy b' = a_proxy b"
    "length (a_proxied_vsf_votes b') = length (a_proxied_vsf_votes b)" by (auto simp: raises_def unvoted_def)
  have un: "map_option unvoted (find_obj j (ch_accounts c1)) = map_option unvoted (find_obj j (ch_accounts c))" for j
    using fnd t(2) b b' by simp
  have wf: "votes_wf c1"
    unfolding t(2) by (rule votes_wf_account [OF up.prems b(1) tok fnd])
      (use b' b(1) up.prems in \<open>fastforce simp: votes_wf_def\<close>)+
  have ip: "(i, p) \<in> proxy_rel c"
    using get_account_find [OF up.hyps(4) \<open>tbl_ok (ch_accounts c)\<close>] up.hyps(1) by (auto simp: proxy_rel_def)
  have rel: "proxy_rel c1 = proxy_rel c" using un by (rule proxy_rel_unvoted)
  have "find_obj j (ch_accounts c') = find_obj j (ch_accounts c)" if "(i, j) \<notin> (proxy_rel c)\<^sup>+" for j
  proof -
    have "j \<noteq> p" "(p, j) \<notin> (proxy_rel c1)\<^sup>+" using that ip rel by (auto intro: trancl_into_trancl2)
    then show ?thesis using up.IH [OF wf] fnd t(2) by simp
  qed
  with up.IH [OF wf] un t(2) show ?case by simp
next
  case (vote i c a depth c')
  then show ?case
    using adjust_witness_votes_votes [OF assms(3) vote.hyps(3)] by (simp add: votes_wf_def)
qed simp

section \<open>What the votes depend on\<close>

definition ballot_view :: "account_object \<Rightarrow> account_name_type \<times> account_name_type \<times> int list" where
  "ballot_view a = (a_name a, a_proxy a, passed_on a)"

definition vote_view ::
  "chain \<Rightarrow> (oid \<Rightarrow> (account_name_type \<times> account_name_type \<times> int list) option) \<times> witness_vote_object generic_index \<times> witness_object generic_index" where
  "vote_view c = (\<lambda>i. map_option ballot_view (find_obj i (ch_accounts c)), ch_witness_votes c, ch_witnesses c)"

lemma tsum_view:
  assumes "tbl_ok t" and "tbl_ok t'" and "\<And>i. map_option h (find_obj i t) = map_option h (find_obj i t')"
    and "\<And>x. f x = g (h x)"
  shows "tsum f t = tsum f t'"
proof -
  define M where "M m = map (\<lambda>e. (fst e, h (snd e))) m" for m :: "(oid \<times> 'a) list"
  have "distinct (M m) \<and> set (M m) = {(k, x). map_option h (fm_find m k) = Some x} \<and>
      sum_list (map (\<lambda>e. f (snd e)) m) = sum_list (map (\<lambda>e. g (snd e)) (M m))" if "fm_ok m" for m
  proof (intro conjI)
    have "map fst (M m) = map fst m" by (simp add: M_def)
    then show "distinct (M m)" using that by (metis distinct_map fm_ok_def strict_sorted_iff)
    show "set (M m) = {(k, x). map_option h (fm_find m k) = Some x}"
      using fm_find_iff [OF that] by (force simp: M_def image_iff)
  qed (simp add: M_def comp_def assms(4))
  note M = this [OF assms(1) [unfolded tbl_ok_def]] this [OF assms(2) [unfolded tbl_ok_def]]
  have "set (M (gi_indices t)) = set (M (gi_indices t'))"
    using M assms(3) unfolding find_obj_def by presburger
  with M show ?thesis by (simp add: tsum_def sum_list_distinct_conv_sum_set)
qed

lemma votes_view:
  assumes "vote_view c' = vote_view c" and "tbl_ok (ch_accounts c')" and "votes_off c P Q"
  shows "votes_off c' P Q \<and> proxy_rel c' = proxy_rel c"
proof -
  have v: "map_option ballot_view (find_obj i (ch_accounts c')) = map_option ballot_view (find_obj i (ch_accounts c))" for i
    using assms(1) by (simp add: vote_view_def fun_eq_iff)
  have eq: "ch_witness_votes c' = ch_witness_votes c" "ch_witnesses c' = ch_witnesses c"
    using assms(1) by (simp_all add: vote_view_def)
  have ok: "tbl_ok (ch_accounts c)" using assms(3) by (simp add: votes_off_def votes_wf_def)
  have view: "\<exists>b. find_obj i (ch_accounts c) = Some b \<and> a_name b = a_name a \<and> a_proxy b = a_proxy a \<and> passed_on b = passed_on a \<and>
      a_proxied_vsf_votes b = a_proxied_vsf_votes a" if "find_obj i (ch_accounts c') = Some a" for i a
    using v [of i] that by (cases "find_obj i (ch_accounts c)") (auto simp: ballot_view_def passed_on_def)
  have view': "\<exists>b. find_obj i (ch_accounts c') = Some b \<and> a_name b = a_name a \<and> a_proxy b = a_proxy a"
    if "find_obj i (ch_accounts c) = Some a" for i a
    using v [of i] that by (auto simp: ballot_view_def)
  have p: "proxied_to n k c' = proxied_to n k c" for n k
    unfolding proxied_to_def
    by (rule tsum_view [OF assms(2) ok v, where g = "\<lambda>(m, q, xs). if q = n then xs ! k else 0"]) (simp add: ballot_view_def passes_def)
  have "weight i c' = weight i c" for i
    using v [of i] by (auto simp: weight_def ballot_view_def split: option.splits)
  then have w: "votes_for w c' = votes_for w c" for w
    using votes_for_weights [of c' c 0 0 w] eq by simp
  have wf: "votes_wf c'"
    unfolding votes_wf_def
  proof (intro conjI allI impI assms(2))
    note wf = assms(3) [unfolded votes_off_def votes_wf_def, THEN conjunct1]
    show "tbl_ok (ch_witnesses c')" "tbl_ok (ch_witness_votes c')" using wf eq by simp_all
    fix i a assume a: "find_obj i (ch_accounts c') = Some a"
    from view [OF this] obtain a0 where a0: "find_obj i (ch_accounts c) = Some a0" "a_name a0 = a_name a"
      "a_proxied_vsf_votes a0 = a_proxied_vsf_votes a" by blast
    then show "length (a_proxied_vsf_votes a) = STEEMIT_MAX_PROXY_RECURSION_DEPTH" "a_name a \<noteq> []" using wf by metis+
    fix j b assume b: "find_obj j (ch_accounts c') = Some b" "a_name a = a_name b"
    from view [OF b(1)] obtain b0 where "find_obj j (ch_accounts c) = Some b0" "a_name b0 = a_name b" by blast
    with a0 b(2) wf show "i = j" by metis
  next
    fix u x assume "find_obj u (ch_witness_votes c') = Some x"
    then have "find_obj u (ch_witness_votes c) = Some x" using eq by simp
    with assms(3) obtain a where "find_obj (wv_account x) (ch_accounts c) = Some a" "a_proxy a = []"
      unfolding votes_off_def by (blast elim: votes_wf_voter)
    with view' show "\<exists>a. find_obj (wv_account x) (ch_accounts c') = Some a \<and> a_proxy a = []" by metis
  qed
  have "votes_off c' P Q"
    unfolding votes_off_def
  proof (intro conjI allI impI wf)
    fix i a k assume "find_obj i (ch_accounts c') = Some a" "k < STEEMIT_MAX_PROXY_RECURSION_DEPTH"
    then show "a_proxied_vsf_votes a ! k = proxied_to (a_name a) k c' + P (a_name a) k"
      using view assms(3) p unfolding votes_off_def by metis
  qed (use assms(3) eq w in \<open>simp add: votes_off_def\<close>)
  moreover have "proxy_rel c' = proxy_rel c"
    by (rule proxy_rel_links) (rule map_option_view [where g = "\<lambda>(n, q, _). (n, q)", OF _ v], simp add: links_def ballot_view_def)
  ultimately show ?thesis by blast
qed

section \<open>A change of vesting shares\<close>

lemma votes_off_tables:
  assumes "votes_off c P Q"
  shows "tbl_ok (ch_accounts c)" and "votes_wf c"
  using assms by (simp_all add: votes_off_def votes_wf_def)

lemma same_tables_off:
  assumes "ch_accounts c' = ch_accounts c" and "ch_witnesses c' = ch_witnesses c" and "ch_witness_votes c' = ch_witness_votes c"
    and "votes_off c P Q"
  shows "votes_off c' P Q \<and> proxy_rel c' = proxy_rel c"
  using assms votes_off_tables(1) [OF assms(4)] by (intro votes_view) (simp_all add: vote_view_def)

text \<open>The state between operations.\<close>

definition votes_ok :: "chain \<Rightarrow> bool" where
  "votes_ok c \<longleftrightarrow> votes_exact c \<and> acyclic (proxy_rel c)"

lemma votes_ok_view: "vote_view c' = vote_view c \<Longrightarrow> tbl_ok (ch_accounts c') \<Longrightarrow> votes_ok c \<Longrightarrow> votes_ok c'"
  using votes_view by (fastforce simp: votes_ok_def)

definition revests :: "int \<Rightarrow> account_object \<Rightarrow> account_object \<Rightarrow> bool" where
  "revests delta a a' \<longleftrightarrow> links a' = links a \<and> a_proxied_vsf_votes a' = a_proxied_vsf_votes a \<and>
     amount (a_vesting_shares a') = amount (a_vesting_shares a) + delta"

lemma vesting_votes:
  assumes "safe_laws L" and "votes_ok c" and "modify_account i f c = Inr c1" and "\<And>a a'. f a = Inr a' \<Longrightarrow> revests delta a a'"
    and "ch_accounts c2 = ch_accounts c1" "ch_witnesses c2 = ch_witnesses c1" "ch_witness_votes c2 = ch_witness_votes c1"
    and "adjust_proxied_witness_votes L i delta 0 c2 = Inr c'"
  shows "votes_ok c'"
proof -
  have off: "votes_exact c" using assms(2) by (simp add: votes_ok_def)
  have len: "length (a_proxied_vsf_votes a) = STEEMIT_MAX_PROXY_RECURSION_DEPTH" if "find_obj i (ch_accounts c) = Some a" for a
    using votes_off_tables(2) [OF off] that by (auto simp: votes_wf_def)
  from assms(3) off obtain a a' where a: "find_obj i (ch_accounts c) = Some a" "f a = Inr a'"
    and fnd: "\<And>j. find_obj j (ch_accounts c1) = (if j = i then Some a' else find_obj j (ch_accounts c))"
    and eq: "ch_witness_votes c1 = ch_witness_votes c" "ch_witnesses c1 = ch_witnesses c"
    and off1: "votes_off c1 (\<lambda>n k. 0 + (if n = a_name a then a_proxied_vsf_votes a' ! k - a_proxied_vsf_votes a ! k else 0) +
       (if n = a_proxy a then passes k a else 0) - (if n = a_proxy a' then passes k a' else 0))
     (\<lambda>w. 0 - (sum_list (passed_on a') - sum_list (passed_on a)) * ballots i w c)"
  proof (rule modify_account_votes)
    fix a a' assume x: "find_obj i (ch_accounts c) = Some a" "f a = Inr a'"
    show "a_name a' = a_name a \<and> length (a_proxied_vsf_votes a') = STEEMIT_MAX_PROXY_RECURSION_DEPTH \<and>
      (a_proxy a' \<noteq> [] \<longrightarrow> (\<forall>v x. find_obj v (ch_witness_votes c) = Some x \<longrightarrow> wv_account x \<noteq> i))"
      using assms(4) [OF x(2)] len [OF x(1)] x(1) votes_off_tables(2) [OF off]
      by (fastforce simp: revests_def links_def elim: votes_wf_voter)
  qed blast
  have r: "revests delta a a'" using assms(4) a(2) .
  note c2 = same_tables_off [OF assms(5-7) off1]
  have rel: "proxy_rel c1 = proxy_rel c"
    by (rule proxy_rel_links) (use fnd a r in \<open>simp add: revests_def\<close>)
  have a': "find_obj i (ch_accounts c2) = Some a'" using fnd assms(5) by simp
  note car = scalar_carries [OF assms(1,8)]
  from carries_off [OF assms(1) scalar_shifts car conjunct1 [OF c2] a'] have "votes_exact c'"
  proof (rule votes_off_eq)
    show "0 - (sum_list (passed_on a') - sum_list (passed_on a)) * ballots i w c + delta * ballots i w c2 = 0" for w
      using r eq(1) assms(7) by (simp add: revests_def passed_on_def ballots_def)
  qed (use r in \<open>auto simp: revests_def links_def passes_def passed_on_def nth_Cons split: nat.splits\<close>)
  moreover have "proxy_rel c' = proxy_rel c"
    using carries_frame [OF car votes_off_tables(2) [OF conjunct1 [OF c2]] assms(1)] c2 rel proxy_rel_unvoted by metis
  ultimately show ?thesis using assms(2) by (simp add: votes_ok_def)
qed

section \<open>Functions that leave the votes alone\<close>

named_theorems votes_kept

lemma modify_account_view:
  assumes "modify_account i f c = Inr c'" and "\<And>a a'. f a = Inr a' \<Longrightarrow> ballot_view a' = ballot_view a"
  shows "vote_view c' = vote_view c"
proof -
  obtain t where t: "db_modify account_clash i f (ch_accounts c) = Inr t" "c' = c\<lparr>ch_accounts := t\<rparr>"
    using assms(1) by (auto simp: modify_account_def)
  from t(1) obtain v v' where "find_obj i (ch_accounts c) = Some v" "f v = Inr v'"
    "\<And>j. find_obj j t = (if j = i then Some v' else find_obj j (ch_accounts c))"
    by (rule db_modify_find) blast
  with t(2) assms(2) show ?thesis by (auto simp: vote_view_def)
qed

lemma modify_gpo_view [votes_kept]: "modify_gpo f c = Inr c' \<Longrightarrow> vote_view c' = vote_view c"
  by (auto simp: modify_gpo_def vote_view_def)

lemma push_view [simp]: "vote_view (push_virtual_operation op c) = vote_view c"
  by (simp add: push_virtual_operation_def vote_view_def)

lemma issue_interest_view: "issue_interest L n interest paid c = Inr c' \<Longrightarrow> vote_view c' = vote_view c"
  by (auto simp: issue_interest_def Let_def dest!: modify_gpo_view split: if_splits)

lemma accrue_sbd_view:
  "accrue_sbd L a c = Inr (a', c') \<Longrightarrow> vote_view c' = vote_view c \<and> ballot_view a' = ballot_view a"
  "accrue_savings_sbd L a c = Inr (a', c') \<Longrightarrow> vote_view c' = vote_view c \<and> ballot_view a' = ballot_view a"
  by (auto simp: accrue_sbd_def accrue_savings_sbd_def Let_def ballot_view_def passed_on_def dest!: issue_interest_view split: if_splits)

text \<open>\<open>modify_account\<close> with a value that was computed from the account before.\<close>

lemma replace_account_view:
  assumes "modify_account i (\<lambda>_. Inr a') c = Inr c'" and "account i d = Inr a" and "vote_view c = vote_view d"
    and "ballot_view a' = ballot_view a"
  shows "vote_view c' = vote_view d"
proof -
  obtain t where t: "db_modify account_clash i (\<lambda>_. Inr a') (ch_accounts c) = Inr t" "c' = c\<lparr>ch_accounts := t\<rparr>"
    using assms(1) by (auto simp: modify_account_def)
  from t(1) obtain v where v: "find_obj i (ch_accounts c) = Some v"
    "\<And>j. find_obj j t = (if j = i then Some a' else find_obj j (ch_accounts c))"
    by (rule db_modify_find) auto
  have eq: "map_option ballot_view (find_obj j (ch_accounts c)) = map_option ballot_view (find_obj j (ch_accounts d))" for j
    using assms(3) by (simp add: vote_view_def fun_eq_iff)
  have "map_option ballot_view (find_obj j (ch_accounts c')) = map_option ballot_view (find_obj j (ch_accounts d))" for j
    using eq [of j] v t(2) assms(2,4) by (simp add: account_def find_obj_get)
  with t(2) assms(3) show ?thesis by (simp add: vote_view_def)
qed

lemma balances_view [votes_kept]:
  "adjust_balance L i x c = Inr c' \<Longrightarrow> vote_view c' = vote_view c"
  "adjust_savings_balance L i x c = Inr c' \<Longrightarrow> vote_view c' = vote_view c"
  "adjust_reward_balance L i x c = Inr c' \<Longrightarrow> vote_view c' = vote_view c"
proof -
  show "adjust_balance L i x c = Inr c' \<Longrightarrow> vote_view c' = vote_view c"
    by (auto simp: adjust_balance_def split: if_splits elim!: modify_account_view replace_account_view dest!: accrue_sbd_view(1))
      (auto simp: ballot_view_def passed_on_def)
  show "adjust_savings_balance L i x c = Inr c' \<Longrightarrow> vote_view c' = vote_view c"
    by (auto simp: adjust_savings_balance_def split: if_splits elim!: modify_account_view replace_account_view dest!: accrue_sbd_view(2))
      (auto simp: ballot_view_def passed_on_def)
  show "adjust_reward_balance L i x c = Inr c' \<Longrightarrow> vote_view c' = vote_view c"
    by (auto simp: adjust_reward_balance_def split: if_splits elim!: modify_account_view)
      (auto simp: ballot_view_def passed_on_def)
qed

lemma take_balance_view [votes_kept]: "take_balance L i x c = Inr c' \<Longrightarrow> vote_view c' = vote_view c"
  by (auto simp: take_balance_def dest: balances_view)

lemma adjust_supply_view [votes_kept]: "adjust_supply L x b c = Inr c' \<Longrightarrow> vote_view c' = vote_view c"
  by (auto simp: adjust_supply_def Let_def dest: modify_gpo_view)

lemma create_sbd_view [votes_kept]: "create_sbd L i x r c = Inr (v, c') \<Longrightarrow> vote_view c' = vote_view c"
  by (auto simp: create_sbd_def Let_def dest!: balances_view adjust_supply_view split: if_splits)

lemma modify_account_ok:
  "modify_account i f c = Inr c' \<Longrightarrow> tbl_ok (ch_accounts c) \<Longrightarrow> tbl_ok (ch_accounts c')"
  by (auto simp: modify_account_def elim!: db_modify_spec)

lemma create_vesting_plain_votes:
  assumes "safe_laws L" and "create_vesting L i steem False c = Inr (v, c')" and "votes_ok c"
  shows "votes_ok c'"
proof -
  obtain f g c1 c2 where f: "modify_account i f c = Inr c1" and g: "modify_gpo g c1 = Inr c2"
    and r: "\<And>a a'. f a = Inr a' \<Longrightarrow> revests (amount v) a a'"
    and p: "adjust_proxied_witness_votes L i (amount v) 0 c2 = Inr c'"
    using assms(2) by (fastforce simp: create_vesting_def revests_def links_def asset_arith_iffs [OF assms(1)])
  from g have "ch_accounts c2 = ch_accounts c1" "ch_witnesses c2 = ch_witnesses c1" "ch_witness_votes c2 = ch_witness_votes c1"
    by (auto simp: modify_gpo_def)
  from vesting_votes [OF assms(1,3) f r this p] show ?thesis .
qed

lemma votes_ok_tables: "votes_ok c \<Longrightarrow> tbl_ok (ch_accounts c)"
  by (simp add: votes_ok_def votes_off_def votes_wf_def)

lemma create_vesting_votes:
  assumes "safe_laws L" and "create_vesting L i steem r c = Inr (v, c')" and "votes_ok c"
  shows "votes_ok c'"
proof (cases r)
  case True
  then obtain f g c1 where f: "modify_account i f c = Inr c1" "modify_gpo g c1 = Inr c'"
    and "\<And>a a'. f a = Inr a' \<Longrightarrow> ballot_view a' = ballot_view a"
    using assms(2) by (fastforce simp: create_vesting_def ballot_view_def passed_on_def)
  with modify_account_view [OF f(1)] modify_gpo_view [OF f(2)] have "vote_view c' = vote_view c" by simp
  moreover have "tbl_ok (ch_accounts c')"
    using modify_account_ok [OF f(1) votes_ok_tables [OF assms(3)]] f(2) by (auto simp: modify_gpo_def)
  ultimately show ?thesis using votes_ok_view assms(3) by blast
next
  case False
  then show ?thesis using create_vesting_plain_votes [OF assms(1) _ assms(3)] assms(2) by simp
qed

section \<open>Voting for a witness\<close>

lemma witness_vote_weight_passed:
  assumes "safe_laws L" and "witness_vote_weight L a = Inr x"
  shows "x = sum_list (passed_on a)"
proof -
  have "fold_res (\<lambda>x s. safe_add L s x) xs s = Inr t \<Longrightarrow> t = s + sum_list xs" for xs s t
    by (induction xs arbitrary: s) (fastforce simp: safe_iffs [OF assms(1)])+
  with assms(2) show ?thesis by (auto simp: witness_vote_weight_def sum_shares_def passed_on_def)
qed

lemma new_vote_off:
  assumes "db_create clash obj (ch_witness_votes c) = Inr (v, t)" and "votes_off c P Q"
    and "find_obj (wv_account (obj v)) (ch_accounts c) = Some a" and "a_proxy a = []"
  shows "votes_off (c\<lparr>ch_witness_votes := t\<rparr>) P (\<lambda>w. Q w - (if w = wv_witness (obj v) then sum_list (passed_on a) else 0))"
proof -
  have "tbl_ok (ch_witness_votes c)" using assms(2) by (simp add: votes_off_def votes_wf_def)
  from db_create_spec [OF assms(1) this] have t: "\<And>f. tsum f t = tsum f (ch_witness_votes c) + f (obj v)" "tbl_ok t"
    "\<And>j. find_obj j t = (if j = v then Some (obj v) else find_obj j (ch_witness_votes c))" by auto
  have w: "weight j (c\<lparr>ch_witness_votes := t\<rparr>) = weight j c" for j by (simp add: weight_def)
  have "votes_for w (c\<lparr>ch_witness_votes := t\<rparr>) = votes_for w c + (if w = wv_witness (obj v) then sum_list (passed_on a) else 0)" for w
    unfolding votes_for_def w using t(1) assms(3) by (simp add: weight_def)
  moreover have "votes_wf (c\<lparr>ch_witness_votes := t\<rparr>)"
    using assms t(2,3) by (auto simp: votes_off_def votes_wf_def)
  ultimately show ?thesis using assms(2) by (simp add: votes_off_def proxied_to_def)
qed

lemma remove_vote_off:
  assumes "remove_witness_vote v c = Inr c'" and "votes_off c P Q"
    and "find_obj v (ch_witness_votes c) = Some x" and "find_obj (wv_account x) (ch_accounts c) = Some a"
  shows "votes_off c' P (\<lambda>w. Q w + (if w = wv_witness x then sum_list (passed_on a) else 0)) \<and> proxy_rel c' = proxy_rel c"
proof -
  obtain t where t: "db_remove v (ch_witness_votes c) = Inr t" "c' = c\<lparr>ch_witness_votes := t\<rparr>"
    using assms(1) by (auto simp: remove_witness_vote_def)
  have "tbl_ok (ch_witness_votes c)" using assms(2) by (simp add: votes_off_def votes_wf_def)
  from t(1) this have r: "\<And>f. tsum f t = tsum f (ch_witness_votes c) - f x" "tbl_ok t"
    "\<And>j. find_obj j t = (if j = v then None else find_obj j (ch_witness_votes c))"
    using assms(3) by (auto elim!: db_remove_spec)
  have w: "weight j c' = weight j c" for j by (simp add: weight_def t(2))
  have "votes_for w c' = votes_for w c - (if w = wv_witness x then sum_list (passed_on a) else 0)" for w
    unfolding votes_for_def w using r(1) assms(4) t(2) by (simp add: weight_def)
  moreover have "votes_wf c'"
    using assms(2) r(2,3) t(2) by (auto simp: votes_off_def votes_wf_def)
  ultimately show ?thesis using assms(2) t(2) by (simp add: votes_off_def proxied_to_def proxy_rel_def)
qed

lemma find_by_find:
  assumes "find_by P t = Some k" and "tbl_ok t"
  obtains v where "find_obj k t = Some v" "P v"
proof -
  obtain e where "find (\<lambda>e. P (snd e)) (gi_indices t) = Some e" "k = fst e"
    using assms(1) by (auto simp: find_by_def)
  then have "e \<in> set (gi_indices t)" "P (snd e)" "e = (k, snd e)" by (auto simp: find_Some_iff)
  with assms(2) that show thesis by (metis find_obj_def tbl_ok_def fm_find_iff)
qed

lemma voted_for_view:
  "modify_account i (\<lambda>a. Inr (a\<lparr>a_witnesses_voted_for := g a\<rparr>)) c = Inr c' \<Longrightarrow> vote_view c' = vote_view c"
  by (erule modify_account_view) (auto simp: ballot_view_def passed_on_def)

lemma approve_votes:
  assumes "safe_laws L" and "votes_ok c" and f: "find_obj voter (ch_accounts c) = Some a" "a_proxy a = []"
    and "witness_vote_weight L a = Inr x"
    and t: "db_create witness_vote_clash (\<lambda>i. \<lparr>wv_id = i, wv_witness = u, wv_account = voter\<rparr>) (ch_witness_votes c) = Inr (v, t)"
    and c1: "adjust_witness_vote L u x (c\<lparr>ch_witness_votes := t\<rparr>) = Inr c1"
    and c': "modify_account voter (\<lambda>a. Inr (a\<lparr>a_witnesses_voted_for := a_witnesses_voted_for a + 1\<rparr>)) c1 = Inr c'"
  shows "votes_ok c'"
proof -
  have off: "votes_exact c" and acyc: "acyclic (proxy_rel c)" using assms(2) by (simp_all add: votes_ok_def)
  have x: "x = sum_list (passed_on a)" using witness_vote_weight_passed [OF assms(1,5)] .
  note 1 = new_vote_off [OF t off, simplified, OF f]
  from adjust_vote_off [OF assms(1) c1 1] have 2: "votes_exact c1" by (rule votes_off_eq) (simp_all add: x)
  have "ch_accounts c1 = ch_accounts c" using adjust_witness_vote_votes [OF assms(1) c1] off by (simp add: votes_off_def votes_wf_def)
  then have "proxy_rel c1 = proxy_rel c" by (simp add: proxy_rel_def)
  with 2 acyc have "votes_ok c1" by (simp add: votes_ok_def)
  then show ?thesis
    using votes_ok_view [OF voted_for_view [OF c']] modify_account_ok [OF c'] votes_off_tables(1) [OF 2] by blast
qed

lemma reject_votes:
  assumes "safe_laws L" and "votes_ok c" and f: "find_obj voter (ch_accounts c) = Some a"
    and "witness_vote_weight L a = Inr x"
    and v: "find_by (\<lambda>v. wv_account v = voter \<and> wv_witness v = u) (ch_witness_votes c) = Some v"
    and c1: "adjust_witness_vote L u (- x) c = Inr c1"
    and c2: "modify_account voter (\<lambda>a. Inr (a\<lparr>a_witnesses_voted_for := a_witnesses_voted_for a - 1\<rparr>)) c1 = Inr c2"
    and c': "remove_witness_vote v c2 = Inr c'"
  shows "votes_ok c'"
proof -
  have off: "votes_exact c" and acyc: "acyclic (proxy_rel c)" using assms(2) by (simp_all add: votes_ok_def)
  have ok: "tbl_ok (ch_witness_votes c)" using off by (simp add: votes_off_def votes_wf_def)
  have x: "x = sum_list (passed_on a)" using witness_vote_weight_passed [OF assms(1,4)] .
  note 1 = adjust_vote_off [OF assms(1) c1 off]
  have eq: "ch_accounts c1 = ch_accounts c" "ch_witness_votes c1 = ch_witness_votes c"
    using adjust_witness_vote_votes [OF assms(1) c1] off by (simp_all add: votes_off_def votes_wf_def)
  note 2 = votes_view [OF voted_for_view [OF c2] modify_account_ok [OF c2 votes_off_tables(1) [OF 1]] 1]
  from find_by_find [OF v ok] obtain b where b: "find_obj v (ch_witness_votes c) = Some b" "wv_account b = voter" "wv_witness b = u" by blast
  have view: "vote_view c2 = vote_view c1" using voted_for_view [OF c2] .
  then have b2: "find_obj v (ch_witness_votes c2) = Some b" using b(1) eq(2) by (simp add: vote_view_def)
  have "map_option ballot_view (find_obj voter (ch_accounts c2)) = map_option ballot_view (find_obj voter (ch_accounts c1))"
    using view by (simp add: vote_view_def fun_eq_iff)
  then obtain a2 where a2: "find_obj (wv_account b) (ch_accounts c2) = Some a2" "passed_on a2 = passed_on a"
    using b(2) f eq(1) by (auto simp: ballot_view_def)
  from remove_vote_off [OF c' conjunct1 [OF 2] b2 a2(1)] have 3: "proxy_rel c' = proxy_rel c2"
    and 4: "votes_off c' (\<lambda>_ _. 0) (\<lambda>w. 0 + (if w = u then - x else 0) + (if w = wv_witness b then sum_list (passed_on a2) else 0))" by auto
  from 4 have "votes_exact c'" by (rule votes_off_eq) (simp_all add: x a2(2) b(3))
  moreover have "proxy_rel c1 = proxy_rel c" by (simp add: proxy_rel_def eq(1))
  ultimately show ?thesis using 2 3 acyc by (simp add: votes_ok_def)
qed

lemma apply_account_witness_vote_votes:
  assumes "safe_laws L" and "apply_account_witness_vote L op c = Inr c'" and "votes_ok c"
  shows "votes_ok c'"
  using assms(2) unfolding apply_account_witness_vote_def
  by (auto simp: safe_iffs [OF assms(1)] account_def find_obj_get split: option.splits
      intro: approve_votes [OF assms(1,3)] reject_votes [OF assms(1,3)])

section \<open>Clearing votes\<close>

lemma clear_fold:
  "fold_res remove_witness_vote vs c = Inr d \<Longrightarrow>
    \<exists>t. d = c\<lparr>ch_witness_votes := t\<rparr> \<and> gi_indices t = filter (\<lambda>e. fst e \<notin> set vs) (gi_indices (ch_witness_votes c))"
proof (induction vs arbitrary: c)
  case Nil
  then show ?case by (auto intro: exI [of _ "ch_witness_votes d"])
next
  case (Cons v vs)
  then obtain e where e: "remove_witness_vote v c = Inr e" "fold_res remove_witness_vote vs e = Inr d" by auto
  then obtain t where t: "db_remove v (ch_witness_votes c) = Inr t" "e = c\<lparr>ch_witness_votes := t\<rparr>"
    by (auto simp: remove_witness_vote_def)
  have "remove_obj v (ch_witness_votes c) = (Inr (), t)" using t(1) by (auto simp: db_remove_def)
  then have "gi_indices t = filter (\<lambda>e. fst e \<noteq> v) (gi_indices (ch_witness_votes c))"
    by (auto simp: remove_obj_def fm_erase_def Let_def split: option.splits)
  with Cons.IH [OF e(2)] t(2) show ?case by (auto intro: filter_cong)
qed

lemma fm_filter_values:
  assumes "fm_ok m"
  shows "filter (\<lambda>e. fst e \<notin> fst ` {e \<in> set m. P (snd e)}) m = filter (\<lambda>e. \<not> P (snd e)) m" (is ?eq)
    and "fm_ok (filter (\<lambda>e. \<not> P (snd e)) m)" (is ?ok)
    and "fm_find (filter (\<lambda>e. \<not> P (snd e)) m) k = Some v \<longleftrightarrow> fm_find m k = Some v \<and> \<not> P v"
proof -
  have uniq: "v = w" if "(k, v) \<in> set m" "(k, w) \<in> set m" for k v w
    using fm_find_iff [OF assms, of k v] fm_find_iff [OF assms, of k w] that by simp
  show ?eq
  proof (intro filter_cong refl)
    fix e assume e: "e \<in> set m"
    have "P (snd e)" if "d \<in> set m" "P (snd d)" "fst e = fst d" for d
      using uniq [of "fst e" "snd e" "snd d"] e that by (metis prod.collapse)
    with e show "fst e \<notin> fst ` {e \<in> set m. P (snd e)} \<longleftrightarrow> \<not> P (snd e)" by blast
  qed
  show ok: ?ok using assms by (auto simp: fm_ok_def strict_sorted_iff sorted_filter distinct_map_filter)
  show "fm_find (filter (\<lambda>e. \<not> P (snd e)) m) k = Some v \<longleftrightarrow> fm_find m k = Some v \<and> \<not> P v"
    by (simp add: fm_find_iff [OF assms] fm_find_iff [OF ok])
qed

lemma clear_table:
  assumes "fold_res remove_witness_vote (votes_of i c) c = Inr d" and "tbl_ok (ch_witness_votes c)"
  shows "\<exists>t. d = c\<lparr>ch_witness_votes := t\<rparr> \<and> tbl_ok t \<and>
    (\<forall>v x. find_obj v t = Some x \<longleftrightarrow> find_obj v (ch_witness_votes c) = Some x \<and> wv_account x \<noteq> i) \<and>
    (\<forall>f. tsum f t = tsum f (ch_witness_votes c) - tsum (\<lambda>v. if wv_account v = i then f v else 0) (ch_witness_votes c))"
proof -
  let ?m = "gi_indices (ch_witness_votes c)"
  from clear_fold [OF assms(1)] obtain t where t: "d = c\<lparr>ch_witness_votes := t\<rparr>"
    "gi_indices t = filter (\<lambda>e. fst e \<notin> set (votes_of i c)) ?m" by blast
  have "set (votes_of i c) = fst ` {e \<in> set ?m. wv_account (snd e) = i}" by (simp add: votes_of_def)
  note flt = fm_filter_values [OF assms(2) [unfolded tbl_ok_def], of "\<lambda>v. wv_account v = i", folded this]
  have "sum_list (map (\<lambda>e. f (snd e)) (filter (\<lambda>e. wv_account (snd e) \<noteq> i) m)) =
      sum_list (map (\<lambda>e. f (snd e)) m) - sum_list (map (\<lambda>e. if wv_account (snd e) = i then f (snd e) else 0 :: int) m)" for f and m :: "(oid \<times> witness_vote_object) list"
    by (induction m) auto
  with flt t show ?thesis by (intro exI [of _ t]) (simp add: tbl_ok_def find_obj_def tsum_def)
qed

lemma clear_witness_votes_off:
  assumes "clear_witness_votes i c = Inr c'" and "votes_off c P Q"
  shows "votes_off c' P (\<lambda>w. Q w + weight i c * ballots i w c)" (is ?off)
    and "find_obj v (ch_witness_votes c') = Some x \<Longrightarrow> wv_account x \<noteq> i"
    and "map_option ballot_view (find_obj j (ch_accounts c')) = map_option ballot_view (find_obj j (ch_accounts c))"
    and "proxy_rel c' = proxy_rel c"
proof -
  obtain d where d: "fold_res remove_witness_vote (votes_of i c) c = Inr d"
    and c': "c' = d \<or> modify_account i (\<lambda>a. Inr (a\<lparr>a_witnesses_voted_for := 0\<rparr>)) d = Inr c'"
    using assms(1) by (auto simp: clear_witness_votes_def split: if_splits)
  have "tbl_ok (ch_witness_votes c)" using assms(2) by (simp add: votes_off_def votes_wf_def)
  with clear_table [OF d] obtain t where t: "d = c\<lparr>ch_witness_votes := t\<rparr>" and tok: "tbl_ok t"
    and fnd: "\<And>v x. find_obj v t = Some x \<longleftrightarrow> find_obj v (ch_witness_votes c) = Some x \<and> wv_account x \<noteq> i"
    and sum: "\<And>f. tsum f t = tsum f (ch_witness_votes c) - tsum (\<lambda>v. if wv_account v = i then f v else 0) (ch_witness_votes c)"
    by auto
  have w: "weight j d = weight j c" for j by (simp add: weight_def t)
  have "tsum (\<lambda>v. if wv_account v = i then if wv_witness v = u then weight (wv_account v) c else 0 else 0) (ch_witness_votes c) =
      weight i c * ballots i u c" for u
    unfolding ballots_def tsum_mult [symmetric] by (rule arg_cong2 [where f = tsum, OF ext refl]) simp
  then have v: "votes_for u d = votes_for u c - weight i c * ballots i u c" for u
    unfolding votes_for_def w using sum t by simp
  have "votes_wf d" using assms(2) fnd tok t by (auto simp: votes_off_def votes_wf_def)
  then have off: "votes_off d P (\<lambda>w. Q w + weight i c * ballots i w c)"
    using assms(2) v t by (simp add: votes_off_def proxied_to_def)
  have view: "vote_view c' = vote_view d" using c' by (auto dest: voted_for_view)
  have ok': "tbl_ok (ch_accounts c')" using c' votes_off_tables(1) [OF off] modify_account_ok by blast
  from votes_view [OF view ok' off] show ?off "proxy_rel c' = proxy_rel c" by (simp_all add: proxy_rel_def t)
  show "find_obj v (ch_witness_votes c') = Some x \<Longrightarrow> wv_account x \<noteq> i"
    using view fnd t by (simp add: vote_view_def)
  show "map_option ballot_view (find_obj j (ch_accounts c')) = map_option ballot_view (find_obj j (ch_accounts c))"
    using view t by (simp add: vote_view_def fun_eq_iff)
qed

section \<open>Proxies\<close>

lemma negate_all_iff:
  assumes "safe_laws L" and "negate_all L xs = Inr ys"
  shows "ys = map uminus xs"
proof -
  have "fold_res (\<lambda>x ys. rbind (safe_neg L x) (\<lambda>y. Inr (ys @ [y]))) xs zs = Inr ys \<Longrightarrow> ys = zs @ map uminus xs" for zs
    by (induction xs arbitrary: zs) (fastforce simp: safe_iffs [OF assms(1)])+
  from this [of "[]"] assms(2) show ?thesis by (simp add: negate_all_def)
qed

text \<open>Taking the votes of an account out of the totals.  The account itself does not change, since no
  chain of proxies leads back to it.\<close>

lemma row_total_all: "length xs = Suc STEEMIT_MAX_PROXY_RECURSION_DEPTH \<Longrightarrow> row_total xs 0 = sum_list xs"
  by (simp add: row_total_def sum_list_sum_nth atLeast0LessThan del: sum.lessThan_Suc)

lemma withdraw_votes:
  assumes "safe_laws L" and "votes_ok c" and a: "find_obj i (ch_accounts c) = Some a"
    and "negate_all L (passed_on a) = Inr delta" and "adjust_proxied_witness_votes_row L i delta 0 c = Inr c'"
  shows "votes_off c' (\<lambda>n k. - (if n = a_proxy a then passes k a else 0)) (\<lambda>w. - (sum_list (passed_on a) * ballots i w c))"
    and "find_obj i (ch_accounts c') = Some a" and "ch_witness_votes c' = ch_witness_votes c" and "proxy_rel c' = proxy_rel c"
proof -
  have off: "votes_exact c" and acyc: "acyclic (proxy_rel c)" using assms(2) by (simp_all add: votes_ok_def)
  have len: "length (passed_on a) = Suc STEEMIT_MAX_PROXY_RECURSION_DEPTH"
    using votes_off_tables(2) [OF off] a by (auto simp: votes_wf_def passed_on_def)
  have delta: "delta = map uminus (passed_on a)" using negate_all_iff [OF assms(1,4)] .
  have tot: "row_total delta 0 = - sum_list (passed_on a)"
    using len by (simp add: delta row_total_all uminus_sum_list_map [of id, simplified, symmetric])
  note car = row_carries [OF assms(1,5)]
  from carries_off [OF assms(1) row_shifts car off a]
  show "votes_off c' (\<lambda>n k. - (if n = a_proxy a then passes k a else 0)) (\<lambda>w. - (sum_list (passed_on a) * ballots i w c))"
    by (rule votes_off_eq) (use len tot in \<open>auto simp: row_diff_def delta passes_def\<close>)
  note frame = carries_frame [OF car votes_off_tables(2) [OF off] assms(1)]
  show "ch_witness_votes c' = ch_witness_votes c" using frame by simp
  show "proxy_rel c' = proxy_rel c" using frame proxy_rel_unvoted by metis
  show "find_obj i (ch_accounts c') = Some a" using frame acyc a by (simp add: acyclic_def)
qed

text \<open>Setting the proxy of an account whose votes are out of the totals.\<close>

lemma set_proxy_off:
  assumes "modify_account i f c = Inr c'" and "\<And>a a'. f a = Inr a' \<Longrightarrow> a_name a' = a_name a \<and> passed_on a' = passed_on a \<and> a_proxy a' = q"
    and "votes_off c (\<lambda>n k. - (if n = p then passes k a else 0)) (\<lambda>_. 0)"
    and "map_option ballot_view (find_obj i (ch_accounts c)) = Some (a_name a, p, passed_on a)"
    and "\<forall>v x. find_obj v (ch_witness_votes c) = Some x \<longrightarrow> wv_account x \<noteq> i"
  shows "votes_off c' (\<lambda>n k. - (if n = q then passes k a else 0)) (\<lambda>_. 0)"
    and "\<exists>a'. find_obj i (ch_accounts c') = Some a' \<and> a_proxy a' = q \<and> passed_on a' = passed_on a"
    and "proxy_rel c' \<subseteq> {e \<in> proxy_rel c. fst e \<noteq> i} \<union> {(i, j) | j b. find_obj j (ch_accounts c) = Some b \<and> a_name b = q}"
    and "ch_witness_votes c' = ch_witness_votes c"
proof -
  from assms(1,3) obtain b b' where b: "find_obj i (ch_accounts c) = Some b" "f b = Inr b'"
    and fnd: "\<And>j. find_obj j (ch_accounts c') = (if j = i then Some b' else find_obj j (ch_accounts c))"
    and eq: "ch_witness_votes c' = ch_witness_votes c" "ch_witnesses c' = ch_witnesses c"
    and off: "votes_off c' (\<lambda>n k. - (if n = p then passes k a else 0) +
       (if n = a_name b then a_proxied_vsf_votes b' ! k - a_proxied_vsf_votes b ! k else 0) +
       (if n = a_proxy b then passes k b else 0) - (if n = a_proxy b' then passes k b' else 0))
     (\<lambda>w. 0 - (sum_list (passed_on b') - sum_list (passed_on b)) * ballots i w c)"
  proof (rule modify_account_votes)
    fix a a' assume x: "find_obj i (ch_accounts c) = Some a" "f a = Inr a'"
    show "a_name a' = a_name a \<and> length (a_proxied_vsf_votes a') = STEEMIT_MAX_PROXY_RECURSION_DEPTH \<and>
      (a_proxy a' \<noteq> [] \<longrightarrow> (\<forall>v x. find_obj v (ch_witness_votes c) = Some x \<longrightarrow> wv_account x \<noteq> i))"
      using assms(2) [OF x(2)] x(1) votes_off_tables(2) [OF assms(3)] assms(5) by (auto simp: votes_wf_def passed_on_def)
  qed blast
  have v: "a_proxy b = p" "passed_on b = passed_on a" "a_name b' = a_name b" "passed_on b' = passed_on a" "a_proxy b' = q"
    using assms(2) [OF b(2)] assms(4) b(1) by (auto simp: ballot_view_def)
  then have p: "a_proxied_vsf_votes b' = a_proxied_vsf_votes b" by (simp add: passed_on_def)
  from off show "votes_off c' (\<lambda>n k. - (if n = q then passes k a else 0)) (\<lambda>_. 0)"
    by (rule votes_off_eq) (use v p in \<open>auto simp: passes_def\<close>)
  show "\<exists>a'. find_obj i (ch_accounts c') = Some a' \<and> a_proxy a' = q \<and> passed_on a' = passed_on a" using fnd v by simp
  show "proxy_rel c' \<subseteq> {e \<in> proxy_rel c. fst e \<noteq> i} \<union> {(i, j) | j b. find_obj j (ch_accounts c) = Some b \<and> a_name b = q}"
    using fnd v b(1) by (fastforce simp: proxy_rel_def split: if_splits)
  show "ch_witness_votes c' = ch_witness_votes c" using eq by simp
qed

lemma check_proxy_chain_reach:
  "check_proxy_chain b ids c = Inr () \<Longrightarrow> find_obj p (ch_accounts c) = Some b \<Longrightarrow> votes_wf c \<Longrightarrow>
    (p, j) \<in> (proxy_rel c)\<^sup>+ \<Longrightarrow> j \<notin> set ids"
proof (induction b ids c arbitrary: p rule: check_proxy_chain.induct)
  case (1 b ids c)
  note wf = 1(4)
  note step = 1(2) [unfolded check_proxy_chain.simps [of b ids c]]
  from tranclD [OF 1(5)] obtain m where m: "(p, m) \<in> proxy_rel c" "(m, j) \<in> (proxy_rel c)\<^sup>*" by blast
  then obtain b1 where b1: "find_obj m (ch_accounts c) = Some b1" "a_name b1 = a_proxy b" using 1(3) by (auto simp: proxy_rel_def)
  have ne: "a_proxy b \<noteq> []" using wf b1 by (metis votes_wf_def)
  then obtain n q where n: "get_account (a_proxy b) c = Inr n" "account n c = Inr q" "n \<notin> set ids"
    "\<not> length (n # ids) > STEEMIT_MAX_PROXY_RECURSION_DEPTH" "check_proxy_chain q (n # ids) c = Inr ()"
    using step by (auto split: if_splits)
  have q: "find_obj n (ch_accounts c) = Some q" using n(2) by (simp add: account_def find_obj_get)
  have "tbl_ok (ch_accounts c)" using wf by (simp add: votes_wf_def)
  from get_account_find [OF n(1) this] obtain q' where "find_obj n (ch_accounts c) = Some q'" "a_name q' = a_proxy b" by blast
  then have "m = n" using wf b1 by (metis votes_wf_def)
  then have "j = n \<or> (n, j) \<in> (proxy_rel c)\<^sup>+" using m(2) by (auto dest: rtranclD)
  with 1(1) [OF ne n(1-4) n(5) q wf] n(3) show ?case by auto
qed

lemma weight_passed: "find_obj i (ch_accounts c) = Some a \<Longrightarrow> weight i c = sum_list (passed_on a)"
  by (simp add: weight_def)

text \<open>Leaving the votes: the account loses its ballots and its proxy.\<close>

lemma leave_votes:
  assumes "safe_laws L" and "votes_ok c" and "find_obj i (ch_accounts c) = Some a"
    and "negate_all L (passed_on a) = Inr delta" and "adjust_proxied_witness_votes_row L i delta 0 c = Inr c1"
    and "clear_witness_votes i c1 = Inr c2"
    and "modify_account i f c2 = Inr c3" and f: "\<And>a a'. f a = Inr a' \<Longrightarrow> a_name a' = a_name a \<and> passed_on a' = passed_on a \<and> a_proxy a' = q"
  shows "votes_off c3 (\<lambda>n k. - (if n = q then passes k a else 0)) (\<lambda>_. 0)"
    and "\<exists>a'. find_obj i (ch_accounts c3) = Some a' \<and> a_proxy a' = q \<and> passed_on a' = passed_on a"
    and "proxy_rel c3 \<subseteq> {e \<in> proxy_rel c. fst e \<noteq> i} \<union> {(i, j) | j b. find_obj j (ch_accounts c2) = Some b \<and> a_name b = q}"
    and "ballots i w c3 = 0"
proof -
  note 1 = withdraw_votes [OF assms(1-5)]
  note 2 = clear_witness_votes_off [OF assms(6) 1(1)]
  have v: "map_option ballot_view (find_obj i (ch_accounts c2)) = Some (a_name a, a_proxy a, passed_on a)"
    using 2(3) [of i] 1(2) by (simp add: ballot_view_def)
  have off: "votes_off c2 (\<lambda>n k. - (if n = a_proxy a then passes k a else 0)) (\<lambda>_. 0)"
    using 2(1) by (rule votes_off_eq) (use 1(2,3) in \<open>simp_all add: weight_passed ballots_def\<close>)
  have "\<forall>v x. find_obj v (ch_witness_votes c2) = Some x \<longrightarrow> wv_account x \<noteq> i" using 2(2) by blast
  note 3 = set_proxy_off [OF assms(7) f off v this]
  show "votes_off c3 (\<lambda>n k. - (if n = q then passes k a else 0)) (\<lambda>_. 0)" using 3(1) .
  show "\<exists>a'. find_obj i (ch_accounts c3) = Some a' \<and> a_proxy a' = q \<and> passed_on a' = passed_on a" using 3(2) .
  show "proxy_rel c3 \<subseteq> {e \<in> proxy_rel c. fst e \<noteq> i} \<union> {(i, j) | j b. find_obj j (ch_accounts c2) = Some b \<and> a_name b = q}"
    using 3(3) 2(4) 1(4) by simp
  have "ballots i w c3 = tsum (\<lambda>_. 0) (ch_witness_votes c3)"
    unfolding ballots_def by (rule tsum_cong) (use 2(2) 3(4) votes_off_tables(2) [OF off] in \<open>auto simp: votes_wf_def\<close>)
  then show "ballots i w c3 = 0" by (simp add: tsum_def)
qed

lemma no_proxy_exact:
  assumes "votes_off c (\<lambda>n k. - (if n = [] then passes k a else 0)) (\<lambda>_. 0)"
  shows "votes_exact c"
  using assms by (rule votes_off_eq) (use votes_off_tables(2) [OF assms] in \<open>auto simp: votes_wf_def\<close>)

lemma no_proxy_acyclic:
  assumes "acyclic (proxy_rel c)" and "votes_wf d"
    and "proxy_rel c' \<subseteq> {e \<in> proxy_rel c. fst e \<noteq> i} \<union> {(i, j) | j b. find_obj j (ch_accounts d) = Some b \<and> a_name b = []}"
  shows "acyclic (proxy_rel c')"
proof -
  have "{(i, j) | j b. find_obj j (ch_accounts d) = Some b \<and> a_name b = []} = {}" using assms(2) by (auto simp: votes_wf_def)
  with assms(3) have "proxy_rel c' \<subseteq> proxy_rel c" by auto
  with assms(1) show ?thesis by (rule acyclic_subset)
qed

text \<open>Joining the votes of a new proxy.\<close>

lemma join_votes:
  assumes "safe_laws L" and "votes_off c (\<lambda>n k. - (if n = q then passes k a else 0)) (\<lambda>_. 0)"
    and "find_obj i (ch_accounts c) = Some a'" and "a_proxy a' = q" and "\<And>w. ballots i w c = 0"
    and "length (passed_on a) = Suc STEEMIT_MAX_PROXY_RECURSION_DEPTH"
    and "negate_all L (map uminus (passed_on a)) = Inr delta" and "adjust_proxied_witness_votes_row L i delta 0 c = Inr c'"
  shows "votes_exact c' \<and> proxy_rel c' = proxy_rel c"
proof -
  have delta: "delta = passed_on a" using negate_all_iff [OF assms(1,7)] by (simp add: o_def)
  note car = row_carries [OF assms(1,8)]
  from carries_off [OF assms(1) row_shifts car assms(2,3)] have "votes_exact c'"
    by (rule votes_off_eq) (use assms(4-6) in \<open>auto simp: row_diff_def delta passes_def\<close>)
  moreover have "proxy_rel c' = proxy_rel c"
    using carries_frame [OF car votes_off_tables(2) [OF assms(2)] assms(1)] proxy_rel_unvoted by metis
  ultimately show ?thesis by blast
qed

lemma new_proxy_votes:
  assumes "safe_laws L" and "votes_ok c" and a: "find_obj i (ch_accounts c) = Some a"
    and delta: "negate_all L (passed_on a) = Inr delta" and c1: "adjust_proxied_witness_votes_row L i delta 0 c = Inr c1"
    and p: "get_account q c1 = Inr p" "account p c1 = Inr b" "p \<noteq> i" and chk: "check_proxy_chain b (remdups [i, p]) c1 = Inr ()"
    and c2: "clear_witness_votes i c1 = Inr c2" and c3: "modify_account i (\<lambda>a. Inr (a\<lparr>a_proxy := q\<rparr>)) c2 = Inr c3"
    and delta': "negate_all L delta = Inr delta'" and c': "adjust_proxied_witness_votes_row L i delta' 0 c3 = Inr c'"
  shows "votes_ok c'"
proof -
  have off: "votes_exact c" and acyc: "acyclic (proxy_rel c)" using assms(2) by (simp_all add: votes_ok_def)
  have len: "length (passed_on a) = Suc STEEMIT_MAX_PROXY_RECURSION_DEPTH"
    using votes_off_tables(2) [OF off] a by (auto simp: votes_wf_def passed_on_def)
  note 1 = withdraw_votes [OF assms(1,2) a delta c1]
  have wf1: "votes_wf c1" and wf2: "votes_wf c2"
    using votes_off_tables(2) [OF 1(1)] votes_off_tables(2) [OF clear_witness_votes_off(1) [OF c2 1(1)]] by auto
  have "\<And>a a'. Inr (a\<lparr>a_proxy := q\<rparr>) = Inr a' \<Longrightarrow> a_name a' = a_name a \<and> passed_on a' = passed_on a \<and> a_proxy a' = q"
    by (auto simp: passed_on_def)
  note 3 = leave_votes [OF assms(1,2) a delta c1 c2 c3 this]
  obtain a' where a': "find_obj i (ch_accounts c3) = Some a'" "a_proxy a' = q" using 3(2) by blast
  have "negate_all L (map uminus (passed_on a)) = Inr delta'" using negate_all_iff [OF assms(1) delta] delta' by simp
  from join_votes [OF assms(1) 3(1) a' 3(4) len this c'] have 4: "votes_exact c'" "proxy_rel c' = proxy_rel c3" by auto
  have b: "find_obj p (ch_accounts c1) = Some b" using p(2) by (simp add: account_def find_obj_get)
  have tok: "tbl_ok (ch_accounts c1)" using wf1 by (simp add: votes_wf_def)
  have bn: "a_name b = q" using get_account_find [OF p(1) tok] b by auto
  have "map_option ballot_view (find_obj p (ch_accounts c2)) = Some (ballot_view b)"
    using clear_witness_votes_off(3) [OF c2 1(1), of p] b by simp
  then obtain b2 where b2: "find_obj p (ch_accounts c2) = Some b2" "a_name b2 = q" using bn by (auto simp: ballot_view_def)
  have "j = p" if "find_obj j (ch_accounts c2) = Some x" "a_name x = q" for j x using wf2 that b2 by (metis votes_wf_def)
  with 3(3) have "proxy_rel c3 \<subseteq> insert (i, p) (proxy_rel c)" by blast
  moreover have "(p, i) \<notin> (proxy_rel c)\<^sup>*"
    using check_proxy_chain_reach [OF chk b wf1, of i] p(3) 1(4) by (auto dest: rtranclD)
  ultimately have "acyclic (proxy_rel c3)" using acyc acyclic_insert acyclic_subset by metis
  with 4 show ?thesis by (simp add: votes_ok_def)
qed

lemma drop_proxy_votes:
  assumes "safe_laws L" and "votes_ok c" and a: "find_obj i (ch_accounts c) = Some a" "a_proxy a \<noteq> []"
    and delta: "negate_all L (passed_on a) = Inr delta" and c1: "adjust_proxied_witness_votes_row L i delta 0 c = Inr c1"
    and c': "modify_account i (\<lambda>a. Inr (a\<lparr>a_proxy := []\<rparr>)) c1 = Inr c'"
  shows "votes_ok c'"
proof -
  have off: "votes_exact c" and acyc: "acyclic (proxy_rel c)" using assms(2) by (simp_all add: votes_ok_def)
  note 1 = withdraw_votes [OF assms(1,2) a(1) delta c1]
  have "ballots i w c = 0" for w using no_ballots [OF votes_off_tables(2) [OF off] a] .
  then have off1: "votes_off c1 (\<lambda>n k. - (if n = a_proxy a then passes k a else 0)) (\<lambda>_. 0)" using 1(1) by simp
  have v: "map_option ballot_view (find_obj i (ch_accounts c1)) = Some (a_name a, a_proxy a, passed_on a)"
    using 1(2) by (simp add: ballot_view_def)
  have nv: "\<forall>v x. find_obj v (ch_witness_votes c1) = Some x \<longrightarrow> wv_account x \<noteq> i"
  proof (intro allI impI)
    fix v x assume "find_obj v (ch_witness_votes c1) = Some x"
    from votes_wf_voter [OF votes_off_tables(2) [OF off1] this]
    obtain b where "find_obj (wv_account x) (ch_accounts c1) = Some b" "a_proxy b = []" .
    with a(2) 1(2) show "wv_account x \<noteq> i" by auto
  qed
  have "\<And>a a'. Inr (a\<lparr>a_proxy := []\<rparr>) = Inr a' \<Longrightarrow> a_name a' = a_name a \<and> passed_on a' = passed_on a \<and> a_proxy a' = []"
    by (auto simp: passed_on_def)
  note 2 = set_proxy_off [OF c' this off1 v nv]
  show ?thesis
    using no_proxy_exact [OF 2(1)] no_proxy_acyclic [OF acyc votes_off_tables(2) [OF off1] 2(3) [unfolded 1(4)]]
    by (simp add: votes_ok_def)
qed

lemma apply_account_witness_proxy_votes:
  assumes "safe_laws L" and "apply_account_witness_proxy L op c = Inr c'" and "votes_ok c"
    and "awp_proxy op \<noteq> awp_account op"
  shows "votes_ok c'"
proof -
  obtain i a delta c1 where i: "get_account (awp_account op) c = Inr i" "find_obj i (ch_accounts c) = Some a" "a_proxy a \<noteq> awp_proxy op"
    "negate_all L (passed_on a) = Inr delta" "adjust_proxied_witness_votes_row L i delta 0 c = Inr c1"
    using assms(2) by (auto simp: apply_account_witness_proxy_def account_def find_obj_get)
  have off: "votes_exact c" using assms(3) by (simp add: votes_ok_def)
  show ?thesis
  proof (cases "awp_proxy op = []")
    case True
    then have "modify_account i (\<lambda>a. Inr (a\<lparr>a_proxy := []\<rparr>)) c1 = Inr c'"
      using assms(2) i by (auto simp: apply_account_witness_proxy_def account_def get_obj_def)
    from drop_proxy_votes [OF assms(1,3) i(2) _ i(4,5) this] i(3) True show ?thesis by simp
  next
    case False
    then obtain p b c2 c3 delta' where p: "get_account (awp_proxy op) c1 = Inr p" "account p c1 = Inr b"
      "check_proxy_chain b (remdups [i, p]) c1 = Inr ()" "clear_witness_votes i c1 = Inr c2"
      "modify_account i (\<lambda>a. Inr (a\<lparr>a_proxy := awp_proxy op\<rparr>)) c2 = Inr c3" "negate_all L delta = Inr delta'"
      "adjust_proxied_witness_votes_row L i delta' 0 c3 = Inr c'"
      using assms(2) i by (auto simp: apply_account_witness_proxy_def account_def get_obj_def split: option.splits)
    note 1 = withdraw_votes [OF assms(1,3) i(2,4,5)]
    have "a_name a = awp_account op" using get_account_find [OF i(1) votes_off_tables(1) [OF off]] i(2) by auto
    then have "p \<noteq> i" using get_account_find [OF p(1) votes_off_tables(1) [OF 1(1)]] 1(2) assms(4) by auto
    from new_proxy_votes [OF assms(1,3) i(2,4,5) p(1,2) this p(3-)] show ?thesis .
  qed
qed

lemma decline_votes_votes:
  assumes "safe_laws L" and "decline_votes L r c = Inr c'" and "votes_ok c"
  shows "votes_ok c'"
proof -
  let ?f = "\<lambda>a. Inr (a\<lparr>a_can_vote := False, a_proxy := STEEMIT_PROXY_TO_SELF_ACCOUNT\<rparr>) :: account_object res"
  obtain i a delta c1 c2 c3 t where i: "find_obj i (ch_accounts c) = Some a" "negate_all L (passed_on a) = Inr delta"
    "adjust_proxied_witness_votes_row L i delta 0 c = Inr c1" "clear_witness_votes i c1 = Inr c2" "modify_account i ?f c2 = Inr c3"
    and c': "c' = c3\<lparr>ch_declines := t\<rparr>"
    using assms(2) by (auto simp: decline_votes_def Let_def account_def find_obj_get)
  have f: "\<And>a a'. ?f a = Inr a' \<Longrightarrow> a_name a' = a_name a \<and> passed_on a' = passed_on a \<and> a_proxy a' = []"
    by (auto simp: passed_on_def STEEMIT_PROXY_TO_SELF_ACCOUNT_def)
  note 1 = withdraw_votes [OF assms(1,3) i(1-3)]
  have wf2: "votes_wf c2" using votes_off_tables(2) [OF clear_witness_votes_off(1) [OF i(4) 1(1)]] .
  note 3 = leave_votes [OF assms(1,3) i f]
  have "votes_ok c3"
    using no_proxy_exact [OF 3(1)] no_proxy_acyclic [OF _ wf2 3(3)] assms(3) unfolding votes_ok_def by blast
  then show ?thesis using same_tables_off [of c' c3 "\<lambda>_ _. 0" "\<lambda>_. 0"] c' unfolding votes_ok_def by simp
qed

lemma process_decline_voting_rights_votes:
  "safe_laws L \<Longrightarrow> process_decline_voting_rights L c = Inr c' \<Longrightarrow> votes_ok c \<Longrightarrow> votes_ok c'"
  using declines.loop_keeps [of L c c' votes_ok] decline_votes_votes by blast

end
