(* ===== verification/Vote_Frames.thy ===== *)
theory Vote_Frames
  imports Conservation Funds Vote_Invariant
begin

text \<open>
  Operations and block processing steps that move no vesting shares leave everything that the votes of
  the witnesses depend on as it was.
\<close>

section \<open>Changes that no vote sees\<close>

definition keeps_ballot :: "(account_object \<Rightarrow> account_object res) \<Rightarrow> bool" where
  "keeps_ballot f \<longleftrightarrow> (\<forall>a a'. f a = Inr a' \<longrightarrow> ballot_view a' = ballot_view a)"

lemmas ballot_defs = keeps_ballot_def ballot_view_def passed_on_def

lemma modify_account_unseen [votes_kept]:
  "modify_account i f c = Inr c' \<Longrightarrow> keeps_ballot f \<Longrightarrow> vote_view c' = vote_view c"
  by (erule modify_account_view) (simp add: keeps_ballot_def)

lemma table_views [simp]:
  "vote_view (c\<lparr>ch_escrows := e\<rparr>) = vote_view c" "vote_view (c\<lparr>ch_savings := s\<rparr>) = vote_view c"
  "vote_view (c\<lparr>ch_converts := v\<rparr>) = vote_view c" "vote_view (c\<lparr>ch_orders := ord\<rparr>) = vote_view c"
  "vote_view (c\<lparr>ch_routes := r\<rparr>) = vote_view c" "vote_view (c\<lparr>ch_declines := d\<rparr>) = vote_view c"
  "vote_view (c\<lparr>ch_delegations := g\<rparr>) = vote_view c" "vote_view (c\<lparr>ch_expirations := x\<rparr>) = vote_view c"
  "vote_view (c\<lparr>ch_liquidity := l\<rparr>) = vote_view c" "vote_view (c\<lparr>ch_reward_funds := f\<rparr>) = vote_view c"
  "vote_view (c\<lparr>ch_gpo := p\<rparr>) = vote_view c"
  by (simp_all add: vote_view_def)

lemma table_changes_unseen [votes_kept]:
  "modify_escrow i e c = Inr c' \<Longrightarrow> vote_view c' = vote_view c"
  "modify_order i h c = Inr c' \<Longrightarrow> vote_view c' = vote_view c"
  "modify_delegation i d c = Inr c' \<Longrightarrow> vote_view c' = vote_view c"
  "remove_escrow i c = Inr c' \<Longrightarrow> vote_view c' = vote_view c"
  "remove_order i c = Inr c' \<Longrightarrow> vote_view c' = vote_view c"
  "remove_savings i c = Inr c' \<Longrightarrow> vote_view c' = vote_view c"
  "remove_convert i c = Inr c' \<Longrightarrow> vote_view c' = vote_view c"
  by (auto simp: modify_escrow_def modify_order_def modify_delegation_def remove_escrow_def remove_order_def
      remove_savings_def remove_convert_def)

section \<open>Evaluators\<close>

lemma transfer_unseen [votes_kept]:
  "apply_transfer L op c = Inr c' \<Longrightarrow> vote_view c' = vote_view c"
  by (auto simp: apply_transfer_def votes_kept ballot_defs split: if_splits)

lemma escrow_unseen [votes_kept]:
  "apply_escrow_transfer L x c = Inr c' \<Longrightarrow> vote_view c' = vote_view c"
  "refund_escrow L f i c = Inr c' \<Longrightarrow> vote_view c' = vote_view c"
  "ratify b r p m msg i c = Inr c' \<Longrightarrow> vote_view c' = vote_view c"
  "pay_agent L n i c = Inr c' \<Longrightarrow> vote_view c' = vote_view c"
  "apply_escrow_dispute z c = Inr c' \<Longrightarrow> vote_view c' = vote_view c"
  "release_funds L f st sb i c = Inr c' \<Longrightarrow> vote_view c' = vote_view c"
  by (auto simp: apply_escrow_transfer_def refund_escrow_def ratify_def pay_agent_def apply_escrow_dispute_def
      release_funds_def votes_kept split: if_splits prod.splits)

lemma escrow_operations_unseen [votes_kept]:
  "apply_escrow_approve L x c = Inr c' \<Longrightarrow> vote_view c' = vote_view c"
  "apply_escrow_release L y c = Inr c' \<Longrightarrow> vote_view c' = vote_view c"
  by (auto simp: apply_escrow_approve_def apply_escrow_release_def Let_def votes_kept split: if_splits)

lemma withdrawal_unseen [votes_kept]:
  "apply_withdraw_vesting L w c = Inr c' \<Longrightarrow> vote_view c' = vote_view c"
  "apply_set_withdraw_vesting_route r c = Inr c' \<Longrightarrow> vote_view c' = vote_view c"
  by (auto simp: apply_withdraw_vesting_def apply_set_withdraw_vesting_route_def Let_def votes_kept ballot_defs
      split: if_splits option.splits elim!: modify_account_view)

lemma convert_unseen [votes_kept]:
  "apply_convert L y c = Inr c' \<Longrightarrow> vote_view c' = vote_view c"
  "apply_decline_voting_rights L z c = Inr c' \<Longrightarrow> vote_view c' = vote_view c"
  by (auto simp: apply_convert_def apply_decline_voting_rights_def Let_def votes_kept split: if_splits option.splits)

lemma savings_unseen [votes_kept]:
  "apply_transfer_to_savings L x c = Inr c' \<Longrightarrow> vote_view c' = vote_view c"
  "apply_transfer_from_savings L y c = Inr c' \<Longrightarrow> vote_view c' = vote_view c"
  "apply_cancel_transfer_from_savings L z c = Inr c' \<Longrightarrow> vote_view c' = vote_view c"
  by (auto simp: apply_transfer_to_savings_def apply_transfer_from_savings_def apply_cancel_transfer_from_savings_def
      votes_kept ballot_defs)

lemma keeps_ballot_delegation [simp]:
  "keeps_ballot (add_delegated L x)" "keeps_ballot (add_received L x)" "keeps_ballot (sub_received L x)"
  by (auto simp: ballot_defs delegation_defs)

lemma delegation_unseen [votes_kept]:
  "update_delegation L op i j x y z c = Inr c' \<Longrightarrow> vote_view c' = vote_view c"
  by (auto simp: update_delegation_def new_delegation_def increase_delegation_def decrease_delegation_def votes_kept
      split: option.splits if_splits)

lemma delegate_vesting_shares_unseen [votes_kept]:
  "apply_delegate_vesting_shares L op c = Inr c' \<Longrightarrow> vote_view c' = vote_view c"
  by (auto simp: apply_delegate_vesting_shares_def Let_def votes_kept)

section \<open>The market\<close>

lemma order_unseen [votes_kept]:
  "cancel_order L i c = Inr c' \<Longrightarrow> vote_view c' = vote_view c"
  "fill_order L i x y c = Inr (b, c') \<Longrightarrow> vote_view c' = vote_view c"
  "reward_maker L nw od v w c = Inr c' \<Longrightarrow> vote_view c' = vote_view c"
proof -
  show cancel: "cancel_order L i c = Inr c' \<Longrightarrow> vote_view c' = vote_view c" for i c c'
    by (auto simp: cancel_order_def votes_kept)
  show "fill_order L i x y c = Inr (b, c') \<Longrightarrow> vote_view c' = vote_view c"
    by (auto simp: fill_order_def votes_kept cancel split: if_splits)
  show "reward_maker L nw od v w c = Inr c' \<Longrightarrow> vote_view c' = vote_view c"
    by (auto simp: reward_maker_def adjust_liquidity_reward_def Let_def split: if_splits option.splits)
qed

lemma match_unseen [votes_kept]: "match L new old p c = Inr (r, c') \<Longrightarrow> vote_view c' = vote_view c"
  by (auto simp: match_def Let_def votes_kept)

lemma match_all_unseen [votes_kept]: "match_all L new olds c = Inr c' \<Longrightarrow> vote_view c' = vote_view c"
proof (induction olds arbitrary: c)
  case (Cons old olds)
  then obtain p r c1 where "match L new old p c = Inr (r, c1)" "c' = c1 \<or> match_all L new olds c1 = Inr c'"
    by (auto split: if_splits)
  then show ?case using Cons.IH match_unseen by metis
qed simp

lemma place_order_unseen [votes_kept]: "place_order L owner x pr obj fk c = Inr c' \<Longrightarrow> vote_view c' = vote_view c"
  by (auto simp: place_order_def apply_order_def Let_def votes_kept)

lemma market_unseen [votes_kept]:
  "apply_limit_order_create L x c = Inr c' \<Longrightarrow> vote_view c' = vote_view c"
  "apply_limit_order_create2 L y c = Inr c' \<Longrightarrow> vote_view c' = vote_view c"
  "apply_limit_order_cancel L z c = Inr c' \<Longrightarrow> vote_view c' = vote_view c"
  by (auto simp: apply_limit_order_create_def apply_limit_order_create2_def apply_limit_order_cancel_def votes_kept)

section \<open>Block processing\<close>

lemma fill_unseen [votes_kept]:
  "fill_savings L i c = Inr c' \<Longrightarrow> vote_view c' = vote_view c"
  "expire_escrow L i c = Inr c' \<Longrightarrow> vote_view c' = vote_view c"
  "return_delegation L i c = Inr c' \<Longrightarrow> vote_view c' = vote_view c"
  by (auto simp: fill_savings_def expire_escrow_def return_delegation_def Let_def votes_kept ballot_defs
      elim!: modify_account_view)

lemma fill_convert_unseen: "fill_convert L i s = Inr s' \<Longrightarrow> vote_view (fst s') = vote_view (fst s)"
  by (auto simp: fill_convert_def votes_kept split: prod.splits)

lemma process_savings_withdraws_unseen: "process_savings_withdraws L c = Inr c' \<Longrightarrow> vote_view c' = vote_view c"
  using savings.loop_keeps [of L c c' "\<lambda>d. vote_view d = vote_view c"] fill_unseen(1) by auto

lemma expire_escrow_ratification_unseen: "expire_escrow_ratification L c = Inr c' \<Longrightarrow> vote_view c' = vote_view c"
  using escrows.loop_keeps [of L c c' "\<lambda>d. vote_view d = vote_view c"] fill_unseen(2) by auto

lemma clear_expired_delegations_unseen: "clear_expired_delegations L c = Inr c' \<Longrightarrow> vote_view c' = vote_view c"
  using delegations.loop_keeps [of L c c' "\<lambda>d. vote_view d = vote_view c"] fill_unseen(3) by auto

lemma clear_expired_orders_unseen: "clear_expired_orders L c = Inr c' \<Longrightarrow> vote_view c' = vote_view c"
  using expired.loop_keeps [of L c c' "\<lambda>d. vote_view d = vote_view c"] order_unseen(1) by auto

lemma process_conversions_unseen:
  assumes "process_conversions L c = Inr c'"
  shows "vote_view c' = vote_view c"
proof -
  have "vote_view d = vote_view c" if "fill_converts L (c, x, y) = Inr (d, z)" for d x y z
    using converts.loop_keeps [OF that, of "\<lambda>t. vote_view (fst t) = vote_view c"] fill_convert_unseen by auto
  then show ?thesis
    using assms unfolding process_conversions_def by (auto simp: votes_kept split: if_splits)
qed

lemma pay_liquidity_reward_unseen: "pay_liquidity_reward L c = Inr c' \<Longrightarrow> vote_view c' = vote_view c"
  by (auto simp: pay_liquidity_reward_def votes_kept split: if_splits option.splits prod.splits)

lemma update_virtual_supply_unseen: "update_virtual_supply L c = Inr c' \<Longrightarrow> vote_view c' = vote_view c"
  by (auto simp: update_virtual_supply_def Let_def votes_kept)

end
