(* ===== verification/Vesting_Withdrawals.thy ===== *)
theory Vesting_Withdrawals
  imports Evaluators Account_Views "HOL-Library.Product_Lexorder"
begin

text \<open>
  \<open>process_vesting_withdrawals\<close> of \<open>chain/database.cpp\<close>: the weekly payment of accounts that power down.
  The loop runs over the index of the accounts by next withdrawal.  Its iterator moves on before the
  account is handled, and handling an account may move it ahead of the iterator again.
\<close>

section \<open>The amounts\<close>

text \<open>The last payment of a withdrawal is what the rate leaves over.\<close>

definition withdrawal_amount :: "fc_lib \<Rightarrow> account_object \<Rightarrow> int res" where
  "withdrawal_amount L a =
     rbind (safe_sub L (a_to_withdraw a) (a_withdrawn a)) (\<lambda>rest.
     if rest < amount (a_vesting_withdraw_rate a)
     then rbind (safe_mod L (a_to_withdraw a) (amount (a_vesting_withdraw_rate a))) (\<lambda>m.
          Inr (min (amount (a_vesting_shares a)) m))
     else Inr (min (amount (a_vesting_shares a)) (amount (a_vesting_withdraw_rate a))))"

definition route_share :: "fc_lib \<Rightarrow> int \<Rightarrow> withdraw_vesting_route_object \<Rightarrow> int res" where
  "route_share L to_withdraw r =
     rbind (u128_div L (u128_mul L (u128_of_int L to_withdraw) (u128_of_int L (uint (wr_percent r))))
       (u128_of_int L (int STEEMIT_100_PERCENT))) (\<lambda>q.
     rbind (to_uint64 L q) (\<lambda>v. Inr (sint v)))"

section \<open>The two passes over the routes\<close>

definition push_withdraw ::
  "oid \<Rightarrow> oid \<Rightarrow> asset \<Rightarrow> asset \<Rightarrow> chain \<Rightarrow> chain res" where
  "push_withdraw from_account to_account withdrawn deposited c =
     rbind (account from_account c) (\<lambda>f.
     rbind (account to_account c) (\<lambda>t.
     Inr (push_virtual_operation (Op_fill_vesting_withdraw
       \<lparr>vfw_from_account = a_name f, vfw_to_account = a_name t, vfw_withdrawn = withdrawn, vfw_deposited = deposited\<rparr>) c)))"

definition add_vests :: "fc_lib \<Rightarrow> int \<Rightarrow> account_object \<Rightarrow> account_object res" where
  "add_vests L x a =
     rbind (safe_add L (amount (a_vesting_shares a)) x) (\<lambda>y.
     Inr (a\<lparr>a_vesting_shares := mk_asset y (symbol (a_vesting_shares a))\<rparr>))"

text \<open>The first pass handles the routes that deposit vests.\<close>

definition deposit_vests ::
  "fc_lib \<Rightarrow> oid \<Rightarrow> int \<Rightarrow> withdraw_vesting_route_object \<Rightarrow> int \<times> chain \<Rightarrow> (int \<times> chain) res" where
  "deposit_vests L from_account to_withdraw r = (\<lambda>(deposited, c).
     if wr_auto_vest r
     then rbind (route_share L to_withdraw r) (\<lambda>to_deposit.
          rbind (safe_add L deposited to_deposit) (\<lambda>deposited.
          if to_deposit > 0
          then rbind (modify_account (wr_to_account r) (add_vests L to_deposit) c) (\<lambda>c.
               rbind (adjust_proxied_witness_votes L (wr_to_account r) to_deposit 0 c) (\<lambda>c.
               rbind (push_withdraw from_account (wr_to_account r) (mk_asset to_deposit VESTS_SYMBOL)
                 (mk_asset to_deposit VESTS_SYMBOL) c) (\<lambda>c.
               Inr (deposited, c))))
          else Inr (deposited, c)))
     else Inr (deposited, c))"

definition take_vesting_fund :: "fc_lib \<Rightarrow> asset \<Rightarrow> int \<Rightarrow> chain \<Rightarrow> chain res" where
  "take_vesting_fund L converted_steem vests c =
     modify_gpo (\<lambda>g.
       rbind (asset_minus_assign L (g_total_vesting_fund_steem g) converted_steem) (\<lambda>f.
       rbind (safe_sub L (amount (g_total_vesting_shares g)) vests) (\<lambda>y.
       Inr (g\<lparr>g_total_vesting_fund_steem := f,
              g_total_vesting_shares := mk_asset y (symbol (g_total_vesting_shares g))\<rparr>)))) c"

text \<open>The second pass handles the routes that deposit STEEM.\<close>

definition deposit_steem ::
  "fc_lib \<Rightarrow> oid \<Rightarrow> int \<Rightarrow> withdraw_vesting_route_object \<Rightarrow> int \<times> asset \<times> chain \<Rightarrow> (int \<times> asset \<times> chain) res" where
  "deposit_steem L from_account to_withdraw r = (\<lambda>(deposited, total_steem_converted, c).
     if \<not> wr_auto_vest r
     then rbind (account (wr_to_account r) c) (\<lambda>_.
          rbind (route_share L to_withdraw r) (\<lambda>to_deposit.
          rbind (safe_add L deposited to_deposit) (\<lambda>deposited.
          rbind (asset_times_price L (mk_asset to_deposit VESTS_SYMBOL) (get_vesting_share_price (ch_gpo c))) (\<lambda>converted_steem.
          rbind (asset_plus_assign L total_steem_converted converted_steem) (\<lambda>total_steem_converted.
          if to_deposit > 0
          then rbind (modify_account (wr_to_account r) (\<lambda>a.
                 rbind (asset_plus_assign L (a_balance a) converted_steem) (\<lambda>b. Inr (a\<lparr>a_balance := b\<rparr>))) c) (\<lambda>c.
               rbind (take_vesting_fund L converted_steem to_deposit c) (\<lambda>c.
               rbind (push_withdraw from_account (wr_to_account r) (mk_asset to_deposit VESTS_SYMBOL) converted_steem c) (\<lambda>c.
               Inr (deposited, total_steem_converted, c))))
          else Inr (deposited, total_steem_converted, c))))))
     else Inr (deposited, total_steem_converted, c))"

section \<open>One account\<close>

definition settle_withdrawal :: "fc_lib \<Rightarrow> int \<Rightarrow> asset \<Rightarrow> account_object \<Rightarrow> account_object res" where
  "settle_withdrawal L to_withdraw converted_steem a =
     rbind (safe_sub L (amount (a_vesting_shares a)) to_withdraw) (\<lambda>vests.
     rbind (asset_plus_assign L (a_balance a) converted_steem) (\<lambda>b.
     rbind (safe_add L (a_withdrawn a) to_withdraw) (\<lambda>withdrawn.
     let a = a\<lparr>a_vesting_shares := mk_asset vests (symbol (a_vesting_shares a)), a_balance := b, a_withdrawn := withdrawn\<rparr>
     in if a_withdrawn a \<ge> a_to_withdraw a \<or> amount (a_vesting_shares a) = 0
        then Inr (a\<lparr>a_vesting_withdraw_rate := mk_asset 0 (symbol (a_vesting_withdraw_rate a)),
                    a_next_vesting_withdrawal := time_maximum\<rparr>)
        else Inr (a\<lparr>a_next_vesting_withdrawal :=
                time_plus L (a_next_vesting_withdrawal a) (seconds STEEMIT_VESTING_WITHDRAW_INTERVAL_SECONDS)\<rparr>))))"

definition process_withdrawal :: "fc_lib \<Rightarrow> oid \<Rightarrow> chain \<Rightarrow> chain res" where
  "process_withdrawal L i c =
     rbind (account i c) (\<lambda>from_account.
     rbind (withdrawal_amount L from_account) (\<lambda>to_withdraw.
     rbind (fold_res (deposit_vests L i to_withdraw) (routes_of i c) (0, c)) (\<lambda>(vests_deposited_as_vests, c).
     rbind (fold_res (deposit_steem L i to_withdraw) (routes_of i c) (0, mk_asset 0 STEEM_SYMBOL, c))
       (\<lambda>(vests_deposited_as_steem, total_steem_converted, c).
     rbind (safe_sub L to_withdraw vests_deposited_as_steem) (\<lambda>x.
     rbind (safe_sub L x vests_deposited_as_vests) (\<lambda>to_convert.
     rbind (fc_assert (to_convert \<ge> 0) ''Deposited more vests than were supposed to be withdrawn'') (\<lambda>_.
     rbind (asset_times_price L (mk_asset to_convert VESTS_SYMBOL) (get_vesting_share_price (ch_gpo c))) (\<lambda>converted_steem.
     rbind (modify_account i (settle_withdrawal L to_withdraw converted_steem) c) (\<lambda>c.
     rbind (take_vesting_fund L converted_steem to_convert c) (\<lambda>c.
     rbind (if to_withdraw > 0
            then rbind (safe_neg L to_withdraw) (\<lambda>m. adjust_proxied_witness_votes L i m 0 c)
            else Inr c) (\<lambda>c.
     push_withdraw i i (mk_asset to_withdraw VESTS_SYMBOL) converted_steem c)))))))))))"

section \<open>The loop\<close>

definition withdrawal_time :: "chain \<Rightarrow> oid \<Rightarrow> time_point_sec" where
  "withdrawal_time c i = (case find_obj i (ch_accounts c) of None \<Rightarrow> 0 | Some a \<Rightarrow> a_next_vesting_withdrawal a)"

definition by_next_vesting_withdrawal :: "chain \<Rightarrow> (time_point_sec \<times> oid) list" where
  "by_next_vesting_withdrawal c = sort (map (\<lambda>(i, _). (withdrawal_time c i, i)) (gi_indices (ch_accounts c)))"

definition first_withdrawal :: "chain \<Rightarrow> oid option" where
  "first_withdrawal c = map_option snd (find (\<lambda>_. True) (by_next_vesting_withdrawal c))"

definition next_withdrawal :: "oid \<Rightarrow> chain \<Rightarrow> oid option" where
  "next_withdrawal i c = map_option snd (find (\<lambda>k. (withdrawal_time c i, i) < k) (by_next_vesting_withdrawal c))"

section \<open>What the steps keep of the accounts\<close>

lemma push_withdraw_accounts: "push_withdraw i j x y c = Inr c' \<Longrightarrow> ch_accounts c' = ch_accounts c"
  by (auto simp: push_withdraw_def)

lemma take_vesting_fund_accounts: "take_vesting_fund L x v c = Inr c' \<Longrightarrow> ch_accounts c' = ch_accounts c"
  by (auto simp: take_vesting_fund_def modify_gpo_def)

lemma add_vests_same: "add_vests L x a = Inr a' \<Longrightarrow> same_but_vesting a a'"
  by (auto simp: add_vests_def same_but_vesting_defs)

context vesting_relation
begin

lemma deposit_vests_rel:
  assumes "deposit_vests L i w r (d, c) = Inr (d', c')"
  shows "accounts_rel R c c'"
proof (cases "c' = c")
  case False
  with assms obtain x c1 c2 y z where x: "modify_account (wr_to_account r) (add_vests L x) c = Inr c1"
    "adjust_proxied_witness_votes L (wr_to_account r) x 0 c1 = Inr c2" "push_withdraw i (wr_to_account r) y z c2 = Inr c'"
    by (auto simp: deposit_vests_def split: if_splits)
  have "accounts_rel R c c1" using x(1) by (rule modify_rel) (blast intro: R_vesting add_vests_same)
  with adjust_proxied_witness_votes_rel [OF x(2)] rel_same [OF push_withdraw_accounts [OF x(3)]] show ?thesis
    by (blast intro: rel_trans)
qed (simp add: rel_same)

lemma deposit_steem_rel:
  assumes "deposit_steem L i w r (d, t, c) = Inr (d', t', c')"
  shows "accounts_rel R c c'"
proof (cases "c' = c")
  case False
  with assms obtain v x c1 c2 y z where
    x: "modify_account (wr_to_account r) (\<lambda>a. rbind (asset_plus_assign L (a_balance a) x) (\<lambda>b. Inr (a\<lparr>a_balance := b\<rparr>))) c = Inr c1"
    "take_vesting_fund L x v c1 = Inr c2" "push_withdraw i (wr_to_account r) y z c2 = Inr c'"
    by (auto simp: deposit_steem_def split: if_splits)
  have "accounts_rel R c c1"
    using x(1) by (rule modify_rel) (auto simp: asset_assign_defs same_but_balances_defs intro!: R_balances)
  with take_vesting_fund_accounts [OF x(2)] push_withdraw_accounts [OF x(3)] show ?thesis by (simp add: accounts_rel_def)
qed (simp add: rel_same)

lemma deposits_rel:
  assumes "fold_res (deposit_vests L i w) rs (d, c) = Inr (d', c')"
    and "fold_res (deposit_steem L i w) qs (e, t, c') = Inr (e', t', c'')"
  shows "accounts_rel R c c''"
proof -
  have "accounts_rel R c (snd (d', c'))"
    by (rule fold_res_invariant [OF assms(1), where P = "\<lambda>s. accounts_rel R c (snd s)"])
      (auto simp: rel_same dest!: deposit_vests_rel, blast intro: rel_trans)
  moreover have "accounts_rel R c' (snd (snd (e', t', c'')))"
    by (rule fold_res_invariant [OF assms(2), where P = "\<lambda>s. accounts_rel R c' (snd (snd s))"])
      (auto simp: rel_same dest!: deposit_steem_rel, blast intro: rel_trans)
  ultimately show ?thesis by (auto intro: rel_trans)
qed

end

text \<open>The parts of one turn.\<close>

lemma process_withdrawalE:
  assumes "process_withdrawal L i c = Inr c'"
  obtains a w dv c1 ds t c2 y z x c3 c4 c5 m where "account i c = Inr a" "withdrawal_amount L a = Inr w"
    "fold_res (deposit_vests L i w) (routes_of i c) (0, c) = Inr (dv, c1)"
    "fold_res (deposit_steem L i w) (routes_of i c1) (0, mk_asset 0 STEEM_SYMBOL, c1) = Inr (ds, t, c2)"
    "safe_sub L w ds = Inr y" "safe_sub L y dv = Inr z" "0 \<le> z"
    "asset_times_price L (mk_asset z VESTS_SYMBOL) (get_vesting_share_price (ch_gpo c2)) = Inr x"
    "modify_account i (settle_withdrawal L w x) c2 = Inr c3"
    "take_vesting_fund L x z c3 = Inr c4"
    "w \<le> 0 \<and> c5 = c4 \<or> 0 < w \<and> safe_neg L w = Inr m \<and> adjust_proxied_witness_votes L i m 0 c4 = Inr c5"
    "push_withdraw i i (mk_asset w VESTS_SYMBOL) x c5 = Inr c'"
  using assms unfolding process_withdrawal_def
  by (auto split: prod.splits if_splits) (metis linorder_not_less)+

interpretation any_change: vesting_relation "\<lambda>_ _. True"
  by unfold_locales auto

interpretation same_schedule: vesting_relation "\<lambda>a b. a_next_vesting_withdrawal b = a_next_vesting_withdrawal a"
  by unfold_locales
    (auto simp: without_balances_def without_vesting_def elim: same_but_balances_keeps same_but_vesting_keeps)

lemma same_schedule_time:
  assumes "accounts_rel (\<lambda>a b. a_next_vesting_withdrawal b = a_next_vesting_withdrawal a) c c'"
  shows "withdrawal_time c' = withdrawal_time c"
  using assms unfolding accounts_rel_def withdrawal_time_def fun_eq_iff
  by (auto simp: option.rel_sel split: option.splits)

lemma modify_account_other:
  assumes "modify_account i f c = Inr c'" and "j \<noteq> i"
  shows "find_obj j (ch_accounts c') = find_obj j (ch_accounts c)"
proof -
  obtain t where t: "db_modify account_clash i f (ch_accounts c) = Inr t" "c' = c\<lparr>ch_accounts := t\<rparr>"
    using assms(1) by (auto simp: modify_account_def)
  from t(1) show ?thesis by (rule db_modify_find) (use assms(2) t(2) in auto)
qed

text \<open>Handling an account changes the schedule of no other account.\<close>

lemma process_withdrawal_schedule:
  assumes "process_withdrawal L i c = Inr c'"
  shows "(j \<noteq> i \<longrightarrow> withdrawal_time c' j = withdrawal_time c j) \<and>
    fst ` set (gi_indices (ch_accounts c')) = fst ` set (gi_indices (ch_accounts c))"
  using assms
proof (rule process_withdrawalE)
  fix w dv c1 ds t c2 x c3 c4 c5 m z
  assume fold: "fold_res (deposit_vests L i w) (routes_of i c) (0, c) = Inr (dv, c1)"
      "fold_res (deposit_steem L i w) (routes_of i c1) (0, mk_asset 0 STEEM_SYMBOL, c1) = Inr (ds, t, c2)"
    and settle: "modify_account i (settle_withdrawal L w x) c2 = Inr c3"
    and fund: "take_vesting_fund L x z c3 = Inr c4"
    and votes: "w \<le> 0 \<and> c5 = c4 \<or> 0 < w \<and> safe_neg L w = Inr m \<and> adjust_proxied_witness_votes L i m 0 c4 = Inr c5"
    and push: "push_withdraw i i (mk_asset w VESTS_SYMBOL) x c5 = Inr c'"
  have 1: "withdrawal_time c2 = withdrawal_time c"
    using same_schedule.deposits_rel [OF fold] by (rule same_schedule_time)
  have 2: "j \<noteq> i \<Longrightarrow> withdrawal_time c3 j = withdrawal_time c2 j"
    using modify_account_other [OF settle] by (simp add: withdrawal_time_def)
  have "withdrawal_time c5 = withdrawal_time c4"
    using votes by (auto intro: same_schedule_time dest: same_schedule.adjust_proxied_witness_votes_rel)
  then have 3: "withdrawal_time c' = withdrawal_time c3"
    using take_vesting_fund_accounts [OF fund] push_withdraw_accounts [OF push] by (simp add: withdrawal_time_def fun_eq_iff)
  have r3: "accounts_rel (\<lambda>_ _. True) c2 c3" using settle by (rule any_change.modify_rel) simp
  have r5: "accounts_rel (\<lambda>_ _. True) c4 c5"
    using votes by (auto intro: any_change.rel_same any_change.adjust_proxied_witness_votes_rel)
  have "fst ` set (gi_indices (ch_accounts c')) = fst ` set (gi_indices (ch_accounts c))"
    using accounts_rel_ids [OF any_change.deposits_rel [OF fold]] accounts_rel_ids [OF r3] accounts_rel_ids [OF r5]
      take_vesting_fund_accounts [OF fund] push_withdraw_accounts [OF push] by simp
  with 1 2 3 show ?thesis by simp
qed

lemma next_withdrawal_later:
  assumes "next_withdrawal i c = Some j"
  shows "(withdrawal_time c i, i) < (withdrawal_time c j, j) \<and> j \<in> fst ` set (gi_indices (ch_accounts c))"
proof -
  obtain k where k: "find (\<lambda>k. (withdrawal_time c i, i) < k) (by_next_vesting_withdrawal c) = Some k" "j = snd k"
    using assms by (auto simp: next_withdrawal_def)
  from k(1) have "(withdrawal_time c i, i) < k \<and> k \<in> set (by_next_vesting_withdrawal c)"
    unfolding find_Some_iff by (metis nth_mem)
  with k(2) show ?thesis by (force simp: by_next_vesting_withdrawal_def)
qed

text \<open>The keys that come after the account of the iterator.\<close>

definition withdrawals_ahead :: "oid option \<Rightarrow> chain \<Rightarrow> (time_point_sec \<times> oid) set" where
  "withdrawals_ahead cur c = (case cur of None \<Rightarrow> {}
     | Some i \<Rightarrow> {k \<in> UNIV \<times> fst ` set (gi_indices (ch_accounts c)). (withdrawal_time c i, i) \<le> k})"

lemma withdrawals_ahead_less:
  assumes "account i c = Inr a" and "process_withdrawal L i c = Inr c'"
  shows "card (withdrawals_ahead (next_withdrawal i c) c') < card (withdrawals_ahead (Some i) c)"
proof (rule psubset_card_mono)
  show "finite (withdrawals_ahead (Some i) c)"
    unfolding withdrawals_ahead_def by (auto intro: finite_subset [OF _ finite_cartesian_product])
  have "i \<in> fst ` set (gi_indices (ch_accounts c))"
    using assms(1) fm_find_None [of "gi_indices (ch_accounts c)" i] by (auto simp: account_def find_obj_get find_obj_def)
  then have "(withdrawal_time c i, i) \<in> withdrawals_ahead (Some i) c" by (simp add: withdrawals_ahead_def)
  moreover have "withdrawals_ahead (next_withdrawal i c) c' \<subseteq> withdrawals_ahead (Some i) c - {(withdrawal_time c i, i)}"
  proof (cases "next_withdrawal i c")
    case (Some j)
    note later = next_withdrawal_later [OF Some]
    then have "j \<noteq> i" by auto
    with process_withdrawal_schedule [OF assms(2), of j] later Some show ?thesis
      by (auto simp: withdrawals_ahead_def)
  qed (simp add: withdrawals_ahead_def)
  ultimately show "withdrawals_ahead (next_withdrawal i c) c' \<subset> withdrawals_ahead (Some i) c" by blast
qed

function withdraw_from :: "fc_lib \<Rightarrow> oid option \<Rightarrow> chain \<Rightarrow> chain res" where
  "withdraw_from L cur c =
     (case cur of
        None \<Rightarrow> Inr c
      | Some i \<Rightarrow> rbind (account i c) (\<lambda>a.
          if a_next_vesting_withdrawal a \<le> head_block_time c
          then rbind (process_withdrawal L i c) (\<lambda>c'. withdraw_from L (next_withdrawal i c) c')
          else Inr c))"
  by pat_completeness auto

termination
  by (relation "measure (\<lambda>(L, cur, c). card (withdrawals_ahead cur c))") (auto intro: withdrawals_ahead_less)

declare withdraw_from.simps [simp del]

definition process_vesting_withdrawals :: "fc_lib \<Rightarrow> chain \<Rightarrow> chain res" where
  "process_vesting_withdrawals L c = withdraw_from L (first_withdrawal c) c"

end
