(* ===== verification/Withdrawal_Books.thy ===== *)
theory Withdrawal_Books
  imports Vesting_Withdrawals Vote_Invariant Asset_Text
begin

text \<open>
  \<open>process_vesting_withdrawals\<close> keeps the books and the votes.  The hypotheses on the state are collected in
  \<open>withdrawals_ok\<close>: vesting shares carry their symbol, amounts are in the range of their type, and no route
  takes more than all of a payment.  Every turn of the loop keeps them.  No amount needs to be positive: a turn
  with a negative payment throws.
\<close>

section \<open>The shares of the routes\<close>

definition withdrawable :: "account_object \<Rightarrow> bool" where
  "withdrawable a \<longleftrightarrow> symbol (a_vesting_shares a) = VESTS_SYMBOL \<and> asset_wf (a_vesting_shares a) \<and> asset_wf (a_vesting_withdraw_rate a)"

definition withdrawals_ok :: "chain \<Rightarrow> bool" where
  "withdrawals_ok c \<longleftrightarrow> symbol (g_total_vesting_shares (ch_gpo c)) = VESTS_SYMBOL \<and>
     (\<forall>i a. account i c = Inr a \<longrightarrow> withdrawable a) \<and>
     (\<forall>e \<in> set (gi_indices (ch_routes c)). unat (wr_percent (snd e)) \<le> STEEMIT_100_PERCENT)"

lemma withdrawal_amount_bounds:
  assumes "safe_laws L" and "withdrawal_amount L a = Inr w" and "withdrawable a"
  shows "in_i64 w \<and> w \<le> amount (a_vesting_shares a)"
proof -
  have m: "in_i64 m" if "safe_mod L x y = Inr m" for x y m using assms(1) that unfolding safe_laws_def by blast
  consider m where "in_i64 m" "w = min (amount (a_vesting_shares a)) m"
    | "w = min (amount (a_vesting_shares a)) (amount (a_vesting_withdraw_rate a))"
    using assms(2) m by (auto simp: withdrawal_amount_def split: if_splits)
  then show ?thesis
    by cases (use assms(3) in \<open>auto simp: withdrawable_def asset_wf_def min_def\<close>)
qed

text \<open>A share of a negative payment would have more than 64 bits, and \<open>to_uint64\<close> throws.\<close>

lemma negative_share_large:
  fixes w p :: int
  assumes "w < 0" and "in_i64 w" and "0 < p" and "p \<le> 10000"
  shows "2 ^ 64 \<le> (w * p) mod 2 ^ 128 div 10000"
proof -
  have "w * p < 0" using assms by (simp add: mult_neg_pos)
  moreover have "- (2 ^ 63) * 10000 \<le> w * p"
    using mult_mono [of "- w" "2 ^ 63" p 10000] assms by (simp add: in_i64_def)
  ultimately have "(w * p + 2 ^ 128) mod 2 ^ 128 = w * p + 2 ^ 128" by (intro mod_pos_pos_trivial) auto
  then have m: "(w * p) mod 2 ^ 128 = w * p + 2 ^ 128" by simp
  have "(2 ^ 64 * 10000) div 10000 \<le> (w * p + 2 ^ 128) div 10000"
    using \<open>- (2 ^ 63) * 10000 \<le> w * p\<close> by (intro zdiv_mono1) auto
  then show ?thesis unfolding m by simp
qed

lemma route_share_negative:
  assumes "uint128_laws L" and "route_share L w r = Inr x" and "w < 0" and "in_i64 w"
    and "unat (wr_percent r) \<le> STEEMIT_100_PERCENT"
  shows "x = 0"
proof -
  let ?p = "uint (wr_percent r)"
  have p: "0 \<le> ?p" "?p \<le> 10000" using of_nat_mono [OF assms(5), where 'a = int] by (simp_all add: STEEMIT_100_PERCENT_def)
  define q where "q = nat ((w * ?p) mod 2 ^ 128 div 10000)"
  have v: "u128_val (u128_of_int L y) = nat (y mod 2 ^ 128)" for y
    by (simp add: uint128_rules(1) [OF assms(1)] u128_val_of_nat)
  have "int (nat (w mod 2 ^ 128) * nat (?p mod 2 ^ 128) mod 2 ^ 128) = int (nat (w * ?p mod 2 ^ 128))"
    by (simp add: zmod_int mod_mult_eq)
  then have m: "u128_val (u128_mul L (u128_of_int L w) (u128_of_int L ?p)) = nat (w * ?p mod 2 ^ 128)"
    unfolding uint128_rules(4) [OF assms(1)] u128_val_of_nat v by (simp only: of_nat_eq_iff)
  have "u128_val (u128_of_int L (int STEEMIT_100_PERCENT)) = 10000" by (simp add: v STEEMIT_100_PERCENT_def)
  with m have "u128_div L (u128_mul L (u128_of_int L w) (u128_of_int L ?p)) (u128_of_int L (int STEEMIT_100_PERCENT)) = Inr (u128_of_nat q)"
    unfolding u128_div_iff [OF assms(1)] by (simp add: q_def nat_div_distrib)
  then have u: "hi (u128_of_nat q) = 0" "x = sint (lo (u128_of_nat q))"
    using assms(1,2) by (auto simp: route_share_def to_uint64_iff [OF assms(1)])
  have "q = nat ((w * ?p) mod 2 ^ 128) div 10000" by (simp add: q_def nat_div_distrib)
  moreover have "nat ((w * ?p) mod 2 ^ 128) < 2 ^ 128" by (simp add: nat_less_iff)
  ultimately have "q < 2 ^ 128" using div_le_dividend [of "nat ((w * ?p) mod 2 ^ 128)" 10000] by linarith
  then have "q < 2 ^ 64" using u(1) hi_u128_of_nat_eq_0 [of q] by simp
  then have "(w * ?p) mod 2 ^ 128 div 10000 < 2 ^ 64" unfolding q_def by (subst (asm) nat_less_iff) (simp_all add: pos_imp_zdiv_nonneg_iff)
  then have "?p = 0" using negative_share_large [OF assms(3,4), of ?p] p by linarith
  then show ?thesis using u(2) by (simp add: q_def u128_of_nat_def)
qed

lemma route_share_positive:
  assumes "uint128_laws L" and "route_share L w r = Inr x" and "0 \<le> w" and "w \<le> i64_max"
    and "unat (wr_percent r) \<le> STEEMIT_100_PERCENT"
  shows "0 \<le> x"
proof -
  let ?q = "w * uint (wr_percent r) div 10000"
  have p: "0 \<le> uint (wr_percent r)" "uint (wr_percent r) \<le> 10000"
    using of_nat_mono [OF assms(5), where 'a = int] by (simp_all add: STEEMIT_100_PERCENT_def)
  have "w * uint (wr_percent r) \<le> w * 10000" using p assms(3) by (intro mult_left_mono) auto
  then have "?q \<le> w * 10000 div 10000" by (rule zdiv_mono1) simp
  then have q: "0 \<le> ?q" "?q \<le> w" using p assms(3) by (simp_all add: pos_imp_zdiv_nonneg_iff)
  have "exchange L (mk_asset w VESTS_SYMBOL) (mk_asset 10000 VESTS_SYMBOL)
      (mk_asset (uint (wr_percent r)) VESTS_SYMBOL) = Inr (mk_asset x VESTS_SYMBOL)"
    using assms(2) by (auto simp: route_share_def exchange_def STEEMIT_100_PERCENT_def to_uint64_iff [OF assms(1)])
  then have "x = sint (lo (u128_of_nat (nat ?q)))"
    using assms(1,3,4) p by (subst (asm) exchange_iff) auto
  with q assms(4) sint_of_quotient [of ?q] show ?thesis by simp
qed

lemma route_share_nonneg:
  assumes "uint128_laws L" and "route_share L w r = Inr x" and "in_i64 w" and "unat (wr_percent r) \<le> STEEMIT_100_PERCENT"
  shows "0 \<le> x"
  using route_share_positive [OF assms(1,2) _ _ assms(4)] route_share_negative [OF assms(1,2) _ assms(3,4)] assms(3)
  by (cases "w < 0") (auto simp: in_i64_def)

section \<open>What a deposit keeps\<close>

definition grows :: "account_object \<Rightarrow> account_object \<Rightarrow> bool" where
  "grows a b \<longleftrightarrow> symbol (a_vesting_shares b) = symbol (a_vesting_shares a) \<and>
     amount (a_vesting_shares a) \<le> amount (a_vesting_shares b) \<and> (asset_wf (a_vesting_shares a) \<longrightarrow> asset_wf (a_vesting_shares b)) \<and>
     a_to_withdraw b = a_to_withdraw a \<and> a_vesting_withdraw_rate b = a_vesting_withdraw_rate a"

interpretation growing: balance_relation grows
proof unfold_locales
  fix a b assume s: "same_but_balances a b"
  have "a_vesting_shares b = a_vesting_shares a" "a_to_withdraw b = a_to_withdraw a"
    "a_vesting_withdraw_rate b = a_vesting_withdraw_rate a"
    using s by (rule same_but_balances_keeps, simp add: without_balances_def)+
  then show "grows a b" by (simp add: grows_def)
qed (auto simp: grows_def)

lemma withdrawable_grows: "withdrawable a \<Longrightarrow> grows a b \<Longrightarrow> withdrawable b"
  by (auto simp: withdrawable_def grows_def)

lemma withdrawals_ok_grows:
  assumes "withdrawals_ok c" and "accounts_rel grows c c'" and "ch_routes c' = ch_routes c"
    and "symbol (g_total_vesting_shares (ch_gpo c')) = symbol (g_total_vesting_shares (ch_gpo c))"
  shows "withdrawals_ok c'"
proof -
  have "withdrawable b" if b: "account i c' = Inr b" for i b
    using accounts_relD2 [OF assms(2) b] assms(1) by (auto simp: withdrawals_ok_def intro: withdrawable_grows)
  with assms show ?thesis by (simp add: withdrawals_ok_def)
qed

lemma adjust_witness_votes_gpo: "adjust_witness_votes L i delta c = Inr c' \<Longrightarrow> ch_gpo c' = ch_gpo c"
  unfolding adjust_witness_votes_def
  by (erule fold_res_invariant) (auto simp: adjust_witness_vote_def modify_witness_def Let_def)

lemma adjust_proxied_witness_votes_gpo:
  "adjust_proxied_witness_votes L i delta depth c = Inr c' \<Longrightarrow> ch_gpo c' = ch_gpo c"
proof (induction L i delta depth c arbitrary: c' rule: adjust_proxied_witness_votes.induct)
  case (1 L i delta depth c)
  note step = 1(2) [unfolded adjust_proxied_witness_votes.simps [of L i delta depth c]]
  then obtain a where a: "account i c = Inr a" by auto
  show ?case
  proof (cases "a_proxy a \<noteq> STEEMIT_PROXY_TO_SELF_ACCOUNT \<and> \<not> STEEMIT_MAX_PROXY_RECURSION_DEPTH \<le> depth")
    case True
    then obtain p c1 where p: "modify_account p (add_proxied_vote L depth delta) c = Inr c1"
      "adjust_proxied_witness_votes L p delta (depth + 1) c1 = Inr c'"
      using step a by auto
    then have "ch_gpo c1 = ch_gpo c" by (auto simp: modify_account_def)
    with 1(1) [OF _ _ p(2), of a] True show ?thesis by simp
  qed (use step a in \<open>auto split: if_splits dest: adjust_witness_votes_gpo\<close>)
qed

text \<open>The effect of depositing \<open>d\<close> vests of a payment.\<close>

definition pays :: "int \<Rightarrow> chain \<Rightarrow> chain \<Rightarrow> bool" where
  "pays d c c' \<longleftrightarrow> 0 \<le> d \<and> booked (\<lambda>s. - val s (mk_asset d VESTS_SYMBOL)) 0 c c' \<and> ledger_frame c c' \<and> votes_ok c' \<and>
     accounts_rel grows c c' \<and> withdrawals_ok c'"

lemma pays_refl: "tables_ok c \<Longrightarrow> withdrawals_ok c \<Longrightarrow> votes_ok c \<Longrightarrow> pays 0 c c"
  by (simp add: pays_def booked_refl growing.rel_same)

lemma pays_trans:
  assumes "pays d c c'" and "pays e c' c''"
  shows "pays (d + e) c c''"
  using assms booked_trans [of "\<lambda>s. - val s (mk_asset d VESTS_SYMBOL)" 0 c c' "\<lambda>s. - val s (mk_asset e VESTS_SYMBOL)" 0 c'']
  by (auto simp: pays_def intro: ledger_frame_trans growing.rel_trans elim!: booked_eq)

lemma push_withdraw_kept: "push_withdraw i j x y c = Inr c' \<Longrightarrow> \<exists>op. c' = push_virtual_operation op c"
  by (auto simp: push_withdraw_def)

lemma pays_push [simp]: "pays d c (push_virtual_operation op c') \<longleftrightarrow> pays d c c'"
proof -
  have "votes_ok (push_virtual_operation op c') = votes_ok c'"
    using votes_ok_view [of "push_virtual_operation op c'" c'] votes_ok_view [of c' "push_virtual_operation op c'"] votes_ok_tables
    by (metis push_fields(2) push_view)
  moreover have "withdrawals_ok (push_virtual_operation op c') = withdrawals_ok c'"
    by (simp add: withdrawals_ok_def) (simp add: push_virtual_operation_def)
  ultimately show ?thesis by (simp add: pays_def)
qed

lemma add_vests_iff:
  assumes "safe_laws L"
  shows "add_vests L x a = Inr a' \<longleftrightarrow> in_i64 (amount (a_vesting_shares a) + x) \<and>
    a' = a\<lparr>a_vesting_shares := mk_asset (amount (a_vesting_shares a) + x) (symbol (a_vesting_shares a))\<rparr>"
  by (auto simp: add_vests_def safe_iffs [OF assms])

lemma account_holds_vests:
  assumes "symbol (a_vesting_shares a) = VESTS_SYMBOL"
  shows "account_holds s (a\<lparr>a_vesting_shares := mk_asset (amount (a_vesting_shares a) + x) VESTS_SYMBOL\<rparr>) =
    account_holds s a + val s (mk_asset x VESTS_SYMBOL)"
  using assms by (simp add: account_holds_def)

lemma deposit_vests_pays:
  assumes "safe_laws L" and "uint128_laws L" and "in_i64 w" and "unat (wr_percent r) \<le> STEEMIT_100_PERCENT"
    and "deposit_vests L i w r (d, c) = Inr (d', c')" and "tables_ok c" and "withdrawals_ok c" and "votes_ok c"
  shows "pays (d' - d) c c'"
proof (cases "wr_auto_vest r")
  case True
  then obtain x where x: "route_share L w r = Inr x" "d' = d + x"
    using assms(5) by (auto simp: deposit_vests_def safe_iffs [OF assms(1)] split: if_splits)
  have "0 \<le> x" using route_share_nonneg [OF assms(2) x(1) assms(3-4)] .
  show ?thesis
  proof (cases "x = 0")
    case False
    with \<open>0 \<le> x\<close> True x obtain c1 c2 op where m: "modify_account (wr_to_account r) (add_vests L x) c = Inr c1"
      and v: "adjust_proxied_witness_votes L (wr_to_account r) x 0 c1 = Inr c2" and c': "c' = push_virtual_operation op c2"
      using assms(5) by (auto simp: deposit_vests_def split: if_splits dest!: push_withdraw_kept)
    have b1: "booked (\<lambda>s. - val s (mk_asset x VESTS_SYMBOL)) (- 0) c c1 \<and> ledger_frame c c1"
      using m assms(6) by (rule modify_account_books)
        (use assms(7) in \<open>auto simp: account_holds_vests withdrawals_ok_def withdrawable_def add_vests_iff [OF assms(1)]\<close>)
    have b2: "bookless c1 c2" using v booked_tables [OF conjunct1 [OF b1]] by (rule adjust_proxied_witness_votes_bookless)
    have "booked (\<lambda>s. - val s (mk_asset x VESTS_SYMBOL)) 0 c c2 \<and> ledger_frame c c2"
      using b1 b2 by (auto simp: bookless_def booked_def intro: ledger_frame_trans)
    moreover have "votes_ok c2"
      by (rule vesting_votes [OF assms(1,8) m _ _ _ _ v]) (auto simp: revests_def links_def add_vests_iff [OF assms(1)])
    moreover have rel: "accounts_rel grows c c2"
      using growing.modify_rel [OF m] growing.adjust_proxied_witness_votes_rel [OF v] \<open>0 \<le> x\<close>
      by (auto simp: grows_def asset_wf_def add_vests_iff [OF assms(1)] intro: growing.rel_trans)
    moreover have "withdrawals_ok c2"
      using assms(7) rel b1 b2 adjust_proxied_witness_votes_gpo [OF v] m
      by (auto intro: withdrawals_ok_grows simp: bookless_def ledger_frame_def modify_account_def)
    ultimately show ?thesis using x(2) c' \<open>0 \<le> x\<close> by (simp add: pays_def [of _ _ c2])
  qed (use True x assms in \<open>auto simp: deposit_vests_def intro: pays_refl\<close>)
qed (use assms in \<open>auto simp: deposit_vests_def intro: pays_refl\<close>)

lemma take_vesting_fund_booked:
  assumes "safe_laws L" and "take_vesting_fund L x v c = Inr c'" and "tables_ok c"
    and "symbol (g_total_vesting_shares (ch_gpo c)) = VESTS_SYMBOL"
  shows "booked (\<lambda>s. val s x - val s (mk_asset v VESTS_SYMBOL)) 0 c c' \<and> ledger_frame c c'"
    and "symbol (g_total_vesting_shares (ch_gpo c')) = VESTS_SYMBOL" and "vote_view c' = vote_view c"
proof -
  show "booked (\<lambda>s. val s x - val s (mk_asset v VESTS_SYMBOL)) 0 c c' \<and> ledger_frame c c'"
    using assms(2) [unfolded take_vesting_fund_def] assms(3)
    by (rule modify_gpo_books)
      (use assms(4) in \<open>auto simp: asset_arith_iffs [OF assms(1)] safe_iffs [OF assms(1)] gpo_issued_def gpo_holds_def\<close>)
  show "symbol (g_total_vesting_shares (ch_gpo c')) = VESTS_SYMBOL"
    using assms(2,4) by (auto simp: take_vesting_fund_def modify_gpo_def)
  show "vote_view c' = vote_view c"
    using assms(2) by (auto simp: take_vesting_fund_def dest: modify_gpo_view)
qed

lemma deposit_steem_pays:
  assumes "safe_laws L" and "uint128_laws L" and "in_i64 w" and "unat (wr_percent r) \<le> STEEMIT_100_PERCENT"
    and "deposit_steem L i w r (d, t, c) = Inr (d', t', c')" and "tables_ok c" and "withdrawals_ok c" and "votes_ok c"
  shows "pays (d' - d) c c'"
proof (cases "wr_auto_vest r")
  case False
  then obtain x where x: "route_share L w r = Inr x" "d' = d + x"
    using assms(5) by (auto simp: deposit_steem_def safe_iffs [OF assms(1)] split: if_splits)
  have "0 \<le> x" using route_share_nonneg [OF assms(2) x(1) assms(3-4)] .
  show ?thesis
  proof (cases "x = 0")
    case False
    with \<open>0 \<le> x\<close> \<open>\<not> wr_auto_vest r\<close> x obtain y c1 c2 op where
      m: "modify_account (wr_to_account r) (\<lambda>a. rbind (asset_plus_assign L (a_balance a) y) (\<lambda>b. Inr (a\<lparr>a_balance := b\<rparr>))) c = Inr c1"
      and g: "take_vesting_fund L y x c1 = Inr c2" and c': "c' = push_virtual_operation op c2"
      using assms(5) by (auto simp: deposit_steem_def split: if_splits dest!: push_withdraw_kept)
    have b1: "booked (\<lambda>s. - val s y) (- 0) c c1 \<and> ledger_frame c c1"
      using m assms(6) by (rule modify_account_books) (auto simp: account_holds_def asset_arith_iffs [OF assms(1)])
    have sym: "symbol (g_total_vesting_shares (ch_gpo c1)) = VESTS_SYMBOL"
      using assms(7) m by (auto simp: withdrawals_ok_def modify_account_def)
    note b2 = take_vesting_fund_booked [OF assms(1) g booked_tables [OF conjunct1 [OF b1]] sym]
    have b: "booked (\<lambda>s. - val s (mk_asset x VESTS_SYMBOL)) 0 c c2 \<and> ledger_frame c c2"
      using b1 b2(1) by (auto simp: booked_def intro: ledger_frame_trans)
    moreover have "vote_view c1 = vote_view c"
      using m by (rule modify_account_view) (auto simp: ballot_view_def passed_on_def)
    with b2(3) b assms(8) have "votes_ok c2"
      by (intro votes_ok_view [where c' = c2 and c = c]) (auto simp: booked_def tables_ok_def)
    moreover have rel: "accounts_rel grows c c2"
    proof -
      have "accounts_rel grows c c1" using m by (rule growing.modify_rel) (auto simp: grows_def)
      then show ?thesis using take_vesting_fund_accounts [OF g] by (simp add: accounts_rel_def)
    qed
    moreover have "withdrawals_ok c2"
      by (rule withdrawals_ok_grows [OF assms(7) rel])
        (use assms(7) b b2(2) in \<open>simp_all add: ledger_frame_def withdrawals_ok_def\<close>)
    ultimately show ?thesis using x(2) c' \<open>0 \<le> x\<close> by (simp add: pays_def [of _ _ c2])
  qed (use False x assms in \<open>auto simp: deposit_steem_def intro: pays_refl\<close>)
qed (use assms in \<open>auto simp: deposit_steem_def intro: pays_refl\<close>)

section \<open>One turn and the loop\<close>

lemma deposits_pay:
  assumes "safe_laws L" and "uint128_laws L" and "in_i64 w"
    and "fold_res (deposit_vests L i w) (routes_of i c) (0, c) = Inr (dv, c1)"
    and "fold_res (deposit_steem L i w) (routes_of i c1) (0, t, c1) = Inr (ds, t', c2)"
    and "tables_ok c" and "withdrawals_ok c" and "votes_ok c"
  shows "pays (dv + ds) c c2"
proof -
  have routes: "unat (wr_percent r) \<le> STEEMIT_100_PERCENT" if "r \<in> set (routes_of i d)" "withdrawals_ok d" for r d
    using that by (auto simp: routes_of_def withdrawals_ok_def)
  have "pays (fst (dv, c1)) c (snd (dv, c1))"
  proof (rule fold_res_invariant [OF assms(4), where P = "\<lambda>s. pays (fst s) c (snd s)"])
    fix r s u
    assume r: "r \<in> set (routes_of i c)" and s: "pays (fst s) c (snd s)" and u: "deposit_vests L i w r s = Inr u"
    have "pays (fst u - fst s) (snd s) (snd u)"
      by (rule deposit_vests_pays [OF assms(1-3) routes [OF r assms(7)]])
        (use s u in \<open>auto simp: pays_def dest: booked_tables\<close>)
    from pays_trans [OF s this] show "pays (fst u) c (snd u)" by simp
  qed (simp add: pays_refl assms)
  then have 1: "pays dv c c1" by simp
  then have ok: "tables_ok c1" "withdrawals_ok c1" "votes_ok c1" by (auto simp: pays_def dest: booked_tables)
  have "pays (fst (ds, t', c2)) c1 (snd (snd (ds, t', c2)))"
  proof (rule fold_res_invariant [OF assms(5), where P = "\<lambda>s. pays (fst s) c1 (snd (snd s))"])
    fix r s u
    assume r: "r \<in> set (routes_of i c1)" and s: "pays (fst s) c1 (snd (snd s))" and u: "deposit_steem L i w r s = Inr u"
    have "pays (fst u - fst s) (snd (snd s)) (snd (snd u))"
      by (rule deposit_steem_pays [OF assms(1-3) routes [OF r ok(2)], where t = "fst (snd s)" and t' = "fst (snd u)"])
        (use s u in \<open>auto simp: pays_def dest: booked_tables\<close>)
    from pays_trans [OF s this] show "pays (fst u) c1 (snd (snd u))" by simp
  qed (simp add: pays_refl ok)
  with 1 show ?thesis by (auto intro: pays_trans)
qed

lemma in_i64_zero: "in_i64 0"
  by (simp add: in_i64_def)

lemma settle_withdrawal_keeps:
  assumes "safe_laws L" and "settle_withdrawal L w x a = Inr a'"
  shows "revests (- w) a a' \<and> a_reward_vesting_steem a' = a_reward_vesting_steem a \<and>
    (symbol (a_vesting_shares a) = VESTS_SYMBOL \<longrightarrow> (\<forall>s.
      account_holds s a' = account_holds s a + (val s x - val s (mk_asset w VESTS_SYMBOL)))) \<and>
    (withdrawable a \<longrightarrow> withdrawable a')"
  using assms(2) in_i64_zero
  by (auto simp: settle_withdrawal_def Let_def safe_iffs [OF assms(1)] asset_arith_iffs [OF assms(1)] revests_def links_def
      account_holds_def withdrawable_def asset_wf_def split: if_splits)

definition withdrawal_state :: "chain \<Rightarrow> bool" where
  "withdrawal_state c \<longleftrightarrow> tables_ok c \<and> withdrawals_ok c \<and> votes_ok c"

lemma settle_accounts:
  assumes "safe_laws L" and "modify_account i (settle_withdrawal L w x) c = Inr c'" and "withdrawals_ok c"
  shows "account j c' = Inr b \<Longrightarrow> withdrawable b"
proof (cases "j = i")
  case False
  assume "account j c' = Inr b"
  then have "account j c = Inr b" using modify_account_other [OF assms(2) False] by (simp add: account_def get_obj_def)
  then show "withdrawable b" using assms(3) by (simp add: withdrawals_ok_def)
next
  case True
  assume b: "account j c' = Inr b"
  obtain t where t: "db_modify account_clash i (settle_withdrawal L w x) (ch_accounts c) = Inr t" "c' = c\<lparr>ch_accounts := t\<rparr>"
    using assms(2) by (auto simp: modify_account_def)
  from t(1) obtain a a' where a: "find_obj i (ch_accounts c) = Some a" "settle_withdrawal L w x a = Inr a'" "find_obj i t = Some a'"
    by (rule db_modify_find) auto
  then have "b = a'" using True b t(2) by (simp add: account_def get_obj_def)
  moreover have "account i c = Inr a" using a(1) by (simp add: account_def find_obj_get)
  ultimately show "withdrawable b"
    using settle_withdrawal_keeps [OF assms(1) a(2)] assms(3) by (simp add: withdrawals_ok_def)
qed

lemma process_withdrawal_keeps:
  assumes "safe_laws L" and "uint128_laws L" and "process_withdrawal L i c = Inr c'" and "withdrawal_state c"
  shows "booked (\<lambda>_. 0) 0 c c' \<and> ledger_frame c c' \<and> withdrawal_state c'"
  using assms(3)
proof (rule process_withdrawalE)
  fix a w dv c1 ds t c2 y z x c3 c4 c5 m
  assume a: "account i c = Inr a" and w: "withdrawal_amount L a = Inr w"
    and fold: "fold_res (deposit_vests L i w) (routes_of i c) (0, c) = Inr (dv, c1)"
      "fold_res (deposit_steem L i w) (routes_of i c1) (0, mk_asset 0 STEEM_SYMBOL, c1) = Inr (ds, t, c2)"
    and sub: "safe_sub L w ds = Inr y" "safe_sub L y dv = Inr z" "0 \<le> z"
    and settle: "modify_account i (settle_withdrawal L w x) c2 = Inr c3"
    and fund: "take_vesting_fund L x z c3 = Inr c4"
    and votes: "w \<le> 0 \<and> c5 = c4 \<or> 0 < w \<and> safe_neg L w = Inr m \<and> adjust_proxied_witness_votes L i m 0 c4 = Inr c5"
    and push: "push_withdraw i i (mk_asset w VESTS_SYMBOL) x c5 = Inr c'"
  have c: "tables_ok c" "withdrawals_ok c" "votes_ok c" using assms(4) by (simp_all add: withdrawal_state_def)
  have wa: "withdrawable a" using c(2) a by (simp add: withdrawals_ok_def)
  note wb = withdrawal_amount_bounds [OF assms(1) w wa]
  note pays = deposits_pay [OF assms(1,2) conjunct1 [OF wb] fold c]
  then have c2: "tables_ok c2" "withdrawals_ok c2" "votes_ok c2" "ledger_frame c c2"
    by (auto simp: pays_def dest: booked_tables)
  have z: "z = w - ds - dv" using sub by (auto simp: safe_iffs [OF assms(1)])
  have w0: "0 \<le> w" using z \<open>0 \<le> z\<close> pays by (simp add: pays_def)
  have b3: "booked (\<lambda>s. - (val s x - val s (mk_asset w VESTS_SYMBOL))) (- 0) c2 c3 \<and> ledger_frame c2 c3"
    using settle c2(1)
    by (rule modify_account_books)
      (use c2(2) in \<open>auto simp: withdrawals_ok_def withdrawable_def dest!: settle_withdrawal_keeps [OF assms(1)]\<close>)
  have sym: "symbol (g_total_vesting_shares (ch_gpo c3)) = VESTS_SYMBOL"
    using c2(2) settle by (auto simp: withdrawals_ok_def modify_account_def)
  note b4 = take_vesting_fund_booked [OF assms(1) fund booked_tables [OF conjunct1 [OF b3]] sym]
  have b5: "bookless c4 c5"
    using votes b4(1) by (auto intro: bookless_refl adjust_proxied_witness_votes_bookless dest: booked_tables)
  have b: "booked (\<lambda>_. 0) 0 c c5 \<and> ledger_frame c c5"
    using pays b3 b4(1) b5 c2(4) z by (auto simp: pays_def bookless_def booked_def intro: ledger_frame_trans)
  have eq: "ch_accounts c4 = ch_accounts c3" using fund by (rule take_vesting_fund_accounts)
  have "votes_ok c5"
  proof (cases "0 < w")
    case True
    then have v: "adjust_proxied_witness_votes L i (- w) 0 c4 = Inr c5" using votes by (auto simp: safe_iffs [OF assms(1)])
    show ?thesis
      by (rule vesting_votes [OF assms(1) c2(3) settle _ eq _ _ v])
        (use b4(3) settle_withdrawal_keeps [OF assms(1)] in \<open>auto simp: vote_view_def\<close>)
  next
    case False
    then have "vote_view c3 = vote_view c2"
      using w0 settle by (intro modify_account_view) (auto simp: ballot_view_def passed_on_def revests_def links_def
        dest!: settle_withdrawal_keeps [OF assms(1)])
    then have "vote_view c5 = vote_view c2" using False votes b4(3) by simp
    then show ?thesis using c2(3) b by (intro votes_ok_view [of c5 c2]) (auto simp: booked_def tables_ok_def)
  qed
  moreover have "withdrawals_ok c5"
  proof (rule withdrawals_ok_grows)
    show "withdrawals_ok c4"
      using settle_accounts [OF assms(1) settle c2(2)] b4(1,2) b3 c2(2) eq
      by (auto simp: withdrawals_ok_def ledger_frame_def account_def)
    show "accounts_rel grows c4 c5" "symbol (g_total_vesting_shares (ch_gpo c5)) = symbol (g_total_vesting_shares (ch_gpo c4))"
      using votes by (auto intro: growing.rel_same growing.adjust_proxied_witness_votes_rel dest: adjust_proxied_witness_votes_gpo)
    show "ch_routes c5 = ch_routes c4" using b5 by (simp add: bookless_def ledger_frame_def)
  qed
  moreover obtain op where "c' = push_virtual_operation op c5" using push_withdraw_kept [OF push] by blast
  ultimately show ?thesis using b pays_push [of 0 c5 op c5] pays_refl [of c5]
    by (auto simp: withdrawal_state_def pays_def dest: booked_tables)
qed

lemma withdraw_from_keeps:
  assumes "safe_laws L" and "uint128_laws L" and "withdraw_from L cur c = Inr c'" and "withdrawal_state c"
  shows "booked (\<lambda>_. 0) 0 c c' \<and> ledger_frame c c' \<and> withdrawal_state c'"
  using assms
proof (induction L cur c rule: withdraw_from.induct)
  case (1 L cur c)
  note step = 1(4) [unfolded withdraw_from.simps [of L cur c]]
  consider "c' = c" | i a d where "cur = Some i" "account i c = Inr a" "a_next_vesting_withdrawal a \<le> head_block_time c"
    "process_withdrawal L i c = Inr d" "withdraw_from L (next_withdrawal i c) d = Inr c'"
    using step by (auto split: option.splits if_splits)
  then show ?case
  proof cases
    case 1
    then show ?thesis using \<open>withdrawal_state c\<close> by (simp add: withdrawal_state_def booked_refl)
  next
    case 2
    note d = process_withdrawal_keeps [OF \<open>safe_laws L\<close> \<open>uint128_laws L\<close> 2(4) \<open>withdrawal_state c\<close>]
    from 1(1) [OF 2(1-4) \<open>safe_laws L\<close> \<open>uint128_laws L\<close> 2(5)] d show ?thesis
      by (auto simp: booked_def intro: ledger_frame_trans)
  qed
qed

lemma process_vesting_withdrawals_keeps:
  assumes "safe_laws L" and "uint128_laws L" and "process_vesting_withdrawals L c = Inr c'" and "withdrawal_state c"
  shows "booked (\<lambda>_. 0) 0 c c' \<and> ledger_frame c c' \<and> withdrawal_state c'"
  using withdraw_from_keeps [OF assms(1,2) _ assms(4)] assms(3) by (simp add: process_vesting_withdrawals_def)

end
