(* ===== verification/Witness_Schedule.thy ===== *)
theory Witness_Schedule
  imports Balances "HOL-Library.Product_Lexorder" "HOL-Library.Multiset"
begin

text \<open>
  Who produces the next blocks: \<open>chain/witness_schedule.cpp\<close>.  Every 21 blocks the witnesses with most
  votes and those whose virtual time has come are chosen, their versions and hard fork votes are counted,
  the order is shuffled with a generator seeded by the block time, and the medians of their properties
  take effect.

  The loops walk over an index while they change members that are not part of its key, so the list of
  ids is that of the start of the loop.  \<open>std::sort\<close> does not fix the order of equal elements; the model
  takes the stable one.
\<close>

section \<open>Access\<close>

definition witness_at :: "oid \<Rightarrow> chain \<Rightarrow> witness_object res" where
  "witness_at i c = get_obj i (ch_witnesses c)"

definition witness_named :: "account_name_type \<Rightarrow> chain \<Rightarrow> witness_object res" where
  "witness_named n c = rbind (get_witness n c) (\<lambda>i. witness_at i c)"

text \<open>The indices \<open>by_vote_name\<close> and \<open>by_schedule_time\<close>.\<close>

definition by_vote_name :: "chain \<Rightarrow> oid list" where
  "by_vote_name c = map fst (sort_key (\<lambda>(i, w). (- w_votes w, w_owner w)) (gi_indices (ch_witnesses c)))"

definition by_schedule_time :: "chain \<Rightarrow> oid list" where
  "by_schedule_time c =
     map fst (sort_key (\<lambda>(i, w). (u128_val (w_virtual_scheduled_time w), i)) (gi_indices (ch_witnesses c)))"

text \<open>The witnesses of the current round, in their order.\<close>

definition scheduled_names :: "witness_schedule_object \<Rightarrow> account_name_type list" where
  "scheduled_names wso = map (\<lambda>i. ws_current_shuffled_witnesses wso ! i) [0..<unat (ws_num_scheduled_witnesses wso)]"

fun map_res :: "('a \<Rightarrow> 'b res) \<Rightarrow> 'a list \<Rightarrow> 'b list res" where
  "map_res f [] = Inr []"
| "map_res f (x # xs) = rbind (f x) (\<lambda>y. rbind (map_res f xs) (\<lambda>ys. Inr (y # ys)))"

definition scheduled_witnesses :: "chain \<Rightarrow> witness_object list res" where
  "scheduled_witnesses c = map_res (\<lambda>n. witness_named n c) (scheduled_names (ch_wso c))"

section \<open>Virtual time\<close>

definition lap :: "fc_lib \<Rightarrow> witness_object \<Rightarrow> uint128 res" where
  "lap L w = u128_div L VIRTUAL_SCHEDULE_LAP_LENGTH2 (u128_of_int L (wrap64 (w_votes w + 1)))"

definition reset_virtual_schedule_time :: "fc_lib \<Rightarrow> chain \<Rightarrow> chain res" where
  "reset_virtual_schedule_time L c =
     (let c = c\<lparr>ch_wso := (ch_wso c)\<lparr>ws_current_virtual_time := \<lparr>hi = 0, lo = 0\<rparr>\<rparr>\<rparr>
      in fold_res (\<lambda>i c. modify_witness i (\<lambda>w.
           rbind (lap L w) (\<lambda>t.
           Inr (w\<lparr>w_virtual_position := \<lparr>hi = 0, lo = 0\<rparr>, w_virtual_last_update := ws_current_virtual_time (ch_wso c),
                  w_virtual_scheduled_time := t\<rparr>))) c)
         (map fst (gi_indices (ch_witnesses c))) c)"

text \<open>The new scheduled times of the witnesses that were passed over; the walk stops at an overflow.\<close>

fun advance_witnesses :: "fc_lib \<Rightarrow> uint128 \<Rightarrow> oid list \<Rightarrow> chain \<Rightarrow> (bool \<times> chain) res" where
  "advance_witnesses L new_virtual_time [] c = Inr (False, c)"
| "advance_witnesses L new_virtual_time (i # is) c =
     rbind (witness_at i c) (\<lambda>w.
     rbind (lap L w) (\<lambda>t.
     let new_virtual_scheduled_time = u128_add L new_virtual_time t
     in if u128_less L new_virtual_scheduled_time new_virtual_time then Inr (True, c)
        else rbind (modify_witness i (\<lambda>w. Inr (w\<lparr>w_virtual_position := \<lparr>hi = 0, lo = 0\<rparr>,
               w_virtual_last_update := new_virtual_time, w_virtual_scheduled_time := new_virtual_scheduled_time\<rparr>)) c) (\<lambda>c.
             advance_witnesses L new_virtual_time is c)))"

section \<open>Medians\<close>

definition median_by :: "('a \<Rightarrow> 'k :: linorder) \<Rightarrow> 'a list \<Rightarrow> 'a" where
  "median_by k xs = sort_key k xs ! (length xs div 2)"

definition update_median_witness_props :: "chain \<Rightarrow> chain res" where
  "update_median_witness_props c =
     rbind (scheduled_witnesses c) (\<lambda>active.
     let fee = cp_account_creation_fee (w_props (median_by (\<lambda>w. amount (cp_account_creation_fee (w_props w))) active));
         block_size = cp_maximum_block_size (w_props (median_by (\<lambda>w. cp_maximum_block_size (w_props w)) active));
         rate = cp_sbd_interest_rate (w_props (median_by (\<lambda>w. cp_sbd_interest_rate (w_props w)) active))
     in Inr (c\<lparr>ch_wso := (ch_wso c)\<lparr>ws_median_props := \<lparr>cp_account_creation_fee = fee, cp_maximum_block_size = block_size,
                  cp_sbd_interest_rate = rate\<rparr>\<rparr>,
               ch_gpo := (ch_gpo c)\<lparr>g_maximum_block_size := block_size, g_sbd_interest_rate := rate\<rparr>\<rparr>))"

section \<open>Selection\<close>

text \<open>The witnesses with most votes, and the names of the round so far.\<close>

fun select_voted ::
  "nat \<Rightarrow> oid list \<Rightarrow> oid list \<times> account_name_type list \<times> chain \<Rightarrow> (oid list \<times> account_name_type list \<times> chain) res" where
  "select_voted m [] s = Inr s"
| "select_voted m (i # is) (selected, active, c) =
     (if length selected < m
      then rbind (witness_at i c) (\<lambda>w.
           if w_signing_key w = 0 then select_voted m is (selected, active, c)
           else rbind (modify_witness i (\<lambda>w. Inr (w\<lparr>w_schedule := top19\<rparr>)) c) (\<lambda>c.
                select_voted m is (selected @ [i], active @ [w_owner w], c)))
      else Inr (selected, active, c))"

text \<open>Then the witnesses whose scheduled time comes first.\<close>

record runner_state =
  rs_count :: nat
  rs_virtual_time :: uint128
  rs_processed :: "oid list"
  rs_active :: "account_name_type list"
  rs_chain :: chain

fun select_runners :: "oid list \<Rightarrow> oid list \<Rightarrow> runner_state \<Rightarrow> runner_state res" where
  "select_runners selected_voted [] s = Inr s"
| "select_runners selected_voted (i # is) s =
     (if rs_count s < STEEMIT_MAX_WITNESSES
      then rbind (witness_at i (rs_chain s)) (\<lambda>w.
           let s = s\<lparr>rs_virtual_time := w_virtual_scheduled_time w, rs_processed := rs_processed s @ [i]\<rparr>
           in if w_signing_key w = 0 then select_runners selected_voted is s
              else if i \<notin> set selected_voted
              then rbind (modify_witness i (\<lambda>w. Inr (w\<lparr>w_schedule := timeshare\<rparr>)) (rs_chain s)) (\<lambda>c.
                   select_runners selected_voted is
                     (s\<lparr>rs_active := rs_active s @ [w_owner w], rs_count := rs_count s + 1, rs_chain := c\<rparr>))
              else select_runners selected_voted is s)
      else Inr s)"

section \<open>Versions\<close>

definition count_in :: "'k :: linorder \<Rightarrow> ('k, nat) flat_map \<Rightarrow> ('k, nat) flat_map" where
  "count_in k m = (case fm_find m k of None \<Rightarrow> fm_put k 1 m | Some n \<Rightarrow> fm_put k (n + 1) m)"

text \<open>The highest version that enough witnesses run at least; the map is walked from the highest version.\<close>

fun majority_of :: "nat \<Rightarrow> nat \<Rightarrow> (v_num \<times> nat) list \<Rightarrow> v_num \<Rightarrow> v_num" where
  "majority_of required n [] old = old"
| "majority_of required n ((v, k) # m) old =
     (if n + k \<ge> required then v else majority_of required (n + k) m old)"

definition majority_version :: "witness_schedule_object \<Rightarrow> witness_object list \<Rightarrow> v_num" where
  "majority_version wso ws =
     majority_of (unat (ws_hardfork_required_witnesses wso)) 0
       (rev (fold count_in (map w_running_version ws) [])) (ws_majority_version wso)"

definition vote_hardfork :: "witness_schedule_object \<Rightarrow> witness_object list \<Rightarrow> hardfork_property_object \<Rightarrow> hardfork_property_object" where
  "vote_hardfork wso ws hfp =
     (case find (\<lambda>(k, n). n \<ge> unat (ws_hardfork_required_witnesses wso))
        (fold count_in (map (\<lambda>w. (w_hardfork_version_vote w, w_hardfork_time_vote w)) ws) []) of
        Some ((v, t), n) \<Rightarrow>
          (if h_next_hardfork hfp \<noteq> v \<or> h_next_hardfork_time hfp \<noteq> t
           then hfp\<lparr>h_next_hardfork := hardfork_mask v, h_next_hardfork_time := t\<rparr> else hfp)
      | None \<Rightarrow> hfp\<lparr>h_next_hardfork := hardfork_mask (h_current_hardfork_version hfp)\<rparr>)"

section \<open>Shuffling\<close>

definition swap :: "nat \<Rightarrow> nat \<Rightarrow> 'a list \<Rightarrow> 'a list" where
  "swap i j xs = xs[i := xs ! j, j := xs ! i]"

definition xorshift :: "u64 \<Rightarrow> u64" where
  "xorshift k =
     (let k = xor k (drop_bit 12 k);
          k = xor k (push_bit 25 k);
          k = xor k (drop_bit 27 k)
      in k * 2685821657736338717)"

definition shuffle_step :: "u64 \<Rightarrow> nat \<Rightarrow> nat \<Rightarrow> 'a list \<Rightarrow> 'a list" where
  "shuffle_step now_hi n i xs =
     (let k = xorshift (now_hi + of_nat i * 2685821657736338717);
          jmax = n - i;
          j = i + unat k mod jmax
      in swap i j xs)"

definition shuffle_witnesses :: "time_point_sec \<Rightarrow> nat \<Rightarrow> 'a list \<Rightarrow> 'a list" where
  "shuffle_witnesses now n xs = fold (shuffle_step (push_bit 32 (ucast now)) n) [0..<n] xs"

section \<open>The schedule\<close>

text \<open>The schedule object of the new round.\<close>

definition next_round :: "chain \<Rightarrow> nat \<Rightarrow> account_name_type list \<Rightarrow> nat \<Rightarrow> uint128 \<Rightarrow> v_num \<Rightarrow> witness_schedule_object" where
  "next_round c num_elected active num_timeshare new_virtual_time majority =
     (let wso = ch_wso c;
          n = max 1 (length active);
          names = active @ replicate (STEEMIT_MAX_WITNESSES - length active) ''''
      in wso\<lparr>ws_current_shuffled_witnesses := shuffle_witnesses (head_block_time c) n names,
           ws_num_scheduled_witnesses := of_nat n,
           ws_witness_pay_normalization_factor :=
             ucast (ws_top19_weight wso) * of_nat num_elected + ucast (ws_timeshare_weight wso) * of_nat num_timeshare,
           ws_current_virtual_time := new_virtual_time,
           ws_next_shuffle_block_num := head_block_num c + of_nat n,
           ws_majority_version := majority\<rparr>)"

definition update_witness_schedule4 :: "fc_lib \<Rightarrow> chain \<Rightarrow> chain res" where
  "update_witness_schedule4 L c =
     rbind (select_voted (unat (ws_max_voted_witnesses (ch_wso c))) (by_vote_name c) ([], [], c)) (\<lambda>(selected_voted, active, c).
     let num_elected = length active;
         start = \<lparr>rs_count = length selected_voted, rs_virtual_time = ws_current_virtual_time (ch_wso c),
                  rs_processed = [], rs_active = active, rs_chain = c\<rparr>
     in rbind (select_runners selected_voted (by_schedule_time c) start) (\<lambda>s.
        let active = rs_active s; num_timeshare = length active
        in rbind (advance_witnesses L (rs_virtual_time s) (rs_processed s) (rs_chain s)) (\<lambda>(reset, c).
           rbind (if reset then reset_virtual_schedule_time L c else Inr c) (\<lambda>c.
           let new_virtual_time = if reset then \<lparr>hi = 0, lo = 0\<rparr> else rs_virtual_time s
           in rbind (fc_assert (length active = min STEEMIT_MAX_WITNESSES (length (gi_indices (ch_witnesses c))))
                ''number of active witnesses does not equal expected_active_witnesses'') (\<lambda>_.
              rbind (scheduled_witnesses c) (\<lambda>ws.
              let majority = majority_version (ch_wso c) ws;
                  c = c\<lparr>ch_hpo := vote_hardfork (ch_wso c) ws (ch_hpo c)\<rparr>;
                  c = c\<lparr>ch_wso := next_round c num_elected active num_timeshare new_virtual_time majority\<rparr>
              in update_median_witness_props c))))))"

definition update_witness_schedule :: "fc_lib \<Rightarrow> chain \<Rightarrow> chain res" where
  "update_witness_schedule L c =
     (if unat (head_block_num c) mod STEEMIT_MAX_WITNESSES = 0 then update_witness_schedule4 L c else Inr c)"

section \<open>Shuffling keeps the names\<close>

lemma swap_mset [simp]: "i < length xs \<Longrightarrow> j < length xs \<Longrightarrow> mset (swap i j xs) = mset xs"
  by (simp add: swap_def mset_swap)

lemma swap_length [simp]: "length (swap i j xs) = length xs"
  by (simp add: swap_def)

lemma swap_append: "i < length xs \<Longrightarrow> j < length xs \<Longrightarrow> swap i j (xs @ ys) = swap i j xs @ ys"
  by (simp add: swap_def list_update_append nth_append)

lemma shuffle_steps:
  fixes xs ys :: "'a list"
  assumes "\<forall>i \<in> set is. i < length xs"
  shows "fold (shuffle_step h (length xs)) is (xs @ ys) = fold (shuffle_step h (length xs)) is xs @ ys \<and>
    mset (fold (shuffle_step h (length xs)) is xs) = mset xs"
  using assms
proof (induction "is" arbitrary: xs)
  case (Cons i "is")
  define j where "j = i + unat (xorshift (h + of_nat i * 2685821657736338717)) mod (length xs - i)"
  have i: "i < length xs" using Cons.prems by simp
  have "unat (xorshift (h + of_nat i * 2685821657736338717)) mod (length xs - i) < length xs - i" using i by simp
  then have "j < length xs" by (simp add: j_def)
  have "shuffle_step h (length xs) i zs = swap i j zs" for zs :: "'a list" by (simp add: shuffle_step_def j_def Let_def)
  then show ?case using Cons.IH [of "swap i j xs"] Cons.prems i \<open>j < length xs\<close> by (simp add: swap_append)
qed simp

lemma shuffle_witnesses_perm:
  "shuffle_witnesses now (length xs) (xs @ ys) = shuffle_witnesses now (length xs) xs @ ys"
  "mset (shuffle_witnesses now (length xs) xs) = mset xs"
  using shuffle_steps [of "[0..<length xs]" xs] by (simp_all add: shuffle_witnesses_def)

lemma shuffle_witnesses_length [simp]: "length (shuffle_witnesses now (length xs) xs) = length xs"
  by (metis shuffle_witnesses_perm(2) size_mset)

section \<open>What the steps keep of the witnesses\<close>

definition wview :: "(witness_object \<Rightarrow> 'a) \<Rightarrow> chain \<Rightarrow> (oid \<times> 'a) list" where
  "wview g c = map (\<lambda>(i, w). (i, g w)) (gi_indices (ch_witnesses c))"

lemma fm_put_view:
  "fm_ok m \<Longrightarrow> fm_find m k = Some v \<Longrightarrow> g v' = g v \<Longrightarrow> map (\<lambda>(k, v). (k, g v)) (fm_put k v' m) = map (\<lambda>(k, v). (k, g v)) m"
proof (induction k v' m rule: fm_put.induct)
  case (2 k v k' v' m)
  have "\<not> k < k'" using 2(2,3) by (force simp: fm_ok_Cons fm_find_None split: if_splits dest: fm_find_in)
  then show ?case using 2 by (auto simp: fm_ok_Cons split: if_splits)
qed simp

lemma db_modify_indices:
  assumes "db_modify clash i g t = Inr t'"
  obtains v v' where "find_obj i t = Some v" "g v = Inr v'" "gi_indices t' = fm_put i v' (gi_indices t)"
proof -
  obtain v v' where v: "find_obj i t = Some v" "g v = Inr v'" and m: "modify clash i (\<lambda>_. v') t = (Inr (), t')"
    using assms by (auto simp: db_modify_def get_obj_def split: option.splits)
  have "gi_indices t' = fm_put i v' (gi_indices t)"
    using m v(1) by (auto simp: modify_def find_obj_def idx_modify_def Let_def split: option.splits if_splits prod.splits)
  with v show thesis by (rule that)
qed

lemma modify_witness_view:
  assumes "modify_witness i f c = Inr c'" and "tbl_ok (ch_witnesses c)" and "\<And>w w'. f w = Inr w' \<Longrightarrow> g w' = g w"
  shows "wview g c' = wview g c" and "tbl_ok (ch_witnesses c')" and "c'\<lparr>ch_witnesses := t\<rparr> = c\<lparr>ch_witnesses := t\<rparr>"
proof -
  obtain t' w w' where m: "find_obj i (ch_witnesses c) = Some w" "f w = Inr w'" "gi_indices t' = fm_put i w' (gi_indices (ch_witnesses c))"
    "c' = c\<lparr>ch_witnesses := t'\<rparr>"
    using assms(1) by (auto simp: modify_witness_def elim: db_modify_indices)
  then show "wview g c' = wview g c" "tbl_ok (ch_witnesses c')" "c'\<lparr>ch_witnesses := t\<rparr> = c\<lparr>ch_witnesses := t\<rparr>"
    using assms(2,3) fm_put_view [of "gi_indices (ch_witnesses c)" i w g w']
    by (simp_all add: wview_def find_obj_def tbl_ok_def fm_ok_put)
qed

text \<open>What a view says of an object does not depend on the state it is taken from.\<close>

lemma fm_find_map: "fm_find (map (\<lambda>(k, v). (k, g v)) m) k = map_option g (fm_find m k)"
  by (induction m) auto

lemma witness_view_eq:
  assumes "wview g c' = wview g c"
  shows "map_option g (find_obj i (ch_witnesses c')) = map_option g (find_obj i (ch_witnesses c))"
    and "length (gi_indices (ch_witnesses c')) = length (gi_indices (ch_witnesses c))"
    and "map fst (gi_indices (ch_witnesses c')) = map fst (gi_indices (ch_witnesses c))"
proof -
  show "map_option g (find_obj i (ch_witnesses c')) = map_option g (find_obj i (ch_witnesses c))"
    using assms unfolding wview_def find_obj_def by (metis fm_find_map)
  have "map fst (wview g d) = map fst (gi_indices (ch_witnesses d))" for d by (auto simp: wview_def)
  then show "map fst (gi_indices (ch_witnesses c')) = map fst (gi_indices (ch_witnesses c))" using assms by metis
  then show "length (gi_indices (ch_witnesses c')) = length (gi_indices (ch_witnesses c))" by (metis length_map)
qed

definition name_and_key :: "witness_object \<Rightarrow> account_name_type \<times> public_key_type" where
  "name_and_key w = (w_owner w, w_signing_key w)"

definition has_key :: "chain \<Rightarrow> oid \<Rightarrow> bool" where
  "has_key c i \<longleftrightarrow> (case find_obj i (ch_witnesses c) of None \<Rightarrow> False | Some w \<Rightarrow> w_signing_key w \<noteq> 0)"

definition owner_at :: "chain \<Rightarrow> oid \<Rightarrow> account_name_type" where
  "owner_at c i = (case find_obj i (ch_witnesses c) of None \<Rightarrow> [] | Some w \<Rightarrow> w_owner w)"

definition unscheduled :: "witness_object \<Rightarrow> witness_object" where
  "unscheduled w = w\<lparr>w_schedule := none\<rparr>"

lemma view_owner_key:
  assumes "wview name_and_key c' = wview name_and_key c"
  shows "has_key c' = has_key c" and "owner_at c' = owner_at c"
proof -
  have e: "map_option name_and_key (find_obj i (ch_witnesses c')) = map_option name_and_key (find_obj i (ch_witnesses c))" for i
    using assms by (rule witness_view_eq(1))
  have "has_key d i = (case map_option name_and_key (find_obj i (ch_witnesses d)) of None \<Rightarrow> False | Some x \<Rightarrow> snd x \<noteq> 0)"
    "owner_at d i = (case map_option name_and_key (find_obj i (ch_witnesses d)) of None \<Rightarrow> [] | Some x \<Rightarrow> fst x)" for d i
    by (simp_all add: has_key_def owner_at_def name_and_key_def split: option.splits)
  then show "has_key c' = has_key c" "owner_at c' = owner_at c" by (auto simp only: fun_eq_iff e)
qed

lemma wview_weaken:
  assumes "wview g c' = wview g c" and "\<And>w. h w = k (g w)"
  shows "wview h c' = wview h c"
proof -
  have "wview h d = map (\<lambda>(i, x). (i, k x)) (wview g d)" for d by (simp add: wview_def assms(2) case_prod_unfold)
  then show ?thesis using assms(1) by simp
qed

lemma sort_key_map: "sort_key k (map f xs) = map f (sort_key (\<lambda>x. k (f x)) xs)"
proof -
  have "insort_key k (f x) (map f ys) = map f (insort_key (\<lambda>x. k (f x)) x ys)" for x ys by (induction ys) auto
  then show ?thesis by (induction xs) auto
qed

lemma wview_order:
  assumes "wview g c' = wview g c" and "\<And>i w. k (i, w) = h (i, g w)"
  shows "map fst (sort_key k (gi_indices (ch_witnesses c'))) = map fst (sort_key k (gi_indices (ch_witnesses c)))"
proof -
  have "map fst (sort_key k (gi_indices (ch_witnesses d))) = map fst (sort_key h (wview g d))" for d
  proof -
    have "k = (\<lambda>x. h (fst x, g (snd x)))" using assms(2) by auto
    then show ?thesis by (simp add: wview_def sort_key_map case_prod_unfold comp_def)
  qed
  then show ?thesis using assms(1) by simp
qed

lemma unscheduled_view:
  assumes "wview unscheduled c' = wview unscheduled c"
  shows "wview name_and_key c' = wview name_and_key c" and "by_schedule_time c' = by_schedule_time c"
  using wview_weaken [OF assms, of name_and_key name_and_key]
    wview_order [OF assms, where k = "\<lambda>(i, w). (u128_val (w_virtual_scheduled_time w), i)" and h = "\<lambda>(i, w). (u128_val (w_virtual_scheduled_time w), i)"]
  by (auto simp: name_and_key_def unscheduled_def by_schedule_time_def)

section \<open>The selection\<close>

text \<open>The two loops change nothing but the field \<open>schedule\<close> of the witnesses.\<close>

definition reschedules :: "chain \<Rightarrow> chain \<Rightarrow> bool" where
  "reschedules c c' \<longleftrightarrow> wview unscheduled c' = wview unscheduled c \<and> tbl_ok (ch_witnesses c') \<and>
     c'\<lparr>ch_witnesses := ch_witnesses c\<rparr> = c"

lemma reschedules_refl: "tbl_ok (ch_witnesses c) \<Longrightarrow> reschedules c c"
  by (simp add: reschedules_def)

lemma reschedules_trans:
  assumes "reschedules c c'" and "reschedules c' c''"
  shows "reschedules c c''"
proof -
  have "c''\<lparr>ch_witnesses := ch_witnesses c'\<rparr> = c'" using assms(2) by (simp add: reschedules_def)
  from arg_cong [OF this, of "\<lambda>d. d\<lparr>ch_witnesses := ch_witnesses c\<rparr>"] show ?thesis
    using assms by (simp add: reschedules_def)
qed

lemma reschedules_keys:
  assumes "reschedules c c'"
  shows "has_key c' = has_key c" and "owner_at c' = owner_at c" and "by_schedule_time c' = by_schedule_time c"
  using assms unscheduled_view [of c' c] view_owner_key [of c' c] by (simp_all add: reschedules_def)

lemma set_schedule_reschedules:
  assumes "modify_witness i (\<lambda>w. Inr (w\<lparr>w_schedule := s\<rparr>)) c = Inr c'" and "tbl_ok (ch_witnesses c)"
  shows "reschedules c c'"
proof -
  have "wview unscheduled c' = wview unscheduled c" "tbl_ok (ch_witnesses c')"
    "c'\<lparr>ch_witnesses := ch_witnesses c\<rparr> = c\<lparr>ch_witnesses := ch_witnesses c\<rparr>"
    by (rule modify_witness_view [OF assms]; force simp: unscheduled_def)+
  then show ?thesis by (simp add: reschedules_def)
qed

lemma witness_at_key: "witness_at i c = Inr w \<Longrightarrow> has_key c i \<longleftrightarrow> w_signing_key w \<noteq> 0"
  "witness_at i c = Inr w \<Longrightarrow> owner_at c i = w_owner w"
  by (simp_all add: witness_at_def find_obj_get has_key_def owner_at_def)

lemma select_voted_spec:
  assumes "select_voted m is (sel, act, c) = Inr (sel', act', c')" and "tbl_ok (ch_witnesses c)"
  shows "sel' = sel @ take (m - length sel) (filter (has_key c) is) \<and>
    act' = act @ map (owner_at c) (take (m - length sel) (filter (has_key c) is)) \<and> reschedules c c'"
  using assms
proof (induction "is" arbitrary: sel act c)
  case (Cons i "is")
  show ?case
  proof (cases "length sel < m")
    case True
    then obtain w where w: "witness_at i c = Inr w" using Cons.prems by auto
    show ?thesis
    proof (cases "w_signing_key w = 0")
      case True
      then show ?thesis using Cons.IH Cons.prems w witness_at_key [OF w] \<open>length sel < m\<close> by simp
    next
      case False
      then obtain c1 where c1: "modify_witness i (\<lambda>w. Inr (w\<lparr>w_schedule := top19\<rparr>)) c = Inr c1"
        and s: "select_voted m is (sel @ [i], act @ [w_owner w], c1) = Inr (sel', act', c')"
        using Cons.prems w \<open>length sel < m\<close> by auto
      note r = set_schedule_reschedules [OF c1 Cons.prems(2)]
      have "m - length sel = Suc (m - Suc (length sel))" using \<open>length sel < m\<close> by simp
      then show ?thesis
        using Cons.IH [OF s] r reschedules_keys [OF r] witness_at_key [OF w] False reschedules_trans [OF r]
        by (simp add: reschedules_def [of c c1])
    qed
  qed (use Cons.prems reschedules_refl in auto)
qed (simp add: reschedules_refl)

lemma select_runners_spec:
  assumes "select_runners sel is s = Inr s'" and "tbl_ok (ch_witnesses (rs_chain s))"
  shows "rs_active s' = rs_active s @ map (owner_at (rs_chain s))
      (take (STEEMIT_MAX_WITNESSES - rs_count s) (filter (\<lambda>i. has_key (rs_chain s) i \<and> i \<notin> set sel) is)) \<and>
    reschedules (rs_chain s) (rs_chain s')"
  using assms
proof (induction "is" arbitrary: s)
  case (Cons i "is")
  show ?case
  proof (cases "rs_count s < STEEMIT_MAX_WITNESSES")
    case True
    then obtain w where w: "witness_at i (rs_chain s) = Inr w" using Cons.prems by auto
    define s1 where "s1 = s\<lparr>rs_virtual_time := w_virtual_scheduled_time w, rs_processed := rs_processed s @ [i]\<rparr>"
    show ?thesis
    proof (cases "w_signing_key w = 0 \<or> i \<in> set sel")
      case True
      then have "select_runners sel is s1 = Inr s'" using Cons.prems(1) w \<open>rs_count s < _\<close> by (auto simp: s1_def Let_def split: if_splits)
      then show ?thesis using Cons.IH [of s1] Cons.prems(2) witness_at_key [OF w] True by (auto simp: s1_def)
    next
      case False
      then obtain c1 where c1: "modify_witness i (\<lambda>w. Inr (w\<lparr>w_schedule := timeshare\<rparr>)) (rs_chain s) = Inr c1"
        and s: "select_runners sel is (s1\<lparr>rs_active := rs_active s @ [w_owner w], rs_count := rs_count s + 1, rs_chain := c1\<rparr>) = Inr s'"
        using Cons.prems w \<open>rs_count s < _\<close> by (auto simp: s1_def Let_def)
      note r = set_schedule_reschedules [OF c1 Cons.prems(2)]
      have "STEEMIT_MAX_WITNESSES - rs_count s = Suc (STEEMIT_MAX_WITNESSES - Suc (rs_count s))" using \<open>rs_count s < _\<close> by simp
      then show ?thesis
        using Cons.IH [OF s] r reschedules_keys [OF r] witness_at_key [OF w] False reschedules_trans [OF r]
        by (simp add: reschedules_def [of "rs_chain s" c1] s1_def)
    qed
  qed (use Cons.prems reschedules_refl in auto)
qed (simp add: reschedules_refl)

section \<open>The schedule\<close>

text \<open>The virtual time moves on; names and keys of the witnesses stay.\<close>

definition moves_time :: "chain \<Rightarrow> chain \<Rightarrow> bool" where
  "moves_time c c' \<longleftrightarrow> wview name_and_key c' = wview name_and_key c \<and> tbl_ok (ch_witnesses c') \<and>
     (\<exists>v. ch_wso c' = (ch_wso c)\<lparr>ws_current_virtual_time := v\<rparr>)"

lemma moves_timeI:
  "wview name_and_key c' = wview name_and_key c \<Longrightarrow> tbl_ok (ch_witnesses c') \<Longrightarrow> ch_wso c' = ch_wso c \<Longrightarrow> moves_time c c'"
  unfolding moves_time_def by (intro conjI exI [of _ "ws_current_virtual_time (ch_wso c)"]) auto

lemma moves_time_refl: "tbl_ok (ch_witnesses c) \<Longrightarrow> moves_time c c"
  by (simp add: moves_timeI)

lemma moves_time_trans: "moves_time c c' \<Longrightarrow> moves_time c' c'' \<Longrightarrow> moves_time c c''"
  by (auto simp: moves_time_def)

lemma reschedules_moves_time: "reschedules c c' \<Longrightarrow> moves_time c c'"
proof -
  assume r: "reschedules c c'"
  then have "c'\<lparr>ch_witnesses := ch_witnesses c\<rparr> = c" by (simp add: reschedules_def)
  from arg_cong [OF this, of ch_wso] have "ch_wso c' = ch_wso c" by simp
  then show ?thesis using r unscheduled_view(1) [of c' c] by (simp add: reschedules_def moves_timeI)
qed

lemma modify_witness_moves_time:
  assumes "modify_witness i f c = Inr c'" and "tbl_ok (ch_witnesses c)" and "\<And>w w'. f w = Inr w' \<Longrightarrow> name_and_key w' = name_and_key w"
  shows "moves_time c c'"
proof -
  note v = modify_witness_view [OF assms]
  have "ch_wso c' = ch_wso c" using assms(1) by (auto simp: modify_witness_def)
  then show ?thesis using v(1,2) by (simp add: moves_timeI)
qed

lemma advance_witnesses_moves_time:
  "advance_witnesses L t is c = Inr (r, c') \<Longrightarrow> tbl_ok (ch_witnesses c) \<Longrightarrow> moves_time c c'"
proof (induction "is" arbitrary: c)
  case (Cons i "is")
  then obtain w q where w: "witness_at i c = Inr w" "lap L w = Inr q" by auto
  show ?case
  proof (cases "u128_less L (u128_add L t q) t")
    case True
    then show ?thesis using Cons.prems w by (simp add: Let_def moves_time_refl)
  next
    case False
    then obtain c1 where c1: "modify_witness i (\<lambda>w. Inr (w\<lparr>w_virtual_position := \<lparr>hi = 0, lo = 0\<rparr>, w_virtual_last_update := t,
        w_virtual_scheduled_time := u128_add L t q\<rparr>)) c = Inr c1" "advance_witnesses L t is c1 = Inr (r, c')"
      using Cons.prems w by (auto simp: Let_def)
    have "moves_time c c1" using c1(1) Cons.prems(2) by (rule modify_witness_moves_time) (auto simp: name_and_key_def)
    then show ?thesis using Cons.IH [OF c1(2)] moves_time_trans [of c c1 c'] by (simp add: moves_time_def [of c c1])
  qed
qed (simp add: moves_time_refl)

lemma reset_virtual_schedule_time_moves_time:
  assumes "reset_virtual_schedule_time L c = Inr c'" and "tbl_ok (ch_witnesses c)"
  shows "moves_time c c'"
proof -
  define d where "d = c\<lparr>ch_wso := (ch_wso c)\<lparr>ws_current_virtual_time := \<lparr>hi = 0, lo = 0\<rparr>\<rparr>\<rparr>"
  have d: "moves_time c d" using assms(2) by (auto simp: d_def moves_time_def wview_def)
  from assms(1) have "fold_res (\<lambda>i c. modify_witness i (\<lambda>w. rbind (lap L w) (\<lambda>t.
      Inr (w\<lparr>w_virtual_position := \<lparr>hi = 0, lo = 0\<rparr>, w_virtual_last_update := ws_current_virtual_time (ch_wso c),
             w_virtual_scheduled_time := t\<rparr>))) c) (map fst (gi_indices (ch_witnesses c))) d = Inr c'"
    by (simp add: reset_virtual_schedule_time_def Let_def d_def)
  then show ?thesis
  proof (rule fold_res_invariant)
    fix i a b assume a: "moves_time c a"
      and m: "modify_witness i (\<lambda>w. rbind (lap L w) (\<lambda>t. Inr (w\<lparr>w_virtual_position := \<lparr>hi = 0, lo = 0\<rparr>,
        w_virtual_last_update := ws_current_virtual_time (ch_wso a), w_virtual_scheduled_time := t\<rparr>))) a = Inr b"
    have "moves_time a b"
      using m by (rule modify_witness_moves_time) (use a in \<open>auto simp: moves_time_def name_and_key_def\<close>)
    with a show "moves_time c b" by (rule moves_time_trans)
  qed (rule d)
qed

definition elected :: "chain \<Rightarrow> oid list" where
  "elected c = take (unat (ws_max_voted_witnesses (ch_wso c))) (filter (has_key c) (by_vote_name c))"

definition runners :: "chain \<Rightarrow> oid list" where
  "runners c = take (STEEMIT_MAX_WITNESSES - length (elected c)) (filter (\<lambda>i. has_key c i \<and> i \<notin> set (elected c)) (by_schedule_time c))"

lemma scheduled_names_shuffled:
  assumes "n = length active" and "active \<noteq> []" and "n \<le> STEEMIT_MAX_WITNESSES"
    and "ws_current_shuffled_witnesses wso = shuffle_witnesses now n (active @ pad)" and "ws_num_scheduled_witnesses wso = of_nat n"
  shows "scheduled_names wso = shuffle_witnesses now n active"
proof -
  have u: "unat (ws_num_scheduled_witnesses wso) = n" using assms(3,5) by (simp add: unat_of_nat STEEMIT_MAX_WITNESSES_def)
  have "ws_current_shuffled_witnesses wso = shuffle_witnesses now n active @ pad"
    using assms(1,4) shuffle_witnesses_perm(1) by simp
  then show ?thesis using assms(1) unfolding scheduled_names_def u by (intro nth_equalityI) (simp_all add: nth_append)
qed

text \<open>A round that was scheduled has at least one witness.\<close>

lemma median_props_names:
  assumes "update_median_witness_props c = Inr c'"
  shows "scheduled_names (ch_wso c') = scheduled_names (ch_wso c)"
    and "ws_witness_pay_normalization_factor (ch_wso c') = ws_witness_pay_normalization_factor (ch_wso c)"
    and "\<exists>ws. scheduled_witnesses c = Inr ws"
  using assms by (auto simp: update_median_witness_props_def Let_def scheduled_names_def)

lemma no_witnesses_no_schedule:
  assumes "gi_indices (ch_witnesses c) = []" and "ws_num_scheduled_witnesses (ch_wso c) = of_nat 1"
  shows "scheduled_witnesses c \<noteq> Inr ws"
  using assms by (simp add: scheduled_witnesses_def scheduled_names_def upt_rec witness_named_def get_witness_def get_by_def find_by_def)

lemma update_witness_schedule4_spec:
  assumes "update_witness_schedule4 L c = Inr c'" and "tbl_ok (ch_witnesses c)"
  shows "mset (scheduled_names (ch_wso c')) = mset (map (owner_at c) (elected c @ runners c))"
    and "length (elected c @ runners c) = min STEEMIT_MAX_WITNESSES (length (gi_indices (ch_witnesses c)))"
    and "ws_witness_pay_normalization_factor (ch_wso c') = ucast (ws_top19_weight (ch_wso c)) * of_nat (length (elected c)) +
      ucast (ws_timeshare_weight (ch_wso c)) * of_nat (length (elected c @ runners c))"
proof -
  obtain sel act c1 s reset c2 c3 hpo v maj where
    sel: "select_voted (unat (ws_max_voted_witnesses (ch_wso c))) (by_vote_name c) ([], [], c) = Inr (sel, act, c1)"
    and run: "select_runners sel (by_schedule_time c1) \<lparr>rs_count = length sel, rs_virtual_time = ws_current_virtual_time (ch_wso c1),
        rs_processed = [], rs_active = act, rs_chain = c1\<rparr> = Inr s"
    and adv: "advance_witnesses L (rs_virtual_time s) (rs_processed s) (rs_chain s) = Inr (reset, c2)"
    and rst: "(if reset then reset_virtual_schedule_time L c2 else Inr c2) = Inr c3"
    and len: "length (rs_active s) = min STEEMIT_MAX_WITNESSES (length (gi_indices (ch_witnesses c3)))"
    and med: "update_median_witness_props
        (c3\<lparr>ch_hpo := hpo, ch_wso := next_round (c3\<lparr>ch_hpo := hpo\<rparr>) (length act) (rs_active s) (length (rs_active s)) v maj\<rparr>) = Inr c'"
    using assms(1) unfolding update_witness_schedule4_def by (fastforce simp: Let_def split: prod.splits)
  define wso where "wso = next_round (c3\<lparr>ch_hpo := hpo\<rparr>) (length act) (rs_active s) (length (rs_active s)) v maj"
  define n where "n = max 1 (length (rs_active s))"
  obtain now pad where wso: "ws_current_shuffled_witnesses wso = shuffle_witnesses now n (rs_active s @ pad)" "ws_num_scheduled_witnesses wso = of_nat n"
      "ws_witness_pay_normalization_factor wso = ucast (ws_top19_weight (ch_wso c3)) * of_nat (length act) +
        ucast (ws_timeshare_weight (ch_wso c3)) * of_nat (length (rs_active s))"
    by (simp add: wso_def next_round_def n_def Let_def)
  note n = n_def and med = med [folded wso_def]
  note sv = select_voted_spec [OF sel assms(2)]
  then have e: "sel = elected c" "act = map (owner_at c) (elected c)" and r1: "reschedules c c1" by (simp_all add: elected_def)
  have "tbl_ok (ch_witnesses c1)" using r1 by (simp add: reschedules_def)
  then have active: "rs_active s = map (owner_at c) (elected c @ runners c)" and r2: "reschedules c1 (rs_chain s)"
    using select_runners_spec [OF run] reschedules_keys [OF r1] e by (simp_all add: runners_def)
  have m2: "moves_time (rs_chain s) c2" using adv r2 by (intro advance_witnesses_moves_time) (auto simp: reschedules_def)
  have "moves_time c2 c3"
    using rst m2 by (auto simp: moves_time_def [of "rs_chain s"] moves_time_refl intro: reset_virtual_schedule_time_moves_time split: if_splits)
  with m2 r1 r2 have mv: "moves_time c c3" by (blast intro: moves_time_trans reschedules_moves_time)
  then have l: "length (gi_indices (ch_witnesses c3)) = length (gi_indices (ch_witnesses c))"
    using witness_view_eq(2) by (auto simp: moves_time_def)
  show "length (elected c @ runners c) = min STEEMIT_MAX_WITNESSES (length (gi_indices (ch_witnesses c)))"
    using len l active by simp
  have ne: "rs_active s \<noteq> []"
  proof
    assume "rs_active s = []"
    then have "gi_indices (ch_witnesses c3) = []" "n = 1" using len n by (simp_all add: STEEMIT_MAX_WITNESSES_def min_def split: if_splits)
    then show False using median_props_names(3) [OF med] no_witnesses_no_schedule [of "c3\<lparr>ch_hpo := hpo, ch_wso := wso\<rparr>"] wso(2) by auto
  qed
  then have "n = length (rs_active s)" using n by (cases "rs_active s") auto
  then have "scheduled_names wso = shuffle_witnesses now n (rs_active s)" "n = length (rs_active s)"
    using scheduled_names_shuffled [OF _ ne _ wso(1,2)] len by auto
  then show "mset (scheduled_names (ch_wso c')) = mset (map (owner_at c) (elected c @ runners c))"
    using median_props_names(1) [OF med] shuffle_witnesses_perm(2) [of now "rs_active s"] active by (simp only: chain.simps) simp
  show "ws_witness_pay_normalization_factor (ch_wso c') = ucast (ws_top19_weight (ch_wso c)) * of_nat (length (elected c)) +
      ucast (ws_timeshare_weight (ch_wso c)) * of_nat (length (elected c @ runners c))"
    using median_props_names(2) [OF med] wso(3) e active mv by (auto simp: moves_time_def)
qed

lemma index_ids:
  assumes "tbl_ok (ch_witnesses c)"
  shows "distinct (by_vote_name c)" "distinct (by_schedule_time c)" "set (by_vote_name c) = set (map fst (gi_indices (ch_witnesses c)))"
    "set (by_schedule_time c) = set (map fst (gi_indices (ch_witnesses c)))" "distinct (map fst (gi_indices (ch_witnesses c)))"
proof -
  show d: "distinct (map fst (gi_indices (ch_witnesses c)))"
    using assms by (simp add: tbl_ok_def fm_ok_def strict_sorted_iff)
  then have "distinct (map fst (sort_key k (gi_indices (ch_witnesses c))))" for k :: "_ \<Rightarrow> 'k :: linorder"
    by (simp add: distinct_map) 
  then show "distinct (by_vote_name c)" "distinct (by_schedule_time c)" by (simp_all add: by_vote_name_def by_schedule_time_def)
qed (simp_all add: by_vote_name_def by_schedule_time_def)

lemma chosen_distinct:
  assumes "tbl_ok (ch_witnesses c)"
  shows "distinct (elected c @ runners c)" and "set (elected c @ runners c) \<subseteq> {i \<in> set (map fst (gi_indices (ch_witnesses c))). has_key c i}"
proof -
  have r: "set (runners c) \<subseteq> {i \<in> set (by_schedule_time c). has_key c i \<and> i \<notin> set (elected c)}"
    unfolding runners_def by (auto dest: in_set_takeD)
  have e: "set (elected c) \<subseteq> {i \<in> set (by_vote_name c). has_key c i}" unfolding elected_def by (auto dest: in_set_takeD)
  have "distinct (elected c)" "distinct (runners c)" using index_ids(1,2) [OF assms] by (simp_all add: elected_def runners_def)
  then show "distinct (elected c @ runners c)" using r by auto
  show "set (elected c @ runners c) \<subseteq> {i \<in> set (map fst (gi_indices (ch_witnesses c))). has_key c i}"
    using r e index_ids(3,4) [OF assms] by auto
qed

lemma owners_inj:
  assumes "tbl_ok (ch_witnesses c)" and "distinct (map (\<lambda>e. w_owner (snd e)) (gi_indices (ch_witnesses c)))"
  shows "inj_on (owner_at c) (set (map fst (gi_indices (ch_witnesses c))))"
proof -
  have "find_obj (fst e) (ch_witnesses c) = Some (snd e)" if "e \<in> set (gi_indices (ch_witnesses c))" for e
    using assms(1) that by (simp add: find_obj_def tbl_ok_def fm_find_iff)
  then have "map (owner_at c) (map fst (gi_indices (ch_witnesses c))) = map (\<lambda>e. w_owner (snd e)) (gi_indices (ch_witnesses c))"
    by (simp add: owner_at_def)
  then have "distinct (map (owner_at c) (map fst (gi_indices (ch_witnesses c))))" using assms(2) by (simp only:)
  then show ?thesis by (simp only: distinct_map)
qed

text \<open>C12: A round consists of exactly the witnesses it should: the first \<open>max_voted_witnesses\<close> with a signing key
  in the order of their votes, then those with the earliest virtual time among the others, 21 in all or
  every witness there is.  The shuffle keeps them, and no witness has two slots.\<close>

theorem schedule_exact:
  assumes "update_witness_schedule4 L c = Inr c'" and "tbl_ok (ch_witnesses c)"
    and "distinct (map (\<lambda>e. w_owner (snd e)) (gi_indices (ch_witnesses c)))"
  shows "mset (scheduled_names (ch_wso c')) = mset (map (owner_at c) (elected c @ runners c)) \<and>
    length (elected c @ runners c) = min STEEMIT_MAX_WITNESSES (length (gi_indices (ch_witnesses c))) \<and>
    distinct (scheduled_names (ch_wso c'))"
proof -
  note spec = update_witness_schedule4_spec [OF assms(1,2)]
  have "inj_on (owner_at c) (set (elected c @ runners c))"
    using owners_inj [OF assms(2,3)] chosen_distinct(2) [OF assms(2)] by (auto intro: inj_on_subset)
  then have "distinct (map (owner_at c) (elected c @ runners c))" using chosen_distinct(1) [OF assms(2)] by (simp only: distinct_map)
  then show ?thesis using spec(1,2) mset_eq_imp_distinct_iff by blast
qed

text \<open>C20: With 21 witnesses or fewer, one witness without a signing key stops the chain: the round cannot be
  filled, the assertion on its size fails, and \<open>update_witness_schedule\<close> throws at every block that
  should start a round.\<close>

theorem schedule_throws_without_key:
  assumes "tbl_ok (ch_witnesses c)" and "length (gi_indices (ch_witnesses c)) \<le> STEEMIT_MAX_WITNESSES"
    and "\<exists>e \<in> set (gi_indices (ch_witnesses c)). w_signing_key (snd e) = 0"
    and "unat (head_block_num c) mod STEEMIT_MAX_WITNESSES = 0"
  shows "\<exists>e. update_witness_schedule L c = Inl e"
proof (cases "update_witness_schedule4 L c")
  case (Inr c')
  obtain i w where w: "(i, w) \<in> set (gi_indices (ch_witnesses c))" "w_signing_key w = 0" using assms(3) by auto
  then have "find_obj i (ch_witnesses c) = Some w" using assms(1) by (simp add: find_obj_def tbl_ok_def fm_find_iff)
  then have "\<not> has_key c i" using w(2) by (simp add: has_key_def)
  have "length (elected c @ runners c) = card (set (elected c @ runners c))"
    using chosen_distinct(1) [OF assms(1)] by (metis distinct_card)
  also have "\<dots> < card (set (map fst (gi_indices (ch_witnesses c))))"
  proof (rule psubset_card_mono)
    have "i \<in> set (map fst (gi_indices (ch_witnesses c)))" using w(1) by force
    then show "set (elected c @ runners c) \<subset> set (map fst (gi_indices (ch_witnesses c)))"
      using chosen_distinct(2) [OF assms(1)] \<open>\<not> has_key c i\<close> by blast
  qed simp
  also have "\<dots> = length (gi_indices (ch_witnesses c))" using index_ids(5) [OF assms(1)] by (metis distinct_card length_map)
  finally show ?thesis using update_witness_schedule4_spec(2) [OF Inr assms(1)] assms(2) by simp
qed (use assms(4) in \<open>simp add: update_witness_schedule_def\<close>)

text \<open>C22: The divisor of the witness pay counts every elected witness twice: it exceeds the sum of the weights of
  the scheduled witnesses by the timeshare weight of each elected witness, so that a round pays out less
  than it should.\<close>

theorem pay_divisor_counts_elected_twice:
  assumes "update_witness_schedule4 L c = Inr c'" and "tbl_ok (ch_witnesses c)"
  shows "unat (ws_witness_pay_normalization_factor (ch_wso c')) =
    (unat (ws_top19_weight (ch_wso c)) * length (elected c) + unat (ws_timeshare_weight (ch_wso c)) * length (runners c)) +
    unat (ws_timeshare_weight (ch_wso c)) * length (elected c)"
proof -
  note spec = update_witness_schedule4_spec [OF assms]
  define a b where "a = unat (ws_top19_weight (ch_wso c))" and "b = unat (ws_timeshare_weight (ch_wso c))"
  define e n where "e = length (elected c)" and "n = length (elected c @ runners c)"
  have "n = min STEEMIT_MAX_WITNESSES (length (gi_indices (ch_witnesses c)))" using spec(2) by (simp only: n_def)
  then have "n \<le> 21" by (simp add: STEEMIT_MAX_WITNESSES_def)
  then have le: "e \<le> n" "n \<le> 21" by (simp_all add: e_def n_def)
  have ab: "a < 256" "b < 256" by (simp_all add: a_def b_def)
  then have "a * e + b * n \<le> 256 * 21 + 256 * 21" using le by (intro add_mono mult_mono) auto
  moreover have "ws_witness_pay_normalization_factor (ch_wso c') = of_nat (a * e + b * n)"
    using spec(3) by (simp add: a_def b_def e_def n_def)
  ultimately have "unat (ws_witness_pay_normalization_factor (ch_wso c')) = a * e + b * n" by (simp add: unat_of_nat del: of_nat_add of_nat_mult)
  then show ?thesis by (simp add: a_def b_def e_def n_def algebra_simps)
qed

section \<open>A small round\<close>

definition demo_witness :: "oid \<Rightarrow> account_name_type \<Rightarrow> int \<Rightarrow> public_key_type \<Rightarrow> witness_object" where
  "demo_witness i n v k =
     \<lparr>w_id = i, w_owner = n, w_created = 0, w_url = '''', w_total_missed = 0, w_last_aslot = 0, w_last_confirmed_block_num = 8,
      w_pow_worker = 0, w_signing_key = k,
      w_props = \<lparr>cp_account_creation_fee = mk_asset 1 STEEM_SYMBOL, cp_maximum_block_size = 131072, cp_sbd_interest_rate = 1000\<rparr>,
      w_sbd_exchange_rate = mk_price (mk_asset 1000 SBD_SYMBOL) (mk_asset 1000 STEEM_SYMBOL), w_last_sbd_exchange_update = 900,
      w_votes = v, w_schedule = none, w_virtual_last_update = \<lparr>hi = 0, lo = 0\<rparr>, w_virtual_position = \<lparr>hi = 0, lo = 0\<rparr>,
      w_virtual_scheduled_time = \<lparr>hi = 0, lo = of_nat i\<rparr>, w_last_work = [], w_running_version = new_version 0 19 0,
      w_hardfork_version_vote = new_hardfork_version 0 19, w_hardfork_time_vote = 0\<rparr>"

text \<open>A chain with two witnesses, and what the access functions return there.\<close>

definition two :: "witness_object \<Rightarrow> witness_object \<Rightarrow> chain" where
  "two a b = demo_chain\<lparr>ch_witnesses := demo_index [a, b], ch_gpo := demo_gpo\<lparr>g_head_block_number := 21\<rparr>\<rparr>"

definition demo_round :: chain where
  "demo_round = two (demo_witness 0 ''alice'' 10 7) (demo_witness (Suc 0) ''bob'' 5 8)"

lemma two_access:
  "witness_at 0 (two a b) = Inr a" "witness_at (Suc 0) (two a b) = Inr b"
  "f a = Inr a' \<Longrightarrow> w_owner a' \<noteq> w_owner b \<Longrightarrow> modify_witness 0 f (two a b) = Inr (two a' b)"
  "f b = Inr b' \<Longrightarrow> w_owner b' \<noteq> w_owner a \<Longrightarrow> modify_witness (Suc 0) f (two a b) = Inr (two a b')"
  by (simp_all add: two_def demo_index_def witness_at_def get_obj_def find_obj_def modify_witness_def db_modify_def returned_def modify_def
      idx_modify_def witness_clash_def on_head_def upt_rec Let_def)

lemma named_in_two:
  "ch_witnesses c = ch_witnesses (two a b) \<Longrightarrow> w_owner a = n \<Longrightarrow> witness_named n c = Inr a"
  "ch_witnesses c = ch_witnesses (two a b) \<Longrightarrow> w_owner a \<noteq> n \<Longrightarrow> w_owner b = n \<Longrightarrow> witness_named n c = Inr b"
  by (simp_all add: two_def demo_index_def witness_named_def get_witness_def get_by_def find_by_def witness_at_def get_obj_def find_obj_def upt_rec)

lemma two_fields:
  "ch_wso (two a b) = demo_schedule" "gi_indices (ch_witnesses (two a b)) = [(0, a), (Suc 0, b)]" "head_block_time (two a b) = 1000"
  "head_block_num (two a b) = 21" "tbl_ok (ch_witnesses (two a b))"
  by (simp_all add: two_def demo_chain_def demo_index_def upt_rec head_block_time_def head_block_num_def demo_gpo_def tbl_ok_def fm_ok_def)

lemma demo_witness_fields:
  "w_owner (demo_witness i n v k) = n" "w_votes (demo_witness i n v k) = v" "w_signing_key (demo_witness i n v k) = k"
  "w_virtual_scheduled_time (demo_witness i n v k) = \<lparr>hi = 0, lo = of_nat i\<rparr>"
  by (simp_all add: demo_witness_def)

lemma fc_ref_u128:
  "u128_div fc_ref a b = (if u128_val b = 0 then Inl (library_exception ''division by zero'') else Inr (u128_of_nat (u128_val a div u128_val b)))"
  "u128_of_int fc_ref n = u128_of_nat (nat (n mod 2 ^ 128))" "u128_add fc_ref a b = u128_of_nat (u128_val a + u128_val b)"
  "u128_less fc_ref a b \<longleftrightarrow> u128_val a < u128_val b"
  by (simp_all add: fc_ref_def)

lemma demo_orders:
  "by_vote_name (two (demo_witness 0 ''alice'' 10 7) (demo_witness (Suc 0) ''bob'' 5 8)) = [0, Suc 0]"
  "by_schedule_time (two ((demo_witness 0 ''alice'' 10 7)\<lparr>w_schedule := s\<rparr>) ((demo_witness (Suc 0) ''bob'' 5 8)\<lparr>w_schedule := t\<rparr>)) = [0, Suc 0]"
  by (simp_all add: by_vote_name_def by_schedule_time_def two_fields demo_witness_fields u128_val_def)

lemma u128_max_val: "u128_val VIRTUAL_SCHEDULE_LAP_LENGTH2 = 340282366920938463463374607431768211455"
  by (simp add: VIRTUAL_SCHEDULE_LAP_LENGTH2_def u128_val_def unsigned_minus_1_eq_mask mask_eq_exp_minus_1)

lemma demo_lap:
  "lap fc_ref (w\<lparr>w_schedule := s\<rparr>) = lap fc_ref w"
  "lap fc_ref (demo_witness i n 10 k) = Inr (u128_of_nat (340282366920938463463374607431768211455 div 11))"
  "lap fc_ref (demo_witness i n 5 k) = Inr (u128_of_nat (340282366920938463463374607431768211455 div 6))"
  by (simp_all add: lap_def demo_witness_fields fc_ref_u128 u128_max_val wrap64_def)

lemma scheduled_total:
  assumes "\<forall>n \<in> set (scheduled_names (ch_wso c)). \<exists>w. witness_named n c = Inr w"
  shows "\<exists>c'. update_median_witness_props c = Inr c'"
proof -
  have "\<exists>ys. map_res f xs = Inr ys" if "\<forall>x \<in> set xs. \<exists>y. f x = Inr y" for f :: "'a \<Rightarrow> 'b res" and xs
    using that by (induction xs) auto
  then show ?thesis using assms by (fastforce simp: update_median_witness_props_def scheduled_witnesses_def Let_def)
qed

lemma demo_median_returns:
  assumes "w_owner a = ''alice''" and "w_owner b = ''bob''"
  shows "\<not> isl (update_median_witness_props ((two a b)\<lparr>ch_hpo := h, ch_wso := next_round d e [''alice'', ''bob''] r v m\<rparr>))"
proof -
  define c where "c = (two a b)\<lparr>ch_hpo := h, ch_wso := next_round d e [''alice'', ''bob''] r v m\<rparr>"
  have "scheduled_names (ch_wso c) = shuffle_witnesses (head_block_time d) 2 [''alice'', ''bob'']"
    by (rule scheduled_names_shuffled [where pad = "replicate 19 []"]) (simp_all add: c_def next_round_def Let_def STEEMIT_MAX_WITNESSES_def numeral_eq_Suc)
  then have "set (scheduled_names (ch_wso c)) = {''alice'', ''bob''}"
    using shuffle_witnesses_perm(2) [of "head_block_time d" "[''alice'', ''bob'']"] by (metis list.simps(15) list.set(1) length_Cons list.size(3) numeral_2_eq_2 set_mset_mset)
  then have "\<exists>c'. update_median_witness_props c = Inr c'"
    using assms named_in_two [of c a b] by (intro scheduled_total) (auto simp: c_def)
  then show ?thesis by (auto simp: c_def)
qed

lemma demo_round_returns: "\<not> isl (update_witness_schedule4 fc_ref demo_round)"
  unfolding update_witness_schedule4_def demo_round_def two_fields demo_orders
  by (simp add: two_access two_fields demo_witness_fields demo_schedule_def demo_orders Let_def STEEMIT_MAX_WITNESSES_def,
    simp add: two_access two_fields demo_witness_fields demo_lap fc_ref_u128 u128_val_def u128_of_nat_def Let_def fc_assert_def
      scheduled_witnesses_def scheduled_names_def demo_schedule_def upt_rec named_in_two,
    rule demo_median_returns; simp add: demo_witness_fields)

lemma demo_round_facts:
  "tbl_ok (ch_witnesses demo_round)" "map (\<lambda>e. w_owner (snd e)) (gi_indices (ch_witnesses demo_round)) = [''alice'', ''bob'']"
  "ws_top19_weight (ch_wso demo_round) = 1" "ws_timeshare_weight (ch_wso demo_round) = 5"
  "ws_max_voted_witnesses (ch_wso demo_round) = 19"
  by (simp_all add: demo_round_def two_fields demo_witness_fields demo_schedule_def)

lemma demo_round_at: "find_obj 0 (ch_witnesses demo_round) = Some (demo_witness 0 ''alice'' 10 7)"
  "find_obj (Suc 0) (ch_witnesses demo_round) = Some (demo_witness (Suc 0) ''bob'' 5 8)"
  by (simp_all add: find_obj_def demo_round_def two_fields)

lemma demo_chosen: "elected demo_round = [0, Suc 0]" "runners demo_round = []"
proof -
  have k: "has_key demo_round 0" "has_key demo_round (Suc 0)" by (simp_all add: has_key_def demo_round_at demo_witness_fields)
  show e: "elected demo_round = [0, Suc 0]"
    using k by (simp add: elected_def demo_round_facts) (simp add: demo_round_def demo_orders)
  have "set (by_schedule_time demo_round) = {0, Suc 0}"
    using index_ids(4) [OF demo_round_facts(1)] by (simp add: demo_round_def two_fields)
  then have "filter (\<lambda>i. has_key demo_round i \<and> i \<notin> set [0, Suc 0]) (by_schedule_time demo_round) = []"
    by (auto simp: filter_empty_conv)
  then show "runners demo_round = []" by (simp only: runners_def e) simp
qed

theorem schedule_exact_witness:
  "\<exists>c'. update_witness_schedule4 fc_ref demo_round = Inr c' \<and> mset (scheduled_names (ch_wso c')) = {#''alice'', ''bob''#} \<and>
     distinct (scheduled_names (ch_wso c'))"
proof -
  obtain c' where c': "update_witness_schedule4 fc_ref demo_round = Inr c'" using demo_round_returns by (auto dest: returns)
  moreover have "owner_at demo_round 0 = ''alice''" "owner_at demo_round (Suc 0) = ''bob''"
    by (simp_all add: owner_at_def demo_round_at demo_witness_fields)
  ultimately show ?thesis using schedule_exact [OF c'] by (simp add: demo_round_facts demo_chosen)
qed

theorem schedule_throws_without_key_witness:
  "\<exists>e. update_witness_schedule fc_ref (two (demo_witness 0 ''alice'' 10 7) (demo_witness 1 ''bob'' 5 0)) = Inl e"
  by (rule schedule_throws_without_key) (simp_all add: two_fields demo_witness_fields STEEMIT_MAX_WITNESSES_def)

theorem pay_divisor_counts_elected_twice_witness:
  "\<exists>c'. update_witness_schedule4 fc_ref demo_round = Inr c' \<and> unat (ws_witness_pay_normalization_factor (ch_wso c')) = 12"
proof -
  obtain c' where c': "update_witness_schedule4 fc_ref demo_round = Inr c'" using demo_round_returns by (auto dest: returns)
  then show ?thesis using pay_divisor_counts_elected_twice [OF c'] by (simp add: demo_round_facts demo_chosen)
qed

end
