(* ===== verification/Block_Production.thy ===== *)
theory Block_Production
  imports Witness_Schedule Market
begin

text \<open>
  Slots and block headers in \<open>chain/database.cpp\<close>: who may produce a block at a time, what the header of
  the next block must say, and what a block changes in the global properties and in the records of the
  witnesses: missed slots, participation, the last irreversible block, and the median of the price feeds.

  The skip flags of a node are arguments.  The sum of a time and a \<open>uint32_t\<close> is that of the time and as
  many seconds.  \<open>update_last_irreversible_block\<close> also appends blocks to the block log and resizes the fork
  database; these are not part of the chain state.
\<close>

section \<open>Constants\<close>

definition STEEMIT_BLOCKS_PER_HOUR :: nat where "STEEMIT_BLOCKS_PER_HOUR = 60 * 60 div STEEMIT_BLOCK_INTERVAL"
definition STEEMIT_FEED_INTERVAL_BLOCKS :: nat where "STEEMIT_FEED_INTERVAL_BLOCKS = STEEMIT_BLOCKS_PER_HOUR"
definition STEEMIT_FEED_HISTORY_WINDOW_PRE_HF_16 :: nat where "STEEMIT_FEED_HISTORY_WINDOW_PRE_HF_16 = 24 * 7"
definition STEEMIT_FEED_HISTORY_WINDOW :: nat where "STEEMIT_FEED_HISTORY_WINDOW = 12 * 7"
definition STEEMIT_MAX_FEED_AGE_SECONDS :: int where "STEEMIT_MAX_FEED_AGE_SECONDS = 60 * 60 * 24 * 7"
definition STEEMIT_MIN_FEEDS :: nat where "STEEMIT_MIN_FEEDS = STEEMIT_MAX_WITNESSES div 3"
definition STEEMIT_IRREVERSIBLE_THRESHOLD :: nat where "STEEMIT_IRREVERSIBLE_THRESHOLD = 75 * STEEMIT_1_PERCENT"
definition STEEMIT_MAX_UNDO_HISTORY :: nat where "STEEMIT_MAX_UNDO_HISTORY = 10000"

definition skip_witness_signature :: u32 where "skip_witness_signature = 1"
definition skip_undo_history_check :: u32 where "skip_undo_history_check = 256"
definition skip_witness_schedule_check :: u32 where "skip_witness_schedule_check = 512"

section \<open>Slots\<close>

definition get_scheduled_witness :: "u32 \<Rightarrow> chain \<Rightarrow> account_name_type" where
  "get_scheduled_witness slot_num c =
     (let current_aslot = g_current_aslot (ch_gpo c) + ucast slot_num
      in ws_current_shuffled_witnesses (ch_wso c) ! (unat current_aslot mod unat (ws_num_scheduled_witnesses (ch_wso c))))"

definition get_slot_time :: "fc_lib \<Rightarrow> u32 \<Rightarrow> chain \<Rightarrow> time_point_sec" where
  "get_slot_time L slot_num c =
     (if slot_num = 0 then 0
      else
        let offset = seconds (uint (slot_num * of_nat STEEMIT_BLOCK_INTERVAL))
        in if head_block_num c = 0 then time_plus L (g_time (ch_gpo c)) offset
           else
             let head_block_abs_slot = unat (head_block_time c) div STEEMIT_BLOCK_INTERVAL;
                 head_slot_time = of_nat (head_block_abs_slot * STEEMIT_BLOCK_INTERVAL)
             in time_plus L head_slot_time offset)"

definition get_slot_at_time :: "fc_lib \<Rightarrow> time_point_sec \<Rightarrow> chain \<Rightarrow> u32" where
  "get_slot_at_time L at c =
     (let first_slot_time = get_slot_time L 1 c
      in if at < first_slot_time then 0
         else of_int (cdiv (cdiv (time_minus L at first_slot_time) 1000000) (int STEEMIT_BLOCK_INTERVAL) + 1))"

section \<open>The header of the next block\<close>

definition validate_block_header :: "fc_lib \<Rightarrow> fc_crypto \<Rightarrow> u32 \<Rightarrow> 'a signed_block_header_scheme \<Rightarrow> chain \<Rightarrow> oid res" where
  "validate_block_header L K skip next_block c =
     rbind (fc_assert (g_head_block_id (ch_gpo c) = previous next_block) ''head_block_id() == next_block.previous'') (\<lambda>_.
     rbind (fc_assert (head_block_time c < timestamp next_block) ''head_block_time() < next_block.timestamp'') (\<lambda>_.
     rbind (get_witness (witness next_block) c) (\<lambda>i.
     rbind (witness_at i c) (\<lambda>w.
     rbind (if and skip skip_witness_signature = 0
            then rbind (validate_signee K (w_signing_key w) next_block) (\<lambda>ok. fc_assert ok ''validate_signee'')
            else Inr ()) (\<lambda>_.
     rbind (if and skip skip_witness_schedule_check = 0
            then let slot_num = get_slot_at_time L (timestamp next_block) c
                 in rbind (fc_assert (slot_num > 0) ''slot_num > 0'') (\<lambda>_.
                    fc_assert (w_owner w = get_scheduled_witness slot_num c) ''Witness produced block at wrong time'')
            else Inr ()) (\<lambda>_.
     Inr i))))))"

fun process_header_extension :: "account_name_type \<Rightarrow> block_header_extensions \<Rightarrow> chain \<Rightarrow> chain res" where
  "process_header_extension n ext_void c = Inr c"
| "process_header_extension n (ext_version reported_version) c =
     rbind (get_witness n c) (\<lambda>i.
     rbind (witness_at i c) (\<lambda>signing_witness.
     if reported_version \<noteq> w_running_version signing_witness
     then modify_witness i (\<lambda>wo. Inr (wo\<lparr>w_running_version := reported_version\<rparr>)) c
     else Inr c))"
| "process_header_extension n (ext_hardfork_vote hfv) c =
     rbind (get_witness n c) (\<lambda>i.
     rbind (witness_at i c) (\<lambda>signing_witness.
     if hf_version hfv \<noteq> w_hardfork_version_vote signing_witness \<or> hf_time hfv \<noteq> w_hardfork_time_vote signing_witness
     then modify_witness i (\<lambda>wo. Inr (wo\<lparr>w_hardfork_version_vote := hardfork_mask (hf_version hfv), w_hardfork_time_vote := hf_time hfv\<rparr>)) c
     else Inr c))"

definition process_header_extensions :: "'a signed_block_header_scheme \<Rightarrow> chain \<Rightarrow> chain res" where
  "process_header_extensions next_block c =
     fold_res (process_header_extension (witness next_block)) (extensions next_block) c"

section \<open>The global properties after a block\<close>

text \<open>A witness that missed its slot; after a day without a block its signing key is taken away.\<close>

definition miss_slot :: "account_name_type \<Rightarrow> nat \<Rightarrow> chain \<Rightarrow> chain res" where
  "miss_slot producer i c =
     rbind (get_witness (get_scheduled_witness (of_nat i + 1) c) c) (\<lambda>j.
     rbind (witness_at j c) (\<lambda>witness_missed.
     if w_owner witness_missed \<noteq> producer
     then let shut = has_hardfork 14 c \<and>
                unat (ucast (head_block_num c) - w_last_confirmed_block_num witness_missed) > STEEMIT_BLOCKS_PER_DAY
          in rbind (modify_witness j (\<lambda>w. Inr (w\<lparr>w_total_missed := w_total_missed w + 1,
                 w_signing_key := if shut then 0 else w_signing_key w\<rparr>)) c) (\<lambda>c.
             Inr (if shut then push_virtual_operation (Op_shutdown_witness \<lparr>vsw_owner = w_owner witness_missed\<rparr>) c else c))
     else Inr c))"

text \<open>One slot of the participation record: the oldest slot drops out, the slot of the block is filled.\<close>

definition fill_slot :: "fc_lib \<Rightarrow> nat \<Rightarrow> dynamic_global_property_object \<Rightarrow> dynamic_global_property_object" where
  "fill_slot L i dgp =
     (let n = g_participation_count dgp - (if and (hi (g_recent_slots_filled dgp)) 0x8000000000000000 \<noteq> 0 then 1 else 0)
      in dgp\<lparr>g_participation_count := n + (if i = 0 then 1 else 0),
             g_recent_slots_filled := u128_add L (u128_shl L (g_recent_slots_filled dgp) 1) (u128_of_int L (if i = 0 then 1 else 0))\<rparr>)"

definition update_global_dynamic_data :: "fc_lib \<Rightarrow> fc_crypto \<Rightarrow> u32 \<Rightarrow> 'a signed_block_header_scheme \<Rightarrow> chain \<Rightarrow> chain res" where
  "update_global_dynamic_data L K skip b c =
     (let missed_blocks = (if head_block_time c \<noteq> 0 then get_slot_at_time L (timestamp b) c - 1 else 0)
      in rbind (fold_res (miss_slot (witness b)) [0..<unat missed_blocks] c) (\<lambda>c.
         let dgp = fold (fill_slot L) [0..<unat (missed_blocks + 1)] (ch_gpo c);
             dgp = dgp\<lparr>g_head_block_number := block_num L b, g_head_block_id := header_id L K b, g_time := timestamp b,
                       g_current_aslot := g_current_aslot dgp + ucast (missed_blocks + 1)\<rparr>;
             c = c\<lparr>ch_gpo := dgp\<rparr>
         in rbind (if and skip skip_undo_history_check = 0
                   then throw_unless (unat (g_head_block_number dgp - g_last_irreversible_block_num dgp) < STEEMIT_MAX_UNDO_HISTORY)
                     (library_exception ''undo_database_exception'')
                   else Inr ()) (\<lambda>_.
            Inr c)))"

definition update_signing_witness :: "fc_lib \<Rightarrow> oid \<Rightarrow> 'a signed_block_header_scheme \<Rightarrow> chain \<Rightarrow> chain res" where
  "update_signing_witness L i new_block c =
     (let new_block_aslot = g_current_aslot (ch_gpo c) + ucast (get_slot_at_time L (timestamp new_block) c)
      in modify_witness i (\<lambda>w. Inr (w\<lparr>w_last_aslot := new_block_aslot,
           w_last_confirmed_block_num := ucast (block_num L new_block)\<rparr>)) c)"

section \<open>Irreversibility\<close>

definition commit_all :: "int \<Rightarrow> chain \<Rightarrow> chain" where
  "commit_all r c = c\<lparr>ch_accounts := commit r (ch_accounts c), ch_witnesses := commit r (ch_witnesses c),
     ch_witness_votes := commit r (ch_witness_votes c), ch_converts := commit r (ch_converts c), ch_escrows := commit r (ch_escrows c),
     ch_savings := commit r (ch_savings c), ch_liquidity := commit r (ch_liquidity c), ch_orders := commit r (ch_orders c),
     ch_routes := commit r (ch_routes c), ch_declines := commit r (ch_declines c), ch_delegations := commit r (ch_delegations c),
     ch_expirations := commit r (ch_expirations c), ch_reward_funds := commit r (ch_reward_funds c)\<rparr>"

definition new_last_irreversible :: "witness_object list \<Rightarrow> u32" where
  "new_last_irreversible wit_objs =
     (let offset = (STEEMIT_100_PERCENT - STEEMIT_IRREVERSIBLE_THRESHOLD) * length wit_objs div STEEMIT_100_PERCENT
      in ucast (w_last_confirmed_block_num (sort_key w_last_confirmed_block_num wit_objs ! offset)))"

definition update_last_irreversible_block :: "chain \<Rightarrow> chain res" where
  "update_last_irreversible_block c =
     rbind (if unat (head_block_num c) < STEEMIT_START_MINER_VOTING_BLOCK
            then Inr (if unat (head_block_num c) > STEEMIT_MAX_WITNESSES
                      then c\<lparr>ch_gpo := (ch_gpo c)\<lparr>g_last_irreversible_block_num := head_block_num c - of_nat STEEMIT_MAX_WITNESSES\<rparr>\<rparr>
                      else c)
            else rbind (scheduled_witnesses c) (\<lambda>wit_objs.
                 let n = new_last_irreversible wit_objs
                 in Inr (if n > g_last_irreversible_block_num (ch_gpo c)
                         then c\<lparr>ch_gpo := (ch_gpo c)\<lparr>g_last_irreversible_block_num := n\<rparr>\<rparr> else c))) (\<lambda>c.
     Inr (commit_all (uint (g_last_irreversible_block_num (ch_gpo c))) c))"

section \<open>The price feed\<close>

definition feed_of :: "fc_lib \<Rightarrow> chain \<Rightarrow> witness_object \<Rightarrow> price list" where
  "feed_of L c wit =
     (let now = head_block_time c; age = seconds STEEMIT_MAX_FEED_AGE_SECONDS
      in if has_hardfork 19 c
         then if now < time_plus L (w_last_sbd_exchange_update wit) age \<and> \<not> is_null L (w_sbd_exchange_rate wit)
              then [w_sbd_exchange_rate wit] else []
         else if w_last_sbd_exchange_update wit < time_plus L now age \<and> \<not> is_null L (w_sbd_exchange_rate wit)
              then [w_sbd_exchange_rate wit] else [])"

definition median_price :: "fc_lib \<Rightarrow> price list \<Rightarrow> price" where
  "median_price L ps = sort_by (price_less L) ps ! (length ps div 2)"

text \<open>The median of the feeds joins the history, and the median of the history becomes the current price
  unless SBD would exceed a tenth of the market.\<close>

definition add_feed :: "fc_lib \<Rightarrow> chain \<Rightarrow> price \<Rightarrow> feed_history_object res" where
  "add_feed L c median_feed =
     (let fho = ch_feed c;
          window = (if has_hardfork 16 c then STEEMIT_FEED_HISTORY_WINDOW else STEEMIT_FEED_HISTORY_WINDOW_PRE_HF_16);
          history = fh_price_history fho @ [median_feed];
          history = (if length history > window then tl history else history);
          fho = fho\<lparr>fh_price_history := history\<rparr>
      in if history \<noteq> []
         then let fho = fho\<lparr>fh_current_median_history := median_price L history\<rparr>
              in if has_hardfork 14 c
                 then rbind (safe_mul L 9 (amount (g_current_sbd_supply (ch_gpo c)))) (\<lambda>x.
                      let min_price = mk_price (mk_asset x SBD_SYMBOL) (g_current_supply (ch_gpo c))
                      in Inr (if price_greater L min_price (fh_current_median_history fho)
                              then fho\<lparr>fh_current_median_history := min_price\<rparr> else fho))
                 else Inr fho
         else Inr fho)"

definition update_median_feed :: "fc_lib \<Rightarrow> chain \<Rightarrow> chain res" where
  "update_median_feed L c =
     (if unat (head_block_num c) mod STEEMIT_FEED_INTERVAL_BLOCKS \<noteq> 0 then Inr c
      else rbind (scheduled_witnesses c) (\<lambda>ws.
           let feeds = concat (map (feed_of L c) ws)
           in if length feeds \<ge> STEEMIT_MIN_FEEDS
              then rbind (add_feed L c (median_price L feeds)) (\<lambda>fho. Inr (c\<lparr>ch_feed := fho\<rparr>))
              else Inr c))"

section \<open>Slots and times\<close>

text \<open>The start of slot 0, in seconds.\<close>

definition slot_base :: "chain \<Rightarrow> nat" where
  "slot_base c = (if head_block_num c = 0 then unat (head_block_time c) else unat (head_block_time c) div 3 * 3)"

lemma slot_base_le: "slot_base c \<le> unat (head_block_time c)" "unat (head_block_time c) < slot_base c + 3"
  by (auto simp: slot_base_def)

lemma slot_time_value:
  assumes "time_laws L" and "n \<noteq> 0" and "slot_base c + 3 * unat n < 2 ^ 32"
  shows "unat (get_slot_time L n c) = slot_base c + 3 * unat n"
proof -
  have "3 * unat n < 4294967296" using assms(3) by simp
  then have "int (3 * unat n) < 4294967296" by (simp only: of_nat_less_numeral_iff)
  then have "uint (n * of_nat STEEMIT_BLOCK_INTERVAL) = int (3 * unat n)"
    by (simp add: STEEMIT_BLOCK_INTERVAL_def uint_word_ariths)
  then have o: "seconds (uint (n * of_nat STEEMIT_BLOCK_INTERVAL)) = 1000000 * int (3 * unat n)"
    by (simp only: seconds_def)
  have p: "unat (time_plus L t (1000000 * int (3 * unat n))) = unat t + 3 * unat n" if "unat t = slot_base c" for t
  proof -
    have "unat t + 3 * unat n < 2 ^ 32" using assms(3) that by simp
    then show ?thesis using assms(1) unfolding time_laws_def by blast
  qed
  have b: "unat (of_nat (unat (head_block_time c) div 3 * 3) :: u32) = unat (head_block_time c) div 3 * 3"
  proof -
    have "unat (head_block_time c) div 3 * 3 \<le> unat (head_block_time c)" by simp
    from le_less_trans [OF this unat_u32_less] have "unat (head_block_time c) div 3 * 3 < 2 ^ 32" by simp
    then show ?thesis by (simp only: unat_of_nat) simp
  qed
  show ?thesis
  proof (cases "head_block_num c = 0")
    case True
    then show ?thesis using p [of "head_block_time c"] assms(2)
      unfolding get_slot_time_def Let_def o by (simp add: slot_base_def head_block_time_def)
  next
    case False
    then show ?thesis using p [of "of_nat (unat (head_block_time c) div 3 * 3)"] b assms(2)
      unfolding get_slot_time_def Let_def o by (simp add: slot_base_def STEEMIT_BLOCK_INTERVAL_def)
  qed
qed

lemma slot_at_time_value:
  assumes "time_laws L" and "slot_base c + 3 < 2 ^ 32"
  shows "unat (get_slot_at_time L at c) = (unat at - slot_base c) div 3"
proof -
  have f: "unat (get_slot_time L 1 c) = slot_base c + 3" using slot_time_value [OF assms(1), of 1 c] assms(2) by simp
  show ?thesis
  proof (cases "at < get_slot_time L 1 c")
    case True
    then have "unat at < slot_base c + 3" using f by (simp add: word_less_nat_alt)
    then show ?thesis using True by (simp add: get_slot_at_time_def)
  next
    case False
    define d where "d = unat at - (slot_base c + 3)"
    have le: "slot_base c + 3 \<le> unat at" using False f by (simp add: word_less_nat_alt)
    have "time_minus L at (get_slot_time L 1 c) = 1000000 * (int (unat at) - int (unat (get_slot_time L 1 c)))"
      using assms(1) unfolding time_laws_def by blast
    then have "time_minus L at (get_slot_time L 1 c) = 1000000 * int d" unfolding f using le by (simp add: d_def)
    then have s: "get_slot_at_time L at c = of_nat (d div 3 + 1)"
    proof -
      have "cdiv (cdiv (1000000 * int d) 1000000) (int STEEMIT_BLOCK_INTERVAL) + 1 = int (d div 3 + 1)"
        by (simp add: cdiv_def sgn_if STEEMIT_BLOCK_INTERVAL_def zdiv_int)
      with \<open>time_minus L at (get_slot_time L 1 c) = 1000000 * int d\<close> show ?thesis
        using False by (simp only: get_slot_at_time_def Let_def if_False of_int_of_nat_eq)
    qed
    have "d div 3 + 1 \<le> unat at" using le by (simp add: d_def)
    from le_less_trans [OF this unat_u32_less] have "d div 3 + 1 < 2 ^ 32" by simp
    then have "unat (get_slot_at_time L at c) = d div 3 + 1" unfolding s by (simp only: unat_of_nat) simp
    then show ?thesis using le by (simp add: d_def)
  qed
qed

text \<open>C17: The slot of the start time of slot \<open>n\<close> is \<open>n\<close>, and the start time of the slot of a time is at most that
  time and less than three seconds before it: \<open>get_slot_at_time\<close> and \<open>get_slot_time\<close> fit together until
  the end of the 32-bit time range.\<close>

theorem slot_round_trip:
  assumes "time_laws L" and "n \<noteq> 0" and "slot_base c + 3 * unat n < 2 ^ 32"
  shows "get_slot_at_time L (get_slot_time L n c) c = n \<and>
    (get_slot_time L 1 c \<le> at \<longrightarrow> get_slot_time L (get_slot_at_time L at c) c \<le> at \<and>
       unat at < unat (get_slot_time L (get_slot_at_time L at c) c) + 3)"
proof -
  have "0 < unat n" using assms(2) by (simp add: unat_gt_0)
  then have b: "slot_base c + 3 < 2 ^ 32" using assms(3) by simp
  have "unat (get_slot_at_time L (get_slot_time L n c) c) = unat n"
    using slot_at_time_value [OF assms(1) b] slot_time_value [OF assms] by simp
  then have 1: "get_slot_at_time L (get_slot_time L n c) c = n" by (rule word_unat_eq_iff [THEN iffD2])
  moreover have "get_slot_time L (get_slot_at_time L at c) c \<le> at \<and> unat at < unat (get_slot_time L (get_slot_at_time L at c) c) + 3"
    if "get_slot_time L 1 c \<le> at"
  proof -
    define m where "m = get_slot_at_time L at c"
    have m: "unat m = (unat at - slot_base c) div 3" using slot_at_time_value [OF assms(1) b] by (simp add: m_def)
    have "slot_base c + 3 \<le> unat at"
      using that slot_time_value [OF assms(1), of 1 c] b by (simp add: word_le_nat_alt)
    then have "slot_base c + 3 * unat m \<le> unat at" "unat at < slot_base c + 3 * unat m + 3" "0 < unat m" using m by auto
    moreover have "slot_base c + 3 * unat m < 2 ^ 32" using le_less_trans [OF calculation(1) unat_u32_less] by simp
    moreover have "m \<noteq> 0" using calculation(3) by auto
    ultimately show ?thesis using slot_time_value [OF assms(1), of m c] by (simp add: m_def word_le_nat_alt)
  qed
  ultimately show ?thesis by blast
qed

theorem slot_round_trip_witness:
  "get_slot_at_time fc_ref (get_slot_time fc_ref 5 demo_chain) demo_chain = 5 \<and>
    get_slot_time fc_ref 1 demo_chain \<le> 2000000000 \<and>
    get_slot_time fc_ref (get_slot_at_time fc_ref 2000000000 demo_chain) demo_chain \<le> 2000000000 \<and>
    unat (2000000000 :: u32) < unat (get_slot_time fc_ref (get_slot_at_time fc_ref 2000000000 demo_chain) demo_chain) + 3"
proof -
  have 1: "slot_base demo_chain + 3 * 5 < 2 ^ 32" "slot_base demo_chain + 3 \<le> 2000000000"
    by (simp_all add: slot_base_def demo_defs head_block_num_def head_block_time_def)
  then have "get_slot_time fc_ref 1 demo_chain \<le> 2000000000"
    using slot_time_value [of fc_ref 1 demo_chain] by (simp add: word_le_nat_alt)
  with 1 slot_round_trip [of fc_ref 5 demo_chain 2000000000] show ?thesis by simp
qed

section \<open>The producer of a block\<close>

text \<open>A missed slot changes the count and the key of one witness, and the log.\<close>

lemma miss_slotE:
  assumes "miss_slot n i c = Inr c'"
  obtains "c' = c" | j d shut vops where
    "modify_witness j (\<lambda>w. Inr (w\<lparr>w_total_missed := w_total_missed w + 1, w_signing_key := if shut then 0 else w_signing_key w\<rparr>)) c = Inr d"
    "c' = d\<lparr>ch_virtual_ops := vops\<rparr>"
proof -
  from assms obtain j w where w: "get_witness (get_scheduled_witness (of_nat i + 1) c) c = Inr j" "witness_at j c = Inr w"
    by (auto simp: miss_slot_def)
  define shut where "shut \<longleftrightarrow> has_hardfork 14 c \<and> unat (ucast (head_block_num c) - w_last_confirmed_block_num w) > STEEMIT_BLOCKS_PER_DAY"
  show thesis
  proof (cases "w_owner w = n")
    case True
    then show thesis using assms w that(1) by (simp add: miss_slot_def)
  next
    case False
    then obtain d where d: "modify_witness j (\<lambda>w. Inr (w\<lparr>w_total_missed := w_total_missed w + 1, w_signing_key := if shut then 0 else w_signing_key w\<rparr>)) c = Inr d"
      "c' = (if shut then push_virtual_operation (Op_shutdown_witness \<lparr>vsw_owner = w_owner w\<rparr>) d else d)"
      using assms w unfolding miss_slot_def shut_def Let_def by auto
    show thesis
    proof (rule that(2) [OF d(1)])
      show "c' = d\<lparr>ch_virtual_ops := ch_virtual_ops c'\<rparr>" using d(2) by (simp add: push_virtual_operation_def)
    qed
  qed
qed

lemma miss_slot_keeps:
  assumes "miss_slot n i c = Inr c'"
  shows "ch_gpo c' = ch_gpo c \<and> ch_wso c' = ch_wso c"
  using assms by (rule miss_slotE) (auto simp: modify_witness_def)

lemma miss_slots_keep:
  assumes "fold_res (miss_slot n) is c = Inr c'"
  shows "ch_gpo c' = ch_gpo c \<and> ch_wso c' = ch_wso c"
  using assms by (rule fold_res_invariant) (auto dest: miss_slot_keeps)

lemma fill_slots_keep:
  "g_current_aslot (fold (fill_slot L) is g) = g_current_aslot g \<and>
   g_last_irreversible_block_num (fold (fill_slot L) is g) = g_last_irreversible_block_num g"
  by (induction "is" arbitrary: g) (simp_all add: fill_slot_def Let_def)

lemma update_global_dynamic_data_gpo:
  assumes "update_global_dynamic_data L K skip b c = Inr c'" and "head_block_time c \<noteq> 0"
  shows "g_current_aslot (ch_gpo c') = g_current_aslot (ch_gpo c) + ucast (get_slot_at_time L (timestamp b) c)"
    and "g_time (ch_gpo c') = timestamp b" and "g_head_block_number (ch_gpo c') = block_num L b" and "ch_wso c' = ch_wso c"
  using assms by (auto simp: update_global_dynamic_data_def Let_def fill_slots_keep dest!: miss_slots_keep)

lemma validate_block_header_scheduled:
  assumes "validate_block_header L K skip b c = Inr i" and "and skip skip_witness_schedule_check = 0" and "tbl_ok (ch_witnesses c)"
  shows "witness b = get_scheduled_witness (get_slot_at_time L (timestamp b) c) c" and "0 < get_slot_at_time L (timestamp b) c"
    and "get_witness (witness b) c = Inr i"
proof -
  obtain w where w: "get_witness (witness b) c = Inr i" "witness_at i c = Inr w"
    "w_owner w = get_scheduled_witness (get_slot_at_time L (timestamp b) c) c" "0 < get_slot_at_time L (timestamp b) c"
    using assms(1,2) by (auto simp: validate_block_header_def Let_def split: if_splits)
  have "find_by (\<lambda>w. w_owner w = witness b) (ch_witnesses c) = Some i"
    using w(1) by (auto simp: get_witness_def get_by_def split: option.splits)
  from find_by_Some [OF this assms(3)] w(2) have "w_owner w = witness b" by (auto simp: witness_at_def find_obj_get)
  with w show "witness b = get_scheduled_witness (get_slot_at_time L (timestamp b) c) c" "0 < get_slot_at_time L (timestamp b) c"
    "get_witness (witness b) c = Inr i" by simp_all
qed

text \<open>C13: A block that passes the check of its header was produced by the witness whose turn it was: after the block
  the absolute slot counter points, modulo the length of the round, at the producer, and the witness
  record of the producer carries that slot and the number of the block.\<close>

theorem producer_is_scheduled:
  assumes "time_laws L" and "validate_block_header L K skip b c = Inr i" and "and skip skip_witness_schedule_check = 0"
    and "tbl_ok (ch_witnesses c)" and "head_block_time c \<noteq> 0" and "update_global_dynamic_data L K skip' b c = Inr c'"
    and "update_signing_witness L i b c' = Inr c''" and "unat (timestamp b) + 3 < 2 ^ 32"
  shows "ws_current_shuffled_witnesses (ch_wso c') !
      (unat (g_current_aslot (ch_gpo c')) mod unat (ws_num_scheduled_witnesses (ch_wso c'))) = witness b \<and>
    (\<exists>w. witness_at i c'' = Inr w \<and> w_last_aslot w = g_current_aslot (ch_gpo c') \<and>
       w_last_confirmed_block_num w = ucast (block_num L b))"
proof -
  note g = update_global_dynamic_data_gpo [OF assms(6,5)]
  have time: "head_block_time c' = timestamp b" using g(2) by (simp add: head_block_time_def)
  have "slot_base c' + 3 < 2 ^ 32" using slot_base_le(1) [of c'] time assms(8) by simp
  then have "unat (get_slot_at_time L (timestamp b) c') = (unat (timestamp b) - slot_base c') div 3"
    by (rule slot_at_time_value [OF assms(1)])
  also have "\<dots> = 0" using slot_base_le(2) [of c'] time by simp
  finally have z: "get_slot_at_time L (timestamp b) c' = 0" by (simp add: unsigned_eq_0_iff)
  obtain t where t: "db_modify witness_clash i (\<lambda>w. Inr (w\<lparr>w_last_aslot := g_current_aslot (ch_gpo c'),
      w_last_confirmed_block_num := ucast (block_num L b)\<rparr>)) (ch_witnesses c') = Inr t" "c'' = c'\<lparr>ch_witnesses := t\<rparr>"
    using assms(7) z by (auto simp: update_signing_witness_def modify_witness_def)
  from t(1) obtain w where "find_obj i t = Some (w\<lparr>w_last_aslot := g_current_aslot (ch_gpo c'), w_last_confirmed_block_num := ucast (block_num L b)\<rparr>)"
    by (rule db_modify_indices) (auto simp: find_obj_def)
  then have "\<exists>w. witness_at i c'' = Inr w \<and> w_last_aslot w = g_current_aslot (ch_gpo c') \<and> w_last_confirmed_block_num w = ucast (block_num L b)"
    using t(2) by (simp add: witness_at_def get_obj_def)
  then show ?thesis
    using validate_block_header_scheduled(1) [OF assms(2,3,4)] g(1,4) by (simp add: get_scheduled_witness_def Let_def)
qed

section \<open>Participation\<close>

text \<open>The number of ones in the record of the last 128 slots.  Bit 0 is what was shifted in last.\<close>

definition filled :: "uint128 \<Rightarrow> nat" where
  "filled u = card {i. i < 128 \<and> bit (u128_val u) i}"

definition participation_ok :: "dynamic_global_property_object \<Rightarrow> bool" where
  "participation_ok g \<longleftrightarrow> unat (g_participation_count g) = filled (g_recent_slots_filled g)"

lemma filled_le: "filled u \<le> 128"
proof -
  have "filled u \<le> card {i :: nat. i < 128}" unfolding filled_def by (rule card_mono) auto
  then show ?thesis by simp
qed

lemma top_bit_set: "and (hi u) 0x8000000000000000 \<noteq> 0 \<longleftrightarrow> bit (u128_val u) 127"
proof -
  have "and (hi u) (2 ^ 63) \<noteq> 0 \<longleftrightarrow> bit (hi u) 63" by (simp only: and_exp_eq_0_iff_not_bit not_not)
  then have top: "and (hi u) 0x8000000000000000 \<noteq> 0 \<longleftrightarrow> bit (hi u) 63" by simp
  have "bit (u128_val u) 127 \<longleftrightarrow> odd (u128_val u div 2 ^ 64 div 2 ^ 63)"
    by (simp add: bit_iff_odd flip: div_mult2_eq)
  also have "u128_val u div 2 ^ 64 = unat (hi u)" by (simp add: u128_val_def)
  also have "odd (unat (hi u) div 2 ^ 63) \<longleftrightarrow> bit (unat (hi u)) 63" by (simp only: bit_iff_odd)
  also have "\<dots> \<longleftrightarrow> bit (hi u) 63" by (simp add: bit_unsigned_iff)
  finally show ?thesis using top by simp
qed

lemma double_mod: "2 * v mod 2 ^ 128 = 2 * (v mod 2 ^ 127 :: nat)"
  using mod_mult_mult1 [of 2 v "2 ^ 127"] by simp

lemma shifted_value:
  assumes "uint128_laws L" and "e \<le> 1"
  shows "u128_val (u128_add L (u128_shl L u 1) (u128_of_int L (int e))) = 2 * u128_val u mod 2 ^ 128 + e"
proof -
  have "u128_val u mod 2 ^ 127 < 2 ^ 127" by simp
  then have lt: "2 * u128_val u mod 2 ^ 128 + e < 2 ^ 128" unfolding double_mod using assms(2) by simp
  have "u128_val (u128_of_int L (int e)) = e" using assms by (simp add: u128_of_int_val)
  then show ?thesis using lt by (simp add: uint128_rules [OF assms(1)] u128_val_of_nat mult.commute)
qed

lemma bits_shifted:
  assumes "e \<le> (1 :: nat)" and "i < 128"
  shows "bit (2 * v mod 2 ^ 128 + e) i \<longleftrightarrow> (if i = 0 then e = 1 else bit v (i - 1))"
proof -
  have s: "2 * v mod 2 ^ 128 + e = 2 * take_bit 127 v + e" by (simp only: take_bit_eq_mod double_mod)
  show ?thesis
  proof (cases i)
    case 0
    then show ?thesis unfolding s using assms(1) by (auto simp: bit_0 le_Suc_eq)
  next
    case (Suc j)
    have "(2 * take_bit 127 v + e) div 2 = take_bit 127 v" using assms(1) by simp
    then show ?thesis unfolding s Suc bit_Suc using assms(2) Suc by (simp add: bit_take_bit_iff)
  qed
qed

lemma fill_slot_participation:
  assumes "uint128_laws L" and "participation_ok g"
  shows "participation_ok (fill_slot L i g)"
proof -
  define e where "e = (if i = 0 then 1 else 0 :: nat)"
  define u where "u = g_recent_slots_filled g"
  define u' where "u' = u128_add L (u128_shl L u 1) (u128_of_int L (int e))"
  have e: "e \<le> 1" by (simp add: e_def)
  have "{j. j < 128 \<and> bit (u128_val u') j} = (if e = 1 then {0} else {}) \<union> Suc ` {j. j < 127 \<and> bit (u128_val u) j}"
  proof (rule set_eqI)
    fix j
    show "j \<in> {j. j < 128 \<and> bit (u128_val u') j} \<longleftrightarrow> j \<in> (if e = 1 then {0} else {}) \<union> Suc ` {j. j < 127 \<and> bit (u128_val u) j}"
      using bits_shifted [OF e, of j "u128_val u"] unfolding u'_def shifted_value [OF assms(1) e] by (cases j) auto
  qed
  then have f': "filled u' = e + card {j. j < 127 \<and> bit (u128_val u) j}"
    using e by (auto simp: filled_def card_insert_if card_image)
  have "{j. j < 128 \<and> bit (u128_val u) j} = (if bit (u128_val u) 127 then {127} else {}) \<union> {j. j < 127 \<and> bit (u128_val u) j}"
    using less_Suc_eq [of _ 127] by auto
  then have f: "filled u = (if bit (u128_val u) 127 then 1 else 0) + card {j. j < 127 \<and> bit (u128_val u) j}"
    by (auto simp: filled_def card_insert_if)
  have n: "unat (g_participation_count g) = filled u" using assms(2) by (simp add: participation_ok_def u_def)
  define top :: nat where "top = (if bit (u128_val u) 127 then 1 else 0)"
  have "g_participation_count g = of_nat (filled u)" using n by (metis of_nat_unat ucast_id)
  then have "g_participation_count (fill_slot L i g) = of_nat (filled u - top + e)"
    using f by (simp add: fill_slot_def Let_def top_bit_set u_def [symmetric] e_def top_def of_nat_diff)
  moreover have "filled u - top + e = filled u'" using f f' by (simp add: top_def)
  moreover have "filled u' < 256" using filled_le [of u'] by simp
  ultimately have "unat (g_participation_count (fill_slot L i g)) = filled u'" by (simp add: unat_of_nat)
  moreover have "g_recent_slots_filled (fill_slot L i g) = u'"
    by (simp add: fill_slot_def Let_def u'_def u_def e_def)
  ultimately show ?thesis by (simp add: participation_ok_def)
qed

lemma fill_slot_bits:
  assumes "uint128_laws L" and "i < 128"
  shows "bit (u128_val (g_recent_slots_filled (fill_slot L k g))) i \<longleftrightarrow>
    (if i = 0 then k = 0 else bit (u128_val (g_recent_slots_filled g)) (i - 1))"
proof -
  define e where "e = (if k = 0 then 1 else 0 :: nat)"
  have e: "e \<le> 1" by (simp add: e_def)
  have "g_recent_slots_filled (fill_slot L k g) = u128_add L (u128_shl L (g_recent_slots_filled g) 1) (u128_of_int L (int e))"
    by (simp add: fill_slot_def Let_def e_def)
  then show ?thesis using bits_shifted [OF e assms(2)] shifted_value [OF assms(1) e] by (simp add: e_def)
qed

lemma missed_slots_bits:
  assumes "uint128_laws L" and "i < 128" and "\<forall>k \<in> set ks. k \<noteq> 0"
  shows "bit (u128_val (g_recent_slots_filled (fold (fill_slot L) ks g))) i \<longleftrightarrow>
    length ks \<le> i \<and> bit (u128_val (g_recent_slots_filled g)) (i - length ks)"
  using assms(3)
proof (induction ks arbitrary: g)
  case (Cons k ks)
  show ?case
  proof (cases "length ks \<le> i")
    case True
    then have "bit (u128_val (g_recent_slots_filled (fill_slot L k g))) (i - length ks) \<longleftrightarrow>
        i - length ks \<noteq> 0 \<and> bit (u128_val (g_recent_slots_filled g)) (i - length ks - 1)"
      using fill_slot_bits [OF assms(1), of "i - length ks" k g] assms(2) Cons.prems by auto
    with Cons True show ?thesis by auto
  qed (use Cons in auto)
qed simp

lemma slots_bits:
  assumes "uint128_laws L" and "i < 128" and "0 < n"
  shows "bit (u128_val (g_recent_slots_filled (fold (fill_slot L) [0..<n] g))) i \<longleftrightarrow>
    i = n - 1 \<or> n \<le> i \<and> bit (u128_val (g_recent_slots_filled g)) (i - n)"
proof -
  have "[0..<n] = 0 # [1..<n]" using assms(3) by (simp add: upt_conv_Cons)
  then have "bit (u128_val (g_recent_slots_filled (fold (fill_slot L) [0..<n] g))) i \<longleftrightarrow>
      n - 1 \<le> i \<and> bit (u128_val (g_recent_slots_filled (fill_slot L 0 g))) (i - (n - 1))"
    using missed_slots_bits [OF assms(1,2), of "[1..<n]" "fill_slot L 0 g"] by auto
  also have "\<dots> \<longleftrightarrow> i = n - 1 \<or> n \<le> i \<and> bit (u128_val (g_recent_slots_filled g)) (i - n)"
    using fill_slot_bits [OF assms(1), of "i - (n - 1)" 0 g] assms(2,3) by (auto simp: le_eq_less_or_eq)
  finally show ?thesis .
qed

text \<open>C15: What a block in slot \<open>n\<close> after the head does to the record of the last 128 slots and its counter.  The
  record moves up by \<open>n\<close> positions: bit \<open>n - 1\<close> is set for the block, the bits below it stand for the
  \<open>n - 1\<close> missed slots and are clear, and the older slots follow.  (The block is shifted in before the
  slots that were missed before it; with more than 128 slots nothing of the block is left.)  The
  counter is then the number of ones in the record, if it was before.\<close>

theorem participation_exact:
  assumes "uint128_laws L" and "update_global_dynamic_data L K skip b c = Inr c'" and "participation_ok (ch_gpo c)"
    and "head_block_time c \<noteq> 0" and "unat (get_slot_at_time L (timestamp b) c) = n" and "0 < n"
  shows "(\<forall>i < 128. bit (u128_val (g_recent_slots_filled (ch_gpo c'))) i \<longleftrightarrow>
      i = n - 1 \<or> n \<le> i \<and> bit (u128_val (g_recent_slots_filled (ch_gpo c))) (i - n)) \<and>
    unat (g_participation_count (ch_gpo c')) = filled (g_recent_slots_filled (ch_gpo c'))"
proof -
  have f: "participation_ok (fold (fill_slot L) is g)" if "participation_ok g" for "is" g
    using that by (induction "is" arbitrary: g) (auto intro: fill_slot_participation [OF assms(1)])
  define m where "m = get_slot_at_time L (timestamp b) c - 1"
  have n: "unat (m + 1) = n" using assms(5) by (simp add: m_def)
  obtain d where d: "fold_res (miss_slot (witness b)) [0..<unat m] c = Inr d"
    and g: "g_participation_count (ch_gpo c') = g_participation_count (fold (fill_slot L) [0..<n] (ch_gpo d))"
      "g_recent_slots_filled (ch_gpo c') = g_recent_slots_filled (fold (fill_slot L) [0..<n] (ch_gpo d))"
    using assms(2,4) n unfolding update_global_dynamic_data_def Let_def m_def [symmetric] by auto
  have c: "ch_gpo d = ch_gpo c" using miss_slots_keep [OF d] by simp
  have "participation_ok (fold (fill_slot L) [0..<n] (ch_gpo c))" using f [OF assms(3)] .
  then show ?thesis using slots_bits [OF assms(1) _ assms(6), of _ "ch_gpo c"] unfolding g c participation_ok_def by blast
qed

section \<open>Irreversibility\<close>

lemma sorted_nth_count:
  fixes xs :: "'k :: linorder list"
  assumes "sorted xs" and "k < length xs"
  shows "length xs - k \<le> length (filter (\<lambda>x. xs ! k \<le> x) xs)"
proof -
  have "set (drop k xs) \<subseteq> {x. xs ! k \<le> x}"
    using assms by (auto simp: in_set_conv_nth sorted_iff_nth_mono)
  then have "filter (\<lambda>x. xs ! k \<le> x) (drop k xs) = drop k xs" by (auto simp: filter_id_conv)
  moreover have "length (filter (\<lambda>x. xs ! k \<le> x) xs) = length (filter (\<lambda>x. xs ! k \<le> x) (take k xs)) + length (filter (\<lambda>x. xs ! k \<le> x) (drop k xs))"
    by (metis append_take_drop_id filter_append length_append)
  ultimately show ?thesis by simp
qed

lemma count_confirmed:
  assumes "k < length ws"
  shows "length ws - k \<le> length (filter (\<lambda>w. w_last_confirmed_block_num (sort_key w_last_confirmed_block_num ws ! k) \<le> w_last_confirmed_block_num w) ws)"
proof -
  define ys where "ys = sort_key w_last_confirmed_block_num ws"
  have "length ws - k \<le> length (filter (\<lambda>x. map w_last_confirmed_block_num ys ! k \<le> x) (map w_last_confirmed_block_num ys))"
    using sorted_nth_count [of "map w_last_confirmed_block_num ys" k] assms by (simp add: ys_def)
  also have "\<dots> = length (filter (\<lambda>w. w_last_confirmed_block_num (ys ! k) \<le> w_last_confirmed_block_num w) ys)"
    using assms by (simp add: filter_map comp_def ys_def)
  also have "\<dots> = length (filter (\<lambda>w. w_last_confirmed_block_num (ys ! k) \<le> w_last_confirmed_block_num w) ws)"
  proof -
    have "mset ys = mset ws" by (simp add: ys_def)
    then show ?thesis by (metis mset_filter size_mset)
  qed
  finally show ?thesis by (simp add: ys_def)
qed

lemma ucast_back: "x < 2 ^ 32 \<Longrightarrow> ucast (ucast x :: u32) = (x :: u64)"
proof -
  assume "x < 2 ^ 32"
  then have "unat x < 2 ^ 32" by (simp add: word_less_nat_alt)
  then have "unat (ucast (ucast x :: u32) :: u64) = unat x" by (simp add: unsigned_ucast_eq unsigned_take_bit_eq take_bit_nat_eq_self)
  then show ?thesis by (rule word_unat_eq_iff [THEN iffD2])
qed

text \<open>C14: Once voting has taken over, the last irreversible block number never goes back, and when it moves to a new
  block, at least three quarters of the scheduled witnesses have produced a block with that number or a
  later one.  (A comment beside the code works an example with seven of ten witnesses, which the
  threshold of 75 percent does not admit.)\<close>

theorem irreversible_supermajority:
  assumes "update_last_irreversible_block c = Inr c'" and "STEEMIT_START_MINER_VOTING_BLOCK \<le> unat (head_block_num c)"
    and "scheduled_witnesses c = Inr ws" and "ws \<noteq> []" and "\<forall>w \<in> set ws. w_last_confirmed_block_num w < 2 ^ 32"
  shows "g_last_irreversible_block_num (ch_gpo c) \<le> g_last_irreversible_block_num (ch_gpo c') \<and>
    (g_last_irreversible_block_num (ch_gpo c') \<noteq> g_last_irreversible_block_num (ch_gpo c) \<longrightarrow>
     3 * length ws \<le> 4 * length (filter (\<lambda>w. ucast (g_last_irreversible_block_num (ch_gpo c')) \<le> w_last_confirmed_block_num w) ws))"
proof -
  define n where "n = new_last_irreversible ws"
  define k where "k = length ws div 4"
  have k: "(STEEMIT_100_PERCENT - STEEMIT_IRREVERSIBLE_THRESHOLD) * length ws div STEEMIT_100_PERCENT = k"
    by (simp add: STEEMIT_100_PERCENT_def STEEMIT_IRREVERSIBLE_THRESHOLD_def STEEMIT_1_PERCENT_def k_def)
  have g: "g_last_irreversible_block_num (ch_gpo c') = (if n > g_last_irreversible_block_num (ch_gpo c) then n else g_last_irreversible_block_num (ch_gpo c))"
    using assms(1-3) by (auto simp: update_last_irreversible_block_def commit_all_def n_def Let_def)
  have lt: "k < length ws" using assms(4) by (cases ws) (auto simp: k_def)
  define w where "w = sort_key w_last_confirmed_block_num ws ! k"
  have "w \<in> set ws" using nth_mem [of k "sort_key w_last_confirmed_block_num ws"] lt by (simp add: w_def)
  then have "ucast n = w_last_confirmed_block_num w"
    using assms(5) ucast_back unfolding n_def new_last_irreversible_def Let_def k by (simp add: w_def)
  moreover have "3 * length ws \<le> 4 * (length ws - k)" by (simp add: k_def)
  ultimately have "3 * length ws \<le> 4 * length (filter (\<lambda>v. ucast n \<le> w_last_confirmed_block_num v) ws)"
    using count_confirmed [OF lt] by (simp add: w_def)
  then show ?thesis using g by auto
qed

section \<open>The price feed\<close>



section \<open>A small chain\<close>

definition demo_slot :: chain where
  "demo_slot = demo_round\<lparr>ch_gpo := (ch_gpo demo_round)\<lparr>g_head_block_id := null_id\<rparr>\<rparr>"

definition demo_header :: signed_block_header where
  "demo_header = \<lparr>previous = null_id, timestamp = 1003, witness = ''alice'', transaction_merkle_root = [], extensions = [],
     witness_signature = []\<rparr>"

lemma demo_slot_fields:
  "head_block_time demo_slot = 1000" "head_block_num demo_slot = 21" "g_head_block_id (ch_gpo demo_slot) = null_id"
  "g_current_aslot (ch_gpo demo_slot) = 10" "ch_wso demo_slot = demo_schedule" "ch_witnesses demo_slot = ch_witnesses demo_round"
  "g_participation_count (ch_gpo demo_slot) = 128" "g_recent_slots_filled (ch_gpo demo_slot) = \<lparr>hi = - 1, lo = - 1\<rparr>"
  by (simp_all add: demo_slot_def demo_round_def two_def head_block_time_def head_block_num_def demo_chain_def demo_gpo_def)

lemma demo_slot_slot: "get_slot_at_time fc_ref 1003 demo_slot = 1"
proof -
  have "unat (get_slot_at_time fc_ref 1003 demo_slot) = unat (1 :: u32)"
    using slot_at_time_value [of fc_ref demo_slot 1003] by (simp add: slot_base_def demo_slot_fields)
  then show ?thesis by (rule word_unat_eq_iff [THEN iffD2])
qed

lemma demo_slot_alice:
  assumes "ch_witnesses c = ch_witnesses demo_round"
  shows "get_witness ''alice'' c = Inr 0" "witness_at 0 c = Inr (demo_witness 0 ''alice'' 10 7)"
    "\<exists>c'. modify_witness 0 (\<lambda>w. Inr (w\<lparr>w_last_aslot := x, w_last_confirmed_block_num := y\<rparr>)) c = Inr c'"
  using assms
  by (simp_all add: demo_round_def two_def demo_index_def get_witness_def get_by_def find_by_def witness_at_def get_obj_def find_obj_def upt_rec
      modify_witness_def db_modify_def returned_def modify_def idx_modify_def witness_clash_def on_head_def Let_def demo_witness_fields)

lemma demo_header_valid: "validate_block_header fc_ref crypto_ref 1 demo_header demo_slot = Inr 0"
  using demo_slot_alice [of demo_slot]
  by (simp add: validate_block_header_def demo_header_def demo_slot_fields demo_slot_slot skip_witness_signature_def
      skip_witness_schedule_check_def get_scheduled_witness_def demo_schedule_def demo_witness_fields Let_def fc_assert_def)

lemma demo_global: "\<exists>c'. update_global_dynamic_data fc_ref crypto_ref 256 demo_header demo_slot = Inr c' \<and>
    ch_witnesses c' = ch_witnesses demo_round"
  by (simp add: update_global_dynamic_data_def demo_header_def demo_slot_fields demo_slot_slot skip_undo_history_check_def Let_def)

theorem producer_is_scheduled_witness:
  "\<exists>c' c'' w. update_global_dynamic_data fc_ref crypto_ref 256 demo_header demo_slot = Inr c' \<and>
     update_signing_witness fc_ref 0 demo_header c' = Inr c'' \<and> witness_at 0 c'' = Inr w \<and> w_last_aslot w = g_current_aslot (ch_gpo c')"
proof -
  obtain c' where c': "update_global_dynamic_data fc_ref crypto_ref 256 demo_header demo_slot = Inr c'"
    "ch_witnesses c' = ch_witnesses demo_round" using demo_global by blast
  obtain c'' where c'': "update_signing_witness fc_ref 0 demo_header c' = Inr c''"
    using demo_slot_alice(3) [OF c'(2)] unfolding update_signing_witness_def Let_def by blast
  have "and 1 skip_witness_schedule_check = 0" "unat (timestamp demo_header) + 3 < 2 ^ 32"
    by (simp_all add: skip_witness_schedule_check_def demo_header_def)
  with producer_is_scheduled [OF time_laws_ref demo_header_valid _ _ _ c'(1) c''] c'(1) c'' show ?thesis
    using demo_round_facts(1) by (auto simp: demo_slot_fields)
qed

text \<open>A block two slots late on a chain with a full record: two zeros, the block, and 125 older ones.\<close>

definition late_header :: signed_block_header where
  "late_header = demo_header\<lparr>timestamp := 1009\<rparr>"

lemma late_slot: "get_slot_at_time fc_ref 1009 demo_slot = 3"
proof -
  have "unat (get_slot_at_time fc_ref 1009 demo_slot) = unat (3 :: u32)"
    using slot_at_time_value [of fc_ref demo_slot 1009] by (simp add: slot_base_def demo_slot_fields)
  then show ?thesis by (rule word_unat_eq_iff [THEN iffD2])
qed

lemma late_global: "\<exists>c'. update_global_dynamic_data fc_ref crypto_ref 256 late_header demo_slot = Inr c'"
proof -
  have "get_scheduled_witness k demo_slot = ''alice''" for k
    by (simp add: get_scheduled_witness_def demo_slot_fields demo_schedule_def)
  then have "miss_slot ''alice'' i demo_slot = Inr demo_slot" for i
    using demo_slot_alice [of demo_slot] by (simp add: miss_slot_def demo_slot_fields demo_witness_fields)
  then have "fold_res (miss_slot ''alice'') [0..<2] demo_slot = Inr demo_slot" by (simp add: upt_rec)
  then show ?thesis
    by (simp add: update_global_dynamic_data_def late_header_def demo_header_def demo_slot_fields late_slot skip_undo_history_check_def Let_def)
qed

theorem participation_exact_witness:
  "\<exists>c'. update_global_dynamic_data fc_ref crypto_ref 256 late_header demo_slot = Inr c' \<and>
     \<not> bit (u128_val (g_recent_slots_filled (ch_gpo c'))) 0 \<and> \<not> bit (u128_val (g_recent_slots_filled (ch_gpo c'))) 1 \<and>
     bit (u128_val (g_recent_slots_filled (ch_gpo c'))) 2 \<and> bit (u128_val (g_recent_slots_filled (ch_gpo c'))) 127 \<and>
     unat (g_participation_count (ch_gpo c')) = filled (g_recent_slots_filled (ch_gpo c'))"
proof -
  have u: "u128_val \<lparr>hi = - 1, lo = - 1\<rparr> = mask 128"
    by (simp add: u128_val_def unsigned_minus_1_eq_mask mask_eq_exp_minus_1)
  then have "filled \<lparr>hi = - 1, lo = - 1\<rparr> = card {i :: nat. i < 128}" by (simp add: filled_def bit_mask_iff)
  then have ok: "participation_ok (ch_gpo demo_slot)" by (simp add: participation_ok_def demo_slot_fields)
  obtain c' where c': "update_global_dynamic_data fc_ref crypto_ref 256 late_header demo_slot = Inr c'" using late_global by blast
  have n: "unat (get_slot_at_time fc_ref (timestamp late_header) demo_slot) = 3" by (simp add: late_header_def late_slot)
  have t: "head_block_time demo_slot \<noteq> 0" by (simp add: demo_slot_fields)
  note e = participation_exact [OF uint128_laws_ref c' ok t n]
  have "bit (u128_val (g_recent_slots_filled (ch_gpo demo_slot))) 124" by (simp add: demo_slot_fields u bit_mask_iff)
  then show ?thesis using e [THEN conjunct1, rule_format] e [THEN conjunct2] c' by auto
qed

definition demo_old :: chain where
  "demo_old = demo_round\<lparr>ch_gpo := (ch_gpo demo_round)\<lparr>g_head_block_number := 1000000\<rparr>\<rparr>"

lemma demo_old_witnesses: "scheduled_witnesses demo_old = Inr [demo_witness 0 ''alice'' 10 7]"
  using named_in_two(1) [of demo_old]
  by (simp add: scheduled_witnesses_def scheduled_names_def demo_old_def demo_round_def two_fields demo_schedule_def demo_witness_fields)

theorem irreversible_supermajority_witness:
  "\<exists>c'. update_last_irreversible_block demo_old = Inr c' \<and>
     g_last_irreversible_block_num (ch_gpo demo_old) \<le> g_last_irreversible_block_num (ch_gpo c')"
proof -
  have h: "head_block_num demo_old = 1000000" by (simp add: demo_old_def head_block_num_def)
  have le: "STEEMIT_START_MINER_VOTING_BLOCK \<le> unat (head_block_num demo_old)"
    by (simp add: h STEEMIT_START_MINER_VOTING_BLOCK_def STEEMIT_BLOCKS_PER_DAY_def STEEMIT_BLOCK_INTERVAL_def)
  then obtain c' where c': "update_last_irreversible_block demo_old = Inr c'"
    by (simp add: update_last_irreversible_block_def demo_old_witnesses Let_def)
  with irreversible_supermajority [OF c' le demo_old_witnesses] show ?thesis by (simp add: demo_witness_def)
qed


end
