(* ===== verification/Ledger.thy ===== *)
theory Ledger
  imports Conservation Null_Account Vote_Frames Withdrawal_Books Block_Production
begin

text \<open>
  The steps of the ledger, and what all of them keep: the books balance, approved escrows have paid
  their fee, and the votes of the witnesses are exact.
\<close>

section \<open>The vote operations keep the books\<close>

lemma fold_res_accounts:
  assumes "fold_res f xs a = Inr b" and "\<And>x a b. f x a = Inr b \<Longrightarrow> R a b" and "\<And>a. R a a" and "\<And>a b d. R a b \<Longrightarrow> R b d \<Longrightarrow> R a d"
  shows "R a b"
  using assms(1) by (rule fold_res_invariant) (use assms(2-) in blast)+

lemma add_proxied_votes_holds:
  assumes "add_proxied_votes L depth delta a = Inr a'"
  shows "(\<forall>s. account_holds s a' = account_holds s a) \<and> a_reward_vesting_steem a' = a_reward_vesting_steem a"
  using assms unfolding add_proxied_votes_def
  by (rule fold_res_accounts) (auto simp: add_proxied_vote_def account_holds_def)

lemma row_bookless:
  "adjust_proxied_witness_votes_row L i delta depth c = Inr c' \<Longrightarrow> tables_ok c \<Longrightarrow> bookless c c'"
proof (induction L i delta depth c arbitrary: c' rule: adjust_proxied_witness_votes_row.induct)
  case (1 L i delta depth c)
  note step = 1(2) [unfolded adjust_proxied_witness_votes_row.simps [of L i delta depth c]]
  obtain a where a: "account i c = Inr a" using step by auto
  show ?case
  proof (cases "a_proxy a \<noteq> STEEMIT_PROXY_TO_SELF_ACCOUNT \<and> \<not> STEEMIT_MAX_PROXY_RECURSION_DEPTH \<le> depth")
    case True
    then obtain p c1 where p: "get_account (a_proxy a) c = Inr p" "modify_account p (add_proxied_votes L depth delta) c = Inr c1"
      "adjust_proxied_witness_votes_row L p delta (depth + 1) c1 = Inr c'"
      using step a by auto
    have "bookless c c1" using p(2) 1(3) by (rule modify_account_bookless) (rule add_proxied_votes_holds)
    with 1(1) [OF a _ _ p] True show ?thesis by (blast intro: bookless_trans bookless_tables)
  next
    case False
    then have "c' = c \<or> (\<exists>t. adjust_witness_votes L i t c = Inr c')" using step a by (auto split: if_splits)
    then show ?thesis using 1(3) by (auto intro: bookless_refl adjust_witness_votes_bookless)
  qed
qed

lemma votes_table_books [simp]:
  "booked d p c (c'\<lparr>ch_witness_votes := v\<rparr>) \<longleftrightarrow> booked d p c c'"
  "booked d p (c\<lparr>ch_witness_votes := v\<rparr>) c' \<longleftrightarrow> booked d p c c'"
  "tables_ok (c\<lparr>ch_witness_votes := v\<rparr>) \<longleftrightarrow> tables_ok c"
  by (simp_all add: books_defs)

text \<open>Steps that change neither books nor escrows.\<close>

definition untouched :: "chain \<Rightarrow> chain \<Rightarrow> bool" where
  "untouched c c' \<longleftrightarrow> booked (\<lambda>_. 0) 0 c c' \<and> ch_escrows c' = ch_escrows c"

lemma untouched_refl: "tables_ok c \<Longrightarrow> untouched c c"
  by (simp add: untouched_def booked_refl)

lemma untouched_trans: "untouched c c' \<Longrightarrow> untouched c' c'' \<Longrightarrow> untouched c c''"
  by (simp add: untouched_def booked_def)

lemma untouched_tables: "untouched c c' \<Longrightarrow> tables_ok c'"
  by (simp add: untouched_def booked_def)

lemma bookless_untouched: "bookless c c' \<Longrightarrow> untouched c c'"
  by (simp add: bookless_def untouched_def ledger_frame_def)

lemma modify_account_untouched:
  assumes "modify_account i f c = Inr c'" and "tables_ok c"
    and "\<And>a a'. f a = Inr a' \<Longrightarrow> (\<forall>s. account_holds s a' = account_holds s a) \<and> a_reward_vesting_steem a' = a_reward_vesting_steem a"
  shows "untouched c c'"
  using modify_account_bookless [OF assms] by (rule bookless_untouched)

lemma remove_witness_vote_untouched: "remove_witness_vote v c = Inr c' \<Longrightarrow> tables_ok c \<Longrightarrow> untouched c c'"
  by (auto simp: remove_witness_vote_def untouched_def booked_refl)

lemma clear_witness_votes_untouched:
  assumes "clear_witness_votes i c = Inr c'" and "tables_ok c"
  shows "untouched c c'"
proof -
  obtain d where d: "fold_res remove_witness_vote (votes_of i c) c = Inr d"
    and c': "c' = d \<or> modify_account i (\<lambda>a. Inr (a\<lparr>a_witnesses_voted_for := 0\<rparr>)) d = Inr c'"
    using assms by (auto simp: clear_witness_votes_def split: if_splits)
  have 1: "untouched c d"
    using d untouched_refl [OF assms(2)]
    by (rule fold_res_invariant) (blast intro: untouched_trans remove_witness_vote_untouched untouched_tables)
  from c' show ?thesis
  proof
    assume m: "modify_account i (\<lambda>a. Inr (a\<lparr>a_witnesses_voted_for := 0\<rparr>)) d = Inr c'"
    have "untouched d c'" using m untouched_tables [OF 1] by (rule modify_account_untouched) (auto simp: account_holds_def)
    with 1 show ?thesis by (rule untouched_trans)
  qed (use 1 in simp)
qed

lemma apply_account_witness_vote_untouched:
  assumes "apply_account_witness_vote L op c = Inr c'" and "tables_ok c"
  shows "untouched c c'"
proof -
  have m: "untouched d e" if "modify_account i (\<lambda>a. Inr (a\<lparr>a_witnesses_voted_for := f a\<rparr>)) d = Inr e" "tables_ok d" for i f d e
    using that by (rule modify_account_untouched) (auto simp: account_holds_def)
  consider t w x d i f where "adjust_witness_vote L w x (c\<lparr>ch_witness_votes := t\<rparr>) = Inr d"
      "modify_account i (\<lambda>a. Inr (a\<lparr>a_witnesses_voted_for := f a\<rparr>)) d = Inr c'"
    | w x d i f e v where "adjust_witness_vote L w x c = Inr d"
      "modify_account i (\<lambda>a. Inr (a\<lparr>a_witnesses_voted_for := f a\<rparr>)) d = Inr e" "remove_witness_vote v e = Inr c'"
    using assms(1) unfolding apply_account_witness_vote_def by (auto split: option.splits)
  then show ?thesis
  proof cases
    case 1
    have "bookless (c\<lparr>ch_witness_votes := t\<rparr>) d" using 1(1) assms(2) by (intro adjust_witness_vote_bookless) auto
    then have "untouched c d" by (simp add: bookless_def untouched_def ledger_frame_def)
    with m [OF 1(2)] show ?thesis by (blast intro: untouched_trans untouched_tables)
  next
    case 2
    have "untouched c d" using adjust_witness_vote_bookless [OF 2(1) assms(2)] by (rule bookless_untouched)
    with m [OF 2(2)] remove_witness_vote_untouched [OF 2(3)] show ?thesis by (blast intro: untouched_trans untouched_tables)
  qed
qed

lemma apply_account_witness_proxy_untouched:
  assumes "apply_account_witness_proxy L op c = Inr c'" and "tables_ok c"
  shows "untouched c c'"
proof -
  have m: "untouched d e" if "modify_account i (\<lambda>a. Inr (a\<lparr>a_proxy := n\<rparr>)) d = Inr e" "tables_ok d" for i n d e
    using that by (rule modify_account_untouched) (auto simp: account_holds_def)
  note row = row_bookless [THEN bookless_untouched]
  consider i delta d n where "adjust_proxied_witness_votes_row L i delta 0 c = Inr d"
      "modify_account i (\<lambda>a. Inr (a\<lparr>a_proxy := n\<rparr>)) d = Inr c'"
    | i delta d d2 d3 n delta' where "adjust_proxied_witness_votes_row L i delta 0 c = Inr d" "clear_witness_votes i d = Inr d2"
      "modify_account i (\<lambda>a. Inr (a\<lparr>a_proxy := n\<rparr>)) d2 = Inr d3" "adjust_proxied_witness_votes_row L i delta' 0 d3 = Inr c'"
    using assms(1) unfolding apply_account_witness_proxy_def by (auto split: if_splits)
  then show ?thesis
  proof cases
    case 1
    with row [OF 1(1) assms(2)] m [OF 1(2)] show ?thesis by (blast intro: untouched_trans untouched_tables)
  next
    case 2
    note u1 = row [OF 2(1) assms(2)]
    note u2 = untouched_trans [OF u1 clear_witness_votes_untouched [OF 2(2) untouched_tables [OF u1]]]
    note u3 = untouched_trans [OF u2 m [OF 2(3) untouched_tables [OF u2]]]
    show ?thesis using untouched_trans [OF u3 row [OF 2(4) untouched_tables [OF u3]]] .
  qed
qed

lemma decline_votes_untouched:
  assumes "decline_votes L r c = Inr c'" and "tables_ok c"
  shows "untouched c c'"
proof -
  obtain i delta c1 c2 c3 t where 1: "adjust_proxied_witness_votes_row L i delta 0 c = Inr c1" "clear_witness_votes i c1 = Inr c2"
    "modify_account i (\<lambda>a. Inr (a\<lparr>a_can_vote := False, a_proxy := STEEMIT_PROXY_TO_SELF_ACCOUNT\<rparr>)) c2 = Inr c3"
    "c' = c3\<lparr>ch_declines := t\<rparr>"
    using assms(1) by (auto simp: decline_votes_def Let_def)
  note u1 = bookless_untouched [OF row_bookless [OF 1(1) assms(2)]]
  note u2 = untouched_trans [OF u1 clear_witness_votes_untouched [OF 1(2) untouched_tables [OF u1]]]
  have "untouched c2 c3" using 1(3) untouched_tables [OF u2] by (rule modify_account_untouched) (auto simp: account_holds_def)
  from untouched_trans [OF u2 this] 1(4) show ?thesis by (simp add: untouched_def)
qed

lemma process_decline_voting_rights_untouched:
  assumes "process_decline_voting_rights L c = Inr c'" and "tables_ok c"
  shows "untouched c c'"
  using declines.loop_keeps [OF assms(1), of "untouched c"] untouched_refl [OF assms(2)]
    decline_votes_untouched untouched_trans untouched_tables by blast

section \<open>Votes across the other steps\<close>

lemma votes_ok_witnesses:
  assumes "votes_ok c" and "tbl_ok (ch_witnesses c')" and "ch_accounts c' = ch_accounts c" and "ch_witness_votes c' = ch_witness_votes c"
    and "\<And>w. map_option w_votes (find_obj w (ch_witnesses c')) = map_option w_votes (find_obj w (ch_witnesses c))"
  shows "votes_ok c'"
proof -
  have "votes_off c' (\<lambda>_ _. 0) (\<lambda>w. 0 + 0)"
    using assms by (intro witness_change_off [where c = c and d = "\<lambda>_. 0"]) (auto simp: votes_ok_def)
  with assms(1,3) show ?thesis by (simp add: votes_ok_def proxy_rel_def)
qed

lemma apply_feed_publish_votes:
  assumes "apply_feed_publish op c = Inr c'" and "votes_ok c"
  shows "votes_ok c'"
proof -
  let ?f = "\<lambda>w. Inr (w\<lparr>w_sbd_exchange_rate := fp_exchange_rate op, w_last_sbd_exchange_update := head_block_time c\<rparr>)"
  obtain w t where t: "db_modify witness_clash w ?f (ch_witnesses c) = Inr t" "c' = c\<lparr>ch_witnesses := t\<rparr>"
    using assms(1) by (auto simp: apply_feed_publish_def modify_witness_def)
  have "tbl_ok (ch_witnesses c)" using assms(2) by (simp add: votes_ok_def votes_off_def votes_wf_def)
  from t(1) this obtain x x' where x: "find_obj w (ch_witnesses c) = Some x" "?f x = Inr x'" "tbl_ok t"
    "\<And>j. find_obj j t = (if j = w then Some x' else find_obj j (ch_witnesses c))"
    by (rule db_modify_spec) blast
  from x(2) have v: "w_votes x' = w_votes x" by auto
  show ?thesis
  proof (rule votes_ok_witnesses [OF assms(2)])
    show "map_option w_votes (find_obj j (ch_witnesses c')) = map_option w_votes (find_obj j (ch_witnesses c))" for j
      using x(1,4) v t(2) by simp
  qed (use t(2) x(3) in simp_all)
qed

lemma apply_transfer_to_vesting_votes:
  assumes "safe_laws L" and "apply_transfer_to_vesting L op c = Inr c'" and "tables_ok c" and "votes_ok c"
  shows "votes_ok c'"
proof -
  obtain f t x v d where d: "take_balance L f x c = Inr d" "create_vesting L t x False d = Inr (v, c')"
    using assms(2) by (auto simp: apply_transfer_to_vesting_def)
  have ok: "tables_ok d" using take_balance_booked [OF assms(1) d(1) assms(3)] booked_tables by blast
  have "votes_ok d"
    using take_balance_view [OF d(1)] ok assms(4) by (auto intro: votes_ok_view simp: tables_ok_def)
  from create_vesting_votes [OF assms(1) d(2) this] show ?thesis .
qed

lemma apply_claim_reward_balance_votes:
  assumes "safe_laws L" and "apply_claim_reward_balance L op c = Inr c'" and "tables_ok c" and "votes_ok c"
  shows "votes_ok c'"
proof -
  obtain i m1 m2 c1 c2 c3 c4 f g c5 c6 where
    1: "adjust_reward_balance L i m1 c = Inr c1" "adjust_reward_balance L i m2 c1 = Inr c2"
      "adjust_balance L i (cl_reward_steem op) c2 = Inr c3" "adjust_balance L i (cl_reward_sbd op) c3 = Inr c4"
    and 2: "modify_account i f c4 = Inr c5" "modify_gpo g c5 = Inr c6"
      "adjust_proxied_witness_votes L i (amount (cl_reward_vests op)) 0 c6 = Inr c'"
    and f: "\<And>a a'. f a = Inr a' \<Longrightarrow> revests (amount (cl_reward_vests op)) a a'"
    using assms(2) unfolding apply_claim_reward_balance_def
    by (fastforce simp: asset_arith_iffs [OF assms(1)] revests_def links_def)
  note moves = adjust_reward_balance_booked [OF assms(1)] adjust_balance_booked [OF assms(1)]
  have "tables_ok c4"
    using moves(1) [OF 1(1) assms(3)] moves(1) [OF 1(2)] moves(2) [OF 1(3)] moves(2) [OF 1(4)] booked_tables by blast
  moreover have "vote_view c4 = vote_view c" using 1 by (simp add: votes_kept)
  ultimately have "votes_ok c4" using assms(4) by (auto intro: votes_ok_view simp: tables_ok_def)
  moreover have "ch_accounts c6 = ch_accounts c5" "ch_witnesses c6 = ch_witnesses c5" "ch_witness_votes c6 = ch_witness_votes c5"
    using 2(2) by (auto simp: modify_gpo_def)
  ultimately show ?thesis using vesting_votes [OF assms(1) _ 2(1) f _ _ _ 2(3)] by blast
qed

lemma push_votes: "votes_ok d \<Longrightarrow> votes_ok (push_virtual_operation op d)"
  using votes_ok_view [of "push_virtual_operation op d" d] votes_ok_tables [of d] by simp

lemma modify_gpo_votes:
  assumes "modify_gpo f d = Inr e" and "votes_ok d"
  shows "votes_ok e"
proof (rule votes_ok_view [OF modify_gpo_view [OF assms(1)] _ assms(2)])
  show "tbl_ok (ch_accounts e)" using assms votes_ok_tables [OF assms(2)] by (auto simp: modify_gpo_def)
qed

lemma get_producer_reward_votes:
  assumes "safe_laws L" and "get_producer_reward L c = Inr (pay, c')" and "votes_ok c"
  shows "votes_ok c'"
proof -
  consider w v d op where "create_vesting L w pay False c = Inr (v, d)" "c' = push_virtual_operation op d"
    | w where "modify_account w (\<lambda>a. rbind (asset_plus_assign L (a_balance a) pay) (\<lambda>b. Inr (a\<lparr>a_balance := b\<rparr>))) c = Inr c'"
    using assms(2) by (auto simp: get_producer_reward_def split: if_splits prod.splits)
  then show ?thesis
  proof cases
    case 1
    then show ?thesis using create_vesting_plain_votes [OF assms(1) 1(1) assms(3)] push_votes by simp
  next
    case 2
    then have "vote_view c' = vote_view c" by (rule modify_account_view) (auto simp: ballot_view_def passed_on_def)
    then show ?thesis using modify_account_ok [OF 2 votes_ok_tables [OF assms(3)]] assms(3) votes_ok_view by blast
  qed
qed

lemma process_funds_votes:
  assumes "safe_laws L" and "process_funds L c = Inr c'" and "votes_ok c"
  shows "votes_ok c'"
proof (cases "has_hardfork 16 c")
  case True
  then obtain op cont cr c1 f c2 a x v d where
    c1: "(if has_hardfork 17 c then pay_reward_funds L cont c else Inr (cont, c)) = Inr (cr, c1)"
    and c2: "modify_gpo f c1 = Inr c2" and d: "create_vesting L a x False c2 = Inr (v, d)" "c' = push_virtual_operation op d"
    using assms(2) by (auto simp: process_funds_def process_funds_hf16_def split: prod.splits)
  have "votes_ok c1"
    using c1 assms(3) votes_ok_tables [OF assms(3)]
    by (auto split: if_splits dest!: pay_reward_funds_frame intro!: votes_ok_view [of _ c])
  from create_vesting_plain_votes [OF assms(1) d(1) modify_gpo_votes [OF c2 this]] d(2) show ?thesis by (simp add: push_votes)
next
  case False
  then obtain pay d f where "get_producer_reward L c = Inr (pay, d)" "modify_gpo f d = Inr c'"
    using assms(2) by (auto simp: process_funds_def process_funds_old_def Let_def)
  then show ?thesis using get_producer_reward_votes [OF assms(1) _ assms(3)] modify_gpo_votes by blast
qed

section \<open>The null account has no say\<close>

text \<open>\<open>clear_null_account_balance\<close> takes the vesting shares of \<open>null\<close> without touching any votes; that is
  right because nobody can vote or set a proxy for this account.\<close>

definition null_silent :: "chain \<Rightarrow> bool" where
  "null_silent c \<longleftrightarrow>
     (case get_account STEEMIT_NULL_ACCOUNT c of Inl _ \<Rightarrow> True
      | Inr n \<Rightarrow> (case account n c of Inl _ \<Rightarrow> True
        | Inr a \<Rightarrow> a_proxy a = [] \<and> (\<forall>e \<in> set (gi_indices (ch_witness_votes c)). wv_account (snd e) \<noteq> n)))"

lemma unvest_votes:
  assumes "votes_ok c" and "modify_account i f c = Inr c'"
    and "\<And>a a'. find_obj i (ch_accounts c) = Some a \<Longrightarrow> f a = Inr a' \<Longrightarrow>
      links a' = links a \<and> a_proxied_vsf_votes a' = a_proxied_vsf_votes a \<and> a_proxy a = []"
    and "\<forall>e \<in> set (gi_indices (ch_witness_votes c)). wv_account (snd e) \<noteq> i"
  shows "votes_ok c'"
proof -
  have off: "votes_exact c" using assms(1) by (simp add: votes_ok_def)
  have ballots: "ballots i w c = 0" for w
    using assms(4) by (auto simp: ballots_def tsum_def intro!: sum_list_0 cong: map_cong)
  from assms(2) off obtain a a' where a: "find_obj i (ch_accounts c) = Some a" "f a = Inr a'"
    and fnd: "\<And>j. find_obj j (ch_accounts c') = (if j = i then Some a' else find_obj j (ch_accounts c))"
    and off1: "votes_off c' (\<lambda>n k. 0 + (if n = a_name a then a_proxied_vsf_votes a' ! k - a_proxied_vsf_votes a ! k else 0) +
       (if n = a_proxy a then passes k a else 0) - (if n = a_proxy a' then passes k a' else 0))
     (\<lambda>w. 0 - (sum_list (passed_on a') - sum_list (passed_on a)) * ballots i w c)"
  proof (rule modify_account_votes)
    fix a a' assume x: "find_obj i (ch_accounts c) = Some a" "f a = Inr a'"
    show "a_name a' = a_name a \<and> length (a_proxied_vsf_votes a') = STEEMIT_MAX_PROXY_RECURSION_DEPTH \<and>
      (a_proxy a' \<noteq> [] \<longrightarrow> (\<forall>v x. find_obj v (ch_witness_votes c) = Some x \<longrightarrow> wv_account x \<noteq> i))"
      using assms(3) [OF x] x(1) votes_off_tables(2) [OF off] by (auto simp: links_def votes_wf_def)
  qed blast
  note keep = assms(3) [OF a]
  have "votes_exact c'"
  proof (rule votes_off_eq [OF off1])
    fix j b k assume "find_obj j (ch_accounts c') = Some b"
    then have "a_name b \<noteq> []" using votes_off_tables(2) [OF off1] by (auto simp: votes_wf_def)
    then show "0 + (if a_name b = a_name a then a_proxied_vsf_votes a' ! k - a_proxied_vsf_votes a ! k else 0) +
       (if a_name b = a_proxy a then passes k a else 0) - (if a_name b = a_proxy a' then passes k a' else 0) = 0"
      using keep by (simp add: links_def)
  qed (simp add: ballots)
  moreover have "proxy_rel c' = proxy_rel c"
    by (rule proxy_rel_links) (use fnd a keep in simp)
  ultimately show ?thesis using assms(1) by (simp add: votes_ok_def)
qed

lemma view_votes: "vote_view d = vote_view c \<Longrightarrow> tables_ok d \<Longrightarrow> votes_ok c \<Longrightarrow> votes_ok d"
  by (auto intro: votes_ok_view simp: tables_ok_def)

lemma drain_unseen:
  assumes "adjust \<in> {adjust_balance L, adjust_savings_balance L, adjust_reward_balance L}"
    and "drain L field adjust i (t, c) = Inr (t', c')"
  shows "vote_view c' = vote_view c"
  using assms(2) balances_view assms(1) by (auto simp: drain_def split: if_splits)

lemma drain_reward_vesting_unseen: "drain_reward_vesting L i (t, c) = Inr (t', c') \<Longrightarrow> vote_view c' = vote_view c"
  by (auto simp: drain_reward_vesting_def votes_kept ballot_defs split: if_splits)

lemma burn_unseen: "burn L t c = Inr c' \<Longrightarrow> vote_view c' = vote_view c"
  by (auto simp: burn_def votes_kept split: if_splits)

lemma drain_vesting_votes:
  assumes "drain_vesting L i (t, c) = Inr (t', c')" and "votes_ok c"
    and "\<And>a. account i c = Inr a \<Longrightarrow> a_proxy a = []" and "\<forall>e \<in> set (gi_indices (ch_witness_votes c)). wv_account (snd e) \<noteq> i"
  shows "votes_ok c'"
proof (cases "c' = c")
  case False
  then obtain g c1 where g: "modify_gpo g c = Inr c1"
    and m: "modify_account i (\<lambda>a. Inr (a\<lparr>a_vesting_shares := mk_asset 0 (symbol (a_vesting_shares a))\<rparr>)) c1 = Inr c'"
    using assms(1) by (auto simp: drain_vesting_def split: if_splits)
  from g have "ch_accounts c1 = ch_accounts c" "ch_witness_votes c1 = ch_witness_votes c" by (auto simp: modify_gpo_def)
  then show ?thesis
    using assms(3,4) by (intro unvest_votes [OF modify_gpo_votes [OF g assms(2)] m]) (auto simp: links_def account_def find_obj_get)
qed (use assms(2) in simp)

lemma clear_null_account_balance_votes:
  assumes "safe_laws L" and "clear_null_account_balance L c = Inr c'" and "tables_ok c" and "null_convertible L c"
    and "null_silent c" and "votes_ok c"
  shows "votes_ok c'"
proof (cases "has_hardfork 14 c")
  case False
  then show ?thesis using assms(2,6) by (simp add: clear_null_account_balance_def)
next
  case True
  obtain n s1 s2 s5 s6 s8 d3 d4 d7 c1 c2 c3 c4 c5 c6 c7 c8 c9 where n: "get_account STEEMIT_NULL_ACCOUNT c = Inr n"
    and 1: "drain L a_balance (adjust_balance L) n (mk_asset 0 STEEM_SYMBOL, c) = Inr (s1, c1)"
    and 2: "drain L a_savings_balance (adjust_savings_balance L) n (s1, c1) = Inr (s2, c2)"
    and 3: "drain L a_sbd_balance (adjust_balance L) n (mk_asset 0 SBD_SYMBOL, c2) = Inr (d3, c3)"
    and 4: "drain L a_savings_sbd_balance (adjust_savings_balance L) n (d3, c3) = Inr (d4, c4)"
    and 5: "drain_vesting L n (s2, c4) = Inr (s5, c5)"
    and 6: "drain L a_reward_steem_balance (adjust_reward_balance L) n (s5, c5) = Inr (s6, c6)"
    and 7: "drain L a_reward_sbd_balance (adjust_reward_balance L) n (d4, c6) = Inr (d7, c7)"
    and 8: "drain_reward_vesting L n (s6, c7) = Inr (s8, c8)"
    and 9: "burn L s8 c8 = Inr c9" "burn L d7 c9 = Inr c'"
    using assms(2) True by (auto simp: clear_null_account_balance_def Let_def split: prod.splits)
  note drain = drain_keeps [OF assms(1)]
  have t1: "tables_ok c1" using drain [OF _ 1 assms(3)] drained_tables by blast
  have t2: "tables_ok c2" using drain [OF _ 2 t1] drained_tables by blast
  have t3: "tables_ok c3" using drain [OF _ 3 t2] drained_tables by blast
  have t4: "tables_ok c4" using drain [OF _ 4 t3] drained_tables by blast
  have v4: "vote_view c4 = vote_view c"
    using drain_unseen [OF _ 1] drain_unseen [OF _ 2] drain_unseen [OF _ 3] drain_unseen [OF _ 4] by simp
  then have votes: "ch_witness_votes c4 = ch_witness_votes c"
    and accounts: "map_option ballot_view (find_obj n (ch_accounts c4)) = map_option ballot_view (find_obj n (ch_accounts c))"
    by (simp_all add: vote_view_def fun_eq_iff)
  have "a_proxy a = [] \<and> (\<forall>e \<in> set (gi_indices (ch_witness_votes c4)). wv_account (snd e) \<noteq> n)" if "account n c4 = Inr a" for a
  proof -
    have "find_obj n (ch_accounts c4) = Some a" using that by (simp add: account_def find_obj_get)
    with accounts obtain b where "find_obj n (ch_accounts c) = Some b" "a_proxy b = a_proxy a"
      by (cases "find_obj n (ch_accounts c)") (auto simp: ballot_view_def)
    then have "account n c = Inr b" "a_proxy b = a_proxy a" by (simp_all add: account_def find_obj_get)
    with assms(5) n votes show ?thesis by (simp add: null_silent_def)
  qed
  moreover obtain a4 where "account n c4 = Inr a4" using 5 by (auto simp: drain_vesting_def)
  ultimately have "votes_ok c5"
    by (intro drain_vesting_votes [OF 5 view_votes [OF v4 t4 assms(6)]]) auto
  moreover have "vote_view c' = vote_view c5"
    using drain_unseen [OF _ 6] drain_unseen [OF _ 7] drain_reward_vesting_unseen [OF 8] burn_unseen [OF 9(1)] burn_unseen [OF 9(2)] by simp
  moreover have "tables_ok c'"
    using clear_null_account_balance_booked [OF assms(1-4)] booked_tables by blast
  ultimately show ?thesis by (blast intro: view_votes)
qed

section \<open>Escrows across the block processing\<close>

lemma process_savings_withdraws_escrows:
  assumes "process_savings_withdraws L c = Inr c'"
  shows "ch_escrows c' = ch_escrows c"
proof -
  have "ch_escrows t = ch_escrows s" if "fill_savings L i s = Inr t" for i s t
    using that unfolding fill_savings_def by (auto simp: escrows_kept push_virtual_operation_def)
  with savings.loop_keeps [OF assms, of "\<lambda>d. ch_escrows d = ch_escrows c"] show ?thesis by auto
qed

lemma process_conversions_escrows:
  assumes "process_conversions L c = Inr c'"
  shows "ch_escrows c' = ch_escrows c"
proof -
  have s: "ch_escrows (fst t) = ch_escrows (fst s)" if "fill_convert L i s = Inr t" for i s t
    using that unfolding fill_convert_def by (auto simp: escrows_kept push_virtual_operation_def remove_convert_def split: prod.splits)
  have "ch_escrows d = ch_escrows c" if "fill_converts L (c, x, y) = Inr (d, z)" for d x y z
    using converts.loop_keeps [OF that, of "\<lambda>t. ch_escrows (fst t) = ch_escrows c"] s by auto
  then show ?thesis
    using assms unfolding process_conversions_def by (auto simp: escrows_kept split: if_splits)
qed

lemma clear_expired_orders_escrows:
  assumes "clear_expired_orders L c = Inr c'"
  shows "ch_escrows c' = ch_escrows c"
  using expired.loop_keeps [OF assms, of "\<lambda>d. ch_escrows d = ch_escrows c"] cancel_order_escrows by auto

lemma clear_expired_delegations_escrows:
  assumes "clear_expired_delegations L c = Inr c'"
  shows "ch_escrows c' = ch_escrows c"
proof -
  have "ch_escrows t = ch_escrows s" if "return_delegation L i s = Inr t" for i s t
    using that unfolding return_delegation_def Let_def by (auto simp: escrows_kept push_virtual_operation_def)
  with delegations.loop_keeps [OF assms, of "\<lambda>d. ch_escrows d = ch_escrows c"] show ?thesis by auto
qed

lemma frame_escrows: "ledger_frame c c' \<Longrightarrow> ch_escrows c' = ch_escrows c"
  by (simp add: ledger_frame_def)

lemma get_producer_reward_escrows:
  assumes "safe_laws L" and "get_producer_reward L c = Inr (pay, c')" and "tables_ok c"
  shows "ch_escrows c' = ch_escrows c"
  using assms(2) create_vesting_escrows [OF assms(1) _ assms(3)]
  by (auto simp: get_producer_reward_def escrows_kept push_virtual_operation_def split: if_splits prod.splits)

lemma process_funds_escrows:
  assumes "safe_laws L" and "process_funds L c = Inr c'" and "tables_ok c"
  shows "ch_escrows c' = ch_escrows c"
proof (cases "has_hardfork 16 c")
  case True
  then obtain op cont cr c1 f c2 a x v d where
    c1: "(if has_hardfork 17 c then pay_reward_funds L cont c else Inr (cont, c)) = Inr (cr, c1)"
    and c2: "modify_gpo f c1 = Inr c2" and d: "create_vesting L a x False c2 = Inr (v, d)" "c' = push_virtual_operation op d"
    using assms(2) by (auto simp: process_funds_def process_funds_hf16_def split: prod.splits)
  have 1: "tables_ok c1"
    using c1 assms(3) pay_reward_funds_booked [OF assms(1) _ assms(3)] by (auto split: if_splits dest: booked_tables)
  have "ch_escrows c1 = ch_escrows c" using c1 by (auto split: if_splits dest!: pay_reward_funds_frame)
  with 1 have 2: "tables_ok c2" "ch_escrows c2 = ch_escrows c" using c2 by (auto simp: modify_gpo_def tables_ok_def)
  with create_vesting_escrows [OF assms(1) d(1)] d(2) show ?thesis by (simp add: push_virtual_operation_def)
next
  case False
  then obtain pay d f where "get_producer_reward L c = Inr (pay, d)" "modify_gpo f d = Inr c'"
    using assms(2) by (auto simp: process_funds_def process_funds_old_def Let_def)
  then show ?thesis using get_producer_reward_escrows [OF assms(1) _ assms(3)] primitives_escrows(2) by metis
qed

lemma pay_liquidity_reward_escrows:
  assumes "safe_laws L" and "pay_liquidity_reward L c = Inr c'" and "tables_ok c"
  shows "ch_escrows c' = ch_escrows c"
proof -
  consider "c' = c" | x i c1 c2 t op where "adjust_supply L x True c = Inr c1" "adjust_balance L i x c1 = Inr c2"
    "c' = push_virtual_operation op (c2\<lparr>ch_liquidity := t\<rparr>)"
    using assms(2) by (auto simp: pay_liquidity_reward_def Let_def split: if_splits option.splits prod.splits)
  then show ?thesis
    by cases (use adjust_supply_booked [OF assms(1) _ assms(3)] frame_escrows balances_escrows(1) in
      \<open>auto simp: push_virtual_operation_def\<close>)
qed

section \<open>Steps of the ledger\<close>

text \<open>What every step keeps: the tables are well formed, the books balance, approved escrows have
  paid their fee, and the witnesses have exactly the votes that were cast for them.\<close>

definition consistent :: "chain \<Rightarrow> bool" where
  "consistent c \<longleftrightarrow> balanced c \<and> fees_paid c \<and> votes_ok c"

lemma consistentI: "consistent c \<Longrightarrow> booked (\<lambda>_. 0) 0 c c' \<Longrightarrow> fees_paid c' \<Longrightarrow> votes_ok c' \<Longrightarrow> consistent c'"
  by (simp add: consistent_def booked_balanced)

lemma consistentD: "consistent c \<Longrightarrow> tables_ok c" "consistent c \<Longrightarrow> fees_paid c" "consistent c \<Longrightarrow> votes_ok c"
  by (simp_all add: consistent_def balanced_def)

text \<open>Steps that change the books of no asset, no escrow and nothing that a vote depends on; and steps
  that change only votes.\<close>

lemma consistent_quiet:
  assumes "consistent c" and "booked (\<lambda>_. 0) 0 c c'" and "ch_escrows c' = ch_escrows c" and "vote_view c' = vote_view c"
  shows "consistent c'"
  using assms(1,2) fees_paid_kept [OF assms(3) consistentD(2) [OF assms(1)]]
    view_votes [OF assms(4) booked_tables [OF assms(2)] consistentD(3) [OF assms(1)]]
  by (rule consistentI)

lemma consistent_votes:
  assumes "consistent c" and "untouched c c'" and "votes_ok c'"
  shows "consistent c'"
  using assms(1) _ _ assms(3)
  by (rule consistentI) (use assms(2) consistentD(2) [OF assms(1)] fees_paid_kept in \<open>auto simp: untouched_def\<close>)

lemma consistent_escrow:
  assumes "consistent c" and "booked (\<lambda>_. 0) 0 c c'" and "fees_paid c'" and "vote_view c' = vote_view c"
  shows "consistent c'"
  using assms(1-3) view_votes [OF assms(4) booked_tables [OF assms(2)] consistentD(3) [OF assms(1)]] by (rule consistentI)

lemma quiet_operation:
  assumes "safe_laws L" and "consistent c"
  shows "apply_transfer L a c = Inr c' \<Longrightarrow> consistent c'"
    and "apply_withdraw_vesting L b c = Inr c' \<Longrightarrow> consistent c'"
    and "apply_limit_order_create L d c = Inr c' \<Longrightarrow> consistent c'"
    and "apply_limit_order_create2 L e c = Inr c' \<Longrightarrow> validate_limit_order_create2 L e = Inr () \<Longrightarrow> consistent c'"
    and "apply_limit_order_cancel L f c = Inr c' \<Longrightarrow> consistent c'"
    and "apply_convert L g c = Inr c' \<Longrightarrow> consistent c'"
    and "apply_set_withdraw_vesting_route h c = Inr c' \<Longrightarrow> consistent c'"
    and "apply_transfer_to_savings L i c = Inr c' \<Longrightarrow> consistent c'"
    and "apply_transfer_from_savings L j c = Inr c' \<Longrightarrow> consistent c'"
    and "apply_cancel_transfer_from_savings L k c = Inr c' \<Longrightarrow> consistent c'"
    and "apply_decline_voting_rights L l c = Inr c' \<Longrightarrow> consistent c'"
    and "apply_delegate_vesting_shares L m c = Inr c' \<Longrightarrow> consistent c'"
  using consistentD(1) [OF assms(2)]
  by (auto intro!: consistent_quiet [OF assms(2)]
      intro: apply_transfer_booked [OF assms(1)] apply_withdraw_vesting_booked apply_limit_order_create_booked [OF assms(1)]
      apply_limit_order_create2_booked [OF assms(1)] apply_limit_order_cancel_booked [OF assms(1)] apply_convert_booked [OF assms(1)]
      apply_set_withdraw_vesting_route_booked apply_transfer_to_savings_booked [OF assms(1)]
      apply_transfer_from_savings_booked [OF assms(1)] apply_cancel_transfer_from_savings_booked [OF assms(1)]
      apply_decline_voting_rights_booked apply_delegate_vesting_shares_booked
      apply_transfer_escrows vesting_escrows market_escrows feed_escrows savings_escrows apply_delegate_vesting_shares_escrows
      transfer_unseen withdrawal_unseen market_unseen convert_unseen savings_unseen delegate_vesting_shares_unseen)

lemma escrow_operation:
  assumes "safe_laws L" and "consistent c"
  shows "apply_escrow_transfer L a c = Inr c' \<Longrightarrow> consistent c'"
    and "apply_escrow_approve L b c = Inr c' \<Longrightarrow> consistent c'"
    and "apply_escrow_dispute d c = Inr c' \<Longrightarrow> consistent c'"
    and "apply_escrow_release L e c = Inr c' \<Longrightarrow> consistent c'"
proof -
  note ok = consistentD(1,2) [OF assms(2)] and escrow = consistent_escrow [OF assms(2)]
  show "apply_escrow_transfer L a c = Inr c' \<Longrightarrow> consistent c'"
    using escrow escrow_unseen(1) apply_escrow_transfer_booked [OF assms(1) _ ok(1)] apply_escrow_transfer_fees [OF assms(1) _ ok] by blast
  show "apply_escrow_approve L b c = Inr c' \<Longrightarrow> consistent c'"
    using escrow escrow_operations_unseen(1) apply_escrow_approve_booked [OF assms(1) _ ok(1)] apply_escrow_approve_fees [OF assms(1) _ ok] by blast
  show "apply_escrow_dispute d c = Inr c' \<Longrightarrow> consistent c'"
    using escrow escrow_unseen(5) apply_escrow_dispute_booked [OF _ ok(1)] apply_escrow_dispute_fees [OF _ ok] by blast
  show "apply_escrow_release L e c = Inr c' \<Longrightarrow> consistent c'"
    using escrow escrow_operations_unseen(2) apply_escrow_release_booked [OF assms(1) _ ok] apply_escrow_release_fees [OF assms(1) _ ok] by blast
qed

lemma vote_operation:
  assumes "safe_laws L" and "consistent c"
  shows "apply_account_witness_vote L a c = Inr c' \<Longrightarrow> consistent c'"
    and "apply_account_witness_proxy L b c = Inr c' \<Longrightarrow> awp_proxy b \<noteq> awp_account b \<Longrightarrow> consistent c'"
    and "apply_feed_publish d c = Inr c' \<Longrightarrow> consistent c'"
    and "apply_transfer_to_vesting L e c = Inr c' \<Longrightarrow> consistent c'"
    and "apply_claim_reward_balance L f c = Inr c' \<Longrightarrow> consistent c'"
proof -
  note ok = consistentD [OF assms(2)] and votes = consistent_votes [OF assms(2)]
  show "apply_account_witness_vote L a c = Inr c' \<Longrightarrow> consistent c'"
    using votes apply_account_witness_vote_untouched ok(1) apply_account_witness_vote_votes [OF assms(1) _ ok(3)] by blast
  show "apply_account_witness_proxy L b c = Inr c' \<Longrightarrow> awp_proxy b \<noteq> awp_account b \<Longrightarrow> consistent c'"
    using votes apply_account_witness_proxy_untouched ok(1) apply_account_witness_proxy_votes [OF assms(1) _ ok(3)] by blast
  show "apply_feed_publish d c = Inr c' \<Longrightarrow> consistent c'"
    using votes apply_feed_publish_booked [OF _ ok(1)] feed_escrows(1) apply_feed_publish_votes [OF _ ok(3)]
    by (auto simp: untouched_def)
  show "apply_transfer_to_vesting L e c = Inr c' \<Longrightarrow> consistent c'"
    using votes apply_transfer_to_vesting_booked [OF assms(1) _ ok(1)] apply_transfer_to_vesting_escrows [OF assms(1) _ ok(1)]
      apply_transfer_to_vesting_votes [OF assms(1) _ ok(1,3)] by (auto simp: untouched_def)
  show "apply_claim_reward_balance L f c = Inr c' \<Longrightarrow> consistent c'"
    using votes apply_claim_reward_balance_booked [OF assms(1) _ ok(1)] apply_claim_reward_balance_escrows
      apply_claim_reward_balance_votes [OF assms(1) _ ok(1,3)] by (auto simp: untouched_def)
qed

lemma evaluate_keeps:
  assumes "safe_laws L" and "operation_validate L K op = Inr ()" and "evaluate L op = Some f" and "f c = Inr c'"
    and "consistent c"
  shows "consistent c'"
  using assms(2-4) quiet_operation [OF assms(1,5)] escrow_operation [OF assms(1,5)] vote_operation [OF assms(1,5)] assms(5)
  by (cases op) (auto simp: evaluate_def operation_validate_def validate_account_witness_proxy_def
      apply_report_over_production_def apply_reset_account_def apply_set_reset_account_def)

text \<open>Code outside the model (comments and their votes, authorities, recovery, block summaries) may change
  everything but the books, the votes and the routes of vesting withdrawals.\<close>

definition same_books :: "chain \<Rightarrow> chain \<Rightarrow> bool" where
  "same_books c c' \<longleftrightarrow>
     ch_accounts c' = ch_accounts c \<and> ch_converts c' = ch_converts c \<and> ch_orders c' = ch_orders c \<and>
     ch_escrows c' = ch_escrows c \<and> ch_savings c' = ch_savings c \<and> ch_reward_funds c' = ch_reward_funds c \<and>
     ch_routes c' = ch_routes c \<and>
     g_current_supply (ch_gpo c') = g_current_supply (ch_gpo c) \<and>
     g_current_sbd_supply (ch_gpo c') = g_current_sbd_supply (ch_gpo c) \<and>
     g_total_vesting_fund_steem (ch_gpo c') = g_total_vesting_fund_steem (ch_gpo c) \<and>
     g_total_vesting_shares (ch_gpo c') = g_total_vesting_shares (ch_gpo c) \<and>
     g_total_reward_fund_steem (ch_gpo c') = g_total_reward_fund_steem (ch_gpo c) \<and>
     g_pending_rewarded_vesting_shares (ch_gpo c') = g_pending_rewarded_vesting_shares (ch_gpo c) \<and>
     g_pending_rewarded_vesting_steem (ch_gpo c') = g_pending_rewarded_vesting_steem (ch_gpo c)"

definition same_votes :: "chain \<Rightarrow> chain \<Rightarrow> bool" where
  "same_votes c c' \<longleftrightarrow> ch_witness_votes c' = ch_witness_votes c \<and> tbl_ok (ch_witnesses c') \<and>
     (\<forall>w. map_option w_votes (find_obj w (ch_witnesses c')) = map_option w_votes (find_obj w (ch_witnesses c)))"

section \<open>Block production keeps books and votes\<close>

text \<open>Steps that change witnesses, but not their votes, and nothing of the books.\<close>

definition quiet :: "chain \<Rightarrow> chain \<Rightarrow> bool" where
  "quiet c c' \<longleftrightarrow> same_books c c' \<and> ch_witness_votes c' = ch_witness_votes c \<and> wview w_votes c' = wview w_votes c \<and>
     tbl_ok (ch_witnesses c')"

lemma quiet_refl: "tbl_ok (ch_witnesses c) \<Longrightarrow> quiet c c"
  by (simp add: quiet_def same_books_def)

lemma quiet_trans: "quiet c c' \<Longrightarrow> quiet c' c'' \<Longrightarrow> quiet c c''"
  by (simp add: quiet_def same_books_def)

lemma quiet_tables: "quiet c c' \<Longrightarrow> tbl_ok (ch_witnesses c')"
  by (simp add: quiet_def)

lemma quiet_elsewhere: "quiet c c' \<Longrightarrow> tbl_ok (ch_witnesses c') \<Longrightarrow> same_books c c' \<and> same_votes c c'"
  using witness_view_eq(1) [of w_votes c' c] by (simp add: quiet_def same_votes_def)

lemma quiet_updates:
  "quiet c (c'\<lparr>ch_wso := x\<rparr>) \<longleftrightarrow> quiet c c'" "quiet c (c'\<lparr>ch_hpo := y\<rparr>) \<longleftrightarrow> quiet c c'" "quiet c (c'\<lparr>ch_feed := f\<rparr>) \<longleftrightarrow> quiet c c'"
  "quiet c (c'\<lparr>ch_virtual_ops := v\<rparr>) \<longleftrightarrow> quiet c c'"
  by (simp_all add: quiet_def same_books_def wview_def)

lemma modify_witness_quiet:
  assumes "modify_witness i f c = Inr c'" and "tbl_ok (ch_witnesses c)" and "\<And>w w'. f w = Inr w' \<Longrightarrow> w_votes w' = w_votes w"
  shows "quiet c c'"
proof -
  note v = modify_witness_view [OF assms]
  obtain t where "c' = c\<lparr>ch_witnesses := t\<rparr>" using assms(1) by (auto simp: modify_witness_def)
  then show ?thesis using v(1,2) by (simp add: quiet_def same_books_def)
qed

lemma reschedules_quiet:
  assumes "reschedules c c'"
  shows "quiet c c'"
proof -
  have e: "c'\<lparr>ch_witnesses := ch_witnesses c\<rparr> = c" using assms by (simp add: reschedules_def)
  have "ch_accounts c' = ch_accounts c" "ch_converts c' = ch_converts c" "ch_orders c' = ch_orders c" "ch_escrows c' = ch_escrows c"
    "ch_savings c' = ch_savings c" "ch_reward_funds c' = ch_reward_funds c" "ch_routes c' = ch_routes c" "ch_gpo c' = ch_gpo c" "ch_witness_votes c' = ch_witness_votes c"
    by (subst e [symmetric], simp)+
  moreover have "wview w_votes c' = wview w_votes c"
    using assms wview_weaken [of unscheduled c' c w_votes w_votes] by (simp add: reschedules_def unscheduled_def)
  ultimately show ?thesis using assms by (simp add: quiet_def same_books_def reschedules_def)
qed

lemma advance_witnesses_quiet:
  "advance_witnesses L t is c = Inr (r, c') \<Longrightarrow> tbl_ok (ch_witnesses c) \<Longrightarrow> quiet c c'"
proof (induction "is" arbitrary: c)
  case (Cons i "is")
  then obtain w q where w: "witness_at i c = Inr w" "lap L w = Inr q" by auto
  show ?case
  proof (cases "u128_less L (u128_add L t q) t")
    case False
    then obtain c1 where c1: "modify_witness i (\<lambda>w. Inr (w\<lparr>w_virtual_position := \<lparr>hi = 0, lo = 0\<rparr>, w_virtual_last_update := t,
        w_virtual_scheduled_time := u128_add L t q\<rparr>)) c = Inr c1" "advance_witnesses L t is c1 = Inr (r, c')"
      using Cons.prems w by (auto simp: Let_def)
    have "quiet c c1" using c1(1) Cons.prems(2) by (rule modify_witness_quiet) auto
    then show ?thesis using Cons.IH [OF c1(2)] by (blast intro: quiet_trans quiet_tables)
  qed (use Cons.prems w in \<open>simp add: Let_def quiet_refl\<close>)
qed (simp add: quiet_refl)

lemma reset_virtual_schedule_time_quiet:
  assumes "reset_virtual_schedule_time L c = Inr c'" and "tbl_ok (ch_witnesses c)"
  shows "quiet c c'"
  using assms(1) unfolding reset_virtual_schedule_time_def Let_def
proof (rule fold_res_invariant)
  show "quiet c (c\<lparr>ch_wso := (ch_wso c)\<lparr>ws_current_virtual_time := \<lparr>hi = 0, lo = 0\<rparr>\<rparr>\<rparr>)"
    using assms(2) by (simp add: quiet_updates quiet_refl)
next
  fix i a b assume a: "quiet c a"
    and m: "modify_witness i (\<lambda>w. rbind (lap L w) (\<lambda>t. Inr (w\<lparr>w_virtual_position := \<lparr>hi = 0, lo = 0\<rparr>,
      w_virtual_last_update := ws_current_virtual_time (ch_wso a), w_virtual_scheduled_time := t\<rparr>))) a = Inr b"
  have "quiet a b" using m quiet_tables [OF a] by (rule modify_witness_quiet) auto
  with a show "quiet c b" by (rule quiet_trans)
qed

lemma update_median_witness_props_quiet:
  "update_median_witness_props c = Inr c' \<Longrightarrow> tbl_ok (ch_witnesses c) \<Longrightarrow> quiet c c'"
  by (auto simp: update_median_witness_props_def Let_def quiet_def same_books_def wview_def)

lemma update_witness_schedule_quiet:
  assumes "update_witness_schedule L c = Inr c'" and "tbl_ok (ch_witnesses c)"
  shows "quiet c c'"
proof (cases "unat (head_block_num c) mod STEEMIT_MAX_WITNESSES = 0")
  case True
  then have "update_witness_schedule4 L c = Inr c'" using assms(1) by (simp add: update_witness_schedule_def)
  then obtain m sel act c1 s s' reset c2 c3 x y where 1: "select_voted m (by_vote_name c) ([], [], c) = Inr (sel, act, c1)"
    "select_runners sel (by_schedule_time c1) s = Inr s'" "rs_chain s = c1"
    "advance_witnesses L (rs_virtual_time s') (rs_processed s') (rs_chain s') = Inr (reset, c2)"
    "(if reset then reset_virtual_schedule_time L c2 else Inr c2) = Inr c3"
    "update_median_witness_props (c3\<lparr>ch_hpo := x, ch_wso := y\<rparr>) = Inr c'"
    unfolding update_witness_schedule4_def by (fastforce simp: Let_def split: prod.splits)
  have q1: "quiet c c1" using select_voted_spec [OF 1(1) assms(2)] reschedules_quiet by blast
  have q2: "quiet c1 (rs_chain s')" using select_runners_spec [OF 1(2)] quiet_tables [OF q1] 1(3) reschedules_quiet by blast
  have q3: "quiet (rs_chain s') c2" using advance_witnesses_quiet [OF 1(4) quiet_tables [OF q2]] .
  have "quiet c2 c3"
    using 1(5) quiet_tables [OF q3] by (auto intro: reset_virtual_schedule_time_quiet quiet_refl split: if_splits)
  with q1 q2 q3 have q4: "quiet c c3" by (blast intro: quiet_trans)
  have "quiet (c3\<lparr>ch_hpo := x, ch_wso := y\<rparr>) c'" using 1(6) quiet_tables [OF q4] by (intro update_median_witness_props_quiet) auto
  with q4 show ?thesis using quiet_trans quiet_updates by blast
qed (use assms in \<open>simp add: update_witness_schedule_def quiet_refl\<close>)

lemma update_median_feed_quiet:
  assumes "update_median_feed L c = Inr c'" and "tbl_ok (ch_witnesses c)"
  shows "quiet c c'"
proof -
  have "c' = c \<or> (\<exists>f. c' = c\<lparr>ch_feed := f\<rparr>)"
    using assms(1) unfolding update_median_feed_def Let_def by (auto simp del: length_concat split: if_split_asm)
  then show ?thesis using quiet_refl [OF assms(2)] by (auto simp: quiet_updates)
qed

lemma process_header_extensions_quiet:
  assumes "process_header_extensions b c = Inr c'" and "tbl_ok (ch_witnesses c)"
  shows "quiet c c'"
  using assms(1) unfolding process_header_extensions_def
proof (rule fold_res_invariant)
  fix x d e assume d: "quiet c d" and x: "process_header_extension (witness b) x d = Inr e"
  have "quiet d e"
    using x quiet_tables [OF d] by (cases x) (auto intro: modify_witness_quiet quiet_refl split: if_splits)
  with d show "quiet c e" by (rule quiet_trans)
qed (use assms(2) in \<open>rule quiet_refl\<close>)

lemma miss_slot_quiet:
  assumes "miss_slot n i c = Inr c'" and "tbl_ok (ch_witnesses c)"
  shows "quiet c c'"
  using assms(1)
proof (rule miss_slotE)
  fix j d shut vops
  assume m: "modify_witness j (\<lambda>w. Inr (w\<lparr>w_total_missed := w_total_missed w + 1, w_signing_key := if shut then 0 else w_signing_key w\<rparr>)) c = Inr d"
    and c': "c' = d\<lparr>ch_virtual_ops := vops\<rparr>"
  have "quiet c d" using m assms(2) by (rule modify_witness_quiet) auto
  then show ?thesis using c' by (simp add: quiet_updates)
qed (use assms(2) in \<open>simp add: quiet_refl\<close>)

lemma fill_slots_books:
  "g_current_supply (fold (fill_slot L) is g) = g_current_supply g" "g_current_sbd_supply (fold (fill_slot L) is g) = g_current_sbd_supply g"
  "g_total_vesting_fund_steem (fold (fill_slot L) is g) = g_total_vesting_fund_steem g"
  "g_total_vesting_shares (fold (fill_slot L) is g) = g_total_vesting_shares g"
  "g_total_reward_fund_steem (fold (fill_slot L) is g) = g_total_reward_fund_steem g"
  "g_pending_rewarded_vesting_shares (fold (fill_slot L) is g) = g_pending_rewarded_vesting_shares g"
  "g_pending_rewarded_vesting_steem (fold (fill_slot L) is g) = g_pending_rewarded_vesting_steem g"
  by (induction "is" arbitrary: g) (simp_all add: fill_slot_def Let_def)

lemma update_global_dynamic_data_quiet:
  assumes "update_global_dynamic_data L K skip b c = Inr c'" and "tbl_ok (ch_witnesses c)"
  shows "quiet c c'"
proof -
  obtain m "is" d n i t a where d: "fold_res (miss_slot (witness b)) [0..<m] c = Inr d"
    and c': "c' = d\<lparr>ch_gpo := (fold (fill_slot L) is (ch_gpo d))\<lparr>g_head_block_number := n, g_head_block_id := i, g_time := t, g_current_aslot := a\<rparr>\<rparr>"
    using assms(1) unfolding update_global_dynamic_data_def Let_def by auto
  have "quiet c d"
    using d quiet_refl [OF assms(2)] by (rule fold_res_invariant) (blast intro: quiet_trans miss_slot_quiet quiet_tables)
  then show ?thesis by (simp add: c' quiet_def same_books_def wview_def fill_slots_books)
qed

lemma update_signing_witness_quiet:
  "update_signing_witness L i b c = Inr c' \<Longrightarrow> tbl_ok (ch_witnesses c) \<Longrightarrow> quiet c c'"
  unfolding update_signing_witness_def Let_def by (erule modify_witness_quiet) auto

text \<open>The books stay as they are even when the tables of the witnesses are not well formed.\<close>

lemma same_books_refl [simp]: "same_books c c"
  by (simp add: same_books_def)

lemma same_books_trans: "same_books c c' \<Longrightarrow> same_books c' c'' \<Longrightarrow> same_books c c''"
  by (simp add: same_books_def)

lemma same_books_updates [simp]:
  "same_books c (c'\<lparr>ch_wso := x\<rparr>) \<longleftrightarrow> same_books c c'" "same_books c (c'\<lparr>ch_hpo := y\<rparr>) \<longleftrightarrow> same_books c c'"
  "same_books c (c'\<lparr>ch_feed := f\<rparr>) \<longleftrightarrow> same_books c c'" "same_books c (c'\<lparr>ch_virtual_ops := v\<rparr>) \<longleftrightarrow> same_books c c'"
  "same_books c (c'\<lparr>ch_witnesses := t\<rparr>) \<longleftrightarrow> same_books c c'"
  by (simp_all add: same_books_def)

lemma modify_witness_books: "modify_witness i f c = Inr c' \<Longrightarrow> same_books c c'"
  by (auto simp: modify_witness_def)

lemma select_voted_books: "select_voted m is (sel, act, c) = Inr (sel', act', c') \<Longrightarrow> same_books c c'"
proof (induction "is" arbitrary: sel act c)
  case (Cons i "is")
  then show ?case
    by (auto split: if_splits intro: same_books_trans [OF modify_witness_books])
qed simp

lemma select_runners_books: "select_runners sel is s = Inr s' \<Longrightarrow> same_books (rs_chain s) (rs_chain s')"
proof (induction "is" arbitrary: s)
  case (Cons i "is")
  show ?case
  proof (cases "rs_count s < STEEMIT_MAX_WITNESSES")
    case True
    then obtain w where w: "witness_at i (rs_chain s) = Inr w" using Cons.prems by auto
    show ?thesis
    proof (cases "w_signing_key w = 0 \<or> i \<in> set sel")
      case True
      with Cons.prems w \<open>rs_count s < _\<close> show ?thesis by (auto simp: Let_def dest!: Cons.IH split: if_split_asm)
    next
      case False
      with Cons.prems w \<open>rs_count s < _\<close> show ?thesis
        by (auto simp: Let_def dest!: Cons.IH modify_witness_books intro: same_books_trans)
    qed
  qed (use Cons.prems in simp)
qed simp

lemma advance_witnesses_books: "advance_witnesses L t is c = Inr (r, c') \<Longrightarrow> same_books c c'"
proof (induction "is" arbitrary: c)
  case (Cons i "is")
  then show ?case
    by (auto simp: Let_def split: if_splits intro: same_books_trans [OF modify_witness_books])
qed simp

lemma reset_virtual_schedule_time_books: "reset_virtual_schedule_time L c = Inr c' \<Longrightarrow> same_books c c'"
  unfolding reset_virtual_schedule_time_def Let_def
  by (erule fold_res_invariant) (auto intro: same_books_trans modify_witness_books)

lemma update_witness_schedule_books:
  assumes "update_witness_schedule L c = Inr c'"
  shows "same_books c c'"
proof (cases "unat (head_block_num c) mod STEEMIT_MAX_WITNESSES = 0")
  case True
  then have "update_witness_schedule4 L c = Inr c'" using assms by (simp add: update_witness_schedule_def)
  then obtain m sel act c1 s s' reset c2 c3 x y where 1: "select_voted m (by_vote_name c) ([], [], c) = Inr (sel, act, c1)"
    "select_runners sel (by_schedule_time c1) s = Inr s'" "rs_chain s = c1"
    "advance_witnesses L (rs_virtual_time s') (rs_processed s') (rs_chain s') = Inr (reset, c2)"
    "(if reset then reset_virtual_schedule_time L c2 else Inr c2) = Inr c3"
    "update_median_witness_props (c3\<lparr>ch_hpo := x, ch_wso := y\<rparr>) = Inr c'"
    unfolding update_witness_schedule4_def by (fastforce simp: Let_def split: prod.splits)
  have "same_books c c2"
    using select_voted_books [OF 1(1)] select_runners_books [OF 1(2)] advance_witnesses_books [OF 1(4)] 1(3)
    by (blast intro: same_books_trans)
  moreover have "same_books c2 c3" using 1(5) by (auto intro: reset_virtual_schedule_time_books split: if_splits)
  moreover have "same_books (c3\<lparr>ch_hpo := x, ch_wso := y\<rparr>) c'"
    using 1(6) by (auto simp: update_median_witness_props_def Let_def same_books_def)
  ultimately show ?thesis by (simp add: same_books_def)
qed (use assms in \<open>simp add: update_witness_schedule_def\<close>)

lemma production_books:
  "process_header_extensions b c = Inr c' \<Longrightarrow> same_books c c'"
  "update_global_dynamic_data L K skip b c = Inr c' \<Longrightarrow> same_books c c'"
  "update_signing_witness L i b c = Inr c' \<Longrightarrow> same_books c c'"
  "update_median_feed L c = Inr c' \<Longrightarrow> same_books c c'"
proof -
  have "same_books d e" if "process_header_extension (witness b) x d = Inr e" for x d e
    using that by (cases x) (auto intro: modify_witness_books split: if_splits)
  then show "process_header_extensions b c = Inr c' \<Longrightarrow> same_books c c'"
    unfolding process_header_extensions_def by - (rule fold_res_invariant, auto intro: same_books_trans)
  have miss: "same_books d e" if "miss_slot n j d = Inr e" for n j d e
    using that by (rule miss_slotE) (auto dest: modify_witness_books)
  show "same_books c c'" if g: "update_global_dynamic_data L K skip b c = Inr c'"
  proof -
    obtain m "is" d n i t a where d: "fold_res (miss_slot (witness b)) [0..<m] c = Inr d"
      and c': "c' = d\<lparr>ch_gpo := (fold (fill_slot L) is (ch_gpo d))\<lparr>g_head_block_number := n, g_head_block_id := i, g_time := t, g_current_aslot := a\<rparr>\<rparr>"
      using g unfolding update_global_dynamic_data_def Let_def by auto
    have "same_books c d" using d by (rule fold_res_invariant) (auto intro: same_books_trans miss)
    then show ?thesis by (simp add: c' same_books_def fill_slots_books)
  qed
  show "update_signing_witness L i b c = Inr c' \<Longrightarrow> same_books c c'"
    unfolding update_signing_witness_def Let_def by (rule modify_witness_books)
  show "same_books c c'" if f: "update_median_feed L c = Inr c'"
  proof -
    have "c' = c \<or> (\<exists>f. c' = c\<lparr>ch_feed := f\<rparr>)"
      using f unfolding update_median_feed_def Let_def by (auto simp del: length_concat split: if_split_asm)
    then show ?thesis by auto
  qed
qed

text \<open>Committing forgets undo states; the objects stay.\<close>

lemma commit_objects: "tsum f (commit r t) = tsum f t" "find_obj i (commit r t) = find_obj i t" "tbl_ok (commit r t) = tbl_ok t"
  by (simp_all add: commit_def tsum_def find_obj_def tbl_ok_def)

lemma commit_all_consistent: "consistent (commit_all r c) \<longleftrightarrow> consistent c"
proof -
  have b: "balanced (commit_all r c) \<longleftrightarrow> balanced c" "fees_paid (commit_all r c) \<longleftrightarrow> fees_paid c"
    by (simp_all add: commit_all_def balanced_def tables_ok_def gap_def holdings_def pending_gap_def fees_paid_def commit_objects)
  have w: "weight i (commit_all r c) = weight i c" for i by (simp add: commit_all_def weight_def commit_objects)
  have "votes_for w (commit_all r c) = votes_for w c" for w
    unfolding votes_for_def w by (simp add: commit_all_def commit_objects)
  moreover have "proxied_to n k (commit_all r c) = proxied_to n k c"
    "votes_wf (commit_all r c) \<longleftrightarrow> votes_wf c" "proxy_rel (commit_all r c) = proxy_rel c" for n k
    by (simp_all add: commit_all_def proxied_to_def votes_wf_def proxy_rel_def commit_objects)
  moreover have "find_obj i (ch_accounts (commit_all r c)) = find_obj i (ch_accounts c)"
    "find_obj i (ch_witnesses (commit_all r c)) = find_obj i (ch_witnesses c)" for i
    by (simp_all add: commit_all_def commit_objects)
  ultimately have "votes_ok (commit_all r c) \<longleftrightarrow> votes_ok c" by (simp add: votes_ok_def votes_off_def)
  with b show ?thesis by (simp add: consistent_def)
qed

text \<open>A step of the ledger: an operation that validates and whose evaluator returns, one of the loops and
  payments of a block, one of the steps of block production, or a change outside the model.\<close>

inductive ledger_step :: "fc_lib \<Rightarrow> fc_crypto \<Rightarrow> chain \<Rightarrow> chain \<Rightarrow> bool" for L K where
  operation: "operation_validate L K op = Inr () \<Longrightarrow> evaluate L op = Some f \<Longrightarrow> f c = Inr c' \<Longrightarrow> ledger_step L K c c'"
| savings: "process_savings_withdraws L c = Inr c' \<Longrightarrow> ledger_step L K c c'"
| conversions: "process_conversions L c = Inr c' \<Longrightarrow> ledger_step L K c c'"
| escrows: "expire_escrow_ratification L c = Inr c' \<Longrightarrow> ledger_step L K c c'"
| orders: "clear_expired_orders L c = Inr c' \<Longrightarrow> ledger_step L K c c'"
| delegations: "clear_expired_delegations L c = Inr c' \<Longrightarrow> ledger_step L K c c'"
| declines: "process_decline_voting_rights L c = Inr c' \<Longrightarrow> ledger_step L K c c'"
| funds: "process_funds L c = Inr c' \<Longrightarrow> ledger_step L K c c'"
| liquidity: "pay_liquidity_reward L c = Inr c' \<Longrightarrow> ledger_step L K c c'"
| virtual_supply: "update_virtual_supply L c = Inr c' \<Longrightarrow> ledger_step L K c c'"
| null_account: "clear_null_account_balance L c = Inr c' \<Longrightarrow> ledger_step L K c c'"
| withdrawals: "process_vesting_withdrawals L c = Inr c' \<Longrightarrow> ledger_step L K c c'"
| header: "process_header_extensions (b :: signed_block_header) c = Inr c' \<Longrightarrow> ledger_step L K c c'"
| global_data: "update_global_dynamic_data L K skip (b :: signed_block_header) c = Inr c' \<Longrightarrow> ledger_step L K c c'"
| signing: "update_signing_witness L i (b :: signed_block_header) c = Inr c' \<Longrightarrow> ledger_step L K c c'"
| irreversible: "update_last_irreversible_block c = Inr c' \<Longrightarrow> ledger_step L K c c'"
| schedule: "update_witness_schedule L c = Inr c' \<Longrightarrow> ledger_step L K c c'"
| feed: "update_median_feed L c = Inr c' \<Longrightarrow> ledger_step L K c c'"
| elsewhere: "same_books c c' \<Longrightarrow> same_votes c c' \<Longrightarrow> ledger_step L K c c'"

lemma elsewhere_keeps:
  assumes "same_books c c'" and "same_votes c c'" and "consistent c"
  shows "consistent c'"
proof -
  have "balanced c'" "fees_paid c'"
    using assms(1,3) by (auto simp: same_books_def consistent_def balanced_def tables_ok_def gap_def holdings_def pending_gap_def
      gpo_issued_def gpo_holds_def fees_paid_def)
  moreover have "votes_ok c'"
    using assms by (intro votes_ok_witnesses [OF consistentD(3) [OF assms(3)]]) (auto simp: same_books_def same_votes_def)
  ultimately show ?thesis by (simp add: consistent_def)
qed

lemma update_last_irreversible_blockE:
  assumes "update_last_irreversible_block c = Inr c'"
  obtains d n where "c' = commit_all (uint (g_last_irreversible_block_num (ch_gpo d))) d"
    "d = c \<or> d = c\<lparr>ch_gpo := (ch_gpo c)\<lparr>g_last_irreversible_block_num := n\<rparr>\<rparr>"
  using assms unfolding update_last_irreversible_block_def Let_def rbind_eq_Inr by (elim exE conjE) (auto split: if_split_asm)

lemma production_step_keeps:
  assumes "consistent c"
  shows "process_header_extensions b c = Inr c' \<Longrightarrow> consistent c'"
    and "update_global_dynamic_data L K skip b c = Inr c' \<Longrightarrow> consistent c'"
    and "update_signing_witness L i b c = Inr c' \<Longrightarrow> consistent c'"
    and "update_witness_schedule L c = Inr c' \<Longrightarrow> consistent c'"
    and "update_median_feed L c = Inr c' \<Longrightarrow> consistent c'"
    and "update_last_irreversible_block c = Inr c' \<Longrightarrow> consistent c'"
proof -
  have ok: "tbl_ok (ch_witnesses c)" using consistentD(3) [OF assms] by (simp add: votes_ok_def votes_off_def votes_wf_def)
  have k: "quiet c d \<Longrightarrow> consistent d" for d using elsewhere_keeps [OF _ _ assms] quiet_elsewhere quiet_tables by blast
  show "process_header_extensions b c = Inr c' \<Longrightarrow> consistent c'" using k process_header_extensions_quiet [OF _ ok] by blast
  show "update_global_dynamic_data L K skip b c = Inr c' \<Longrightarrow> consistent c'" using k update_global_dynamic_data_quiet [OF _ ok] by blast
  show "update_signing_witness L i b c = Inr c' \<Longrightarrow> consistent c'" using k update_signing_witness_quiet [OF _ ok] by blast
  show "update_witness_schedule L c = Inr c' \<Longrightarrow> consistent c'" using k update_witness_schedule_quiet [OF _ ok] by blast
  show "update_median_feed L c = Inr c' \<Longrightarrow> consistent c'" using k update_median_feed_quiet [OF _ ok] by blast
  have "quiet c (c\<lparr>ch_gpo := (ch_gpo c)\<lparr>g_last_irreversible_block_num := n\<rparr>\<rparr>)" for n
    using ok by (simp add: quiet_def same_books_def wview_def)
  then have n: "consistent (c\<lparr>ch_gpo := (ch_gpo c)\<lparr>g_last_irreversible_block_num := n\<rparr>\<rparr>)" for n using k by blast
  show "consistent c'" if "update_last_irreversible_block c = Inr c'"
  proof -
    from that show ?thesis by (rule update_last_irreversible_blockE) (use n assms in \<open>auto simp: commit_all_consistent\<close>)
  qed
qed

lemma block_step_keeps:
  assumes "safe_laws L" and "consistent c"
  shows "process_savings_withdraws L c = Inr c' \<Longrightarrow> consistent c'"
    and "process_conversions L c = Inr c' \<Longrightarrow> consistent c'"
    and "clear_expired_orders L c = Inr c' \<Longrightarrow> consistent c'"
    and "clear_expired_delegations L c = Inr c' \<Longrightarrow> consistent c'"
    and "pay_liquidity_reward L c = Inr c' \<Longrightarrow> consistent c'"
    and "update_virtual_supply L c = Inr c' \<Longrightarrow> consistent c'"
proof -
  note ok = consistentD(1) [OF assms(2)] and quiet = consistent_quiet [OF assms(2)]
  show "process_savings_withdraws L c = Inr c' \<Longrightarrow> consistent c'"
    using quiet process_savings_withdraws_booked [OF assms(1) _ ok] process_savings_withdraws_escrows process_savings_withdraws_unseen by blast
  show "process_conversions L c = Inr c' \<Longrightarrow> consistent c'"
    using quiet process_conversions_booked [OF assms(1) _ ok] process_conversions_escrows process_conversions_unseen by blast
  show "clear_expired_orders L c = Inr c' \<Longrightarrow> consistent c'"
    using quiet clear_expired_orders_booked [OF assms(1) _ ok] clear_expired_orders_escrows clear_expired_orders_unseen by blast
  show "clear_expired_delegations L c = Inr c' \<Longrightarrow> consistent c'"
    using quiet clear_expired_delegations_booked [OF _ ok] clear_expired_delegations_escrows clear_expired_delegations_unseen by blast
  show "pay_liquidity_reward L c = Inr c' \<Longrightarrow> consistent c'"
    using quiet pay_liquidity_reward_booked [OF assms(1) _ ok] pay_liquidity_reward_escrows [OF assms(1) _ ok] pay_liquidity_reward_unseen by blast
  show "update_virtual_supply L c = Inr c' \<Longrightarrow> consistent c'"
    using quiet update_virtual_supply_booked [OF _ ok] frame_escrows update_virtual_supply_unseen by blast
qed

lemma ledger_step_keeps:
  assumes "safe_laws L" and "ledger_step L K c c'" and "consistent c"
    and "uint128_laws L" and "withdrawals_ok c"
    and "clear_null_account_balance L c = Inr c' \<Longrightarrow> null_convertible L c \<and> null_silent c"
  shows "consistent c'"
  using assms(2)
proof cases
  note ok = consistentD [OF assms(3)]
  case (operation op f)
  from evaluate_keeps [OF assms(1) operation assms(3)] show ?thesis .
next
  case escrows
  then show ?thesis
    using consistent_escrow [OF assms(3)] expire_escrow_ratification_booked [OF assms(1) _ consistentD(1,2) [OF assms(3)]]
      expire_escrow_ratification_unseen by blast
next
  case declines
  then show ?thesis
    using consistent_votes [OF assms(3)] process_decline_voting_rights_untouched [OF _ consistentD(1) [OF assms(3)]]
      process_decline_voting_rights_votes [OF assms(1) _ consistentD(3) [OF assms(3)]] by blast
next
  case funds
  then show ?thesis
    using consistent_votes [OF assms(3)] process_funds_booked [OF assms(1) _ consistentD(1) [OF assms(3)]]
      process_funds_escrows [OF assms(1) _ consistentD(1) [OF assms(3)]] process_funds_votes [OF assms(1) _ consistentD(3) [OF assms(3)]]
    by (auto simp: untouched_def)
next
  case null_account
  then show ?thesis
    using consistent_votes [OF assms(3)] clear_null_account_balance_booked [OF assms(1) _ consistentD(1) [OF assms(3)]] assms(6)
      clear_null_account_balance_votes [OF assms(1) _ consistentD(1) [OF assms(3)] _ _ consistentD(3) [OF assms(3)]] frame_escrows
    by (auto simp: untouched_def)
next
  case withdrawals
  have "withdrawal_state c" using consistentD [OF assms(3)] assms(5) by (simp add: withdrawal_state_def)
  from process_vesting_withdrawals_keeps [OF assms(1,4) withdrawals this] show ?thesis
    using consistent_votes [OF assms(3)] frame_escrows by (auto simp: untouched_def withdrawal_state_def)
qed (use block_step_keeps [OF assms(1,3)] production_step_keeps [OF assms(3)] elsewhere_keeps [OF _ _ assms(3)] in auto)

text \<open>An invariant of a step relation holds in every state that the steps lead to.\<close>

locale step_invariant =
  fixes inv :: "'s \<Rightarrow> bool" and step :: "'s \<Rightarrow> 's \<Rightarrow> bool"
  assumes keeps: "inv c \<Longrightarrow> step c c' \<Longrightarrow> inv c'"
begin

lemma reachable: "step\<^sup>*\<^sup>* c c' \<Longrightarrow> inv c \<Longrightarrow> inv c'"
  by (induction rule: rtranclp_induct) (auto intro: keeps)

end

inductive_cases ledger_stepE: "ledger_step L K c c'"

end
