(* ===== verification/Account_Types.thy ===== *)
theory Account_Types
  imports Ledger
begin

text \<open>
  The assets of an account are typed by their symbols: its STEEM, SBD and VESTS members keep their symbols
  through every step of the ledger.  An amount of one asset is never stored in a member for another.  The
  symbol of the total of the vesting shares stays too, and the routes of vesting withdrawals change only by the
  operation that sets one.
\<close>

section \<open>The symbols of an account\<close>

definition asset_symbols :: "account_object \<Rightarrow> asset_symbol_type list" where
  "asset_symbols a = balance_symbols a @ vesting_symbols a @
     [symbol (a_delegated_vesting_shares a), symbol (a_received_vesting_shares a)]"

definition symbol_view :: "chain \<Rightarrow> oid \<Rightarrow> asset_symbol_type list option" where
  "symbol_view c j = map_option asset_symbols (find_obj j (ch_accounts c))"

definition rest_view :: "chain \<Rightarrow> asset_symbol_type \<times> (oid \<times> withdraw_vesting_route_object) list" where
  "rest_view c = (symbol (g_total_vesting_shares (ch_gpo c)), gi_indices (ch_routes c))"

definition type_view where
  "type_view c = (symbol_view c, rest_view c)"

named_theorems symbols_kept

lemmas symbol_defs = asset_symbols_def balance_symbols_def vesting_symbols_def

interpretation symbols: vesting_relation "\<lambda>a b. asset_symbols b = asset_symbols a"
proof unfold_locales
  fix a b assume s: "same_but_balances a b"
  have "[symbol (a_delegated_vesting_shares b), symbol (a_received_vesting_shares b)] =
      [symbol (a_delegated_vesting_shares a), symbol (a_received_vesting_shares a)]"
    "vesting_symbols b = vesting_symbols a"
    using s by (rule same_but_balances_keeps, simp add: without_balances_def vesting_symbols_def)+
  with s show "asset_symbols b = asset_symbols a" by (simp add: asset_symbols_def same_but_balances_def)
next
  fix a b assume s: "same_but_vesting a b"
  have "[symbol (a_delegated_vesting_shares b), symbol (a_received_vesting_shares b)] =
      [symbol (a_delegated_vesting_shares a), symbol (a_received_vesting_shares a)]"
    "balance_symbols b = balance_symbols a"
    using s by (rule same_but_vesting_keeps, simp add: without_vesting_def balance_symbols_def)+
  with s show "asset_symbols b = asset_symbols a" by (simp add: asset_symbols_def same_but_vesting_def)
qed (simp_all add: symbol_defs)

lemma rel_symbol_view:
  assumes "accounts_rel (\<lambda>a b. asset_symbols b = asset_symbols a) c c'"
  shows "symbol_view c' = symbol_view c"
  using assms unfolding accounts_rel_def symbol_view_def fun_eq_iff by (auto simp: option.rel_sel option.map_sel map_option_case split: option.splits)

lemma same_accounts_view: "ch_accounts c' = ch_accounts c \<Longrightarrow> symbol_view c' = symbol_view c"
  by (simp add: symbol_view_def fun_eq_iff)

lemma table_rest [simp]:
  "rest_view (c\<lparr>ch_accounts := a\<rparr>) = rest_view c"
  "rest_view (c\<lparr>ch_escrows := e\<rparr>) = rest_view c" "rest_view (c\<lparr>ch_savings := s\<rparr>) = rest_view c"
  "rest_view (c\<lparr>ch_converts := v\<rparr>) = rest_view c" "rest_view (c\<lparr>ch_orders := ord\<rparr>) = rest_view c"
  "rest_view (c\<lparr>ch_declines := d\<rparr>) = rest_view c"
  "rest_view (c\<lparr>ch_delegations := g\<rparr>) = rest_view c" "rest_view (c\<lparr>ch_expirations := x\<rparr>) = rest_view c"
  "rest_view (c\<lparr>ch_liquidity := l\<rparr>) = rest_view c" "rest_view (c\<lparr>ch_reward_funds := f\<rparr>) = rest_view c"
  "rest_view (c\<lparr>ch_witness_votes := y\<rparr>) = rest_view c"
  "rest_view (c\<lparr>ch_witnesses := z\<rparr>) = rest_view c" "rest_view (push_virtual_operation vop c) = rest_view c"
  by (simp_all add: rest_view_def push_virtual_operation_def)

lemma table_symbols [simp]:
  "symbol_view (c\<lparr>ch_escrows := e\<rparr>) = symbol_view c" "symbol_view (c\<lparr>ch_savings := s\<rparr>) = symbol_view c"
  "symbol_view (c\<lparr>ch_converts := v\<rparr>) = symbol_view c" "symbol_view (c\<lparr>ch_orders := ord\<rparr>) = symbol_view c"
  "symbol_view (c\<lparr>ch_routes := r\<rparr>) = symbol_view c" "symbol_view (c\<lparr>ch_declines := d\<rparr>) = symbol_view c"
  "symbol_view (c\<lparr>ch_delegations := g\<rparr>) = symbol_view c" "symbol_view (c\<lparr>ch_expirations := x\<rparr>) = symbol_view c"
  "symbol_view (c\<lparr>ch_liquidity := l\<rparr>) = symbol_view c" "symbol_view (c\<lparr>ch_reward_funds := f\<rparr>) = symbol_view c"
  "symbol_view (c\<lparr>ch_gpo := p\<rparr>) = symbol_view c" "symbol_view (c\<lparr>ch_witness_votes := y\<rparr>) = symbol_view c"
  "symbol_view (c\<lparr>ch_witnesses := z\<rparr>) = symbol_view c" "symbol_view (push_virtual_operation vop c) = symbol_view c"
  by (simp_all add: symbol_view_def fun_eq_iff push_virtual_operation_def)

lemma table_types [simp]:
  "type_view (c\<lparr>ch_escrows := e\<rparr>) = type_view c" "type_view (c\<lparr>ch_savings := s\<rparr>) = type_view c"
  "type_view (c\<lparr>ch_converts := v\<rparr>) = type_view c" "type_view (c\<lparr>ch_orders := ord\<rparr>) = type_view c"
  "type_view (c\<lparr>ch_declines := d\<rparr>) = type_view c"
  "type_view (c\<lparr>ch_delegations := g\<rparr>) = type_view c" "type_view (c\<lparr>ch_expirations := x\<rparr>) = type_view c"
  "type_view (c\<lparr>ch_liquidity := l\<rparr>) = type_view c" "type_view (c\<lparr>ch_reward_funds := f\<rparr>) = type_view c"
  "type_view (c\<lparr>ch_witness_votes := y\<rparr>) = type_view c"
  "type_view (c\<lparr>ch_witnesses := z\<rparr>) = type_view c" "type_view (push_virtual_operation vop c) = type_view c"
  by (simp_all add: type_view_def)

definition keeps_symbols :: "(account_object \<Rightarrow> account_object res) \<Rightarrow> bool" where
  "keeps_symbols f \<longleftrightarrow> (\<forall>a a'. f a = Inr a' \<longrightarrow> asset_symbols a' = asset_symbols a)"

lemma modify_account_symbols [symbols_kept]:
  "modify_account i f c = Inr c' \<Longrightarrow> keeps_symbols f \<Longrightarrow> type_view c' = type_view c"
  using symbols.modify_rel [THEN rel_symbol_view, of i f c c'] by (auto simp: type_view_def keeps_symbols_def modify_account_def)

lemma gpo_types [simp]:
  "symbol (g_total_vesting_shares p) = symbol (g_total_vesting_shares (ch_gpo c)) \<Longrightarrow> rest_view (c\<lparr>ch_gpo := p\<rparr>) = rest_view c"
  "symbol (g_total_vesting_shares p) = symbol (g_total_vesting_shares (ch_gpo c)) \<Longrightarrow> type_view (c\<lparr>ch_gpo := p\<rparr>) = type_view c"
  by (simp_all add: type_view_def rest_view_def)

lemma assign_symbol:
  "asset_plus_assign L a b = Inr x \<Longrightarrow> symbol x = symbol a" "asset_minus_assign L a b = Inr x \<Longrightarrow> symbol x = symbol a"
  by (auto simp: asset_assign_defs)

lemmas total_kept = modify_gpo_def assign_symbol

lemma issue_interest_rest: "issue_interest L n interest paid c = Inr c' \<Longrightarrow> rest_view c' = rest_view c"
  by (auto simp: issue_interest_def modify_gpo_def rest_view_def push_virtual_operation_def Let_def split: if_splits)

lemma accrue_rest:
  "accrue_sbd L a c = Inr (a', c') \<Longrightarrow> rest_view c' = rest_view c"
  "accrue_savings_sbd L a c = Inr (a', c') \<Longrightarrow> rest_view c' = rest_view c"
  by (auto simp: accrue_sbd_def accrue_savings_sbd_def Let_def issue_interest_rest split: if_splits)

lemma modify_account_rest: "modify_account i f c = Inr c' \<Longrightarrow> rest_view c' = rest_view c"
  by (auto simp: modify_account_def)

lemma balance_rest:
  "adjust_balance L i x c = Inr c' \<Longrightarrow> rest_view c' = rest_view c"
  "adjust_savings_balance L i x c = Inr c' \<Longrightarrow> rest_view c' = rest_view c"
  "adjust_reward_balance L i x c = Inr c' \<Longrightarrow> rest_view c' = rest_view c"
  "adjust_supply L x b c = Inr c' \<Longrightarrow> rest_view c' = rest_view c"
  by (auto simp: adjust_balance_def adjust_savings_balance_def adjust_reward_balance_def adjust_supply_def Let_def
      modify_account_rest accrue_rest split: if_splits)
    (auto simp: modify_gpo_def rest_view_def asset_assign_defs split: if_splits)

lemma adjust_witness_vote_rest: "adjust_witness_vote L i delta c = Inr c' \<Longrightarrow> rest_view c' = rest_view c"
  by (auto simp: adjust_witness_vote_def modify_witness_def Let_def)

lemma adjust_witness_votes_rest: "adjust_witness_votes L i delta c = Inr c' \<Longrightarrow> rest_view c' = rest_view c"
  unfolding adjust_witness_votes_def by (erule fold_res_invariant) (auto simp: adjust_witness_vote_rest)

lemma adjust_proxied_witness_votes_rest:
  "adjust_proxied_witness_votes L i delta depth c = Inr c' \<Longrightarrow> rest_view c' = rest_view c"
proof (induction L i delta depth c arbitrary: c' rule: adjust_proxied_witness_votes.induct)
  case (1 L i delta depth c)
  note step = 1(2) [unfolded adjust_proxied_witness_votes.simps [of L i delta depth c]]
  then obtain a where a: "account i c = Inr a" by auto
  show ?case
  proof (cases "a_proxy a \<noteq> STEEMIT_PROXY_TO_SELF_ACCOUNT \<and> \<not> STEEMIT_MAX_PROXY_RECURSION_DEPTH \<le> depth")
    case True
    then obtain p c1 where p: "modify_account p (add_proxied_vote L depth delta) c = Inr c1"
      "adjust_proxied_witness_votes L p delta (depth + 1) c1 = Inr c'"
      using step a by auto
    with 1(1) [OF _ _ p(2), of a] True modify_account_rest [OF p(1)] show ?thesis by simp
  qed (use step a in \<open>auto split: if_splits dest: adjust_witness_votes_rest\<close>)
qed

lemma creation_rest:
  "take_balance L i x c = Inr c' \<Longrightarrow> rest_view c' = rest_view c"
  "pay_fee L i x c = Inr c' \<Longrightarrow> rest_view c' = rest_view c"
  "create_sbd L i x r c = Inr (u, c') \<Longrightarrow> rest_view c' = rest_view c"
  "create_vesting L i x r c = Inr (v, c') \<Longrightarrow> rest_view c' = rest_view c"
proof -
  show "take_balance L i x c = Inr c' \<Longrightarrow> rest_view c' = rest_view c" "pay_fee L i x c = Inr c' \<Longrightarrow> rest_view c' = rest_view c"
    "create_sbd L i x r c = Inr (u, c') \<Longrightarrow> rest_view c' = rest_view c"
    by (auto simp: take_balance_def pay_fee_def create_sbd_def Let_def balance_rest split: if_splits)
  show "create_vesting L i x r c = Inr (v, c') \<Longrightarrow> rest_view c' = rest_view c"
    by (auto simp: create_vesting_def total_kept modify_account_rest adjust_proxied_witness_votes_rest split: if_splits)
qed

lemma symbols_and_rest: "accounts_rel (\<lambda>a b. asset_symbols b = asset_symbols a) c c' \<Longrightarrow> rest_view c' = rest_view c \<Longrightarrow> type_view c' = type_view c"
  by (simp add: type_view_def rel_symbol_view)

lemma balance_symbols_kept [symbols_kept]:
  "adjust_balance L i x c = Inr c' \<Longrightarrow> type_view c' = type_view c"
  "adjust_savings_balance L i x c = Inr c' \<Longrightarrow> type_view c' = type_view c"
  "adjust_reward_balance L i x c = Inr c' \<Longrightarrow> type_view c' = type_view c"
  "adjust_supply L x b c = Inr c' \<Longrightarrow> type_view c' = type_view c"
  "take_balance L i x c = Inr c' \<Longrightarrow> type_view c' = type_view c"
  "pay_fee L i x c = Inr c' \<Longrightarrow> type_view c' = type_view c"
  "create_sbd L i x r c = Inr (u, c') \<Longrightarrow> type_view c' = type_view c"
  "create_vesting L i x r c = Inr (v, c') \<Longrightarrow> type_view c' = type_view c"
  "adjust_proxied_witness_votes L i delta depth c = Inr c' \<Longrightarrow> type_view c' = type_view c"
  "adjust_witness_vote L i delta c = Inr c' \<Longrightarrow> type_view c' = type_view c"
  "adjust_witness_votes L i delta c = Inr c' \<Longrightarrow> type_view c' = type_view c"
  by (blast intro: symbols_and_rest balance_rest creation_rest adjust_proxied_witness_votes_rest adjust_witness_vote_rest adjust_witness_votes_rest
      symbols.adjust_balance_rel symbols.adjust_savings_balance_rel symbols.adjust_reward_balance_rel symbols.adjust_supply_rel
      symbols.take_balance_rel symbols.pay_fee_rel symbols.create_sbd_rel symbols.create_vesting_rel
      symbols.adjust_proxied_witness_votes_rel symbols.adjust_witness_vote_rel symbols.adjust_witness_votes_rel)+

lemma table_changes_symbols [symbols_kept]:
  "modify_escrow i e c = Inr c' \<Longrightarrow> type_view c' = type_view c"
  "modify_order i h c = Inr c' \<Longrightarrow> type_view c' = type_view c"
  "modify_delegation i d c = Inr c' \<Longrightarrow> type_view c' = type_view c"
  "modify_reward_fund i r c = Inr c' \<Longrightarrow> type_view c' = type_view c"
  "remove_escrow i c = Inr c' \<Longrightarrow> type_view c' = type_view c"
  "remove_order i c = Inr c' \<Longrightarrow> type_view c' = type_view c"
  "remove_savings i c = Inr c' \<Longrightarrow> type_view c' = type_view c"
  "remove_convert i c = Inr c' \<Longrightarrow> type_view c' = type_view c"
  by (auto simp: modify_escrow_def modify_order_def modify_delegation_def modify_reward_fund_def remove_escrow_def
      remove_order_def remove_savings_def remove_convert_def)

lemmas keeping_defs = keeps_symbols_def symbol_defs asset_assign_defs


section \<open>Evaluators\<close>

lemma transfer_symbols [symbols_kept]: "apply_transfer L op c = Inr c' \<Longrightarrow> type_view c' = type_view c"
  by (auto simp: apply_transfer_def symbols_kept keeping_defs split: if_splits)

lemma escrow_symbols [symbols_kept]:
  "apply_escrow_transfer L x c = Inr c' \<Longrightarrow> type_view c' = type_view c"
  "refund_escrow L f i c = Inr c' \<Longrightarrow> type_view c' = type_view c"
  "ratify b r p m msg i c = Inr c' \<Longrightarrow> type_view c' = type_view c"
  "pay_agent L n i c = Inr c' \<Longrightarrow> type_view c' = type_view c"
  "apply_escrow_dispute z c = Inr c' \<Longrightarrow> type_view c' = type_view c"
  "release_funds L f st sb i c = Inr c' \<Longrightarrow> type_view c' = type_view c"
  by (auto simp: apply_escrow_transfer_def refund_escrow_def ratify_def pay_agent_def apply_escrow_dispute_def
      release_funds_def symbols_kept split: if_splits prod.splits)

lemma escrow_operations_symbols [symbols_kept]:
  "apply_escrow_approve L x c = Inr c' \<Longrightarrow> type_view c' = type_view c"
  "apply_escrow_release L y c = Inr c' \<Longrightarrow> type_view c' = type_view c"
  by (auto simp: apply_escrow_approve_def apply_escrow_release_def Let_def symbols_kept split: if_splits)

lemma withdrawal_symbols [symbols_kept]:
  "apply_withdraw_vesting L w c = Inr c' \<Longrightarrow> type_view c' = type_view c"
  "apply_set_withdraw_vesting_route r c = Inr c' \<Longrightarrow> symbol_view c' = symbol_view c"
proof -
  show "apply_withdraw_vesting L w c = Inr c' \<Longrightarrow> type_view c' = type_view c"
    unfolding apply_withdraw_vesting_def Let_def
    by (auto simp: keeping_defs split: if_split_asm elim!: modify_account_symbols)
  have "modify_account i f d = Inr e \<Longrightarrow> keeps_symbols f \<Longrightarrow> symbol_view e = symbol_view d" for i f d e
    using modify_account_symbols [of i f d e] by (simp add: type_view_def)
  then show "apply_set_withdraw_vesting_route r c = Inr c' \<Longrightarrow> symbol_view c' = symbol_view c"
    unfolding apply_set_withdraw_vesting_route_def
    by (auto simp: keeping_defs symbols_kept split: if_split_asm option.split_asm)
qed

lemma convert_symbols [symbols_kept]:
  "apply_convert L y c = Inr c' \<Longrightarrow> type_view c' = type_view c"
  "apply_decline_voting_rights L z c = Inr c' \<Longrightarrow> type_view c' = type_view c"
  "apply_feed_publish p c = Inr c' \<Longrightarrow> type_view c' = type_view c"
  by (auto simp: apply_convert_def apply_decline_voting_rights_def apply_feed_publish_def modify_witness_def Let_def symbols_kept
      split: if_splits option.splits)

lemma savings_symbols [symbols_kept]:
  "apply_transfer_to_savings L x c = Inr c' \<Longrightarrow> type_view c' = type_view c"
  "apply_transfer_from_savings L y c = Inr c' \<Longrightarrow> type_view c' = type_view c"
  "apply_cancel_transfer_from_savings L z c = Inr c' \<Longrightarrow> type_view c' = type_view c"
  by (auto simp: apply_transfer_to_savings_def apply_transfer_from_savings_def apply_cancel_transfer_from_savings_def
      symbols_kept keeping_defs)

lemma keeps_symbols_vesting [simp]:
  "keeps_symbols (add_delegated L x)" "keeps_symbols (add_received L x)" "keeps_symbols (sub_received L x)"
  "keeps_symbols (add_vests L v)" "keeps_symbols (add_proxied_vote L d v)"
  by (auto simp: keeping_defs delegation_defs add_vests_def add_proxied_vote_def)

lemma keeps_symbols_settle [simp]: "keeps_symbols (settle_withdrawal L v x)"
proof -
  have "asset_symbols a' = asset_symbols a" if s: "settle_withdrawal L v x a = Inr a'" for a a'
  proof -
    obtain vests b w where 1: "safe_sub L (amount (a_vesting_shares a)) v = Inr vests"
      "asset_plus_assign L (a_balance a) x = Inr b" "safe_add L (a_withdrawn a) v = Inr w"
      using s unfolding settle_withdrawal_def rbind_eq_Inr by blast
    have "symbol b = symbol (a_balance a)" using 1(2) by (auto simp: asset_assign_defs)
    with s show ?thesis unfolding settle_withdrawal_def 1 rbind_simps Let_def by (auto simp: symbol_defs split: if_split_asm)
  qed
  then show ?thesis by (simp add: keeps_symbols_def)
qed

lemma keeps_symbols_row [simp]: "keeps_symbols (add_proxied_votes L d vs)"
proof -
  have "asset_symbols a' = asset_symbols a" if "add_proxied_votes L d vs a = Inr a'" for a a'
    using that unfolding add_proxied_votes_def
    by (rule fold_res_invariant [where P = "\<lambda>b. asset_symbols b = asset_symbols a"])
      (use keeps_symbols_vesting(5) in \<open>auto simp: keeps_symbols_def\<close>)
  then show ?thesis by (simp add: keeps_symbols_def)
qed

lemma vesting_symbols_kept [symbols_kept]:
  "apply_transfer_to_vesting L x c = Inr c' \<Longrightarrow> type_view c' = type_view c"
  "update_delegation L op i j d y z c = Inr c' \<Longrightarrow> type_view c' = type_view c"
  by (auto simp: apply_transfer_to_vesting_def update_delegation_def new_delegation_def increase_delegation_def
      decrease_delegation_def symbols_kept split: option.splits if_splits)

lemma delegate_vesting_shares_symbols [symbols_kept]:
  "apply_delegate_vesting_shares L op c = Inr c' \<Longrightarrow> type_view c' = type_view c"
  by (auto simp: apply_delegate_vesting_shares_def Let_def symbols_kept)

lemma claim_reward_balance_symbols [symbols_kept]:
  "apply_claim_reward_balance L op c = Inr c' \<Longrightarrow> type_view c' = type_view c"
proof -
  have "keeps_symbols (\<lambda>a.
       rbind (asset_plus_assign L (a_vesting_shares a) (cl_reward_vests op)) (\<lambda>v.
       rbind (asset_minus_assign L (a_reward_vesting_balance a) (cl_reward_vests op)) (\<lambda>b.
       rbind (asset_minus_assign L (a_reward_vesting_steem a) moved) (\<lambda>s.
       Inr (a\<lparr>a_vesting_shares := v, a_reward_vesting_balance := b, a_reward_vesting_steem := s\<rparr>)))))" for moved
    by (auto simp: keeping_defs)
  then show "apply_claim_reward_balance L op c = Inr c' \<Longrightarrow> type_view c' = type_view c"
    by (auto simp: apply_claim_reward_balance_def symbols_kept total_kept)
qed

section \<open>The market\<close>

lemma order_symbols [symbols_kept]:
  "cancel_order L i c = Inr c' \<Longrightarrow> type_view c' = type_view c"
  "fill_order L i x y c = Inr (b, c') \<Longrightarrow> type_view c' = type_view c"
  "reward_maker L nw od v w c = Inr c' \<Longrightarrow> type_view c' = type_view c"
proof -
  show cancel: "cancel_order L i c = Inr c' \<Longrightarrow> type_view c' = type_view c" for i c c'
    by (auto simp: cancel_order_def symbols_kept)
  show "fill_order L i x y c = Inr (b, c') \<Longrightarrow> type_view c' = type_view c"
    by (auto simp: fill_order_def symbols_kept cancel split: if_splits)
  show "reward_maker L nw od v w c = Inr c' \<Longrightarrow> type_view c' = type_view c"
    by (auto simp: reward_maker_def adjust_liquidity_reward_def Let_def split: if_splits option.splits)
qed

lemma match_symbols [symbols_kept]: "match L new old p c = Inr (r, c') \<Longrightarrow> type_view c' = type_view c"
  by (auto simp: match_def Let_def symbols_kept)

lemma match_all_symbols [symbols_kept]: "match_all L new olds c = Inr c' \<Longrightarrow> type_view c' = type_view c"
proof (induction olds arbitrary: c)
  case (Cons old olds)
  then obtain p r c1 where "match L new old p c = Inr (r, c1)" "c' = c1 \<or> match_all L new olds c1 = Inr c'"
    by (auto split: if_splits)
  then show ?case using Cons.IH match_symbols by metis
qed simp

lemma market_symbols [symbols_kept]:
  "place_order L owner x pr obj fk c = Inr c' \<Longrightarrow> type_view c' = type_view c"
  "apply_limit_order_create L y c = Inr c' \<Longrightarrow> type_view c' = type_view c"
  "apply_limit_order_create2 L z c = Inr c' \<Longrightarrow> type_view c' = type_view c"
  "apply_limit_order_cancel L w c = Inr c' \<Longrightarrow> type_view c' = type_view c"
proof -
  show place: "place_order L owner x pr obj fk c = Inr c' \<Longrightarrow> type_view c' = type_view c" for owner x pr obj fk c c'
    by (auto simp: place_order_def apply_order_def Let_def symbols_kept)
  show "apply_limit_order_create L y c = Inr c' \<Longrightarrow> type_view c' = type_view c"
    "apply_limit_order_create2 L z c = Inr c' \<Longrightarrow> type_view c' = type_view c"
    "apply_limit_order_cancel L w c = Inr c' \<Longrightarrow> type_view c' = type_view c"
    by (auto simp: apply_limit_order_create_def apply_limit_order_create2_def apply_limit_order_cancel_def place symbols_kept)
qed


section \<open>Votes\<close>

lemma row_symbols [symbols_kept]:
  "adjust_proxied_witness_votes_row L i delta depth c = Inr c' \<Longrightarrow> type_view c' = type_view c"
proof (induction L i delta depth c arbitrary: c' rule: adjust_proxied_witness_votes_row.induct)
  case (1 L i delta depth c)
  note step = 1(2) [unfolded adjust_proxied_witness_votes_row.simps [of L i delta depth c]]
  then obtain a where a: "account i c = Inr a" by auto
  show ?case
  proof (cases "a_proxy a \<noteq> STEEMIT_PROXY_TO_SELF_ACCOUNT \<and> \<not> STEEMIT_MAX_PROXY_RECURSION_DEPTH \<le> depth")
    case True
    then obtain p c1 where p: "get_account (a_proxy a) c = Inr p" "modify_account p (add_proxied_votes L depth delta) c = Inr c1"
      "adjust_proxied_witness_votes_row L p delta (depth + 1) c1 = Inr c'"
      using step a by auto
    from 1(1) [OF a _ _ p(1,2,3)] True p(2) show ?thesis by (simp add: symbols_kept)
  next
    case False
    then show ?thesis using step a by (auto simp: symbols_kept split: if_splits)
  qed
qed

lemma clear_witness_votes_symbols [symbols_kept]:
  assumes "clear_witness_votes i c = Inr c'"
  shows "type_view c' = type_view c"
proof -
  have "type_view d = type_view c" if "fold_res remove_witness_vote (votes_of i c) c = Inr d" for d
    using that by (rule fold_res_invariant) (auto simp: remove_witness_vote_def)
  then show ?thesis using assms by (auto simp: clear_witness_votes_def symbols_kept keeping_defs split: if_splits)
qed

lemma vote_symbols [symbols_kept]:
  "apply_account_witness_vote L x c = Inr c' \<Longrightarrow> type_view c' = type_view c"
  "apply_account_witness_proxy L y c = Inr c' \<Longrightarrow> type_view c' = type_view c"
  "decline_votes L r c = Inr c' \<Longrightarrow> type_view c' = type_view c"
  by (auto simp: apply_account_witness_vote_def apply_account_witness_proxy_def decline_votes_def remove_witness_vote_def
      Let_def symbols_kept keeping_defs split: if_splits option.splits)

section \<open>Block processing\<close>

lemma fill_symbols:
  "fill_savings L i c = Inr c' \<Longrightarrow> type_view c' = type_view c"
  "expire_escrow L i c = Inr c' \<Longrightarrow> type_view c' = type_view c"
  "return_delegation L i c = Inr c' \<Longrightarrow> type_view c' = type_view c"
proof -
  have "keeps_symbols (\<lambda>a. rbind (asset_minus_assign L (a_delegated_vesting_shares a) x) (\<lambda>s. Inr (a\<lparr>a_delegated_vesting_shares := s\<rparr>)))"
    "keeps_symbols (\<lambda>a. Inr (a\<lparr>a_savings_withdraw_requests := a_savings_withdraw_requests a - 1\<rparr>))" for x
    by (auto simp: keeping_defs)
  then show "fill_savings L i c = Inr c' \<Longrightarrow> type_view c' = type_view c"
    "expire_escrow L i c = Inr c' \<Longrightarrow> type_view c' = type_view c"
    "return_delegation L i c = Inr c' \<Longrightarrow> type_view c' = type_view c"
    by (auto simp: fill_savings_def expire_escrow_def return_delegation_def Let_def symbols_kept)
qed

lemma fill_convert_symbols: "fill_convert L i s = Inr s' \<Longrightarrow> type_view (fst s') = type_view (fst s)"
  by (auto simp: fill_convert_def symbols_kept split: prod.splits)

lemma loop_symbols:
  "process_savings_withdraws L c = Inr c' \<Longrightarrow> type_view c' = type_view c"
  "expire_escrow_ratification L c = Inr c' \<Longrightarrow> type_view c' = type_view c"
  "clear_expired_delegations L c = Inr c' \<Longrightarrow> type_view c' = type_view c"
  "clear_expired_orders L c = Inr c' \<Longrightarrow> type_view c' = type_view c"
  "process_decline_voting_rights L c = Inr c' \<Longrightarrow> type_view c' = type_view c"
proof -
  define P where "P d \<longleftrightarrow> type_view d = type_view c" for d
  have P: "P c" "P c' \<Longrightarrow> type_view c' = type_view c" by (simp_all add: P_def)
  show "process_savings_withdraws L c = Inr c' \<Longrightarrow> type_view c' = type_view c"
    using savings.loop_keeps [of L c c' P] P fill_symbols(1) [of L] by (simp add: P_def)
  show "expire_escrow_ratification L c = Inr c' \<Longrightarrow> type_view c' = type_view c"
    using escrows.loop_keeps [of L c c' P] P fill_symbols(2) [of L] by (simp add: P_def)
  show "clear_expired_delegations L c = Inr c' \<Longrightarrow> type_view c' = type_view c"
    using delegations.loop_keeps [of L c c' P] P fill_symbols(3) [of L] by (simp add: P_def)
  show "clear_expired_orders L c = Inr c' \<Longrightarrow> type_view c' = type_view c"
    using expired.loop_keeps [of L c c' P] P order_symbols(1) [of L] by (simp add: P_def)
  show "process_decline_voting_rights L c = Inr c' \<Longrightarrow> type_view c' = type_view c"
    using declines.loop_keeps [of L c c' P] P vote_symbols(3) [of L] by (simp add: P_def)
qed

lemma process_conversions_symbols:
  assumes "process_conversions L c = Inr c'"
  shows "type_view c' = type_view c"
proof -
  have "type_view d = type_view c" if "fill_converts L (c, x, y) = Inr (d, z)" for d x y z
    using converts.loop_keeps [OF that, of "\<lambda>t. type_view (fst t) = type_view c"] fill_convert_symbols by auto
  then show ?thesis
    using assms unfolding process_conversions_def by (auto simp: total_kept split: if_splits)
qed

lemma pay_reward_funds_symbols [symbols_kept]:
  assumes "pay_reward_funds L reward c = Inr (u, c')"
  shows "type_view c' = type_view c"
proof -
  have "pay_reward_fund L reward i s = Inr s' \<Longrightarrow> type_view (snd s') = type_view (snd s)" for i s s'
    by (auto simp: pay_reward_fund_def symbols_kept split: prod.splits)
  then show ?thesis
    using fold_res_invariant [OF assms [unfolded pay_reward_funds_def], of "\<lambda>s. type_view (snd s) = type_view c"] by simp
qed

lemma funds_symbols:
  "process_funds L c = Inr c' \<Longrightarrow> type_view c' = type_view c"
  "pay_liquidity_reward L c = Inr c' \<Longrightarrow> type_view c' = type_view c"
  "update_virtual_supply L c = Inr c' \<Longrightarrow> type_view c' = type_view c"
proof -
  have add_balance: "keeps_symbols (\<lambda>a. rbind (asset_plus_assign L (a_balance a) x) (\<lambda>b. Inr (a\<lparr>a_balance := b\<rparr>)))" for x
    by (auto simp: keeping_defs)
  have "get_producer_reward L c = Inr (p, d) \<Longrightarrow> type_view d = type_view c" for p d
    unfolding get_producer_reward_def by (auto simp: symbols_kept add_balance split: if_split_asm)
  then have old: "process_funds_old L c = Inr c' \<Longrightarrow> type_view c' = type_view c"
    unfolding process_funds_old_def Let_def by (auto simp: symbols_kept total_kept)
  have fund: "type_view e = type_view d" if "modify_gpo (\<lambda>p.
       rbind (asset_plus_assign L (g_total_vesting_fund_steem p) x) (\<lambda>f.
       rbind (h p) (\<lambda>r.
       rbind (asset_plus_assign L (g_current_supply p) z) (\<lambda>s.
       rbind (asset_plus_assign L (g_virtual_supply p) z) (\<lambda>v.
       Inr (p\<lparr>g_total_vesting_fund_steem := f, g_total_reward_fund_steem := r, g_current_supply := s, g_virtual_supply := v\<rparr>)))))) d = Inr e"
    for h x z d e
    using that by (auto simp: modify_gpo_def)
  have "type_view c' = type_view c" if hf16: "process_funds_hf16 L c = Inr c'"
  proof -
    obtain x cont cr c1 h z c2 a y v d op where
      c1: "(if has_hardfork 17 c then pay_reward_funds L cont c else Inr (cont, c)) = Inr (cr, c1)"
      and c2: "modify_gpo (\<lambda>p.
         rbind (asset_plus_assign L (g_total_vesting_fund_steem p) x) (\<lambda>f.
         rbind (h p) (\<lambda>r.
         rbind (asset_plus_assign L (g_current_supply p) z) (\<lambda>s.
         rbind (asset_plus_assign L (g_virtual_supply p) z) (\<lambda>v.
         Inr (p\<lparr>g_total_vesting_fund_steem := f, g_total_reward_fund_steem := r, g_current_supply := s, g_virtual_supply := v\<rparr>)))))) c1 = Inr c2"
      and d: "create_vesting L a y False c2 = Inr (v, d)" "c' = push_virtual_operation op d"
      using hf16 unfolding process_funds_hf16_def by (auto split: prod.splits)
    have "type_view c1 = type_view c" using c1 by (auto simp: symbols_kept split: if_splits)
    then show ?thesis using fund [OF c2] d by (simp add: symbols_kept)
  qed
  with old show "process_funds L c = Inr c' \<Longrightarrow> type_view c' = type_view c"
    by (auto simp: process_funds_def split: if_splits)
  show "pay_liquidity_reward L c = Inr c' \<Longrightarrow> type_view c' = type_view c"
    by (auto simp: pay_liquidity_reward_def symbols_kept split: if_splits option.splits prod.splits)
  show "update_virtual_supply L c = Inr c' \<Longrightarrow> type_view c' = type_view c"
    unfolding update_virtual_supply_def Let_def modify_gpo_def by (cases "is_null L (median_history c)"; cases "has_hardfork 14 c") auto
qed


section \<open>The null account and vesting withdrawals\<close>

lemma drain_symbols:
  assumes "drain L field adjust i (t, c) = Inr (t', c')"
    and "\<And>m c c'. adjust i m c = Inr c' \<Longrightarrow> type_view c' = type_view c"
  shows "type_view c' = type_view c"
  using assms by (auto simp: drain_def split: if_splits)

lemma drain_balance_symbols:
  "drain L field (adjust_balance L) i (t, c) = Inr (t', c') \<Longrightarrow> type_view c' = type_view c"
  "drain L field (adjust_savings_balance L) i (t, c) = Inr (t', c') \<Longrightarrow> type_view c' = type_view c"
  "drain L field (adjust_reward_balance L) i (t, c) = Inr (t', c') \<Longrightarrow> type_view c' = type_view c"
  by (erule drain_symbols, simp add: symbols_kept)+

lemma drain_vesting_symbols:
  "drain_vesting L i (t, c) = Inr (t', c') \<Longrightarrow> type_view c' = type_view c"
  "drain_reward_vesting L i (t, c) = Inr (t', c') \<Longrightarrow> type_view c' = type_view c"
proof -
  have k: "keeps_symbols (\<lambda>a. Inr (a\<lparr>a_vesting_shares := mk_asset 0 (symbol (a_vesting_shares a))\<rparr>))"
    "keeps_symbols (\<lambda>a. Inr (a\<lparr>a_reward_vesting_steem := mk_asset 0 (symbol (a_reward_vesting_steem a)),
       a_reward_vesting_balance := mk_asset 0 (symbol (a_reward_vesting_balance a))\<rparr>))"
    by (auto simp: keeping_defs)
  show "drain_vesting L i (t, c) = Inr (t', c') \<Longrightarrow> type_view c' = type_view c"
    "drain_reward_vesting L i (t, c) = Inr (t', c') \<Longrightarrow> type_view c' = type_view c"
    by (auto simp: drain_vesting_def drain_reward_vesting_def symbols_kept total_kept k split: if_splits)
qed

lemma clear_null_account_balance_symbols:
  assumes "clear_null_account_balance L c = Inr c'"
  shows "type_view c' = type_view c"
proof (cases "has_hardfork 14 c")
  case True
  have burn: "burn L x d = Inr d' \<Longrightarrow> type_view d' = type_view d" for x d d'
    by (auto simp: burn_def symbols_kept split: if_splits)
  show ?thesis
    using assms True unfolding clear_null_account_balance_def Let_def
    by (auto simp: drain_balance_symbols drain_vesting_symbols burn)
qed (use assms in \<open>simp add: clear_null_account_balance_def\<close>)

lemma take_vesting_fund_symbols [symbols_kept]: "take_vesting_fund L x v c = Inr c' \<Longrightarrow> type_view c' = type_view c"
  by (auto simp: take_vesting_fund_def total_kept)

lemma push_withdraw_symbols [symbols_kept]: "push_withdraw i j x y c = Inr c' \<Longrightarrow> type_view c' = type_view c"
  by (auto simp: push_withdraw_def)

lemma deposit_symbols:
  "deposit_vests L i w r (d, c) = Inr (d', c') \<Longrightarrow> type_view c' = type_view c"
  "deposit_steem L i w r (d, t, c) = Inr (d', t', c') \<Longrightarrow> type_view c' = type_view c"
proof -
  have "keeps_symbols (\<lambda>a. rbind (asset_plus_assign L (a_balance a) x) (\<lambda>b. Inr (a\<lparr>a_balance := b\<rparr>)))" for x
    by (auto simp: keeping_defs)
  then show "deposit_vests L i w r (d, c) = Inr (d', c') \<Longrightarrow> type_view c' = type_view c"
    "deposit_steem L i w r (d, t, c) = Inr (d', t', c') \<Longrightarrow> type_view c' = type_view c"
    by (auto simp: deposit_vests_def deposit_steem_def symbols_kept split: if_splits)
qed

lemma process_withdrawal_symbols:
  assumes "process_withdrawal L i c = Inr c'"
  shows "type_view c' = type_view c"
  using assms
proof (rule process_withdrawalE)
  fix w dv c1 ds t c2 x c3 c4 c5 m z
  assume f: "fold_res (deposit_vests L i w) (routes_of i c) (0, c) = Inr (dv, c1)"
      "fold_res (deposit_steem L i w) (routes_of i c1) (0, mk_asset 0 STEEM_SYMBOL, c1) = Inr (ds, t, c2)"
  have "type_view c1 = type_view c" "type_view c2 = type_view c1"
    using fold_res_invariant [OF f(1), of "\<lambda>s. type_view (snd s) = type_view c"] deposit_symbols(1)
      fold_res_invariant [OF f(2), of "\<lambda>s. type_view (snd (snd s)) = type_view c1"] deposit_symbols(2) by fastforce+
  moreover assume "modify_account i (settle_withdrawal L w x) c2 = Inr c3" "take_vesting_fund L x z c3 = Inr c4"
    "w \<le> 0 \<and> c5 = c4 \<or> 0 < w \<and> safe_neg L w = Inr m \<and> adjust_proxied_witness_votes L i m 0 c4 = Inr c5"
    "push_withdraw i i (mk_asset w VESTS_SYMBOL) x c5 = Inr c'"
  ultimately show ?thesis by (auto simp: symbols_kept)
qed

lemma withdraw_from_symbols: "withdraw_from L cur c = Inr c' \<Longrightarrow> type_view c' = type_view c"
proof (induction L cur c rule: withdraw_from.induct)
  case (1 L cur c)
  show ?case
  proof (cases cur)
    case (Some i)
    then show ?thesis using 1(1) [OF Some] 1(2) process_withdrawal_symbols
      unfolding withdraw_from.simps [of L cur c] by (auto split: if_split_asm)
  qed (use 1(2) withdraw_from.simps [of L cur c] in simp)
qed


section \<open>Every step\<close>

lemma evaluate_symbols:
  assumes "evaluate L op = Some f" and "f c = Inr c'"
  shows "symbol_view c' = symbol_view c" and "(\<forall>r. op \<noteq> Op_set_withdraw_vesting_route r) \<Longrightarrow> type_view c' = type_view c"
proof -
  show t: "type_view c' = type_view c" if "\<forall>r. op \<noteq> Op_set_withdraw_vesting_route r"
    using assms that by (cases op) (auto simp: evaluate_def symbols_kept apply_report_over_production_def apply_reset_account_def apply_set_reset_account_def)
  show "symbol_view c' = symbol_view c"
  proof (cases "\<exists>r. op = Op_set_withdraw_vesting_route r")
    case True
    then show ?thesis using assms withdrawal_symbols(2) by (auto simp: evaluate_def)
  qed (use t in \<open>simp add: type_view_def\<close>)
qed

lemma same_books_types: "same_books c c' \<Longrightarrow> type_view c' = type_view c"
  by (simp add: same_books_def type_view_def rest_view_def symbol_view_def fun_eq_iff)

lemma commit_all_types: "type_view (commit_all r d) = type_view d"
  by (simp add: type_view_def symbol_view_def rest_view_def fun_eq_iff commit_all_def commit_objects) (simp add: commit_def)

lemma production_symbols:
  "process_header_extensions b c = Inr c' \<Longrightarrow> type_view c' = type_view c"
  "update_global_dynamic_data L K skip b c = Inr c' \<Longrightarrow> type_view c' = type_view c"
  "update_signing_witness L i b c = Inr c' \<Longrightarrow> type_view c' = type_view c"
  "update_witness_schedule L c = Inr c' \<Longrightarrow> type_view c' = type_view c"
  "update_median_feed L c = Inr c' \<Longrightarrow> type_view c' = type_view c"
  "update_last_irreversible_block c = Inr c' \<Longrightarrow> type_view c' = type_view c"
proof -
  show "update_last_irreversible_block c = Inr c' \<Longrightarrow> type_view c' = type_view c"
    by (erule update_last_irreversible_blockE) (auto simp: commit_all_types)
qed (blast intro: same_books_types production_books update_witness_schedule_books)+

lemma ledger_step_types:
  assumes "ledger_step L K c c'"
  shows "type_view c' = type_view c \<or>
    (\<exists>r. validate_set_withdraw_vesting_route r = Inr () \<and> apply_set_withdraw_vesting_route r c = Inr c')"
  using assms
proof cases
  case (operation op f)
  then show ?thesis
    using evaluate_symbols(2) [of L op f c c'] by (cases "\<exists>r. op = Op_set_withdraw_vesting_route r") (auto simp: evaluate_def operation_validate_def)
next
  case withdrawals
  then show ?thesis by (simp add: process_vesting_withdrawals_def withdraw_from_symbols)
next
  case elsewhere
  then show ?thesis by (simp add: same_books_types)
qed (rule disjI1, erule loop_symbols process_conversions_symbols funds_symbols clear_null_account_balance_symbols production_symbols)+

lemma ledger_step_symbols:
  assumes "ledger_step L K c c'"
  shows "symbol_view c' = symbol_view c"
  using ledger_step_types [OF assms] withdrawal_symbols(2) by (auto simp: type_view_def)

interpretation account_types: step_invariant "\<lambda>c. symbol_view c = s" "ledger_step L K" for L K s
  by unfold_locales (auto dest: ledger_step_symbols)

section \<open>Well-typed states\<close>

text \<open>The symbols that the books of a vesting withdrawal rest on, and the limit on a route that the validation of
  \<open>set_withdraw_vesting_route\<close> imposes.\<close>

definition well_typed :: "chain \<Rightarrow> bool" where
  "well_typed c \<longleftrightarrow> symbol (g_total_vesting_shares (ch_gpo c)) = VESTS_SYMBOL \<and>
     (\<forall>i a. account i c = Inr a \<longrightarrow> symbol (a_vesting_shares a) = VESTS_SYMBOL) \<and>
     (\<forall>e \<in> set (gi_indices (ch_routes c)). unat (wr_percent (snd e)) \<le> STEEMIT_100_PERCENT)"

text \<open>The range of \<open>share_type\<close>, a 64-bit integer, for the members that a vesting withdrawal reads.\<close>

definition in_range :: "chain \<Rightarrow> bool" where
  "in_range c \<longleftrightarrow> (\<forall>i a. account i c = Inr a \<longrightarrow> asset_wf (a_vesting_shares a) \<and> asset_wf (a_vesting_withdraw_rate a))"

lemma withdrawals_typed: "well_typed c \<Longrightarrow> in_range c \<Longrightarrow> withdrawals_ok c"
  by (auto simp: well_typed_def in_range_def withdrawals_ok_def withdrawable_def)

lemma fm_put_subset: "set (fm_put k v m) \<subseteq> insert (k, v) (set m)"
  by (induction k v m rule: fm_put.induct) auto

lemma db_change_subset:
  "db_create clash g t = Inr (i, t') \<Longrightarrow> set (gi_indices t') \<subseteq> insert (i, g i) (set (gi_indices t))"
  "db_modify clash i f t = Inr t' \<Longrightarrow> \<exists>v v'. f v = Inr v' \<and> set (gi_indices t') \<subseteq> insert (i, v') (set (gi_indices t))"
  "db_remove i t = Inr t' \<Longrightarrow> set (gi_indices t') \<subseteq> set (gi_indices t)"
proof -
  assume "db_create clash g t = Inr (i, t')"
  then have "emplace clash g t = (Inr i, t')" by (simp add: db_create_def)
  from emplace_cases [OF this] show "set (gi_indices t') \<subseteq> insert (i, g i) (set (gi_indices t))" using fm_put_subset by simp
next
  assume "db_modify clash i f t = Inr t'"
  then obtain v v' where v: "find_obj i t = Some v" "f v = Inr v'" and m: "modify clash i (\<lambda>_. v') t = (Inr (), t')"
    by (auto simp: db_modify_def get_obj_def split: option.splits)
  then have "gi_indices t' = fm_put i v' (gi_indices t)"
    by (auto simp: modify_def find_obj_def idx_modify_def Let_def split: option.splits if_splits prod.splits)
  with v(2) show "\<exists>v v'. f v = Inr v' \<and> set (gi_indices t') \<subseteq> insert (i, v') (set (gi_indices t))" using fm_put_subset by metis
next
  assume "db_remove i t = Inr t'"
  then have "remove_obj i t = (Inr (), t')" by (auto simp: db_remove_def)
  then have "gi_indices t' = fm_erase i (gi_indices t)"
    by (auto simp: remove_obj_def Let_def split: option.splits)
  then show "set (gi_indices t') \<subseteq> set (gi_indices t)" by (auto simp: fm_erase_def)
qed

lemma set_route_rest:
  assumes "apply_set_withdraw_vesting_route op c = Inr c'"
  shows "ch_gpo c' = ch_gpo c \<and>
    (\<forall>e \<in> set (gi_indices (ch_routes c')). e \<in> set (gi_indices (ch_routes c)) \<or> wr_percent (snd e) = sr_percent op)"
proof -
  define Q where "Q d \<longleftrightarrow> ch_gpo d = ch_gpo c \<and>
    (\<forall>e \<in> set (gi_indices (ch_routes d)). e \<in> set (gi_indices (ch_routes c)) \<or> wr_percent (snd e) = sr_percent op)" for d :: chain
  have m: "ch_gpo e = ch_gpo d \<and> ch_routes e = ch_routes d" if "modify_account i f d = Inr e" for i f d e
    using that by (auto simp: modify_account_def)
  have "Q d" if "db_create route_clash (\<lambda>i. \<lparr>wr_id = i, wr_from_account = f, wr_to_account = t, wr_percent = sr_percent op,
        wr_auto_vest = sr_auto_vest op\<rparr>) (ch_routes c) = Inr (i, tbl)" "modify_account f h (c\<lparr>ch_routes := tbl\<rparr>) = Inr d" for f t i tbl h d
    using m [OF that(2)] db_change_subset(1) [OF that(1)] by (auto simp: Q_def)
  moreover have "Q d" if "db_remove i (ch_routes c) = Inr tbl" "modify_account f h (c\<lparr>ch_routes := tbl\<rparr>) = Inr d" for i tbl f h d
    using m [OF that(2)] db_change_subset(3) [OF that(1)] by (auto simp: Q_def)
  moreover have "Q (c\<lparr>ch_routes := tbl\<rparr>)" if "db_modify route_clash i (\<lambda>r. Inr (r\<lparr>wr_from_account := f, wr_to_account := t,
        wr_percent := sr_percent op, wr_auto_vest := sr_auto_vest op\<rparr>)) (ch_routes c) = Inr tbl" for i f t tbl
    using db_change_subset(2) [OF that] by (fastforce simp: Q_def)
  ultimately have "Q c'"
    using assms by (auto simp: apply_set_withdraw_vesting_route_def split: option.splits if_splits)
  then show ?thesis by (simp add: Q_def)
qed

lemma ledger_step_typed:
  assumes "ledger_step L K c c'" and "well_typed c"
  shows "well_typed c'"
proof -
  have accounts: "symbol (a_vesting_shares a) = VESTS_SYMBOL" if a: "account i c' = Inr a" for i a
  proof -
    have "map_option asset_symbols (find_obj i (ch_accounts c')) = map_option asset_symbols (find_obj i (ch_accounts c))"
      using ledger_step_symbols [OF assms(1)] by (simp add: symbol_view_def fun_eq_iff)
    then have "map_option asset_symbols (find_obj i (ch_accounts c)) = Some (asset_symbols a)"
      using a by (simp add: account_def find_obj_get)
    then obtain b where "account i c = Inr b" "asset_symbols b = asset_symbols a" by (auto simp: account_def find_obj_get)
    then show ?thesis using assms(2) by (simp add: well_typed_def symbol_defs)
  qed
  from ledger_step_types [OF assms(1)] show ?thesis
  proof
    assume "type_view c' = type_view c"
    then show ?thesis using accounts assms(2) by (simp add: type_view_def rest_view_def well_typed_def)
  next
    assume "\<exists>r. validate_set_withdraw_vesting_route r = Inr () \<and> apply_set_withdraw_vesting_route r c = Inr c'"
    then obtain r where "unat (sr_percent r) \<le> STEEMIT_100_PERCENT" "apply_set_withdraw_vesting_route r c = Inr c'"
      by (auto simp: validate_set_withdraw_vesting_route_def run_checks_ok)
    then show ?thesis using set_route_rest accounts assms(2) unfolding well_typed_def by metis
  qed
qed


section \<open>Every step keeps the ledger consistent\<close>

text \<open>What the burning of the null account relies on: in the state where it is burned, its unclaimed vesting STEEM and
  the STEEM that its vesting shares convert to are not negative, and it has no proxy and no votes.\<close>

definition null_sound :: "fc_lib \<Rightarrow> chain \<Rightarrow> chain \<Rightarrow> bool" where
  "null_sound L c c' \<longleftrightarrow> (clear_null_account_balance L c = Inr c' \<longrightarrow> null_convertible L c \<and> null_silent c)"

interpretation ledger: step_invariant "\<lambda>c. safe_laws L \<and> uint128_laws L \<and> consistent c \<and> well_typed c"
  "\<lambda>c c'. ledger_step L K c c' \<and> in_range c \<and> null_sound L c c'" for L K
  by unfold_locales (auto simp: null_sound_def intro: ledger_step_keeps ledger_step_typed withdrawals_typed)

end
