(* ===== verification/Negative_Withdrawal.thy ===== *)
theory Negative_Withdrawal
  imports Withdrawal_Books Operations_Validate
begin

text \<open>
  A withdrawal of a negative number of vesting shares.  \<open>withdraw_vesting_operation::validate\<close> checks only
  the symbol and the evaluator compares the amount with what the account owns, so a negative amount is
  taken.  The weekly payment is then negative, and \<open>process_vesting_withdrawals\<close> throws in every block.
\<close>

lemma cdiv_negative: "v < 0 \<Longrightarrow> cdiv v 13 = - ((- v) div 13)"
  by (simp add: cdiv_def)

text \<open>The evaluator stores the amount and its rate.\<close>

definition start_withdrawal :: "fc_lib \<Rightarrow> time_point_sec \<Rightarrow> int \<Rightarrow> account_object \<Rightarrow> account_object res" where
  "start_withdrawal L now v a =
     rbind (safe_div L v STEEMIT_VESTING_WITHDRAW_INTERVALS) (\<lambda>r.
     let rate = mk_asset (if r = 0 then 1 else r) VESTS_SYMBOL
     in rbind (fc_assert (\<not> asset_eq (a_vesting_withdraw_rate a) rate)
          ''This operation would not change the vesting withdraw rate.'') (\<lambda>_.
        Inr (a\<lparr>a_vesting_withdraw_rate := rate,
               a_next_vesting_withdrawal := time_plus L now (seconds STEEMIT_VESTING_WITHDRAW_INTERVAL_SECONDS),
               a_to_withdraw := v, a_withdrawn := 0\<rparr>)))"

lemma withdraw_vestingE:
  assumes "apply_withdraw_vesting L op c = Inr c'" and "amount (wv_vesting_shares op) \<noteq> 0"
  obtains i a where "get_account (withdraw_vesting_operation.wv_account op) c = Inr i" "account i c = Inr a"
    "0 \<le> amount (a_vesting_shares a)"
    "modify_account i (start_withdrawal L (head_block_time c) (amount (wv_vesting_shares op))) c = Inr c'"
proof -
  obtain i a where "get_account (withdraw_vesting_operation.wv_account op) c = Inr i" "account i c = Inr a"
    "asset_ge (a_vesting_shares a) (mk_asset 0 VESTS_SYMBOL) = Inr True"
    "modify_account i (start_withdrawal L (head_block_time c) (amount (wv_vesting_shares op))) c = Inr c'"
    using assms unfolding apply_withdraw_vesting_def start_withdrawal_def [abs_def] Let_def by auto
  with that show thesis by (auto simp: asset_ge_def asset_less_def)
qed

lemma start_withdrawal_stored:
  assumes "safe_laws L" and "start_withdrawal L now v a = Inr a'" and "v \<le> - 13"
  shows "a_to_withdraw a' = v \<and> a_withdrawn a' = 0 \<and> a_vesting_shares a' = a_vesting_shares a \<and>
    amount (a_vesting_withdraw_rate a') = cdiv v 13"
proof -
  obtain r where r: "safe_div L v STEEMIT_VESTING_WITHDRAW_INTERVALS = Inr r" using assms(2) by (auto simp: start_withdrawal_def)
  have "checked (safe_div L v 13) (cdiv v 13)" using assms(1) by (simp add: safe_laws_def)
  with r have "r = cdiv v 13" by (auto simp: checked_def STEEMIT_VESTING_WITHDRAW_INTERVALS_def split: if_splits)
  moreover have "cdiv v 13 \<noteq> 0" using assms(3) by (simp add: cdiv_negative)
  ultimately show ?thesis using assms(2) r by (auto simp: start_withdrawal_def Let_def)
qed

lemma cmod_in_range:
  assumes "v \<le> - 13" and "in_i64 v"
  shows "in_i64 (cmod v (cdiv v 13))"
proof -
  define q where "q = cdiv v 13"
  have q: "v < q" "q < 0" using assms(1) by (auto simp: q_def cdiv_negative)
  then have d: "cdiv v q = v div q" using assms(1) by (simp add: cdiv_def)
  have "cmod v q = v mod q" unfolding cmod_def d by (simp add: minus_mult_div_eq_mod)
  moreover have "v < v mod q" "v mod q \<le> 0" using q neg_mod_bound [OF q(2), of v] neg_mod_sign [OF q(2), of v] by linarith+
  ultimately show ?thesis using assms(2) unfolding q_def [symmetric] in_i64_def by linarith
qed

text \<open>The first payment would be the remainder of the amount by the rate.\<close>

lemma negative_withdrawal_amount:
  assumes "safe_laws L" and "a_to_withdraw a = v" and "a_withdrawn a = 0" and "0 \<le> amount (a_vesting_shares a)"
    and "amount (a_vesting_withdraw_rate a) = cdiv v 13" and "v \<le> - 13" and "in_i64 v" and "cmod v (cdiv v 13) < 0"
  shows "withdrawal_amount L a = Inr (cmod v (cdiv v 13))"
proof -
  define q where "q = cdiv v 13"
  have q: "v < q" "q < 0" "v \<le> q" using assms(6) by (auto simp: q_def cdiv_negative)
  have d: "cdiv v q = (- v) div (- q)" using q assms(6) by (simp add: cdiv_def)
  have "0 \<le> (- v) div (- q)" using q by (intro pos_imp_zdiv_nonneg_iff [THEN iffD2]) auto
  moreover have "q \<noteq> - 1" using assms(8) [folded q_def] d by (auto simp: cmod_def)
  then have "(- v) div (- q) < - v" using q by (intro int_div_less_self) auto
  ultimately have "in_i64 (cdiv v q)" using assms(7) d by (auto simp: in_i64_def)
  then have c: "checked (safe_mod L v q) (cmod v q)" using assms(1) q unfolding safe_laws_def by (metis less_irrefl)
  have "in_i64 (cmod v q)" unfolding q_def using assms(6,7) by (rule cmod_in_range)
  with c have "safe_mod L v q = Inr (cmod v q)" by (simp add: checked_def)
  moreover have "safe_sub L v 0 = Inr v" using safe_sub_iff [OF assms(1)] assms(7) by simp
  ultimately show ?thesis using assms q by (simp add: withdrawal_amount_def q_def [symmetric])
qed


text \<open>C21: A withdrawal of a negative amount stops the chain.  The operation validates and the evaluator
  accepts it.  When the account has no routes, the remainder of the amount by the rate is not zero, and the
  account is the first that is due, \<open>process_vesting_withdrawals\<close> throws, in whichever state still has the
  account as the evaluator left it.\<close>

theorem negative_withdrawal_throws:
  assumes "safe_laws L" and "operation_validate L K (Op_withdraw_vesting op) = Inr ()"
    and "apply_withdraw_vesting L op c = Inr c'" and "get_account (withdraw_vesting_operation.wv_account op) c = Inr i"
    and "amount (wv_vesting_shares op) = v" and "v \<le> - 13" and "in_i64 v" and "cmod v (cdiv v 13) < 0"
    and "account i d = account i c'" and "routes_of i d = []" and "first_withdrawal d = Some i" and "withdrawal_time d i \<le> head_block_time d"
  shows "process_vesting_withdrawals L d =
    Inl (assert_exception ''Deposited more vests than were supposed to be withdrawn'')"
proof -
  have "amount (wv_vesting_shares op) \<noteq> 0" using assms(5,6) by simp
  with assms(3) show ?thesis
  proof (rule withdraw_vestingE)
    fix j a assume j: "get_account (withdraw_vesting_operation.wv_account op) c = Inr j" "account j c = Inr a" "0 \<le> amount (a_vesting_shares a)"
      and m: "modify_account j (start_withdrawal L (head_block_time c) (amount (wv_vesting_shares op))) c = Inr c'"
    have "j = i" using j(1) assms(4) by simp
    then obtain a' where "start_withdrawal L (head_block_time c) v a = Inr a'" "account i c' = Inr a'"
      using m j(2) assms(5) unfolding modify_account_def
      by (auto simp: account_def find_obj_get elim!: db_modify_find)
    with assms(9) have a': "start_withdrawal L (head_block_time c) v a = Inr a'" "account i d = Inr a'" by simp_all
    note stored = start_withdrawal_stored [OF assms(1) a'(1) assms(6)]
    have w: "withdrawal_amount L a' = Inr (cmod v (cdiv v 13))"
      using stored j(3) assms(6-8) by (intro negative_withdrawal_amount [OF assms(1)]) auto
    have s: "safe_sub L (cmod v (cdiv v 13)) 0 = Inr (cmod v (cdiv v 13))"
      using safe_sub_iff [OF assms(1)] cmod_in_range [OF assms(6,7)] by simp
    have "process_withdrawal L i d = Inl (assert_exception ''Deposited more vests than were supposed to be withdrawn'')"
      using assms(8,10) by (simp add: process_withdrawal_def a' w s fc_assert_def)
    moreover have "a_next_vesting_withdrawal a' \<le> head_block_time d"
      using assms(12) a'(2) by (simp add: withdrawal_time_def account_def find_obj_get)
    ultimately show ?thesis
      using withdraw_from.simps [of L "Some i" d] by (simp add: process_vesting_withdrawals_def assms(11) a'(2))
  qed
qed


text \<open>Alice asks for -131 vesting shares; a week later the payment of -1 share stops the block.\<close>

definition negative_request :: withdraw_vesting_operation where
  "negative_request = withdraw_vesting_operation.make ''alice'' (mk_asset (- 131) VESTS_SYMBOL)"

lemma negative_request_fields:
  "withdraw_vesting_operation.wv_account negative_request = ''alice''" "wv_vesting_shares negative_request = mk_asset (- 131) VESTS_SYMBOL"
  by (simp_all add: negative_request_def withdraw_vesting_operation.defs)

lemma negative_request_valid: "operation_validate fc_ref crypto_ref (Op_withdraw_vesting negative_request) = Inr ()"
  by (simp add: operation_validate_def validate_withdraw_vesting_def negative_request_fields run_checks_ok is_asset_type_def)

lemma demo_fee: "asset_times_price fc_ref (mk_asset 1 STEEM_SYMBOL) (get_vesting_share_price demo_gpo) = Inr (mk_asset 3000 VESTS_SYMBOL)"
  using sint_of_quotient [of 3000]
  by (simp add: get_vesting_share_price_def demo_gpo_def times_price_quote exchange_iff price_validate_ok)

lemma demo_division: "safe_div fc_ref (- 131) 13 = Inr (- 10)"
  by (simp add: fc_ref_def cdiv_def checked_op_def in_i64_def)

definition withdrawing_alice :: account_object where
  "withdrawing_alice = (demo_account 0 ''alice'' 1000 500 3000000)\<lparr>a_vesting_withdraw_rate := mk_asset (- 10) VESTS_SYMBOL,
     a_next_vesting_withdrawal := 605800, a_to_withdraw := - 131\<rparr>"

lemma negative_request_accepted:
  "apply_withdraw_vesting fc_ref negative_request demo_chain =
     Inr (demo_chain\<lparr>ch_accounts := demo_index [withdrawing_alice, demo_account 1 ''bob'' 0 0 0, demo_account 2 ''carol'' 0 0 0]\<rparr>)"
proof -
  have w: "wrap64 30000 = 30000" by (simp add: wrap64_def)
  have t: "time_plus fc_ref 1000 (seconds STEEMIT_VESTING_WITHDRAW_INTERVAL_SECONDS) = 605800"
    by (simp add: fc_ref_def seconds_def STEEMIT_VESTING_WITHDRAW_INTERVAL_SECONDS_def)
  show ?thesis
    using demo_fee demo_division
    by (simp add: apply_withdraw_vesting_def negative_request_fields w t withdrawing_alice_def STEEMIT_VESTING_WITHDRAW_INTERVALS_def demo_eval)
qed


text \<open>The chain a week later.\<close>

definition week_later :: chain where
  "week_later = demo_chain\<lparr>ch_accounts := demo_index [withdrawing_alice, demo_account 1 ''bob'' 0 0 0, demo_account 2 ''carol'' 0 0 0],
     ch_gpo := demo_gpo\<lparr>g_time := 605800\<rparr>\<rparr>"

lemma week_later_due: "first_withdrawal week_later = Some 0" "withdrawal_time week_later 0 = 605800"
proof -
  show "withdrawal_time week_later 0 = 605800"
    by (simp add: withdrawal_time_def week_later_def find_obj_def demo_index_def upt_rec withdrawing_alice_def)
  have "by_next_vesting_withdrawal week_later = [(605800, 0), (time_maximum, 1), (time_maximum, 2)]"
    by (simp add: by_next_vesting_withdrawal_def withdrawal_time_def week_later_def find_obj_def demo_index_def upt_rec
        withdrawing_alice_def demo_account_def time_maximum_def)
  then show "first_withdrawal week_later = Some 0" by (simp add: first_withdrawal_def)
qed

theorem negative_withdrawal_throws_witness:
  "operation_validate fc_ref crypto_ref (Op_withdraw_vesting negative_request) = Inr () \<and>
   \<not> isl (apply_withdraw_vesting fc_ref negative_request demo_chain) \<and>
   process_vesting_withdrawals fc_ref week_later =
     Inl (assert_exception ''Deposited more vests than were supposed to be withdrawn'')"
proof -
  have "process_vesting_withdrawals fc_ref week_later = Inl (assert_exception ''Deposited more vests than were supposed to be withdrawn'')"
  proof (rule negative_withdrawal_throws [OF safe_laws_ref negative_request_valid negative_request_accepted])
    show "get_account (withdraw_vesting_operation.wv_account negative_request) demo_chain = Inr 0"
      by (simp add: negative_request_fields get_account_def get_by_def find_by_def demo_defs upt_rec)
    show "amount (wv_vesting_shares negative_request) = - 131" by (simp add: negative_request_fields)
    show "cmod (- 131) (cdiv (- 131) 13) < 0" by (simp add: cmod_def cdiv_def)
    show "routes_of 0 week_later = []" by (simp add: routes_of_def week_later_def demo_defs)
    show "withdrawal_time week_later 0 \<le> head_block_time week_later"
      unfolding week_later_due by (simp add: head_block_time_def week_later_def)
    show "account 0 week_later = account 0 (demo_chain\<lparr>ch_accounts := demo_index [withdrawing_alice,
        demo_account 1 ''bob'' 0 0 0, demo_account 2 ''carol'' 0 0 0]\<rparr>)"
      by (simp add: account_def week_later_def)
  qed (simp_all add: week_later_due in_i64_def)
  then show ?thesis by (simp add: negative_request_valid negative_request_accepted)
qed

end
