(* ===== verification/Order_Book.thy ===== *)
theory Order_Book
  imports Market
begin

text \<open>
  What \<open>apply_order\<close> leaves of the order book.  The loop fills one order in every round and stops when the
  new order is gone, so afterwards either the new order is filled or no order remains that it could still
  be matched with.
\<close>

section \<open>The loop\<close>

lemma match_result: "match L new old p c = Inr (r, c') \<Longrightarrow> r = 0 \<or> r = 1 \<or> r = 2 \<or> r = 3"
proof -
  have "or (of_bool n) (push_bit 1 (of_bool m)) = (if n then if m then 3 else 1 else if m then 2 else 0 :: nat)" for n m
    by (cases n; cases m; simp)
  then show "match L new old p c = Inr (r, c') \<Longrightarrow> r = 0 \<or> r = 1 \<or> r = 2 \<or> r = 3"
    unfolding match_def Let_def by (auto split: if_split_asm)
qed

lemma match_all_clears:
  assumes "safe_laws L"
  shows "match_all L new olds c = Inr c' \<Longrightarrow> tables_ok c \<Longrightarrow> distinct olds \<Longrightarrow> new \<notin> set olds \<Longrightarrow>
    (find_obj new (ch_orders c') = None \<or> (\<forall>j \<in> set olds. find_obj j (ch_orders c') = None)) \<and>
    (\<forall>j. j \<notin> set olds \<longrightarrow> j \<noteq> new \<longrightarrow> find_obj j (ch_orders c') = find_obj j (ch_orders c))"
proof (induction olds arbitrary: c)
  case (Cons old olds)
  then obtain p r c1 where m: "match L new old p c = Inr (r, c1)"
    and rest: "if and r 1 \<noteq> 0 then c' = c1 else match_all L new olds c1 = Inr c'"
    by (auto split: if_splits)
  have "new \<noteq> old" using Cons.prems by auto
  note o = match_orders [OF m assms Cons.prems(2) this]
  note ok = booked_tables [OF match_booked [OF assms m Cons.prems(2)]]
  show ?case
  proof (cases "and r 1 \<noteq> 0")
    case False
    then have "and r 2 \<noteq> 0" using o match_result [OF m] by auto
    then have "find_obj old (ch_orders c1) = None" using o by blast
    with Cons.IH [OF _ ok] rest False o Cons.prems(3,4) show ?thesis by auto
  qed (use rest o in auto)
qed simp


section \<open>The book after an order\<close>

text \<open>Two orders cross when each offers what the other wants and the limit of the new one admits the
  price of the old one.  The code looks for prices up to \<open>price::max\<close>, which is \<open>STEEMIT_MAX_SHARE_SUPPLY\<close> units of
  the base for one of the quote; an order above it is never matched.\<close>

definition crosses :: "limit_order_object \<Rightarrow> limit_order_object \<Rightarrow> bool" where
  "crosses new old \<longleftrightarrow> (let p = o_sell_price new; q = o_sell_price old in
     symbol (base q) = symbol (quote p) \<and> symbol (quote q) = symbol (base p) \<and>
     amount (base q) \<le> STEEMIT_MAX_SHARE_SUPPLY * amount (quote q) \<and>
     amount (quote p) * amount (quote q) \<le> amount (base q) * amount (base p))"

definition priced_book :: "limit_order_object generic_index \<Rightarrow> bool" where
  "priced_book t \<longleftrightarrow> (\<forall>e \<in> set (gi_indices t). pos_price (o_sell_price (snd e)))"

lemma range_ids_distinct:
  assumes "uint128_laws L" and "fm_ok m" and "set xs \<subseteq> set m"
    and "sorted_wrt (\<lambda>x y. price_greater L (o_sell_price (snd x)) (o_sell_price (snd y)) \<or>
        price_eq L (o_sell_price (snd x)) (o_sell_price (snd y)) \<and> fst x < fst y) xs"
    and "\<forall>e \<in> set m. pos_price (o_sell_price (snd e))"
  shows "distinct (map fst xs)"
  using assms(3,4)
proof (induction xs)
  case (Cons x xs)
  have "fst x \<noteq> fst y" if y: "y \<in> set xs" for y
  proof
    assume f: "fst x = fst y"
    have "(fst x, snd x) \<in> set m" using Cons.prems(1) by simp
    moreover have "(fst y, snd y) \<in> set m" using Cons.prems(1) y by auto
    ultimately have "(fst x, snd x) \<in> set m" "(fst x, snd y) \<in> set m" using f by simp_all
    then have "snd x = snd y" using fm_find_iff [OF assms(2)] by (metis option.inject)
    moreover have "price_greater L (o_sell_price (snd x)) (o_sell_price (snd y))" using Cons.prems(2) y f by auto
    ultimately show False
      by (auto simp: price_greater_def price_le_def price_eq_def)
  qed
  with Cons show ?case by auto
qed simp

text \<open>C7: \<open>apply_order\<close> leaves no order that the new one could still trade with.  It reports the new order as
  filled exactly when the order is gone; if the order stays, every order of the book that crosses it has
  been filled and removed; and an order that does not cross it is untouched.  An order crosses the new one when it
  sells what the new one buys at a price within the new one's limit; a price above \<open>price::max\<close>
  (\<open>STEEMIT_MAX_SHARE_SUPPLY\<close> units for one) does not count, because the code does not look there.  The amounts in
  the prices of all orders are positive 64-bit integers and the new order trades two different symbols: both are
  what the validation of \<open>limit_order_create\<close> and \<open>limit_order_create2\<close> checks.\<close>

theorem apply_order_uncrosses_book:
  assumes "safe_laws L" and "uint128_laws L" and "tables_ok c" and "priced_book (ch_orders c)"
    and "limit_order i c = Inr new" and "symbol (base (o_sell_price new)) \<noteq> symbol (quote (o_sell_price new))"
    and "apply_order L i c = Inr (filled, c')"
  shows "(filled \<longleftrightarrow> find_obj i (ch_orders c') = None) \<and>
    (\<forall>j old. find_obj j (ch_orders c') = Some old \<longrightarrow> j \<noteq> i \<longrightarrow> filled \<or> \<not> crosses new old) \<and>
    (\<forall>j old. find_obj j (ch_orders c) = Some old \<longrightarrow> j \<noteq> i \<longrightarrow> \<not> crosses new old \<longrightarrow> find_obj j (ch_orders c') = Some old)"
proof -
  let ?limit = "price_inv (o_sell_price new)"
  obtain highest where h: "price_max (symbol (base ?limit)) (symbol (quote ?limit)) = Inr highest"
    and m: "match_all L i (map fst (price_range L highest ?limit (by_price L (ch_orders c)))) c = Inr c'"
    and f: "filled \<longleftrightarrow> find_obj i (ch_orders c') = None"
    using assms(5,7) by (auto simp: apply_order_def Let_def)
  define R where "R = price_range L highest ?limit (by_price L (ch_orders c))"
  have ok: "tbl_ok (ch_orders c)" using assms(3) by (simp add: tables_ok_def)
  then have fm: "fm_ok (gi_indices (ch_orders c))" by (simp add: tbl_ok_def)
  have at: "find_obj j (ch_orders c) = Some old \<longleftrightarrow> (j, old) \<in> set (gi_indices (ch_orders c))" for j old
    by (simp add: find_obj_def fm_find_iff [OF fm])
  have new: "(i, new) \<in> set (gi_indices (ch_orders c))" using assms(5) at by (simp add: limit_order_iff)
  have "pos_price ?limit" using new assms(4) by (auto simp: priced_book_def pos_price_def price_inv_def)
  note walk = apply_order_walks_the_book [OF assms(2) ok this h assms(4) [unfolded priced_book_def]]
  have R: "e \<in> set R \<longleftrightarrow> e \<in> set (gi_indices (ch_orders c)) \<and> crosses new (snd e)" for e
    using walk [THEN conjunct2, rule_format, of e] by (simp add: R_def crosses_def Let_def price_inv_def)
  have "distinct (map fst R)"
    using walk assms(4) R by (intro range_ids_distinct [OF assms(2) fm]) (auto simp: R_def priced_book_def)
  moreover have "i \<notin> set (map fst R)"
  proof
    assume "i \<in> set (map fst R)"
    then obtain old where "(i, old) \<in> set (gi_indices (ch_orders c))" "crosses new old" using R by auto
    with new at have "crosses new new" by (metis option.inject)
    with assms(6) show False by (simp add: crosses_def Let_def)
  qed
  ultimately have all: "filled \<or> (\<forall>j \<in> set (map fst R). find_obj j (ch_orders c') = None)"
    and others: "\<And>j. j \<notin> set (map fst R) \<Longrightarrow> j \<noteq> i \<Longrightarrow> find_obj j (ch_orders c') = find_obj j (ch_orders c)"
    using match_all_clears [OF assms(1) m [folded R_def] assms(3)] f by blast+
  have in_R: "j \<in> set (map fst R) \<longleftrightarrow> crosses new old" if "find_obj j (ch_orders c) = Some old" for j old
  proof
    assume "j \<in> set (map fst R)"
    then obtain old' where "(j, old') \<in> set R" by auto
    then have "find_obj j (ch_orders c) = Some old'" "crosses new old'" using R at by auto
    with that show "crosses new old" by simp
  next
    assume "crosses new old"
    then have "(j, old) \<in> set R" using R that at by auto
    then show "j \<in> set (map fst R)" by force
  qed
  show ?thesis
    using f all others in_R by (metis option.distinct(1))
qed


lemma singleton_list: "set xs = {x} \<Longrightarrow> distinct xs \<Longrightarrow> xs = [x]"
  by (cases xs) (auto simp: subset_singleton_iff)

lemma demo_book: "priced_book (ch_orders demo_market)"
  by (simp add: priced_book_def demo_market_def demo_index_def demo_order_def upt_rec pos_price_def STEEMIT_MAX_SHARE_SUPPLY_def)

lemma demo_range:
  "price_range fc_ref (mk_price (mk_asset STEEMIT_MAX_SHARE_SUPPLY SBD_SYMBOL) (mk_asset 1 STEEM_SYMBOL))
     (mk_price (mk_asset 10 SBD_SYMBOL) (mk_asset 10 STEEM_SYMBOL)) (by_price fc_ref (ch_orders demo_market)) =
   [(0, demo_order 0 ''bob'' 1 10 (mk_price (mk_asset 10 SBD_SYMBOL) (mk_asset 10 STEEM_SYMBOL)))]" (is "?R = [?e]")
proof -
  have ok: "tbl_ok (ch_orders demo_market)" using demo_market_tables by (simp add: tables_ok_def)
  let ?p = "mk_price (mk_asset 10 SBD_SYMBOL) (mk_asset 10 STEEM_SYMBOL)"
  have h: "price_max (symbol (base ?p)) (symbol (quote ?p)) = Inr (mk_price (mk_asset STEEMIT_MAX_SHARE_SUPPLY SBD_SYMBOL) (mk_asset 1 STEEM_SYMBOL))"
    by (simp add: price_max_def asset_divide_def)
  have "pos_price ?p" by (simp add: pos_price_def)
  note walk = apply_order_walks_the_book [OF uint128_laws_ref ok this h demo_book [unfolded priced_book_def]]
  have items: "gi_indices (ch_orders demo_market) = [?e,
      (1, demo_order 1 ''alice'' 0x10001 10 (mk_price (mk_asset 10 STEEM_SYMBOL) (mk_asset 10 SBD_SYMBOL))),
      (2, demo_order 2 ''alice'' 1 10 (mk_price (mk_asset 10 STEEM_SYMBOL) (mk_asset 10 SBD_SYMBOL)))]"
    by (simp add: demo_market_def demo_index_def upt_rec)
  have set: "e \<in> set ?R \<longleftrightarrow> e = ?e" for e
    using walk [THEN conjunct2, rule_format, of e] unfolding items by (auto simp: demo_order_def STEEMIT_MAX_SHARE_SUPPLY_def)
  have "set ?R \<subseteq> set (gi_indices (ch_orders demo_market))" using set items by auto
  then have "distinct (map fst ?R)"
    using demo_book by (intro range_ids_distinct [OF uint128_laws_ref ok [unfolded tbl_ok_def] _ walk [THEN conjunct1]])
      (auto simp: priced_book_def)
  then have "distinct ?R" by (simp add: distinct_map)
  with set show ?thesis by (intro singleton_list) auto
qed

text \<open>The order of alice meets the one order of bob; both are filled.\<close>

theorem apply_order_uncrosses_book_witness:
  "\<exists>filled c'. apply_order fc_ref 1 demo_market = Inr (filled, c') \<and> (filled \<longleftrightarrow> find_obj 1 (ch_orders c') = None)"
proof -
  let ?new = "demo_order 1 ''alice'' 0x10001 10 (mk_price (mk_asset 10 STEEM_SYMBOL) (mk_asset 10 SBD_SYMBOL))"
  have new: "limit_order 1 demo_market = Inr ?new" by (simp add: limit_order_def demo_market_def get_obj_def find_obj_def demo_index_def upt_rec)
  have "\<not> isl (match fc_ref 1 0 (mk_price (mk_asset 10 SBD_SYMBOL) (mk_asset 10 STEEM_SYMBOL)) demo_market)"
    by (simp add: market_eval)
  then obtain r d where d: "match fc_ref 1 0 (mk_price (mk_asset 10 SBD_SYMBOL) (mk_asset 10 STEEM_SYMBOL)) demo_market = Inr (r, d)"
    by (auto dest: returns)
  have old: "limit_order 0 demo_market = Inr (demo_order 0 ''bob'' 1 10 (mk_price (mk_asset 10 SBD_SYMBOL) (mk_asset 10 STEEM_SYMBOL)))"
    by (simp add: limit_order_def demo_market_def get_obj_def find_obj_def demo_index_def upt_rec)
  have "apply_order fc_ref 1 demo_market = Inr (find_obj 1 (ch_orders d) = None, d)"
    unfolding apply_order_def new
    by (simp add: Let_def demo_order_def price_inv_def price_max_def asset_divide_def demo_range old d [unfolded One_nat_def])
  then show ?thesis
    using apply_order_uncrosses_book [OF safe_laws_ref uint128_laws_ref demo_market_tables demo_book new] by (auto simp: demo_order_def)
qed

end
