(* ===== verification/Reward_Curve.thy ===== *)
theory Reward_Curve
  imports Chain_Objects
begin

text \<open>
  Rewards from shares: \<open>chain/util/reward.hpp\<close>, \<open>chain/util/reward.cpp\<close> and \<open>chain/util/uint256.hpp\<close>.
  A comment claims a part of a reward fund, the value of a curve at its shares; the curves are computed
  with 128-bit integers and the payout with 256-bit integers.  The square root is an approximation that
  halves the exponent and the mantissa of its argument.
\<close>

section \<open>Definitions\<close>

definition STEEMIT_MIN_PAYOUT_SBD :: asset where
  "STEEMIT_MIN_PAYOUT_SBD = mk_asset STEEMIT_MIN_PAYOUT_SBD_AMOUNT SBD_SYMBOL"

definition get_content_constant_s :: "fc_lib \<Rightarrow> uint128" where
  "get_content_constant_s L = u128_of_int L (int STEEMIT_CONTENT_CONSTANT_HF0)"

definition to256 :: "fc_lib \<Rightarrow> uint128 \<Rightarrow> 256 word" where
  "to256 L t =
     (let v = u256_of_u64 L (hi t);
          v = u256_shl L v 64
      in u256_add L v (u256_of_u64 L (lo t)))"

record comment_reward_context =
  rc_rshares :: int
  rc_reward_weight :: u16
  rc_max_sbd :: asset
  rc_total_reward_shares2 :: uint128
  rc_total_reward_fund_steem :: asset
  rc_current_steem_price :: price
  rc_reward_curve :: curve_id
  rc_content_constant :: uint128

definition find_msb :: "fc_lib \<Rightarrow> uint128 \<Rightarrow> u8" where
  "find_msb L u =
     (let x = if lo u \<noteq> 0 then lo u else 1;
          places = if hi u \<noteq> 0 then 64 else 0;
          x = if hi u \<noteq> 0 then hi u else x
      in of_nat (find_msb_u64 L x + places))"

definition approx_sqrt :: "fc_lib \<Rightarrow> uint128 \<Rightarrow> u64" where
  "approx_sqrt L x =
     (if lo x = 0 \<and> hi x = 0 then 0
      else
        let msb_x = find_msb L x;
            msb_z = drop_bit 1 msb_x;
            msb_x_bit = u128_shl L (u128_of_int L 1) (unat msb_x);
            msb_z_bit = push_bit (unat msb_z) (1 :: u64);
            mantissa_mask = u128_sub L msb_x_bit (u128_of_int L 1);
            mantissa_x = u128_and L x mantissa_mask;
            mantissa_z_hi = if and msb_x 1 \<noteq> 0 then msb_z_bit else 0;
            mantissa_z_lo = lo (u128_shr L mantissa_x (unat msb_x - unat msb_z));
            mantissa_z = drop_bit 1 (or mantissa_z_hi mantissa_z_lo)
        in or msb_z_bit mantissa_z)"

definition evaluate_reward_curve :: "fc_lib \<Rightarrow> uint128 \<Rightarrow> curve_id \<Rightarrow> uint128 \<Rightarrow> uint128 res" where
  "evaluate_reward_curve L rshares curve content_constant =
     (case curve of
        quadratic \<Rightarrow>
          (let rshares_plus_s = u128_add L rshares content_constant
           in Inr (u128_sub L (u128_mul L rshares_plus_s rshares_plus_s) (u128_mul L content_constant content_constant)))
      | quadratic_curation \<Rightarrow>
          (let two_alpha = u128_mul L content_constant (u128_of_int L 2)
           in u128_div L \<lparr>hi = lo rshares, lo = 0\<rparr> (u128_add L two_alpha rshares))
      | linear \<Rightarrow> Inr rshares
      | square_root \<Rightarrow> Inr \<lparr>hi = 0, lo = approx_sqrt L rshares\<rparr>)"

definition is_comment_payout_dust :: "fc_lib \<Rightarrow> price \<Rightarrow> u64 \<Rightarrow> bool res" where
  "is_comment_payout_dust L p steem_payout =
     rbind (to_sbd L p (mk_asset (sint steem_payout) STEEM_SYMBOL)) (\<lambda>x. asset_less x STEEMIT_MIN_PAYOUT_SBD)"

definition get_rshare_reward :: "fc_lib \<Rightarrow> comment_reward_context \<Rightarrow> u64 res" where
  "get_rshare_reward L ctx =
     rbind (fc_assert (rc_rshares ctx > 0) ''ctx.rshares > 0'') (\<lambda>_.
     rbind (fc_assert (u128_less L (u128_of_int L 0) (rc_total_reward_shares2 ctx)) ''ctx.total_reward_shares2 > 0'') (\<lambda>_.
     let rf = u256_of_i64 L (amount (rc_total_reward_fund_steem ctx));
         total_claims = to256 L (rc_total_reward_shares2 ctx)
     in rbind (evaluate_reward_curve L (u128_of_int L (rc_rshares ctx)) (rc_reward_curve ctx) (rc_content_constant ctx)) (\<lambda>v.
        rbind (u256_div L (u256_mul L (to256 L v) (u256_of_u64 L (ucast (rc_reward_weight ctx))))
          (u256_of_u64 L (of_nat STEEMIT_100_PERCENT))) (\<lambda>claim.
        rbind (u256_div L (u256_mul L rf claim) total_claims) (\<lambda>payout_u256.
        rbind (fc_assert (u256_le L payout_u256 (u256_of_u64 L (of_int i64_max))) ''payout_u256 <= max'') (\<lambda>_.
        let payout = u256_to_u64 L payout_u256
        in rbind (is_comment_payout_dust L (rc_current_steem_price ctx) payout) (\<lambda>dust.
           let payout = if dust then 0 else payout
           in rbind (to_steem L (rc_current_steem_price ctx) (rc_max_sbd ctx)) (\<lambda>max_steem.
              Inr (min payout (of_int (amount max_steem)))))))))))"

section \<open>The square root\<close>

text \<open>The top bit and the mantissa of a number determine the result.\<close>

lemma find_msb_bounds:
  assumes "find_msb_laws L" and "u128_val x \<noteq> 0"
  shows "2 ^ unat (find_msb L x) \<le> u128_val x \<and> u128_val x < 2 ^ Suc (unat (find_msb L x)) \<and> unat (find_msb L x) < 128"
proof -
  define k where "k = find_msb_u64 L (if hi x \<noteq> 0 then hi x else lo x)"
  have y: "(if hi x \<noteq> 0 then hi x else lo x) \<noteq> 0" using assms(2) by (auto simp: u128_val_def)
  have k: "2 ^ k \<le> unat (if hi x \<noteq> 0 then hi x else lo x)" "unat (if hi x \<noteq> 0 then hi x else lo x) < 2 * 2 ^ k"
    using assms(1) y unfolding find_msb_laws_def k_def by auto
  have "(2 :: nat) ^ k < 2 ^ 64" using le_less_trans [OF k(1) unat_u64_less] by simp
  then have k64: "k < 64" by (rule power_less_imp_less_exp [rotated]) simp
  have f: "unat (find_msb L x) = (if hi x \<noteq> 0 then k + 64 else k)"
    using k64 y by (auto simp: find_msb_def k_def Let_def unat_of_nat simp del: of_nat_add)
  show ?thesis
  proof (cases "hi x = 0")
    case True
    then show ?thesis using f k k64 by (simp add: u128_val_def)
  next
    case False
    have "unat (hi x) * 2 ^ 64 + unat (lo x) < 2 * 2 ^ k * 2 ^ 64"
    proof -
      have "unat (hi x) * 2 ^ 64 + unat (lo x) < (unat (hi x) + 1) * 2 ^ 64" using unat_u64_less [of "lo x"] by simp
      also have "\<dots> \<le> 2 * 2 ^ k * 2 ^ 64" using k(2) False by (intro mult_right_mono) auto
      finally show ?thesis .
    qed
    moreover have "2 ^ k * 2 ^ 64 \<le> unat (hi x) * 2 ^ 64" using k(1) False by (intro mult_right_mono) auto
    ultimately show ?thesis using f k64 False by (simp add: u128_val_def power_add)
  qed
qed

lemma low_bits_mask:
  fixes n :: nat
  assumes "2 ^ m \<le> n" and "n < 2 ^ Suc m"
  shows "and n (2 ^ m - 1) = n - 2 ^ m"
proof -
  have "n mod 2 ^ m = (n - 2 ^ m) mod 2 ^ m" using assms(1) by (rule le_mod_geq)
  also have "\<dots> = n - 2 ^ m" using assms(2) by (intro mod_less) simp
  finally have "take_bit m n = n - 2 ^ m" by (simp add: take_bit_eq_mod)
  then show ?thesis by (simp only: take_bit_eq_mask mask_eq_exp_minus_1)
qed

text \<open>An even exponent: the root of \<open>a\<^sup>2 + f\<close> with \<open>f < a\<^sup>2\<close> is taken as \<open>a + f div 2 a\<close>.\<close>

lemma sqrt_even:
  fixes a f :: int
  assumes "0 < a" and "0 \<le> f" and "f < a * a"
  defines "z \<equiv> a + f div (2 * a)"
  shows "a * a + f < (z + 1) * (z + 1)" and "8 * (z * z) \<le> 9 * (a * a + f)"
proof -
  define q r where "q = f div (2 * a)" and "r = f mod (2 * a)"
  have f: "f = 2 * a * q + r" "0 \<le> r" "r < 2 * a" using assms(1) by (simp_all add: q_def r_def)
  have q: "0 \<le> q" using assms(1,2) by (simp add: q_def pos_imp_zdiv_nonneg_iff)
  have z: "z = a + q" by (simp add: z_def q_def)
  have "2 * a * q < a * a" using f assms(3) by linarith
  then have "2 * q < a" using assms(1) by (simp add: mult.commute mult.left_commute)
  have "(z + 1) * (z + 1) = a * a + 2 * a * q + q * q + 2 * a + 2 * q + 1"
    by (simp add: z algebra_simps)
  moreover have "0 \<le> q * q" by simp
  ultimately show "a * a + f < (z + 1) * (z + 1)" using f q by linarith
  have "9 * (a * a + 2 * a * q) - 8 * (z * z) = (a - 2 * q) * (a + 4 * q)"
    by (simp add: z algebra_simps)
  moreover have "0 \<le> (a - 2 * q) * (a + 4 * q)" using \<open>2 * q < a\<close> q by simp
  ultimately have "8 * (z * z) \<le> 9 * (a * a + 2 * a * q)" by (metis diff_ge_0_iff_ge)
  also have "\<dots> \<le> 9 * (a * a + f)" using f by simp
  finally show "8 * (z * z) \<le> 9 * (a * a + f)" .
qed

text \<open>An odd exponent: the root of \<open>2 a\<^sup>2 + f\<close> with \<open>f < 2 a\<^sup>2\<close> is taken as \<open>a + (a + f div 2 a) div 2\<close>.\<close>

lemma sqrt_odd:
  fixes a f :: int
  assumes "0 < a" and "0 \<le> f" and "f < 2 * (a * a)"
  defines "z \<equiv> a + (a + f div (2 * a)) div 2"
  shows "2 * (a * a) + f < (z + 1) * (z + 1)" and "8 * (z * z) \<le> 9 * (2 * (a * a) + f)"
proof -
  define p r s e where "p = f div (2 * a)" and "r = f mod (2 * a)" and "s = (a + p) div 2" and "e = (a + p) mod 2"
  have f: "f = 2 * a * p + r" "0 \<le> r" "r < 2 * a" using assms(1) by (simp_all add: p_def r_def)
  have p: "0 \<le> p" using assms(1,2) by (simp add: p_def pos_imp_zdiv_nonneg_iff)
  have "2 * a * p < 2 * (a * a)" using f assms(3) by linarith
  then have "a * p < a * a" by (simp add: mult.assoc)
  then have "p < a" using assms(1) by simp
  have s: "p = 2 * s + e - a" "e = 0 \<or> e = 1" by (auto simp: s_def e_def)
  have z: "z = a + s" by (simp add: z_def p_def s_def)
  have n: "2 * (a * a) + f = 4 * (a * s) + 2 * (a * e) + r" using f(1) s(1) by (simp add: algebra_simps)
  define D where "D = (a - s) * (a - s)"
  have sq: "(z + 1) * (z + 1) = 4 * (a * s) + D + 2 * a + 2 * s + 1" by (simp add: z D_def algebra_simps)
  have "(a - s - 1) * (a - s - 1) = D - 2 * a + 2 * s + 1" by (simp add: D_def algebra_simps)
  moreover have "0 \<le> (a - s - 1) * (a - s - 1)" "0 \<le> D" by (simp_all add: D_def)
  moreover have s0: "0 \<le> s" using p assms(1) by (simp add: s_def)
  ultimately show "2 * (a * a) + f < (z + 1) * (z + 1)" unfolding n sq using s(2) f(3) by auto
  define E where "E = (2 * s - a) * (2 * a - s)"
  have d: "9 * (4 * (a * s)) - 8 * (z * z) = 4 * E" by (simp add: z E_def algebra_simps)
  show "8 * (z * z) \<le> 9 * (2 * (a * a) + f)"
  proof (cases "a \<le> 2 * s")
    case True
    have "s \<le> 2 * a" using \<open>p < a\<close> s assms(1) by linarith
    then have "0 \<le> E" using True by (simp add: E_def)
    moreover have "0 \<le> a * e" using s(2) assms(1) by auto
    ultimately have "0 \<le> 4 * E + 18 * (a * e) + 9 * r" using f(2) by simp
    moreover have "8 * (z * z) = 36 * (a * s) - 4 * E" using d by simp
    ultimately show ?thesis unfolding n by simp
  next
    case False
    then have e: "e = 1" "a = 2 * s + 1" using p s by auto
    have "9 * (4 * (a * s) + 2 * (a * e)) - 8 * (z * z) = 24 * s + 10" unfolding z e by (simp add: algebra_simps)
    then have "8 * (z * z) = 9 * (4 * (a * s) + 2 * (a * e)) - (24 * s + 10)" by simp
    then show ?thesis unfolding n using f(2) s0 by simp
  qed
qed

lemma or_disjoint_add:
  fixes a b :: u64
  assumes "unat a = 2 ^ k" and "unat b < 2 ^ k"
  shows "unat (or a b) = unat a + unat b"
proof -
  have "take_bit k (unat b) = unat b" using assms(2) by (simp add: take_bit_nat_eq_self)
  then have "\<not> bit (unat b) k" by (metis bit_take_bit_iff less_irrefl)
  then have "and (unat a) (unat b) = 0" unfolding assms(1)
    by (intro bit_eqI) (auto simp: bit_and_iff bit_exp_iff)
  then show ?thesis by (simp add: unsigned_or_eq disjunctive_add_eq_or)
qed

lemma unat_half: "1 < LENGTH('a) \<Longrightarrow> unat (drop_bit 1 (w :: 'a :: len word)) = unat w div 2"
  by (simp only: drop_bit_eq_div unat_div_distrib) (simp add: unat_word_ariths)

text \<open>The result in numbers.\<close>

lemma approx_sqrt_value:
  assumes "uint128_laws L" and "find_msb_laws L" and "u128_val x \<noteq> 0"
  defines "m \<equiv> unat (find_msb L x)"
  shows "unat (approx_sqrt L x) =
    2 ^ (m div 2) + ((if odd m then 2 ^ (m div 2) else 0) + (u128_val x - 2 ^ m) div 2 ^ (m - m div 2)) div 2"
proof -
  define k where "k = m div 2"
  define f where "f = u128_val x - 2 ^ m"
  have m: "2 ^ m \<le> u128_val x" "u128_val x < 2 ^ Suc m" "m < 128"
    using find_msb_bounds [OF assms(2,3)] by (simp_all add: m_def)
  have k: "k < 64" using m(3) by (simp add: k_def)
  have f: "f < 2 ^ m" using m(1,2) by (simp add: f_def)
  have "(2 :: nat) ^ m < 2 ^ 128" using m(3) by (intro power_strict_increasing) auto
  then have bit: "u128_val (u128_shl L (u128_of_int L 1) m) = 2 ^ m"
    using m(3) by (simp add: uint128_rules [OF assms(1)])
  have "u128_val (u128_sub L (u128_shl L (u128_of_int L 1) m) (u128_of_int L 1)) = (2 ^ m + 2 ^ 128 - 1) mod 2 ^ 128"
    using bit by (simp add: uint128_rules [OF assms(1)] u128_val_of_nat)
  also have "(2 :: nat) ^ m + 2 ^ 128 - 1 = (2 ^ m - 1) + 2 ^ 128" by simp
  also have "((2 :: nat) ^ m - 1 + 2 ^ 128) mod 2 ^ 128 = 2 ^ m - 1"
    using \<open>(2 :: nat) ^ m < 2 ^ 128\<close> by (simp only: mod_add_self2) simp
  finally have mask: "u128_val (u128_sub L (u128_shl L (u128_of_int L 1) m) (u128_of_int L 1)) = 2 ^ m - 1" .
  have mant: "u128_and L x (u128_sub L (u128_shl L (u128_of_int L 1) m) (u128_of_int L 1)) = u128_of_nat f"
    using low_bits_mask [OF m(1,2)] mask by (simp add: uint128_rules [OF assms(1)] f_def)
  define lo_part where "lo_part = lo (u128_shr L (u128_of_nat f) (m - k))"
  have fk: "f div 2 ^ (m - k) < 2 ^ k"
    using f by (simp add: less_mult_imp_div_less k_def flip: power_add)
  have "(2 :: nat) ^ k \<le> 2 ^ 63" using k by (intro power_increasing) auto
  then have "u128_val (u128_of_nat f) = f" "f div 2 ^ (m - k) < 18446744073709551616"
    using f fk \<open>(2 :: nat) ^ m < 2 ^ 128\<close> by simp_all
  then have lo_part: "unat lo_part = f div 2 ^ (m - k)"
    using m(3) by (simp add: lo_part_def uint128_rules [OF assms(1)] lo_u128_of_nat_small)
  have zb: "unat (push_bit k (1 :: u64)) = 2 ^ k"
    using \<open>(2 :: nat) ^ k \<le> 2 ^ 63\<close> unat_of_nat [of "2 ^ k", where 'a = 64] by simp
  have zb2: "unat (2 ^ k :: u64) = 2 ^ k" using zb by simp
  define hi_part where "hi_part = (if odd m then push_bit k (1 :: u64) else 0)"
  have hz: "unat (or hi_part lo_part) = (if odd m then 2 ^ k else 0) + f div 2 ^ (m - k)"
    using or_disjoint_add [OF zb, of lo_part] fk by (simp add: hi_part_def lo_part zb2)
  have "unat (drop_bit 1 (or hi_part lo_part)) = ((if odd m then 2 ^ k else 0) + f div 2 ^ (m - k)) div 2"
    using hz unat_half [of "or hi_part lo_part"] by simp
  moreover have "((if odd m then 2 ^ k else 0) + f div 2 ^ (m - k)) div 2 < 2 ^ k" using fk by auto
  ultimately have "unat (or (push_bit k 1) (drop_bit 1 (or hi_part lo_part))) =
      2 ^ k + ((if odd m then 2 ^ k else 0) + f div 2 ^ (m - k)) div 2"
    using or_disjoint_add [OF zb] by (simp add: zb2)
  moreover have "approx_sqrt L x = or (push_bit k 1) (drop_bit 1 (or hi_part lo_part))"
  proof -
    have "odd (find_msb L x) \<longleftrightarrow> odd m" by (simp add: m_def bit_unsigned_iff flip: bit_0)
    then have "and (find_msb L x) 1 \<noteq> 0 \<longleftrightarrow> odd m" by (simp add: and_one_eq odd_iff_mod_2_eq_one)
    moreover have "unat (drop_bit 1 (find_msb L x)) = k"
      using unat_half [of "find_msb L x"] by (simp add: k_def m_def)
    moreover have "(lo x = 0 \<and> hi x = 0) = False" using assms(3) by (auto simp: u128_val_def)
    ultimately show ?thesis
      using mant by (simp only: approx_sqrt_def if_False) (simp add: Let_def hi_part_def lo_part_def m_def)
  qed
  ultimately show ?thesis by (simp add: k_def f_def)
qed

text \<open>C18: \<open>approx_sqrt\<close> rounds the square root of a 128-bit number \<open>n\<close> up or down by a bounded factor: its
  result \<open>z\<close> satisfies \<open>n < (z + 1)\<^sup>2\<close> and \<open>8 z\<^sup>2 \<le> 9 n\<close>, so it is never more than 1 below the root and
  never more than 6.1 percent above it.\<close>

theorem approx_sqrt_bounds:
  assumes "uint128_laws L" and "find_msb_laws L"
  shows "u128_val x < (unat (approx_sqrt L x) + 1)\<^sup>2 \<and> 8 * (unat (approx_sqrt L x))\<^sup>2 \<le> 9 * u128_val x"
proof (cases "u128_val x = 0")
  case True
  then have "lo x = 0" "hi x = 0" by (simp_all add: u128_val_def unsigned_eq_0_iff)
  then show ?thesis using True by (simp add: approx_sqrt_def)
next
  case False
  define m where "m = unat (find_msb L x)"
  define f where "f = u128_val x - 2 ^ m"
  define a where "a = (2 :: nat) ^ (m div 2)"
  have m: "2 ^ m \<le> u128_val x" "u128_val x < 2 ^ Suc m" using find_msb_bounds [OF assms(2) False] by (simp_all add: m_def)
  then have n: "u128_val x = 2 ^ m + f" "f < 2 ^ m" by (simp_all add: f_def)
  have pow: "(2 :: nat) ^ m = (if odd m then 2 * (a * a) else a * a)" "2 ^ (m - m div 2) = (if odd m then 2 * a else a)"
    by (auto simp: a_def elim!: evenE oddE simp flip: power_add mult_2)
  have z: "unat (approx_sqrt L x) = a + ((if odd m then a else 0) + f div 2 ^ (m - m div 2)) div 2"
    using approx_sqrt_value [OF assms False] by (simp add: m_def f_def a_def)
  have a: "0 < a" by (simp add: a_def)
  define w where "w = unat (approx_sqrt L x)"
  have "int (u128_val x) < int ((w + 1) * (w + 1)) \<and> int (8 * (w * w)) \<le> int (9 * u128_val x)"
  proof (cases "odd m")
    case True
    then have "int w = int a + (int a + int f div (2 * int a)) div 2" using z pow by (simp add: zdiv_int w_def)
    moreover have "int f < 2 * (int a * int a)" using n pow True by (simp flip: of_nat_mult)
    ultimately show ?thesis using sqrt_odd [of "int a" "int f"] a n pow True by (simp add: algebra_simps)
  next
    case False
    then have "int w = int a + int f div (2 * int a)" using z pow by (simp add: zdiv_int zdiv_zmult2_eq mult.commute w_def)
    moreover have "int f < int a * int a" using n pow False by (simp flip: of_nat_mult)
    ultimately show ?thesis using sqrt_even [of "int a" "int f"] a n pow False by (simp add: algebra_simps)
  qed
  then show ?thesis by (simp only: w_def [symmetric] power2_eq_square of_nat_less_iff of_nat_le_iff)
qed

theorem approx_sqrt_bounds_witness:
  "u128_val \<lparr>hi = 0, lo = 1000\<rparr> < (unat (approx_sqrt fc_ref \<lparr>hi = 0, lo = 1000\<rparr>) + 1)\<^sup>2 \<and>
   8 * (unat (approx_sqrt fc_ref \<lparr>hi = 0, lo = 1000\<rparr>))\<^sup>2 \<le> 9 * u128_val \<lparr>hi = 0, lo = 1000\<rparr>"
  by (rule approx_sqrt_bounds) simp_all

section \<open>Payouts\<close>

lemma uint256_rules:
  assumes "uint256_laws L"
  shows "unat (u256_of_u64 L x) = unat x" "u256_add L a b = a + b" "u256_mul L a b = a * b" "u256_shl L a n = push_bit n a"
    "u256_le L a b \<longleftrightarrow> a \<le> b" "unat a < 2 ^ 64 \<Longrightarrow> unat (u256_to_u64 L a) = unat a"
    "0 \<le> y \<Longrightarrow> in_i64 y \<Longrightarrow> unat (u256_of_i64 L y) = nat y"
proof -
  have "0 \<le> y \<Longrightarrow> in_i64 y \<Longrightarrow> uint (u256_of_i64 L y) = y" using assms by (simp add: uint256_laws_def)
  then show "0 \<le> y \<Longrightarrow> in_i64 y \<Longrightarrow> unat (u256_of_i64 L y) = nat y" by (metis unat_eq_nat_uint)
qed (use assms in \<open>simp_all add: uint256_laws_def\<close>)

lemma u256_div_iff:
  assumes "uint256_laws L"
  shows "u256_div L a b = Inr c \<longleftrightarrow> b \<noteq> 0 \<and> c = a div b"
proof -
  have "if b = 0 then \<exists>e. u256_div L a b = Inl e else u256_div L a b = Inr (a div b)"
    using assms by (simp add: uint256_laws_def)
  then show ?thesis by (auto split: if_splits)
qed

lemma unat_mul_exact: "x * y < 2 ^ 256 \<Longrightarrow> unat a = x \<Longrightarrow> unat b = y \<Longrightarrow> unat (a * b :: 256 word) = x * y"
  by (simp add: unat_word_ariths)

lemma to256_value:
  assumes "uint256_laws L"
  shows "unat (to256 L t) = u128_val t"
proof -
  have b: "unat (hi t) < 2 ^ 64" "unat (lo t) < 2 ^ 64" by simp_all
  then have "unat (hi t) * 2 ^ 64 + unat (lo t) < 2 ^ 128" using u128_val_less [of t] by (simp add: u128_val_def)
  then have s: "unat (hi t) * 2 ^ 64 + unat (lo t) < 2 ^ 256" by (rule less_trans) simp
  have "unat (push_bit 64 (u256_of_u64 L (hi t))) = unat (hi t) * 2 ^ 64 mod 2 ^ 256"
    by (simp add: push_bit_eq_mult unat_word_ariths uint256_rules [OF assms])
  then show ?thesis
    using s by (simp add: to256_def Let_def uint256_rules [OF assms] unat_word_ariths u128_val_def)
qed

text \<open>The claim of a comment on the fund: the value of the curve, weighted.\<close>

definition claim_of :: "fc_lib \<Rightarrow> comment_reward_context \<Rightarrow> nat" where
  "claim_of L ctx =
     (case evaluate_reward_curve L (u128_of_int L (rc_rshares ctx)) (rc_reward_curve ctx) (rc_content_constant ctx) of
        Inl _ \<Rightarrow> 0 | Inr v \<Rightarrow> u128_val v * unat (rc_reward_weight ctx) div STEEMIT_100_PERCENT)"

text \<open>A payout is at most the share of the fund that the claim is of all claims.\<close>

lemma get_rshare_reward_le:
  assumes laws: "uint128_laws L" "uint256_laws L" and pay: "get_rshare_reward L ctx = Inr pay"
    and fund: "0 \<le> amount (rc_total_reward_fund_steem ctx)" "in_i64 (amount (rc_total_reward_fund_steem ctx))"
  shows "unat pay * u128_val (rc_total_reward_shares2 ctx) \<le> nat (amount (rc_total_reward_fund_steem ctx)) * claim_of L ctx"
proof -
  define F where "F = nat (amount (rc_total_reward_fund_steem ctx))"
  define T where "T = u128_val (rc_total_reward_shares2 ctx)"
  obtain v claim q m dust where v: "evaluate_reward_curve L (u128_of_int L (rc_rshares ctx)) (rc_reward_curve ctx) (rc_content_constant ctx) = Inr v"
    and claim: "claim = to256 L v * u256_of_u64 L (ucast (rc_reward_weight ctx)) div u256_of_u64 L (of_nat STEEMIT_100_PERCENT)"
    and q: "q = u256_of_i64 L (amount (rc_total_reward_fund_steem ctx)) * claim div to256 L (rc_total_reward_shares2 ctx)"
    and le: "q \<le> u256_of_u64 L (of_int i64_max)" and res: "pay = min (if dust then 0 else u256_to_u64 L q) m"
    using pay by (auto simp: get_rshare_reward_def Let_def u256_div_iff [OF laws(2)] uint256_rules [OF laws(2)])
  define W where "W = unat (rc_reward_weight ctx)"
  have "unat (ucast (rc_reward_weight ctx) :: u64) = W"
    using unat_u16_less [of "rc_reward_weight ctx"] by (simp add: W_def unsigned_ucast_eq take_bit_nat_eq_self_iff del: unat_u16_less)
  then have w: "unat (u256_of_u64 L (ucast (rc_reward_weight ctx))) = W" by (simp add: uint256_rules [OF laws(2)])
  have hundred: "unat (u256_of_u64 L (of_nat STEEMIT_100_PERCENT)) = STEEMIT_100_PERCENT"
    by (simp add: uint256_rules [OF laws(2)] STEEMIT_100_PERCENT_def)
  have "W < 2 ^ 16" using unat_u16_less [of "rc_reward_weight ctx"] by (simp add: W_def)
  then have "u128_val v * W < 2 ^ 128 * 2 ^ 16" using u128_val_less [of v] by (intro mult_strict_mono) auto
  then have small: "u128_val v * W < 2 ^ 144" by simp
  then have "unat (to256 L v * u256_of_u64 L (ucast (rc_reward_weight ctx))) = u128_val v * W"
    using to256_value [OF laws(2)] w by (intro unat_mul_exact) auto
  then have c: "unat claim = claim_of L ctx"
    using v hundred by (simp add: claim unat_div_distrib claim_of_def W_def)
  have "claim_of L ctx \<le> u128_val v * W" using v by (simp add: claim_of_def W_def)
  then have "F * claim_of L ctx < 2 ^ 63 * 2 ^ 144"
    using small fund by (intro mult_strict_mono) (auto simp: F_def in_i64_def)
  then have "F * claim_of L ctx < 2 ^ 256" by simp
  then have uq: "unat q = F * claim_of L ctx div T"
    using c fund by (simp add: q unat_div_distrib to256_value [OF laws(2)] T_def unat_mul_exact uint256_rules [OF laws(2)] F_def)
  have "unat q \<le> unat (u256_of_u64 L (of_int i64_max))" using le by (simp add: word_le_nat_alt)
  also have "\<dots> < 2 ^ 64" by (simp add: uint256_rules [OF laws(2)])
  finally have "unat pay \<le> unat q"
    using res by (auto simp: uint256_rules [OF laws(2)] min_def word_le_nat_alt split: if_splits)
  then have "unat pay * T \<le> F * claim_of L ctx div T * T" using uq by (intro mult_right_mono) auto
  also have "\<dots> \<le> F * claim_of L ctx" by simp
  finally show ?thesis by (simp add: F_def T_def)
qed

text \<open>C16: The payouts of a reward round never exceed the reward fund: when the contexts of a list of comments
  name the same fund and the same total, and their weighted claims add up to at most that total, the
  rewards that \<open>get_rshare_reward\<close> computes add up to at most the fund.\<close>

theorem rewards_within_fund:
  assumes "uint128_laws L" and "uint256_laws L" and "0 \<le> F" and "in_i64 F"
    and "\<forall>ctx \<in> set cs. amount (rc_total_reward_fund_steem ctx) = F \<and> rc_total_reward_shares2 ctx = T"
    and "sum_list (map (claim_of L) cs) \<le> u128_val T" and "u128_val T \<noteq> 0"
    and "list_all2 (\<lambda>ctx pay. get_rshare_reward L ctx = Inr pay) cs pays"
  shows "sum_list (map uint pays) \<le> F"
proof -
  have "sum_list (map unat pays) * u128_val T \<le> nat F * sum_list (map (claim_of L) cs)"
    using assms(8,5)
  proof (induction rule: list_all2_induct)
    case (Cons ctx cs pay pays)
    then have "unat pay * u128_val T \<le> nat F * claim_of L ctx"
      using get_rshare_reward_le [OF assms(1,2), of ctx pay] assms(3,4) by auto
    then show ?case using Cons by (simp add: algebra_simps)
  qed simp
  also have "\<dots> \<le> nat F * u128_val T" using assms(6) by (rule mult_le_mono2)
  finally have "sum_list (map unat pays) \<le> nat F" using assms(7) by simp
  moreover have "sum_list (map uint pays) = int (sum_list (map unat pays))" by (induction pays) simp_all
  ultimately show ?thesis using assms(3) by simp
qed

definition sample_context :: "int \<Rightarrow> comment_reward_context" where
  "sample_context n = \<lparr>rc_rshares = n, rc_reward_weight = 10000, rc_max_sbd = mk_asset 1000000 SBD_SYMBOL,
     rc_total_reward_shares2 = \<lparr>hi = 0, lo = 1000\<rparr>, rc_total_reward_fund_steem = mk_asset 5000 STEEM_SYMBOL,
     rc_current_steem_price = mk_price (mk_asset 1000 SBD_SYMBOL) (mk_asset 1000 STEEM_SYMBOL),
     rc_reward_curve = linear, rc_content_constant = \<lparr>hi = 0, lo = 0\<rparr>\<rparr>"

lemma sample_price:
  defines "p \<equiv> mk_price (mk_asset 1000 SBD_SYMBOL) (mk_asset 1000 STEEM_SYMBOL)"
  shows "to_sbd fc_ref p (mk_asset 3000 STEEM_SYMBOL) = Inr (mk_asset 3000 SBD_SYMBOL)"
    and "to_sbd fc_ref p (mk_asset 2000 STEEM_SYMBOL) = Inr (mk_asset 2000 SBD_SYMBOL)"
    and "to_steem fc_ref p (mk_asset 1000000 SBD_SYMBOL) = Inr (mk_asset 1000000 STEEM_SYMBOL)"
proof -
  have n: "\<not> is_null fc_ref p" by (simp add: p_def is_null_def default_price_def default_asset_def price_eq_def)
  have "asset_times_price fc_ref (mk_asset 3000 STEEM_SYMBOL) p = Inr (mk_asset 3000 SBD_SYMBOL)"
    "asset_times_price fc_ref (mk_asset 2000 STEEM_SYMBOL) p = Inr (mk_asset 2000 SBD_SYMBOL)"
    "asset_times_price fc_ref (mk_asset 1000000 SBD_SYMBOL) p = Inr (mk_asset 1000000 STEEM_SYMBOL)"
    unfolding p_def using sint_of_quotient [of 3000] sint_of_quotient [of 2000] sint_of_quotient [of 1000000]
    by (simp_all add: times_price_base times_price_quote exchange_iff price_validate_ok)
  with n show "to_sbd fc_ref p (mk_asset 3000 STEEM_SYMBOL) = Inr (mk_asset 3000 SBD_SYMBOL)"
    and "to_sbd fc_ref p (mk_asset 2000 STEEM_SYMBOL) = Inr (mk_asset 2000 SBD_SYMBOL)"
    and "to_steem fc_ref p (mk_asset 1000000 SBD_SYMBOL) = Inr (mk_asset 1000000 STEEM_SYMBOL)"
    by (simp_all add: to_sbd_def to_steem_def)
qed

lemma fc_ref_wide:
  "u128_of_int fc_ref n = u128_of_nat (nat (n mod 2 ^ 128))" "u128_less fc_ref a b \<longleftrightarrow> u128_val a < u128_val b"
  "u256_of_u64 fc_ref x = ucast x" "u256_of_i64 fc_ref n = of_int n" "u256_add fc_ref v w = v + w" "u256_mul fc_ref v w = v * w"
  "u256_div fc_ref v w = (if w = 0 then Inl (library_exception ''division by zero'') else Inr (v div w))"
  "u256_shl fc_ref v k = push_bit k v" "u256_le fc_ref v w \<longleftrightarrow> v \<le> w" "u256_to_u64 fc_ref v = ucast v"
  by (simp_all add: fc_ref_def)

lemmas sample_eval = get_rshare_reward_def claim_of_def evaluate_reward_curve_def sample_context_def is_comment_payout_dust_def
  sample_price asset_less_def STEEMIT_MIN_PAYOUT_SBD_def STEEMIT_MIN_PAYOUT_SBD_AMOUNT_def STEEMIT_100_PERCENT_def
  fc_assert_def to256_def Let_def fc_ref_wide u128_of_nat_def u128_val_def

lemma sample_rewards:
  "get_rshare_reward fc_ref (sample_context 600) = Inr 3000" "get_rshare_reward fc_ref (sample_context 400) = Inr 2000"
  by (simp_all add: sample_eval)

lemma sample_claims: "claim_of fc_ref (sample_context 600) = 600" "claim_of fc_ref (sample_context 400) = 400"
  by (simp_all add: sample_eval)

lemma sample_context_fields:
  "rc_total_reward_fund_steem (sample_context n) = mk_asset 5000 STEEM_SYMBOL"
  "rc_total_reward_shares2 (sample_context n) = \<lparr>hi = 0, lo = 1000\<rparr>"
  by (simp_all add: sample_context_def)

theorem rewards_within_fund_witness: "sum_list (map uint [3000, 2000 :: u64]) \<le> 5000"
  by (rule rewards_within_fund [where L = fc_ref and cs = "[sample_context 600, sample_context 400]" and T = "\<lparr>hi = 0, lo = 1000\<rparr>"])
    (simp_all add: sample_rewards sample_claims sample_context_fields in_i64_def u128_val_def)

end
