(* ===== verification/Spec2Isabelle.thy ===== *)
theory Spec2Isabelle
  imports Fork_Database Account_Types Negative_Withdrawal Order_Book Reward_Curve
begin

text \<open>
  A verification library for the Calibrae chain daemon: the consensus core of the repository, that is
  the protocol library (\<open>libraries/protocol\<close>), the undoable object store (\<open>libraries/chainbase\<close>) and
  the chain library (\<open>libraries/chain\<close>).

  \<^bold>\<open>The program.\<close>  A transaction is a list of operations with signatures.  The protocol library defines
  the operations, checks them without state and decides whether the signatures satisfy the authorities
  that the operations require.  The chain library keeps the state of the chain (accounts, orders,
  escrows, witnesses, global properties and so on) as tables of the object store, which can undo
  sessions.  Evaluators apply operations to the state; at every block the database checks the header
  against the schedule of the witnesses, applies the operations, and then does the due work: payments,
  expiries, creation of supply, the next schedule, the price feed, irreversibility.  The fork database
  holds the recent blocks and decides which branch is the head.

  \<^bold>\<open>Conventions.\<close>  A call that may throw is a value of \<open>exn + 'a\<close> (\<open>Inl\<close> the exception) and calls are
  sequenced by \<open>rbind\<close> in the order of the code.  Integers of the code are words of their width;
  \<open>share_type\<close>, the checked 64-bit integer, is \<open>int\<close> with the checks of the library as parameters.
  Functions of the submodules fc and boost are not in the repository: they are the fields of the records
  \<open>fc_lib\<close> and \<open>fc_crypto\<close>, every definition that uses them takes such a record, and what a theorem needs
  of them is a named predicate (\<open>safe_laws\<close>, \<open>uint128_laws\<close>, \<open>time_laws\<close> and others in \<open>Fc_Interface\<close>).
  \<open>fc_ref\<close> and \<open>crypto_ref\<close> are executable functions that satisfy the predicates; the witnesses of the
  theorems use them.

  \<^bold>\<open>Protocol\<close> (sources under \<open>libraries/protocol\<close>).
  \<^item> \<open>Config\<close>: the constants of \<open>config.hpp\<close>.
  \<^item> \<open>Asset\<close>, \<open>Asset_Text\<close>: \<open>asset.hpp\<close>, \<open>asset.cpp\<close>.  Symbols, arithmetic, the order of prices, exchange
    at a price, text.  Prices with positive amounts are ordered totally; exchanging there and back never
    gains; text round trips; a quotient above \<open>2^63\<close> turns negative.
  \<^item> \<open>Authority\<close>, \<open>Sign_State\<close>: \<open>authority.cpp\<close>, \<open>sign_state.cpp\<close>.  The grammar of account names; the check
    of an authority is sound and complete for the recursive specification \<open>satisfied_within\<close>.
  \<^item> \<open>Version\<close>: \<open>version.cpp\<close>.  \<open>Block_Header\<close>, \<open>Block\<close>: \<open>block.cpp\<close>.  The in-place merkle loop
    computes the root of the balanced tree, and equal roots mean equal leaves unless the hash collides.
  \<^item> \<open>Operations\<close>, \<open>Operations_Validate\<close>: every operation as a record, every \<open>validate\<close> and every
    \<open>get_required_authorities\<close>.  A validated operation that is not virtual needs some authority.
  \<^item> \<open>Transaction\<close>: \<open>transaction.cpp\<close>.  \<open>verify_authority\<close> accepts only transactions whose every
    requirement is satisfied and whose every signature was needed; minimised signature sets verify.

  \<^bold>\<open>Object store\<close> (\<open>chainbase.hpp\<close>).  \<open>Chainbase\<close>: \<open>generic_index\<close> with its stack of undo states.  \<open>undo\<close>
  returns to the snapshot of the session, \<open>squash\<close> joins two sessions, \<open>undo_all\<close> ends at the oldest one.
  The locale \<open>snapshot_store\<close> states this contract over an abstract store and is interpreted on the index.

  \<^bold>\<open>Chain\<close> (sources under \<open>libraries/chain\<close>).
  \<^item> \<open>Fork_Database\<close>: \<open>fork_database.cpp\<close> over an explicit heap of items with weak links.
  \<^item> \<open>Chain_Objects\<close>, \<open>Chain_State\<close>: the objects and their tables; lookup, creation, change and removal.
  \<^item> \<open>Balances\<close>: \<open>adjust_balance\<close> and its kin, \<open>adjust_supply\<close>, \<open>create_vesting\<close>, \<open>create_sbd\<close>, the flow of
    votes along proxies.  \<open>Market\<close>, \<open>Order_Book\<close>: matching, filling, cancelling and expiry of limit orders.
    \<open>Witness_Votes\<close>: votes and proxies.  \<open>Evaluators\<close>: the other evaluators that move assets, and
    \<open>evaluate\<close>, the dispatch by operation.
  \<^item> \<open>Block_Processing\<close>, \<open>Funds\<close>, \<open>Vesting_Withdrawals\<close>: the due work of a block in \<open>database.cpp\<close>.
    \<open>Witness_Schedule\<close>: \<open>witness_schedule.cpp\<close>.  \<open>Block_Production\<close>: slots, header checks, global data,
    irreversibility and the median feed.  \<open>Reward_Curve\<close>: \<open>util/reward.cpp\<close>.
  \<^item> \<open>Account_Views\<close>, \<open>Conservation\<close>, \<open>Null_Account\<close>, \<open>Withdrawal_Books\<close>, \<open>Vote_Invariant\<close>, \<open>Vote_Frames\<close>,
    \<open>Ledger\<close>, \<open>Account_Types\<close>: invariants.  \<open>ledger_step\<close> is the step relation of the ledger; every step
    keeps the symbols of the assets of every account; with the conditions below it keeps the books
    balanced, the fees of approved escrows paid and the votes exact.  \<open>Negative_Withdrawal\<close>: an operation that stops the chain.

  \<^bold>\<open>Interfaces.\<close>  \<open>keyed_container\<close> (flat maps), \<open>comparison\<close> (the derived operators of an order, for prices
  and versions), \<open>snapshot_store\<close>, \<open>worklist\<close> (a loop that handles the first due object until none is due;
  interpreted for savings, conversions, escrows, delegations, orders and declined votes),
  \<open>account_relation\<close>, \<open>balance_relation\<close> and \<open>vesting_relation\<close> (what a function may change of an account),
  \<open>step_invariant\<close> (a step relation and an invariant).

  \<^bold>\<open>Termination.\<close>  Loops that the code bounds are total functions: the check of an authority by its depth,
  proxy walks by four links, worklists by the number of objects, vesting withdrawals by the keys ahead of
  the iterator.  The walks of the fork database follow links that could form a cycle; they are
  \<open>partial_function (option)\<close>, and the theorem on branches shows that they return.

  \<^bold>\<open>Decisions.\<close>  Checks by \<open>assert\<close> are not part of a release build and are left out.  Where the code reads
  an object after its lifetime (\<open>account_witness_proxy\<close>) the model reads the value it had.  The loop over
  comments in \<open>validate_invariants\<close> only computes a sum that is not used.  \<open>std::sort\<close> leaves the order of
  equal elements open; the model keeps them in order.  The skip flags of a block are arguments.
  The steps of \<open>ledger_step\<close> have no conditions but those of the code; its operations are those with an evaluator
  in the model, and its rule \<open>elsewhere\<close> admits every change of the state outside the books, the votes and the
  withdrawal routes.  That the books stay balanced needs two conditions on the states passed: \<open>share_type\<close> is \<open>int\<close>
  in the model, so the 64-bit range of the members that a vesting withdrawal reads is a hypothesis (\<open>in_range\<close>), and
  where the null account is burned it casts no votes and converts without loss of sign (\<open>null_sound\<close>).

  \<^bold>\<open>Not modelled.\<close>  Comments, votes on comments and their payment, creation and update of accounts,
  recovery, proof of work, hard fork application and genesis, and with them the driver that applies a
  whole transaction or block, since it runs all of these; the block log and the files of the object
  store (input and output); the network, the wallet, the API and the plugins, which do not change the
  consensus state.
\<close>

section \<open>The ledger\<close>

text \<open>C1: From a consistent and well-typed state, no sequence of steps leads to an inconsistent one.  A step is one of
  these: an operation that validates and whose evaluator returns, of the 24 kinds that the model has an evaluator for
  (transfer, the four escrow operations, transfer to vesting, withdrawal of vesting and its
  routes, delegation, claim of rewards, the three limit order operations, conversion, price feed, the three savings
  operations, witness votes and proxies, decline of voting rights, reset account and its setting, report of over
  production; not the creation of accounts, comments and their votes, proof of work, recovery and custom operations);
  the due work of a block (savings, conversions, escrows, orders, delegations, declined voting rights, vesting
  withdrawals), the creation of supply, liquidity rewards, the virtual supply and the burning of the null account; the
  bookkeeping of block production (header extensions, global data, the signing witness, irreversibility, the witness
  schedule, the median feed); and any change outside the books, the votes and the routes.  Consistent means three
  things: STEEM, SBD and VESTS held by accounts, orders, escrows, savings and funds add up to the issued supply, and the
  pending vesting STEEM to the global counter; an approved escrow has paid its fee; and the votes of every witness, and
  the votes every proxy holds, are exactly those that the accounts give.  Well typed means that vesting shares and their
  total are in VESTS and that no withdrawal route takes more than 100%; the steps keep that too.  Two conditions on the
  states of the sequence remain.  The vesting shares and withdrawal rates of the accounts are in the 64-bit range of their
  type.  In the state where the null account is burned, it has no proxy and no votes of its own, and the STEEM behind its
  unclaimed vesting rewards and the STEEM its vesting shares convert to are not negative; the code does not check this.
  A negative withdrawal request, which the code accepts, needs no condition: the block step that would pay it throws.\<close>

theorem ledger_stays_consistent:
  assumes "safe_laws L" and "uint128_laws L" and "consistent c" and "well_typed c"
    and "(\<lambda>x y. ledger_step L K x y \<and> in_range x \<and> null_sound L x y)\<^sup>*\<^sup>* c c'"
  shows "consistent c' \<and> well_typed c'"
  using ledger.reachable [OF assms(5)] assms(1-4) by simp

lemma demo_account_cases:
  "find_obj i (ch_accounts demo_chain) = Some a \<longleftrightarrow>
     (i = 0 \<and> a = demo_account 0 ''alice'' 1000 500 3000000 \<or> i = 1 \<and> a = demo_account 1 ''bob'' 0 0 0 \<or>
      i = 2 \<and> a = demo_account 2 ''carol'' 0 0 0)"
  by (auto simp: demo_chain_def demo_index_def find_obj_def upt_rec split: if_splits)

lemma demo_account_fields:
  "a_name (demo_account i n s b v) = n" "a_proxy (demo_account i n s b v) = []"
  "a_proxied_vsf_votes (demo_account i n s b v) = replicate STEEMIT_MAX_PROXY_RECURSION_DEPTH 0"
  by (simp_all add: demo_account_def STEEMIT_MAX_PROXY_RECURSION_DEPTH_def numeral_eq_Suc)

lemma demo_votes: "votes_ok demo_chain"
proof -
  have no: "ch_witnesses demo_chain = demo_index []" "ch_witness_votes demo_chain = demo_index []"
    "find_obj i (demo_index []) = None" for i
    by (simp_all add: demo_chain_def demo_index_def find_obj_def)
  have empty: "tbl_ok (demo_index [])" by (simp add: tbl_ok_def demo_index_def fm_ok_def)
  have ok: "tbl_ok (ch_accounts demo_chain)" using demo_balanced by (simp add: balanced_def tables_ok_def)
  have wf: "votes_wf demo_chain"
    using ok by (auto simp: votes_wf_def no empty demo_account_cases demo_account_fields)
  have "proxied_to n k demo_chain = 0" if "n \<noteq> []" for n k
    using that by (auto simp: proxied_to_def tsum_def demo_chain_def demo_index_def upt_rec demo_account_fields)
  then have "votes_exact demo_chain"
    using wf by (auto simp: votes_off_def no demo_account_cases demo_account_fields)
  moreover have "proxy_rel demo_chain = {}" by (auto simp: proxy_rel_def demo_account_cases demo_account_fields)
  ultimately show ?thesis by (simp add: votes_ok_def acyclic_def)
qed

lemma demo_consistent: "consistent demo_chain"
  by (simp add: consistent_def demo_balanced fees_paid_def demo_votes) (simp add: demo_defs find_obj_def)

text \<open>A transfer between two accounts of the small chain.\<close>

lemma demo_transfer:
  "\<exists>c'. apply_transfer fc_ref sample_transfer demo_chain = Inr c' \<and> ledger_step fc_ref crypto_ref demo_chain c'"
proof -
  have "\<not> isl (apply_transfer fc_ref sample_transfer demo_chain)"
    by (simp add: apply_transfer_def sample_transfer_def demo_eval)
  then obtain c' where c': "apply_transfer fc_ref sample_transfer demo_chain = Inr c'" by (auto dest: returns)
  moreover have "ledger_step fc_ref crypto_ref demo_chain c'"
    using sample_transfer_valid c' by (intro ledger_step.operation [where f = "apply_transfer fc_ref sample_transfer"])
      (auto simp: evaluate_def)
  ultimately show ?thesis by blast
qed

lemma demo_conditions:
  shows "well_typed demo_chain" and "in_range demo_chain" and "null_sound fc_ref demo_chain c'"
proof -
  have a: "symbol (a_vesting_shares a) = VESTS_SYMBOL \<and> asset_wf (a_vesting_shares a) \<and> asset_wf (a_vesting_withdraw_rate a)"
    if "account i demo_chain = Inr a" for i a
    using that by (auto simp: account_def find_obj_get demo_account_cases demo_account_def asset_wf_def in_i64_def)
  then show "in_range demo_chain" by (simp add: in_range_def)
  show "well_typed demo_chain" using a by (simp add: well_typed_def) (simp add: demo_defs)
  have "get_account STEEMIT_NULL_ACCOUNT demo_chain \<noteq> Inr n" for n
    by (simp add: get_account_def get_by_def find_by_def demo_defs upt_rec STEEMIT_NULL_ACCOUNT_def)
  then show "null_sound fc_ref demo_chain c'"
    by (auto simp: null_sound_def null_convertible_def null_silent_def split: sum.splits)
qed

theorem ledger_stays_consistent_witness:
  "\<exists>c'. apply_transfer fc_ref sample_transfer demo_chain = Inr c' \<and> consistent c' \<and> well_typed c'"
proof -
  obtain c' where c': "apply_transfer fc_ref sample_transfer demo_chain = Inr c'" "ledger_step fc_ref crypto_ref demo_chain c'"
    using demo_transfer by blast
  have "(\<lambda>x y. ledger_step fc_ref crypto_ref x y \<and> in_range x \<and> null_sound fc_ref x y)\<^sup>*\<^sup>* demo_chain c'"
    using c'(2) demo_conditions(2,3) by (intro r_into_rtranclp) simp
  from ledger_stays_consistent [OF safe_laws_ref uint128_laws_ref demo_consistent demo_conditions(1) this] c'(1) show ?thesis by blast
qed

text \<open>C3: The assets of an account are typed.  No sequence of steps removes an account or changes the symbol of one of
  its eleven balances: liquid, savings and reward STEEM and SBD, vesting shares, unclaimed vesting rewards and the
  STEEM behind them, delegated and received shares.  The steps are those of C1 (the operations with an evaluator in the
  model, the due work of a block, the bookkeeping of block production, and changes that leave the accounts alone), from
  any state and without further conditions.\<close>

theorem account_assets_keep_symbols:
  assumes "(ledger_step L K)\<^sup>*\<^sup>* c c'" and "account i c = Inr a"
  shows "\<exists>a'. account i c' = Inr a' \<and> asset_symbols a' = asset_symbols a"
proof -
  have "symbol_view c' i = symbol_view c i" using account_types.reachable [OF assms(1)] by simp
  then show ?thesis using assms(2) by (auto simp: symbol_view_def account_def find_obj_get)
qed

theorem account_assets_keep_symbols_witness:
  "\<exists>c' a'. apply_transfer fc_ref sample_transfer demo_chain = Inr c' \<and> account 0 c' = Inr a' \<and>
     asset_symbols a' = [STEEM_SYMBOL, SBD_SYMBOL, STEEM_SYMBOL, SBD_SYMBOL, STEEM_SYMBOL, SBD_SYMBOL,
       VESTS_SYMBOL, VESTS_SYMBOL, STEEM_SYMBOL, VESTS_SYMBOL, VESTS_SYMBOL]"
proof -
  obtain c' where c': "apply_transfer fc_ref sample_transfer demo_chain = Inr c'" "ledger_step fc_ref crypto_ref demo_chain c'"
    using demo_transfer by blast
  have a: "account 0 demo_chain = Inr (demo_account 0 ''alice'' 1000 500 3000000)"
    by (simp add: account_def find_obj_get demo_account_cases)
  have "asset_symbols (demo_account 0 ''alice'' 1000 500 3000000) = [STEEM_SYMBOL, SBD_SYMBOL, STEEM_SYMBOL, SBD_SYMBOL,
      STEEM_SYMBOL, SBD_SYMBOL, VESTS_SYMBOL, VESTS_SYMBOL, STEEM_SYMBOL, VESTS_SYMBOL, VESTS_SYMBOL]"
    by (simp add: asset_symbols_def balance_symbols_def vesting_symbols_def demo_account_def)
  with account_assets_keep_symbols [OF r_into_rtranclp [where r = "ledger_step fc_ref crypto_ref", OF c'(2)] a] c'(1) show ?thesis by metis
qed


text \<open>C8: \<open>validate_invariants\<close> accepts only states whose books balance, when no order sells vesting
  shares (the check passes over such orders in silence, and no operation creates one).\<close>

theorem validate_invariants_sound:
  assumes "safe_laws L" and "tables_ok c" and "validate_invariants L c = Inr ()"
    and "\<forall>ord \<in> set (objects (ch_orders c)). symbol (base (o_sell_price ord)) \<noteq> VESTS_SYMBOL"
  shows "balanced c"
  using validate_invariants_balanced [OF assms(1,3,2,4)] .

lemma demo_median:
  defines "p \<equiv> mk_price (mk_asset 1000 SBD_SYMBOL) (mk_asset 1000 STEEM_SYMBOL)"
  shows "\<not> is_null fc_ref p" and "asset_times_price fc_ref (mk_asset 500 SBD_SYMBOL) p = Inr (mk_asset 500 STEEM_SYMBOL)"
proof -
  show "\<not> is_null fc_ref p"
    by (simp add: p_def is_null_def default_price_def default_asset_def price_eq_def)
  show "asset_times_price fc_ref (mk_asset 500 SBD_SYMBOL) p = Inr (mk_asset 500 STEEM_SYMBOL)"
    unfolding p_def using sint_of_quotient [of 500] by (simp add: times_price_base exchange_iff price_validate_ok)
qed

lemma demo_totals:
  "sum_totals fc_ref demo_chain = Inr \<lparr>t_supply = mk_asset 2000 STEEM_SYMBOL, t_sbd = mk_asset 500 SBD_SYMBOL,
     t_vesting = mk_asset 3000000 VESTS_SYMBOL, t_pending = mk_asset 0 STEEM_SYMBOL, t_votes = 3000000\<rparr>"
proof -
  have "sort_key a_name (objects (ch_accounts demo_chain)) =
    [demo_account 0 ''alice'' 1000 500 3000000, demo_account 1 ''bob'' 0 0 0, demo_account 2 ''carol'' 0 0 0]"
    by (simp add: objects_def demo_defs upt_rec)
  then show ?thesis
    by (simp add: sum_totals_def) (simp add: objects_def total_account_def add_assets_def witness_vote_weight_def
        sum_shares_def STEEMIT_PROXY_TO_SELF_ACCOUNT_def demo_defs asset_plus_def asset_plus_assign_def fc_assert_def checked_op_def in_i64_def)
qed

theorem validate_invariants_sound_witness:
  "validate_invariants fc_ref demo_chain = Inr () \<and> balanced demo_chain"
proof -
  have "objects (ch_witnesses demo_chain) = []" by (simp add: objects_def demo_defs)
  then have v: "validate_invariants fc_ref demo_chain = Inr ()"
    by (simp add: validate_invariants_def demo_totals) (simp add: demo_defs demo_median asset_plus_def asset_eq_def asset_ge_def
        asset_less_def fc_assert_def checked_op_def in_i64_def)
  moreover have "tables_ok demo_chain" using demo_balanced by (simp add: balanced_def)
  moreover have "objects (ch_orders demo_chain) = []" by (simp add: objects_def demo_defs)
  ultimately show ?thesis using validate_invariants_sound [OF safe_laws_ref] by simp
qed

end
